(* ===== verification/Prelude.thy ===== *)
theory Prelude
  imports Main "HOL-Library.Word"
begin

text \<open>
  What every component theory shares: the C machine the code runs on (faults, the integer
  conversions of C, a heap of byte blocks with \<open>malloc\<close>, \<open>free\<close> and \<open>memcpy\<close>), the
  sequencing operator for computations that can fault, the \<^theory_text>\<open>named_theorems\<close>
  collections of the development and the generic lemmas on lists and words.
\<close>

unbundle bit_operations_syntax

named_theorems exec_simps \<open>equations that run the sequencing operator and the C conversions\<close>
named_theorems heap_simps \<open>equations for the heap operations on blocks that are allocated\<close>

type_synonym u8 = "8 word"
type_synonym u32 = "32 word"
type_synonym u64 = "64 word"
type_synonym addr = nat

section \<open>Faults and sequencing\<close>

text \<open>
  What C leaves undefined is a value of the model: a run that dereferences NULL, leaves the
  bounds of a block, touches or frees a block that is not allocated or overflows a signed
  integer ends in a fault. So does a call of \<open>abort\<close>.
\<close>

datatype fault = NullDeref | OutOfBounds | UseAfterFree | SignedOverflow | Abort

type_synonym 'a exec = "fault + 'a"

definition ebind :: "'a exec \<Rightarrow> ('a \<Rightarrow> 'b exec) \<Rightarrow> 'b exec" where
  "ebind m f = (case m of Inl e \<Rightarrow> Inl e | Inr x \<Rightarrow> f x)"

lemma ebind_Inr [simp, exec_simps]: "ebind (Inr x) f = f x"
  by (simp add: ebind_def)

lemma ebind_Inl [simp, exec_simps]: "ebind (Inl e) f = Inl e"
  by (simp add: ebind_def)

lemma ebind_eq_Inr: "ebind m f = Inr y \<longleftrightarrow> (\<exists>x. m = Inr x \<and> f x = Inr y)"
  by (cases m) auto

lemma ebind_Inr_right [simp]: "ebind m Inr = m"
  by (cases m) auto

lemma ebind_assoc: "ebind (ebind m f) g = ebind m (\<lambda>x. ebind (f x) g)"
  by (cases m) auto

definition deref :: "'a option \<Rightarrow> 'a exec" where
  "deref p = (case p of None \<Rightarrow> Inl NullDeref | Some x \<Rightarrow> Inr x)"

lemma deref_Some [simp, exec_simps]: "deref (Some x) = Inr x"
  by (simp add: deref_def)

lemma deref_None [simp, exec_simps]: "deref None = Inl NullDeref"
  by (simp add: deref_def)

lemma deref_eq_Inr: "deref p = Inr x \<longleftrightarrow> p = Some x"
  by (cases p) auto

section \<open>Computations that end well\<close>

definition ends_in :: "'a exec \<Rightarrow> ('a \<Rightarrow> bool) \<Rightarrow> bool" where
  "ends_in m P = (case m of Inl _ \<Rightarrow> False | Inr x \<Rightarrow> P x)"

lemma ends_in_simps [simp]:
  "ends_in (Inr x) P = P x" "ends_in (Inl e) P = False"
  "ends_in (ebind m f) P = ends_in m (\<lambda>x. ends_in (f x) P)"
  by (cases m; simp add: ends_in_def)+

lemma ends_in_mono: "ends_in m P \<Longrightarrow> (\<And>x. P x \<Longrightarrow> Q x) \<Longrightarrow> ends_in m Q"
  by (cases m) (auto simp: ends_in_def)

lemma ends_in_conj: "ends_in m P \<Longrightarrow> ends_in m Q \<Longrightarrow> ends_in m (\<lambda>x. P x \<and> Q x)"
  by (cases m) (auto simp: ends_in_def)

lemma ends_in_iff: "ends_in m P \<longleftrightarrow> (\<exists>x. m = Inr x \<and> P x)"
  by (cases m) (auto simp: ends_in_def)

section \<open>Computations that may not return\<close>

text \<open>A run that does not return is \<open>None\<close>.\<close>

definition xbind :: "'a exec option \<Rightarrow> ('a \<Rightarrow> 'b exec option) \<Rightarrow> 'b exec option" where
  "xbind m f = Option.bind m (\<lambda>r. case r of Inl e \<Rightarrow> Some (Inl e) | Inr x \<Rightarrow> f x)"

abbreviation xret :: "'a \<Rightarrow> 'a exec option" where
  "xret x \<equiv> Some (Inr x)"

lemma xbind_simps [simp]: "xbind (xret x) f = f x" "xbind (Some (Inl e)) f = Some (Inl e)" "xbind None f = None"
  by (simp_all add: xbind_def)

lemma xbind_mono [partial_function_mono]:
  assumes "mono_option B" "\<And>y. mono_option (\<lambda>f. C y f)"
  shows "mono_option (\<lambda>f. xbind (B f) (\<lambda>y. C y f))"
  unfolding xbind_def
proof (rule bind_mono [OF assms(1)])
  fix y
  show "mono_option (\<lambda>f. case y of Inl e \<Rightarrow> Some (Inl e) | Inr x \<Rightarrow> C x f)"
    by (cases y) (simp_all add: assms(2) option.const_mono)
qed

section \<open>The integers of C\<close>

text \<open>
  \<open>int\<close> is 32 bits wide and \<open>size_t\<close> 64 bits; both are mathematical integers here and every
  conversion is written out. Conversion to \<open>size_t\<close> is modulo \<open>2 ^ 64\<close>; conversion of an
  out-of-range value to \<open>int\<close> is the usual reduction; signed arithmetic that leaves the range
  of \<open>int\<close> is a fault.
\<close>

definition to_size_t :: "int \<Rightarrow> int" where
  "to_size_t x = x mod 2 ^ 64"

definition to_int :: "int \<Rightarrow> int" where
  "to_int x = (x + 2 ^ 31) mod 2 ^ 32 - 2 ^ 31"

definition int_arith :: "int \<Rightarrow> int exec" where
  "int_arith x = (if - (2 ^ 31) \<le> x \<and> x < 2 ^ 31 then Inr x else Inl SignedOverflow)"

lemma to_size_t_id [simp, exec_simps]: "0 \<le> x \<Longrightarrow> x < 2 ^ 64 \<Longrightarrow> to_size_t x = x"
  by (simp add: to_size_t_def)

lemma to_int_id [simp, exec_simps]: "- (2 ^ 31) \<le> x \<Longrightarrow> x < 2 ^ 31 \<Longrightarrow> to_int x = x"
  by (simp add: to_int_def)

lemma int_arith_id [simp, exec_simps]:
  "- (2 ^ 31) \<le> x \<Longrightarrow> x < 2 ^ 31 \<Longrightarrow> int_arith x = Inr x"
  by (simp add: int_arith_def)

lemma int_arith_eq_Inr: "int_arith x = Inr y \<longleftrightarrow> y = x \<and> - (2 ^ 31) \<le> x \<and> x < 2 ^ 31"
  by (auto simp: int_arith_def)

lemma to_size_t_nonneg [simp]: "0 \<le> to_size_t x"
  by (simp add: to_size_t_def)

section \<open>The heap\<close>

text \<open>
  The C heap as far as the programs use it: byte blocks by address. \<open>malloc\<close> may fail at any
  call: \<open>hp_oom k\<close> says whether the \<open>k\<close>-th allocation does, for an arbitrary \<open>hp_oom\<close>. A fresh
  block holds an arbitrary byte \<open>hp_junk\<close> everywhere.
\<close>

record heap =
  hp_mem :: "addr \<Rightarrow> u8 list option"
  hp_next :: nat
  hp_oom :: "nat \<Rightarrow> bool"
  hp_junk :: u8

definition malloc :: "heap \<Rightarrow> int \<Rightarrow> addr option \<times> heap" where
  "malloc h n =
     (let a = hp_next h; h1 = h\<lparr>hp_next := Suc a\<rparr> in
      if hp_oom h a then (None, h1)
      else (Some a, h1\<lparr>hp_mem := (hp_mem h)(a \<mapsto> replicate (nat n) (hp_junk h))\<rparr>))"

text \<open>An allocation of a struct whose fields the model keeps elsewhere: only success matters.\<close>

definition malloc_obj :: "heap \<Rightarrow> bool \<times> heap" where
  "malloc_obj h = (\<not> hp_oom h (hp_next h), h\<lparr>hp_next := Suc (hp_next h)\<rparr>)"

definition free_block :: "heap \<Rightarrow> addr \<Rightarrow> heap exec" where
  "free_block h a =
     (if hp_mem h a = None then Inl UseAfterFree else Inr (h\<lparr>hp_mem := (hp_mem h)(a := None)\<rparr>))"

definition heap_read :: "heap \<Rightarrow> addr \<Rightarrow> int \<Rightarrow> int \<Rightarrow> u8 list exec" where
  "heap_read h a off n =
     (case hp_mem h a of
        None \<Rightarrow> Inl UseAfterFree
      | Some blk \<Rightarrow>
          if off < 0 \<or> n < 0 \<or> int (length blk) < off + n then Inl OutOfBounds
          else Inr (take (nat n) (drop (nat off) blk)))"

definition heap_write :: "heap \<Rightarrow> addr \<Rightarrow> int \<Rightarrow> u8 list \<Rightarrow> heap exec" where
  "heap_write h a off bs =
     (case hp_mem h a of
        None \<Rightarrow> Inl UseAfterFree
      | Some blk \<Rightarrow>
          if off < 0 \<or> int (length blk) < off + int (length bs) then Inl OutOfBounds
          else Inr (h\<lparr>hp_mem := (hp_mem h)(a \<mapsto>
                 take (nat off) blk @ bs @ drop (nat off + length bs) blk)\<rparr>))"

text \<open>\<open>memcpy\<close> of the first \<open>n\<close> bytes behind a pointer whose readable bytes are \<open>src\<close>.\<close>

definition read_src :: "u8 list \<Rightarrow> int \<Rightarrow> u8 list exec" where
  "read_src src n = (if int (length src) < n then Inl OutOfBounds else Inr (take (nat n) src))"

text \<open>Writing \<open>bs\<close> at offset \<open>p\<close> of an array.\<close>

definition write_at :: "'a list \<Rightarrow> nat \<Rightarrow> 'a list \<Rightarrow> 'a list exec" where
  "write_at buf p bs =
     (if length buf < p + length bs then Inl OutOfBounds
      else Inr (take p buf @ bs @ drop (p + length bs) buf))"

text \<open>The addresses handed out so far are below the next one.\<close>

definition heap_ok :: "heap \<Rightarrow> bool" where
  "heap_ok h \<longleftrightarrow> (\<forall>a. hp_mem h a \<noteq> None \<longrightarrow> a < hp_next h)"

lemma heap_ok_next [simp]: "heap_ok h \<Longrightarrow> hp_mem h (hp_next h) = None"
  by (auto simp: heap_ok_def)

lemma heap_ok_Suc_next: "heap_ok h \<Longrightarrow> heap_ok (h\<lparr>hp_next := Suc (hp_next h)\<rparr>)"
  by (auto simp: heap_ok_def intro: less_SucI)

lemma heap_ok_clear: "heap_ok h \<Longrightarrow> heap_ok (h\<lparr>hp_mem := (hp_mem h)(a := None)\<rparr>)"
  by (auto simp: heap_ok_def)

lemma heap_ok_malloc [intro]: "heap_ok h \<Longrightarrow> malloc h n = (r, h') \<Longrightarrow> heap_ok h'"
  by (auto simp: heap_ok_def malloc_def Let_def less_Suc_eq split: if_splits)

lemma heap_ok_malloc_obj [intro]: "heap_ok h \<Longrightarrow> malloc_obj h = (r, h') \<Longrightarrow> heap_ok h'"
  by (auto simp: heap_ok_def malloc_obj_def less_Suc_eq)

lemma heap_ok_free [intro]: "heap_ok h \<Longrightarrow> free_block h a = Inr h' \<Longrightarrow> heap_ok h'"
  by (auto simp: heap_ok_def free_block_def split: if_splits)

lemma heap_ok_write [intro]: "heap_ok h \<Longrightarrow> heap_write h a off bs = Inr h' \<Longrightarrow> heap_ok h'"
  by (auto simp: heap_ok_def heap_write_def split: option.splits if_splits)

lemma heap_read_ok [heap_simps]:
  "hp_mem h a = Some blk \<Longrightarrow> 0 \<le> off \<Longrightarrow> 0 \<le> n \<Longrightarrow> off + n \<le> int (length blk)
   \<Longrightarrow> heap_read h a off n = Inr (take (nat n) (drop (nat off) blk))"
  by (simp add: heap_read_def)

lemma heap_write_ok [heap_simps]:
  "hp_mem h a = Some blk \<Longrightarrow> 0 \<le> off \<Longrightarrow> off + int (length bs) \<le> int (length blk)
   \<Longrightarrow> heap_write h a off bs =
         Inr (h\<lparr>hp_mem := (hp_mem h)(a \<mapsto> take (nat off) blk @ bs @ drop (nat off + length bs) blk)\<rparr>)"
  by (simp add: heap_write_def)

lemma free_block_ok [heap_simps]:
  "hp_mem h a = Some blk \<Longrightarrow> free_block h a = Inr (h\<lparr>hp_mem := (hp_mem h)(a := None)\<rparr>)"
  by (simp add: free_block_def)

lemma read_src_ok [heap_simps]:
  "n \<le> int (length src) \<Longrightarrow> read_src src n = Inr (take (nat n) src)"
  by (simp add: read_src_def)

section \<open>Lists\<close>

lemma take_write_prefix:
  "n \<le> length blk \<Longrightarrow> take (n + length bs) (take n blk @ bs @ drop m blk) = take n blk @ bs"
  by simp

lemma take_append_le: "n \<le> length xs \<Longrightarrow> take n (xs @ ys) = take n xs"
  by simp

end
