(* ===== verification/RtsBuf.thy ===== *)
theory RtsBuf
  imports Prelude
begin

text \<open>
  The growable byte buffer of the proxy, \<open>demo/proxy_demo/rts_buf.c\<close>: \<open>rts_buf_init\<close>,
  \<open>rts_buf_free\<close> and \<open>rts_buf_append\<close> on the heap of \<open>Prelude\<close>, with what an append does in
  each of its cases.
\<close>

section \<open>The buffer and its operations\<close>

text \<open>
  \<open>struct rts_buf_s\<close>. The struct itself is a value here; its \<open>buf\<close> points to a block of the
  heap and is never NULL in a buffer that \<open>rts_buf_init\<close> returned.
\<close>

record rts_buf_t =
  rb_buf :: addr
  rb_size :: int
  rb_capacity :: int

definition rts_buf_init :: "heap \<Rightarrow> int \<Rightarrow> (rts_buf_t option \<times> heap) exec" where
  "rts_buf_init h capacity =
     (if capacity \<le> 0 then Inr (None, h)
      else case malloc h capacity of
             (None, h1) \<Rightarrow> Inr (None, h1)
           | (Some buf, h1) \<Rightarrow>
               (case malloc_obj h1 of
                  (False, h2) \<Rightarrow> Inl NullDeref
                | (True, h2) \<Rightarrow>
                    Inr (Some \<lparr>rb_buf = buf, rb_size = 0, rb_capacity = to_int capacity\<rparr>, h2)))"

definition rts_buf_free :: "heap \<Rightarrow> rts_buf_t option \<Rightarrow> heap exec" where
  "rts_buf_free h p =
     (case p of
        None \<Rightarrow> Inr h
      | Some b \<Rightarrow> free_block h (rb_buf b))"

text \<open>
  The new capacity of \<open>rts_buf_append\<close>. Adding the \<open>size_t\<close> length makes the comparison and
  the sum unsigned; \<open>capacity * 2\<close> is computed in \<open>int\<close>; the result is stored in an \<open>int\<close>.
\<close>

definition rts_buf_new_cap :: "int \<Rightarrow> int \<Rightarrow> int \<Rightarrow> int exec" where
  "rts_buf_new_cap sz cap alloc_len =
     (if to_size_t (sz + alloc_len - cap) \<ge> to_size_t cap
      then Inr (to_int (to_size_t (sz + alloc_len)))
      else ebind (int_arith (cap * 2)) (\<lambda>c2. Inr (to_int (to_size_t c2))))"

definition rts_buf_append ::
    "heap \<Rightarrow> rts_buf_t \<Rightarrow> u8 list option \<Rightarrow> int \<Rightarrow> (int \<times> rts_buf_t \<times> heap) exec" where
  "rts_buf_append h b content content_len =
     (case content of
        None \<Rightarrow> Inr (-1, b, h)
      | Some src \<Rightarrow>
          (let alloc_len = to_size_t (content_len + 1) in
           ebind (int_arith (rb_capacity b - rb_size b)) (\<lambda>room.
           ebind
             (if to_size_t room < alloc_len then
                ebind (rts_buf_new_cap (rb_size b) (rb_capacity b) alloc_len) (\<lambda>new_cap.
                case malloc h (to_size_t new_cap) of
                  (None, h1) \<Rightarrow> Inr (None, h1)
                | (Some new_buf, h1) \<Rightarrow>
                    ebind (heap_read h1 (rb_buf b) 0 (to_size_t (rb_size b))) (\<lambda>old.
                    ebind (heap_write h1 new_buf 0 old) (\<lambda>h2.
                    ebind (free_block h2 (rb_buf b)) (\<lambda>h3.
                    Inr (Some (b\<lparr>rb_capacity := new_cap, rb_buf := new_buf\<rparr>), h3)))))
              else Inr (Some b, h))
             (\<lambda>(grown, h4). case grown of
                None \<Rightarrow> Inr (-3, b, h4)
              | Some b1 \<Rightarrow>
                  ebind (read_src src content_len) (\<lambda>bytes.
                  ebind (heap_write h4 (rb_buf b1) (rb_size b1) bytes) (\<lambda>h5.
                  Inr (0, b1\<lparr>rb_size := to_int (to_size_t (rb_size b1 + content_len))\<rparr>, h5)))))))"

section \<open>Invariant and contents\<close>

definition rts_buf_ok :: "heap \<Rightarrow> rts_buf_t \<Rightarrow> bool" where
  "rts_buf_ok h b \<longleftrightarrow>
     (case hp_mem h (rb_buf b) of
        None \<Rightarrow> False
      | Some blk \<Rightarrow> int (length blk) = rb_capacity b) \<and>
     0 \<le> rb_size b \<and> rb_size b \<le> rb_capacity b \<and> 0 < rb_capacity b \<and> rb_capacity b < 2 ^ 31"

definition rts_buf_contents :: "heap \<Rightarrow> rts_buf_t \<Rightarrow> u8 list" where
  "rts_buf_contents h b =
     (case hp_mem h (rb_buf b) of None \<Rightarrow> [] | Some blk \<Rightarrow> take (nat (rb_size b)) blk)"

text \<open>
  Room for \<open>n\<close> more bytes: up to 1 GiB in all, so that a growing append, whose capacity is at
  most the new size, doubles it without leaving \<open>int\<close>.
\<close>

definition rts_buf_fits :: "rts_buf_t \<Rightarrow> int \<Rightarrow> bool" where
  "rts_buf_fits b n \<longleftrightarrow> 0 \<le> n \<and> rb_size b + n + 1 \<le> 2 ^ 30"

lemma rts_buf_okE:
  assumes "rts_buf_ok h b"
  obtains blk where "hp_mem h (rb_buf b) = Some blk" "int (length blk) = rb_capacity b"
    "0 \<le> rb_size b" "rb_size b \<le> rb_capacity b" "0 < rb_capacity b" "rb_capacity b < 2 ^ 31"
  using assms by (auto simp: rts_buf_ok_def split: option.splits)

lemma length_rts_buf_contents:
  "rts_buf_ok h b \<Longrightarrow> int (length (rts_buf_contents h b)) = rb_size b"
  by (elim rts_buf_okE) (auto simp: rts_buf_contents_def)

lemma rts_buf_ok_live: "rts_buf_ok h b \<Longrightarrow> hp_mem h (rb_buf b) \<noteq> None"
  by (auto elim: rts_buf_okE)

lemma rts_buf_init_ok:
  assumes "heap_ok h" "0 < n" "n < 2 ^ 30" "rts_buf_init h n = Inr (Some b, h')"
  shows "heap_ok h' \<and> rts_buf_ok h' b \<and> rts_buf_contents h' b = [] \<and> rb_size b = 0
    \<and> rb_capacity b = n \<and> rb_buf b = hp_next h
    \<and> (\<forall>a. a \<noteq> hp_next h \<longrightarrow> hp_mem h' a = hp_mem h a)"
  using assms
  by (auto simp: rts_buf_init_def malloc_def malloc_obj_def Let_def rts_buf_ok_def heap_ok_def
      rts_buf_contents_def less_Suc_eq split: if_splits prod.splits bool.splits)

lemma rts_buf_new_cap_ok:
  assumes "0 \<le> sz" "sz \<le> cap" "0 < cap" "0 < alloc"
    "sz + alloc \<le> 2 ^ 30" "cap - sz < alloc"
  shows "rts_buf_new_cap sz cap alloc = Inr (max (sz + alloc) (cap * 2))"
  using assms by (auto simp: rts_buf_new_cap_def max_def)

section \<open>What an append does\<close>

text \<open>
  The two branches of \<open>rts_buf_append\<close> when every integer is in range: the content fits
  (\<open>rts_buf_append_inplace\<close>), or a larger block is allocated, or that allocation fails.
\<close>

lemma rts_buf_append_inplace:
  assumes b: "rts_buf_ok h b" and n: "rts_buf_fits b n" "n \<le> int (length src)"
    and room: "n + 1 \<le> rb_capacity b - rb_size b"
    and blk: "hp_mem h (rb_buf b) = Some blk"
  shows "rts_buf_append h b (Some src) n =
    Inr (0, b\<lparr>rb_size := rb_size b + n\<rparr>,
      h\<lparr>hp_mem := (hp_mem h)(rb_buf b \<mapsto> take (nat (rb_size b)) blk @ take (nat n) src
                    @ drop (nat (rb_size b + n)) blk)\<rparr>)"
proof -
  from b blk have len: "int (length blk) = rb_capacity b" and s: "0 \<le> rb_size b"
    "rb_size b \<le> rb_capacity b" "0 < rb_capacity b" "rb_capacity b < 2 ^ 31"
    by (auto simp: rts_buf_ok_def)
  from n have n0: "0 \<le> n" "rb_size b + n + 1 \<le> 2 ^ 30"
    by (auto simp: rts_buf_fits_def)
  have tl: "min (length src) (nat n) = nat n"
    using n(2) n0(1) by auto
  have w: "heap_write h (rb_buf b) (rb_size b) (take (nat n) src) =
    Inr (h\<lparr>hp_mem := (hp_mem h)(rb_buf b \<mapsto> take (nat (rb_size b)) blk @ take (nat n) src
           @ drop (nat (rb_size b) + nat n) blk)\<rparr>)"
    using room s n0 len by (simp add: heap_write_def blk tl)
  show ?thesis
    using room s n0 n(2)
    by (simp add: rts_buf_append_def Let_def read_src_ok w nat_add_distrib)
qed

lemma rts_buf_append_grow:
  fixes b :: rts_buf_t
  assumes b: "rts_buf_ok h b" "heap_ok h" and n: "rts_buf_fits b n" "n \<le> int (length src)"
    and room: "rb_capacity b - rb_size b < n + 1"
    and blk: "hp_mem h (rb_buf b) = Some blk" and alloc: "\<not> hp_oom h (hp_next h)"
  shows "rts_buf_append h b (Some src) n =
    Inr (0, b\<lparr>rb_capacity := max (rb_size b + (n + 1)) (rb_capacity b * 2),
              rb_buf := hp_next h, rb_size := rb_size b + n\<rparr>,
      h\<lparr>hp_next := Suc (hp_next h),
         hp_mem := (hp_mem h)(rb_buf b := None, hp_next h \<mapsto>
           take (nat (rb_size b)) blk @ take (nat n) src @
           replicate (nat (max (rb_size b + (n + 1)) (rb_capacity b * 2) - rb_size b - n)) (hp_junk h))\<rparr>)"
proof -
  from b blk have len: "int (length blk) = rb_capacity b" and s: "0 \<le> rb_size b"
    "rb_size b \<le> rb_capacity b" "0 < rb_capacity b" "rb_capacity b < 2 ^ 31"
    by (auto simp: rts_buf_ok_def)
  from n have n0: "0 \<le> n" "rb_size b + n + 1 \<le> 2 ^ 30"
    by (auto simp: rts_buf_fits_def)
  let ?c = "max (rb_size b + (n + 1)) (rb_capacity b * 2)"
  let ?old = "take (nat (rb_size b)) blk" and ?new = "hp_next h"
  have ne: "rb_buf b \<noteq> ?new" using b(2) blk by (auto simp: heap_ok_def)
  have lo: "length ?old = nat (rb_size b)" using len s by simp
  have nc: "rts_buf_new_cap (rb_size b) (rb_capacity b) (n + 1) = Inr ?c"
    using room s n0 by (intro rts_buf_new_cap_ok) auto
  have c: "0 \<le> ?c" "?c < 2 ^ 64" "rb_size b + n \<le> ?c" using s n0 by (auto simp: max_def)
  let ?h1 = "h\<lparr>hp_next := Suc ?new, hp_mem := (hp_mem h)(?new \<mapsto> replicate (nat ?c) (hp_junk h))\<rparr>"
  let ?h2 = "h\<lparr>hp_next := Suc ?new, hp_mem := (hp_mem h)
      (?new \<mapsto> ?old @ replicate (nat (?c - rb_size b)) (hp_junk h))\<rparr>"
  let ?h3 = "h\<lparr>hp_next := Suc ?new, hp_mem := (hp_mem h)
      (?new \<mapsto> ?old @ replicate (nat (?c - rb_size b)) (hp_junk h), rb_buf b := None)\<rparr>"
  have rd: "heap_read ?h1 (rb_buf b) 0 (rb_size b) = Inr ?old"
    using ne blk s len by (simp add: heap_read_def)
  have wr: "heap_write ?h1 ?new 0 ?old = Inr ?h2"
    using c s n0 lo by (simp add: heap_write_def nat_diff_distrib)
  have fr: "free_block ?h2 (rb_buf b) = Inr ?h3"
    using ne blk by (simp add: free_block_def)
  have w: "heap_write ?h3 ?new (rb_size b) (take (nat n) src) =
    Inr (h\<lparr>hp_next := Suc ?new, hp_mem := (hp_mem h)(rb_buf b := None, ?new \<mapsto>
           ?old @ take (nat n) src @ replicate (nat (?c - rb_size b - n)) (hp_junk h))\<rparr>)"
    using ne c s n0 n(2) lo by (simp add: heap_write_def fun_upd_twist nat_diff_distrib)
  show ?thesis
    using room s n0 c alloc n(2)
    by (simp add: rts_buf_append_def Let_def nc malloc_def rd wr fr w read_src_ok)
qed


text \<open>An append that cannot allocate returns -3 and leaves buffer and blocks alone.\<close>

lemma rts_buf_append_oom:
  assumes b: "rts_buf_ok h b" and n: "rts_buf_fits b n"
    and room: "rb_capacity b - rb_size b < n + 1" and alloc: "hp_oom h (hp_next h)"
  shows "rts_buf_append h b (Some src) n = Inr (-3, b, h\<lparr>hp_next := Suc (hp_next h)\<rparr>)"
proof -
  from b have s: "0 \<le> rb_size b" "rb_size b \<le> rb_capacity b" "0 < rb_capacity b"
    "rb_capacity b < 2 ^ 31" by (auto elim: rts_buf_okE)
  from n have n0: "0 \<le> n" "rb_size b + n + 1 \<le> 2 ^ 30" by (auto simp: rts_buf_fits_def)
  have "rts_buf_new_cap (rb_size b) (rb_capacity b) (n + 1)
      = Inr (max (rb_size b + (n + 1)) (rb_capacity b * 2))"
    using room s n0 by (intro rts_buf_new_cap_ok) auto
  then show ?thesis
    using room s n0 alloc by (simp add: rts_buf_append_def Let_def malloc_def)
qed

lemma rts_buf_append_null:
  "rts_buf_append h b None n = Inr (-1, b, h)"
  by (simp add: rts_buf_append_def)

text \<open>
  All three together: in range an append never faults; it returns 0 with the bytes added at the
  end and one spare byte behind them, or -3 with nothing changed. Blocks other than the
  buffer's own keep their bytes, and the buffer moves only when it had to grow.
\<close>

definition rts_buf_appended ::
    "heap \<Rightarrow> rts_buf_t \<Rightarrow> u8 list \<Rightarrow> rts_buf_t \<Rightarrow> heap \<Rightarrow> bool" where
  "rts_buf_appended h b bs b' h' \<longleftrightarrow>
     heap_ok h' \<and> hp_oom h' = hp_oom h \<and> rts_buf_ok h' b' \<and>
     rts_buf_contents h' b' = rts_buf_contents h b @ bs \<and>
     (int (length bs) + 1 \<le> rb_capacity b - rb_size b \<longrightarrow> rb_buf b' = rb_buf b) \<and>
     rb_size b' = rb_size b + int (length bs) \<and> rb_size b' < rb_capacity b' \<and>
     (\<forall>a. a \<noteq> rb_buf b \<and> a \<noteq> hp_next h \<longrightarrow> hp_mem h' a = hp_mem h a) \<and>
     (rb_buf b' = rb_buf b \<and> hp_next h' = hp_next h \<or>
      rb_buf b' = hp_next h \<and> hp_mem h' (rb_buf b) = None \<and> hp_next h' = Suc (hp_next h))"

lemma rts_buf_appended_inplace:
  assumes b: "rts_buf_ok h b" "heap_ok h" and n: "rts_buf_fits b n" "n \<le> int (length src)"
    and room: "n + 1 \<le> rb_capacity b - rb_size b"
    and blk: "hp_mem h (rb_buf b) = Some blk"
  shows "rts_buf_appended h b (take (nat n) src) (b\<lparr>rb_size := rb_size b + n\<rparr>)
    (h\<lparr>hp_mem := (hp_mem h)(rb_buf b \<mapsto> take (nat (rb_size b)) blk @ take (nat n) src
                    @ drop (nat (rb_size b + n)) blk)\<rparr>)"
proof -
  from b(1) blk have len: "int (length blk) = rb_capacity b" and s: "0 \<le> rb_size b"
    "rb_size b \<le> rb_capacity b" "0 < rb_capacity b" "rb_capacity b < 2 ^ 31"
    by (auto simp: rts_buf_ok_def)
  from n have n0: "0 \<le> n" "rb_size b + n + 1 \<le> 2 ^ 30" by (auto simp: rts_buf_fits_def)
  have tl: "length (take (nat n) src) = nat n" using n(2) n0(1) by simp
  have sz: "nat (rb_size b + n) = nat (rb_size b) + nat n" using s n0 by (simp add: nat_add_distrib)
  show ?thesis
    using b len s n0 room tl n(2) blk
    by (auto simp: rts_buf_appended_def rts_buf_ok_def rts_buf_contents_def heap_ok_def sz)
qed

lemma rts_buf_appended_grow:
  assumes b: "rts_buf_ok h b" "heap_ok h" and n: "rts_buf_fits b n" "n \<le> int (length src)"
    and room: "rb_capacity b - rb_size b < n + 1"
    and blk: "hp_mem h (rb_buf b) = Some blk"
  defines "c \<equiv> max (rb_size b + (n + 1)) (rb_capacity b * 2)"
  shows "rts_buf_appended h b (take (nat n) src)
    (b\<lparr>rb_capacity := c, rb_buf := hp_next h, rb_size := rb_size b + n\<rparr>)
    (h\<lparr>hp_next := Suc (hp_next h), hp_mem := (hp_mem h)(rb_buf b := None, hp_next h \<mapsto>
           take (nat (rb_size b)) blk @ take (nat n) src @
           replicate (nat (c - rb_size b - n)) (hp_junk h))\<rparr>)"
proof -
  from b(1) blk have len: "int (length blk) = rb_capacity b" and s: "0 \<le> rb_size b"
    "rb_size b \<le> rb_capacity b" "0 < rb_capacity b" "rb_capacity b < 2 ^ 31"
    by (auto simp: rts_buf_ok_def)
  from n have n0: "0 \<le> n" "rb_size b + n + 1 \<le> 2 ^ 30" by (auto simp: rts_buf_fits_def)
  have c: "rb_size b + n + 1 \<le> c" "c < 2 ^ 31" using s n0 room by (auto simp: c_def max_def)
  have tl: "length (take (nat n) src) = nat n" using n(2) n0(1) by simp
  have sz: "nat (rb_size b + n) = nat (rb_size b) + nat n" using s n0 by (simp add: nat_add_distrib)
  have ne: "rb_buf b \<noteq> hp_next h" using b(2) blk by (auto simp: heap_ok_def)
  show ?thesis
    using b len s n0 room tl n(2) blk c ne
    by (auto simp: rts_buf_appended_def rts_buf_ok_def rts_buf_contents_def heap_ok_def sz
        less_Suc_eq)
qed

lemma rts_buf_append_cases:
  assumes b: "rts_buf_ok h b" "heap_ok h" and n: "rts_buf_fits b n" "n \<le> int (length src)"
  shows "(\<exists>b' h'. rts_buf_append h b (Some src) n = Inr (0, b', h')
            \<and> rts_buf_appended h b (take (nat n) src) b' h')
       \<or> (rb_capacity b - rb_size b < n + 1 \<and> hp_oom h (hp_next h) \<and>
          rts_buf_append h b (Some src) n = Inr (-3, b, h\<lparr>hp_next := Suc (hp_next h)\<rparr>))"
proof -
  obtain blk where blk: "hp_mem h (rb_buf b) = Some blk" using b(1) by (rule rts_buf_okE)
  show ?thesis
  proof (cases "n + 1 \<le> rb_capacity b - rb_size b")
    case True
    then show ?thesis
      using rts_buf_append_inplace [OF b(1) n True blk] rts_buf_appended_inplace [OF b n True blk]
      by blast
  next
    case False
    then have room: "rb_capacity b - rb_size b < n + 1" by simp
    show ?thesis
    proof (cases "hp_oom h (hp_next h)")
      case True
      with rts_buf_append_oom [OF b(1) n(1) room] room show ?thesis by blast
    next
      case no_oom: False
      show ?thesis
        using rts_buf_append_grow [OF b n room blk no_oom] rts_buf_appended_grow [OF b n room blk]
        by blast
    qed
  qed
qed

end
