(* ===== verification/Proxy.thy ===== *)
theory Proxy
  imports RtsBuf
begin

text \<open>
  The forwarding proxy, \<open>demo/proxy_demo/proxy.c\<close>: the data each libuv callback keeps per
  stream, every callback as a function on the whole process state, and the event loop as the
  function \<open>proxy_step\<close> that lets libuv deliver one event.

  A \<open>uv_tcp_t\<close> is never freed by the program, so a stream is named by a number and stays in
  \<open>px_streams\<close> for ever. \<open>callback_data_t\<close> is reached only through \<open>stream->data\<close>, and a
  \<open>stream_conn_t\<close> only through the one \<open>callback_data_t\<close> that points to it, so both are values
  there; the bytes of the buffers are blocks of the heap, because a write request keeps a
  pointer into one while \<open>rts_buf_append\<close> may move it.
\<close>

section \<open>Data\<close>

definition DEFAULT_BUF_SIZE :: int where "DEFAULT_BUF_SIZE = 8092"

record stream_conn_t =
  sc_stream :: nat
  sc_ready :: bool

record callback_data_t =
  cb_stream_conn :: "stream_conn_t option"
  cb_buf :: "rts_buf_t option"
  cb_pos :: int
  cb_last :: int

text \<open>The pointer \<open>stream->data\<close>: not yet written, NULL, or valid.\<close>

datatype data_ptr = Uninit | Null | Data callback_data_t

text \<open>The two write callbacks, as the function pointer a request carries.\<close>

datatype write_cb = After_upstream_write | After_downstream_write

text \<open>A queued \<open>write_req_t\<close>: the bytes of its \<open>uv_buf_t\<close> that libuv has not written yet.\<close>

record write_req_t =
  wr_addr :: addr
  wr_off :: int
  wr_len :: int
  wr_cb :: write_cb

datatype read_cb = Downstream_read | Upstream_read

record uv_stream_t =
  st_data :: data_ptr
  st_read_cb :: "read_cb option"
  st_connecting :: bool
  st_closing :: bool
  st_writes :: "write_req_t list"
  st_delivered :: "u8 list"

record proxy =
  px_heap :: heap
  px_streams :: "nat \<Rightarrow> uv_stream_t option"
  px_next :: nat

definition fresh_stream :: uv_stream_t where
  "fresh_stream = \<lparr>st_data = Uninit, st_read_cb = None, st_connecting = False,
     st_closing = False, st_writes = [], st_delivered = []\<rparr>"

section \<open>Memory access\<close>

definition get_stream :: "proxy \<Rightarrow> nat \<Rightarrow> uv_stream_t exec" where
  "get_stream w s = (case px_streams w s of None \<Rightarrow> Inl UseAfterFree | Some x \<Rightarrow> Inr x)"

definition put_stream :: "proxy \<Rightarrow> nat \<Rightarrow> uv_stream_t \<Rightarrow> proxy" where
  "put_stream w s x = w\<lparr>px_streams := (px_streams w)(s \<mapsto> x)\<rparr>"

text \<open>\<open>(callback_data_t*)(stream->data)\<close>, dereferenced.\<close>

definition get_cb :: "proxy \<Rightarrow> nat \<Rightarrow> callback_data_t exec" where
  "get_cb w s = ebind (get_stream w s) (\<lambda>x.
     case st_data x of Uninit \<Rightarrow> Inl UseAfterFree | Null \<Rightarrow> Inl NullDeref | Data cb \<Rightarrow> Inr cb)"

definition put_cb :: "proxy \<Rightarrow> nat \<Rightarrow> callback_data_t \<Rightarrow> proxy exec" where
  "put_cb w s cb = ebind (get_stream w s) (\<lambda>x. Inr (put_stream w s (x\<lparr>st_data := Data cb\<rparr>)))"

definition new_stream :: "proxy \<Rightarrow> nat option \<times> proxy" where
  "new_stream w = (case malloc_obj (px_heap w) of
     (False, h) \<Rightarrow> (None, w\<lparr>px_heap := h\<rparr>)
   | (True, h) \<Rightarrow> (Some (px_next w), w\<lparr>px_heap := h, px_next := Suc (px_next w),
        px_streams := (px_streams w)(px_next w \<mapsto> fresh_stream)\<rparr>))"

definition malloc_struct :: "proxy \<Rightarrow> bool \<times> proxy" where
  "malloc_struct w = (case malloc_obj (px_heap w) of (ok, h) \<Rightarrow> (ok, w\<lparr>px_heap := h\<rparr>))"

section \<open>The libuv calls\<close>

text \<open>
  What the calls change of a stream. \<open>uv_write\<close> queues the request, except on a stream whose
  descriptor is closed, where it returns \<open>-EBADF\<close>, which the program does not look at.
\<close>

definition uv_read_start :: "proxy \<Rightarrow> nat \<Rightarrow> read_cb \<Rightarrow> proxy exec" where
  "uv_read_start w s cb = ebind (get_stream w s) (\<lambda>x.
     Inr (if st_closing x then w else put_stream w s (x\<lparr>st_read_cb := Some cb\<rparr>)))"

definition uv_close :: "proxy \<Rightarrow> nat \<Rightarrow> proxy exec" where
  "uv_close w s = ebind (get_stream w s) (\<lambda>x.
     Inr (put_stream w s (x\<lparr>st_closing := True, st_read_cb := None\<rparr>)))"

definition uv_tcp_connect :: "proxy \<Rightarrow> nat \<Rightarrow> proxy exec" where
  "uv_tcp_connect w s = ebind (get_stream w s) (\<lambda>x.
     Inr (put_stream w s (x\<lparr>st_connecting := True\<rparr>)))"

definition uv_write :: "proxy \<Rightarrow> nat \<Rightarrow> write_req_t \<Rightarrow> proxy exec" where
  "uv_write w s r = ebind (get_stream w s) (\<lambda>x.
     Inr (if st_closing x then w else put_stream w s (x\<lparr>st_writes := st_writes x @ [r]\<rparr>)))"

section \<open>Callback data\<close>

text \<open>
  \<open>init_callback_data\<close>: the stream pointer may be NULL, as both callers pass the result of
  \<open>malloc\<close> unchecked. A failing \<open>rts_buf_init\<close> is only reported.
\<close>

definition init_callback_data :: "proxy \<Rightarrow> nat option \<Rightarrow> (int \<times> proxy) exec" where
  "init_callback_data w stream =
     (case malloc_struct w of
        (False, w1) \<Rightarrow> Inr (-1, w1)
      | (True, w1) \<Rightarrow>
          ebind (rts_buf_init (px_heap w1) DEFAULT_BUF_SIZE) (\<lambda>(b, h).
          ebind (deref stream) (\<lambda>s.
          ebind (put_cb (w1\<lparr>px_heap := h\<rparr>) s
                   \<lparr>cb_stream_conn = None, cb_buf = b, cb_pos = 0, cb_last = 0\<rparr>) (\<lambda>w2.
          Inr (0, w2)))))"

definition cleanup_callback_data :: "proxy \<Rightarrow> nat \<Rightarrow> (int \<times> proxy) exec" where
  "cleanup_callback_data w s = ebind (get_stream w s) (\<lambda>x.
     case st_data x of
       Uninit \<Rightarrow> Inl UseAfterFree
     | Null \<Rightarrow> Inr (0, w)
     | Data cb \<Rightarrow>
         ebind (rts_buf_free (px_heap w) (cb_buf cb)) (\<lambda>h.
         Inr (0, put_stream (w\<lparr>px_heap := h\<rparr>) s (x\<lparr>st_data := Null\<rparr>))))"

section \<open>Transfers\<close>

definition transfer_stream_data :: "proxy \<Rightarrow> nat \<Rightarrow> nat \<Rightarrow> write_cb \<Rightarrow> (int \<times> proxy) exec" where
  "transfer_stream_data w from_s to_s wrcb = ebind (get_stream w from_s) (\<lambda>x.
     case st_data x of
       Uninit \<Rightarrow> Inl UseAfterFree
     | Null \<Rightarrow> Inr (-1, w)
     | Data cb \<Rightarrow>
         (case cb_buf cb of
            None \<Rightarrow> Inr (-2, w)
          | Some b \<Rightarrow>
              if cb_pos cb \<noteq> cb_last cb then Inr (0, w)
              else
                (let last' = rb_size b in
                 ebind (put_cb w from_s (cb\<lparr>cb_last := last'\<rparr>)) (\<lambda>w1.
                 case malloc_struct w1 of
                   (False, w2) \<Rightarrow> Inl NullDeref
                 | (True, w2) \<Rightarrow>
                     ebind (int_arith (last' - cb_pos cb)) (\<lambda>n.
                     ebind (uv_write w2 to_s \<lparr>wr_addr = rb_buf b, wr_off = cb_pos cb,
                              wr_len = n, wr_cb = wrcb\<rparr>) (\<lambda>w3.
                     Inr (0, w3)))))))"

text \<open>\<open>simple_transfer_stream_data\<close> writes a caller's buffer; no call of it is compiled in.\<close>

definition simple_transfer_stream_data ::
    "proxy \<Rightarrow> nat \<Rightarrow> addr \<Rightarrow> int \<Rightarrow> write_cb \<Rightarrow> (int \<times> proxy) exec" where
  "simple_transfer_stream_data w to_s buf buf_len wrcb =
     (case malloc_struct w of
        (False, w1) \<Rightarrow> Inl NullDeref
      | (True, w1) \<Rightarrow>
          ebind (uv_write w1 to_s \<lparr>wr_addr = buf, wr_off = 0, wr_len = buf_len, wr_cb = wrcb\<rparr>)
            (\<lambda>w2. Inr (0, w2)))"

definition after_simple_transfer :: "proxy \<Rightarrow> addr \<Rightarrow> int \<Rightarrow> proxy exec" where
  "after_simple_transfer w base status = ebind (free_block (px_heap w) base) (\<lambda>h. Inr (w\<lparr>px_heap := h\<rparr>))"

text \<open>
  The common part of \<open>after_upstream_write\<close> and \<open>after_downstream_write\<close>, which differ in
  their log lines and in the callback they pass on.
\<close>

definition after_write :: "write_cb \<Rightarrow> proxy \<Rightarrow> nat \<Rightarrow> proxy exec" where
  "after_write wrcb w to_s =
     ebind (get_cb w to_s) (\<lambda>to_cb.
     ebind (deref (cb_stream_conn to_cb)) (\<lambda>conn.
     let from_s = sc_stream conn in
     ebind (get_cb w from_s) (\<lambda>cb.
     ebind (deref (cb_buf cb)) (\<lambda>b.
     let cb1 = cb\<lparr>cb_pos := cb_last cb\<rparr> in
     if cb_last cb1 \<noteq> rb_size b then
       ebind (put_cb w from_s cb1) (\<lambda>w1.
       ebind (transfer_stream_data w1 from_s to_s wrcb) (\<lambda>(_, w2). Inr w2))
     else
       put_cb w from_s
         (cb1\<lparr>cb_buf := Some (b\<lparr>rb_size := 0\<rparr>), cb_last := 0, cb_pos := 0\<rparr>)))))"

definition after_upstream_write :: "proxy \<Rightarrow> nat \<Rightarrow> int \<Rightarrow> proxy exec" where
  "after_upstream_write w to_s status = after_write After_upstream_write w to_s"

definition after_downstream_write :: "proxy \<Rightarrow> nat \<Rightarrow> int \<Rightarrow> proxy exec" where
  "after_downstream_write w to_s status = after_write After_downstream_write w to_s"

section \<open>The upstream connection\<close>

text \<open>
  The four structs are allocated and the upstream's callback data initialised before any result
  is tested. On failure everything obtained is freed; the freed stream leaves \<open>px_streams\<close>.
\<close>

definition init_upstream_connection :: "proxy \<Rightarrow> nat option \<Rightarrow> (int \<times> proxy) exec" where
  "init_upstream_connection w downstream =
     (case downstream of
        None \<Rightarrow> Inr (-1, w)
      | Some d \<Rightarrow>
          (case new_stream w of (upstream, w1) \<Rightarrow>
           case malloc_struct w1 of (conn_ok, w2) \<Rightarrow>
           case malloc_struct w2 of (dconn_ok, w3) \<Rightarrow>
           case malloc_struct w3 of (uconn_ok, w4) \<Rightarrow>
           ebind (init_callback_data w4 upstream) (\<lambda>(init_cb_data_res, w5).
           case upstream of
             None \<Rightarrow> Inr (-2, w5)
           | Some u \<Rightarrow>
               if \<not> conn_ok \<or> \<not> dconn_ok \<or> \<not> uconn_ok \<or> init_cb_data_res \<noteq> 0
               then Inr (-2, w5\<lparr>px_streams := (px_streams w5)(u := None)\<rparr>)
               else
                 ebind (get_cb w5 d) (\<lambda>dcb.
                 ebind (put_cb w5 d (dcb\<lparr>cb_stream_conn := Some \<lparr>sc_stream = u, sc_ready = False\<rparr>\<rparr>)) (\<lambda>w6.
                 ebind (get_cb w6 u) (\<lambda>ucb.
                 ebind (put_cb w6 u (ucb\<lparr>cb_stream_conn := Some \<lparr>sc_stream = d, sc_ready = True\<rparr>\<rparr>)) (\<lambda>w7.
                 ebind (uv_tcp_connect w7 u) (\<lambda>w8.
                 Inr (0, w8)))))))))"

text \<open>
  \<open>on_upstream_connect\<close>. The failure branch cleans up and falls through to the common part.
\<close>

definition on_upstream_connect :: "proxy \<Rightarrow> nat \<Rightarrow> int \<Rightarrow> proxy exec" where
  "on_upstream_connect w upstream status =
     ebind (get_cb w upstream) (\<lambda>ucb.
     ebind (deref (cb_stream_conn ucb)) (\<lambda>conn.
     let downstream = sc_stream conn in
     ebind (get_cb w downstream) (\<lambda>dcb.
     ebind
       (if status < 0 then
          ebind (put_cb w downstream (dcb\<lparr>cb_stream_conn := None\<rparr>)) (\<lambda>w1.
          ebind (cleanup_callback_data w1 upstream) (\<lambda>(_, w2).
          uv_close w2 upstream))
        else Inr w)
     (\<lambda>w3.
     ebind (uv_read_start w3 upstream Upstream_read) (\<lambda>w4.
     ebind (get_cb w4 downstream) (\<lambda>dcb1.
     ebind (deref (cb_stream_conn dcb1)) (\<lambda>uconn.
     ebind (put_cb w4 downstream (dcb1\<lparr>cb_stream_conn := Some (uconn\<lparr>sc_ready := True\<rparr>)\<rparr>)) (\<lambda>w5.
     if cb_pos dcb1 = cb_last dcb1 then
       ebind (transfer_stream_data w5 downstream upstream After_upstream_write) (\<lambda>(_, w6). Inr w6)
     else Inr w5))))))))"

section \<open>Reading\<close>

text \<open>
  \<open>alloc_buffer\<close> and what libuv does with its result: it asserts that \<open>base\<close> is not NULL and
  reads at most \<open>suggested_size\<close> bytes into it.
\<close>

definition alloc_buffer :: "heap \<Rightarrow> int \<Rightarrow> addr option \<times> heap" where
  "alloc_buffer h suggested_size = malloc h suggested_size"

text \<open>\<open>buf->base\<close>, read by \<open>rts_buf_append\<close> as the \<open>content\<close> pointer.\<close>

definition block_bytes :: "heap \<Rightarrow> addr \<Rightarrow> u8 list exec" where
  "block_bytes h a = (case hp_mem h a of None \<Rightarrow> Inl UseAfterFree | Some blk \<Rightarrow> Inr blk)"

definition append_to_cb :: "proxy \<Rightarrow> nat \<Rightarrow> addr \<Rightarrow> int \<Rightarrow> proxy exec" where
  "append_to_cb w s base nread =
     ebind (get_cb w s) (\<lambda>cb.
     ebind (deref (cb_buf cb)) (\<lambda>b.
     ebind (block_bytes (px_heap w) base) (\<lambda>src.
     ebind (rts_buf_append (px_heap w) b (Some src) nread) (\<lambda>(_, b', h).
     put_cb (w\<lparr>px_heap := h\<rparr>) s (cb\<lparr>cb_buf := Some b'\<rparr>)))))"

text \<open>The transfer both read callbacks start when the peer is ready and nothing is in flight.\<close>

definition forward :: "proxy \<Rightarrow> nat \<Rightarrow> write_cb \<Rightarrow> proxy exec" where
  "forward w s wrcb =
     ebind (get_cb w s) (\<lambda>cb.
     case cb_stream_conn cb of
       None \<Rightarrow> Inr w
     | Some conn \<Rightarrow>
         if sc_ready conn \<and> cb_pos cb = cb_last cb then
           ebind (transfer_stream_data w s (sc_stream conn) wrcb) (\<lambda>(_, w1). Inr w1)
         else Inr w)"

definition free_base :: "proxy \<Rightarrow> addr \<Rightarrow> proxy exec" where
  "free_base w base = ebind (free_block (px_heap w) base) (\<lambda>h. Inr (w\<lparr>px_heap := h\<rparr>))"

text \<open>Cleaning up the stream the callback was called for, as both callbacks do at the end.\<close>

definition cleanup_and_close :: "proxy \<Rightarrow> nat \<Rightarrow> proxy exec" where
  "cleanup_and_close w s =
     ebind (cleanup_callback_data w s) (\<lambda>(_, w1). uv_close w1 s)"

definition detach_peer :: "proxy \<Rightarrow> stream_conn_t \<Rightarrow> proxy exec" where
  "detach_peer w conn =
     ebind (get_cb w (sc_stream conn)) (\<lambda>peer_data.
     put_cb w (sc_stream conn) (peer_data\<lparr>cb_stream_conn := None\<rparr>))"

definition downstream_read :: "proxy \<Rightarrow> nat \<Rightarrow> int \<Rightarrow> addr \<Rightarrow> proxy exec" where
  "downstream_read w client nread base =
     (if nread < 0 then
        ebind (get_cb w client) (\<lambda>cb.
        ebind (case cb_stream_conn cb of None \<Rightarrow> Inr w | Some conn \<Rightarrow> detach_peer w conn) (\<lambda>w1.
        cleanup_and_close w1 client))
      else if nread > 0 then
        ebind (get_cb w client) (\<lambda>cb.
        ebind (case cb_stream_conn cb of
                 None \<Rightarrow> init_upstream_connection w (Some client)
               | Some _ \<Rightarrow> Inr (0, w)) (\<lambda>(res, w1).
        if res \<noteq> 0 then
          ebind (cleanup_and_close w1 client) (\<lambda>w2. free_base w2 base)
        else
          ebind (append_to_cb w1 client base nread) (\<lambda>w2.
          ebind (forward w2 client After_upstream_write) (\<lambda>w3.
          free_base w3 base))))
      else Inr w)"

definition upstream_read :: "proxy \<Rightarrow> nat \<Rightarrow> int \<Rightarrow> addr \<Rightarrow> proxy exec" where
  "upstream_read w client nread base =
     (if nread < 0 then
        ebind (get_cb w client) (\<lambda>cb.
        ebind (deref (cb_stream_conn cb)) (\<lambda>conn.
        ebind (detach_peer w conn) (\<lambda>w1.
        cleanup_and_close w1 client)))
      else if nread > 0 then
        ebind (append_to_cb w client base nread) (\<lambda>w2.
        ebind (forward w2 client After_downstream_write) (\<lambda>w3.
        free_base w3 base))
      else Inr w)"

section \<open>New connections\<close>

definition on_new_downstream_connection :: "proxy \<Rightarrow> int \<Rightarrow> int \<Rightarrow> proxy exec" where
  "on_new_downstream_connection w status accept_res =
     (if status < 0 then Inr w
      else case new_stream w of (client, w1) \<Rightarrow>
        ebind (init_callback_data w1 client) (\<lambda>(_, w2).
        ebind (deref client) (\<lambda>c.
        if accept_res = 0 then uv_read_start w2 c Downstream_read
        else cleanup_and_close w2 c)))"

section \<open>The event loop\<close>

text \<open>
  One event libuv delivers: a connection on the listening socket, the result of a \<open>read\<close> on a
  stream (\<open>Readable s n bs\<close>, the bytes for \<open>n > 0\<close>, \<open>n < 0\<close> for end of file and errors), the end
  of a connection attempt, \<open>k\<close> bytes of the oldest write request taken by the kernel, and the
  callback of that request with its status. \<open>WriteDone\<close> with a status that is not an error lets
  the kernel take what is left of the request first. On a stream that is closing the kernel takes
  nothing any more, but libuv still makes the callbacks: with an error for a request that is not
  finished, with its own status for one whose bytes were all taken before.
\<close>

datatype event =
    NewConnection int int
  | Readable nat int "u8 list"
  | Connected nat int
  | WritePart nat nat
  | WriteDone nat int

text \<open>
  \<open>take_bytes\<close> is the \<open>write\<close> of the kernel: it reads the next bytes of the oldest request where
  the request points, at the moment of the event; a \<open>write\<close> of no bytes reads nothing.
\<close>

definition take_bytes :: "proxy \<Rightarrow> nat \<Rightarrow> uv_stream_t \<Rightarrow> write_req_t \<Rightarrow> int \<Rightarrow> uv_stream_t exec" where
  "take_bytes w s x r k = (if k = 0 then Inr x else
     ebind (heap_read (px_heap w) (wr_addr r) (wr_off r) k) (\<lambda>bs.
     Inr (x\<lparr>st_delivered := st_delivered x @ bs\<rparr>)))"

fun run_write_cb :: "write_cb \<Rightarrow> proxy \<Rightarrow> nat \<Rightarrow> int \<Rightarrow> proxy exec" where
  "run_write_cb After_upstream_write w s status = after_upstream_write w s status"
| "run_write_cb After_downstream_write w s status = after_downstream_write w s status"

fun run_read_cb :: "read_cb \<Rightarrow> proxy \<Rightarrow> nat \<Rightarrow> int \<Rightarrow> addr \<Rightarrow> proxy exec" where
  "run_read_cb Downstream_read w s nread base = downstream_read w s nread base"
| "run_read_cb Upstream_read w s nread base = upstream_read w s nread base"

fun proxy_step :: "proxy \<Rightarrow> event \<Rightarrow> proxy exec" where
  "proxy_step w (NewConnection status accept_res) =
     on_new_downstream_connection w status accept_res"
| "proxy_step w (Readable s nread bs) =
     ebind (get_stream w s) (\<lambda>x.
     case st_read_cb x of
       None \<Rightarrow> Inr w
     | Some cb \<Rightarrow>
         (case alloc_buffer (px_heap w) (64 * 1024) of
            (None, h) \<Rightarrow> Inl NullDeref
          | (Some base, h) \<Rightarrow>
              ebind (heap_write h base 0 (take (nat nread) bs)) (\<lambda>h1.
              run_read_cb cb (w\<lparr>px_heap := h1\<rparr>) s nread base)))"
| "proxy_step w (Connected s status) =
     ebind (get_stream w s) (\<lambda>x.
     if st_connecting x then
       on_upstream_connect (put_stream w s (x\<lparr>st_connecting := False\<rparr>)) s status
     else Inr w)"
| "proxy_step w (WritePart s k) =
     ebind (get_stream w s) (\<lambda>x.
     case st_writes x of
       [] \<Rightarrow> Inr w
     | r # rs \<Rightarrow>
         if st_connecting x \<or> st_closing x \<or> int k > wr_len r then Inr w
         else ebind (take_bytes w s x r (int k)) (\<lambda>x1.
           Inr (put_stream w s
             (x1\<lparr>st_writes := r\<lparr>wr_off := wr_off r + int k, wr_len := wr_len r - int k\<rparr> # rs\<rparr>))))"
| "proxy_step w (WriteDone s status) =
     ebind (get_stream w s) (\<lambda>x.
     case st_writes x of
       [] \<Rightarrow> Inr w
     | r # rs \<Rightarrow>
         if st_connecting x \<or> (st_closing x \<and> status \<ge> 0 \<and> wr_len r \<noteq> 0) then Inr w
         else ebind (if status < 0 then Inr x else take_bytes w s x r (wr_len r)) (\<lambda>x1.
           run_write_cb (wr_cb r) (put_stream w s (x1\<lparr>st_writes := rs\<rparr>)) s status))"

fun proxy_run :: "proxy \<Rightarrow> event list \<Rightarrow> proxy exec" where
  "proxy_run w [] = Inr w"
| "proxy_run w (e # es) = ebind (proxy_step w e) (\<lambda>w1. proxy_run w1 es)"

definition proxy_init :: "heap \<Rightarrow> proxy" where
  "proxy_init h = \<lparr>px_heap = h, px_streams = (\<lambda>_. None), px_next = 0\<rparr>"

end
