(* ===== verification/ProxyInv.thy ===== *)
theory ProxyInv
  imports Proxy
begin

text \<open>
  The invariant of the proxy in runs without failures: every stream is paired with at most one
  peer, and for each direction the bytes read from one side are the bytes the other side's
  socket has taken, followed by the bytes still in the buffer, in order.
\<close>

section \<open>The invariant\<close>

definition no_oom :: "heap \<Rightarrow> bool" where
  "no_oom h \<longleftrightarrow> (\<forall>k. \<not> hp_oom h k)"

definition is_down :: "uv_stream_t \<Rightarrow> bool" where
  "is_down x \<longleftrightarrow> st_read_cb x = Some Downstream_read"

definition wcb_of :: "uv_stream_t \<Rightarrow> write_cb" where
  "wcb_of x = (if is_down x then After_upstream_write else After_downstream_write)"

text \<open>
  A stream whose peer is still connecting has data waiting for it; \<open>E\<close> exempts the stream for
  which \<open>downstream_read\<close> has just created the connection and not yet stored what it read.

  One direction: \<open>cb\<close> and \<open>b\<close> belong to the stream that is read, \<open>ws\<close> and \<open>dl\<close> are the queue and
  the delivered bytes of its peer, \<open>rc\<close> is everything read so far.
\<close>

definition in_order :: "heap \<Rightarrow> callback_data_t \<Rightarrow> rts_buf_t \<Rightarrow> write_req_t list \<Rightarrow> write_cb
    \<Rightarrow> u8 list \<Rightarrow> u8 list \<Rightarrow> bool \<Rightarrow> bool" where
  "in_order h cb b ws wcb dl rc ready \<longleftrightarrow>
     0 \<le> cb_pos cb \<and> cb_pos cb \<le> cb_last cb \<and> cb_last cb \<le> rb_size b \<and>
     (if cb_pos cb = cb_last cb
      then ws = [] \<and> cb_last cb = 0 \<and> (ready \<longrightarrow> rb_size b = 0) \<and> rc = dl @ rts_buf_contents h b
      else ready \<and> (\<exists>r. ws = [r] \<and> wr_addr r = rb_buf b \<and> wr_cb r = wcb \<and> cb_pos cb \<le> wr_off r \<and>
             0 \<le> wr_len r \<and> wr_off r + wr_len r = cb_last cb \<and>
             rc = dl @ drop (nat (wr_off r)) (rts_buf_contents h b)))"

definition conn_ok :: "nat set \<Rightarrow> proxy \<Rightarrow> (nat \<Rightarrow> u8 list) \<Rightarrow> nat \<Rightarrow> uv_stream_t \<Rightarrow> callback_data_t \<Rightarrow> rts_buf_t
    \<Rightarrow> stream_conn_t \<Rightarrow> bool" where
  "conn_ok E w rc s x cb b c \<longleftrightarrow> sc_stream c \<noteq> s \<and>
     (s \<notin> E \<longrightarrow> \<not> sc_ready c \<longrightarrow> 0 < rb_size b) \<and>
     (case px_streams w (sc_stream c) of
        None \<Rightarrow> False
      | Some y \<Rightarrow>
          (\<exists>cb'. st_data y = Data cb' \<and> map_option sc_stream (cb_stream_conn cb') = Some s) \<and>
          is_down x \<noteq> is_down y \<and> sc_ready c = (\<not> st_connecting y) \<and>
          in_order (px_heap w) cb b (st_writes y) (wcb_of x) (st_delivered y) (rc s) (sc_ready c))"

definition stream_ok :: "nat set \<Rightarrow> proxy \<Rightarrow> (nat \<Rightarrow> u8 list) \<Rightarrow> nat \<Rightarrow> uv_stream_t \<Rightarrow> bool" where
  "stream_ok E w rc s x \<longleftrightarrow>
     (\<exists>cb b. st_data x = Data cb \<and> cb_buf cb = Some b \<and> rts_buf_ok (px_heap w) b \<and>
        \<not> st_closing x \<and> st_connecting x = (st_read_cb x = None) \<and>
        (case cb_stream_conn cb of
           None \<Rightarrow> is_down x \<and> cb_pos cb = 0 \<and> cb_last cb = 0 \<and> rb_size b = 0 \<and> rc s = [] \<and>
                   st_writes x = [] \<and> st_delivered x = []
         | Some c \<Rightarrow> conn_ok E w rc s x cb b c))"

lemma stream_okE:
  assumes "stream_ok E w rc s x"
  obtains cb b where "st_data x = Data cb" "cb_buf cb = Some b" "rts_buf_ok (px_heap w) b"
    "\<not> st_closing x" "st_connecting x = (st_read_cb x = None)"
    "case cb_stream_conn cb of
       None \<Rightarrow> is_down x \<and> cb_pos cb = 0 \<and> cb_last cb = 0 \<and> rb_size b = 0 \<and> rc s = [] \<and>
               st_writes x = [] \<and> st_delivered x = []
     | Some c \<Rightarrow> conn_ok E w rc s x cb b c"
  using assms that unfolding stream_ok_def by (elim exE conjE)

lemma conn_okE:
  assumes "conn_ok E w rc s x cb b c"
  obtains y cb' c' where "px_streams w (sc_stream c) = Some y" "st_data y = Data cb'"
    "cb_stream_conn cb' = Some c'" "sc_stream c' = s" "sc_stream c \<noteq> s" "is_down x \<noteq> is_down y"
    "sc_ready c = (\<not> st_connecting y)" "s \<notin> E \<longrightarrow> \<not> sc_ready c \<longrightarrow> 0 < rb_size b"
    "in_order (px_heap w) cb b (st_writes y) (wcb_of x) (st_delivered y) (rc s) (sc_ready c)"
proof -
  from assms obtain y where y: "px_streams w (sc_stream c) = Some y"
    by (auto simp: conn_ok_def split: option.splits)
  with assms obtain cb' where cb': "st_data y = Data cb'"
    "map_option sc_stream (cb_stream_conn cb') = Some s"
    by (auto simp: conn_ok_def)
  then obtain c' where c': "cb_stream_conn cb' = Some c'" "sc_stream c' = s" by auto
  show ?thesis
    by (rule that [OF y cb'(1) c']) (use assms y in \<open>auto simp: conn_ok_def\<close>)
qed

definition buf_addr :: "uv_stream_t \<Rightarrow> addr option" where
  "buf_addr x = (case st_data x of Data cb \<Rightarrow> map_option rb_buf (cb_buf cb) | _ \<Rightarrow> None)"

definition peer_of :: "uv_stream_t \<Rightarrow> nat option" where
  "peer_of x = (case st_data x of Data cb \<Rightarrow> map_option sc_stream (cb_stream_conn cb) | _ \<Rightarrow> None)"

definition px_inv :: "nat set \<Rightarrow> proxy \<Rightarrow> (nat \<Rightarrow> u8 list) \<Rightarrow> bool" where
  "px_inv E w rc \<longleftrightarrow> heap_ok (px_heap w) \<and> no_oom (px_heap w) \<and>
     (\<forall>s x. px_streams w s = Some x \<longrightarrow> s < px_next w \<and> stream_ok E w rc s x) \<and>
     (\<forall>s. px_next w \<le> s \<longrightarrow> rc s = []) \<and>
     (\<forall>s t x y. px_streams w s = Some x \<longrightarrow> px_streams w t = Some y \<longrightarrow> buf_addr x = buf_addr y \<longrightarrow> s = t)"

lemma px_inv_stream_ok: "px_inv E w rc \<Longrightarrow> px_streams w s = Some x \<Longrightarrow> stream_ok E w rc s x"
  by (simp add: px_inv_def)

lemma px_inv_peer_sym:
  assumes "px_inv E w rc" "px_streams w s = Some x" "peer_of x = Some p"
  obtains y where "px_streams w p = Some y" "peer_of y = Some s" "p \<noteq> s"
proof -
  obtain cb b where cb: "st_data x = Data cb" and c: "case cb_stream_conn cb of
       None \<Rightarrow> is_down x \<and> cb_pos cb = 0 \<and> cb_last cb = 0 \<and> rb_size b = 0 \<and> rc s = [] \<and>
               st_writes x = [] \<and> st_delivered x = []
     | Some c \<Rightarrow> conn_ok E w rc s x cb b c"
    using px_inv_stream_ok [OF assms(1,2)] by (elim stream_okE)
  from cb assms(3) obtain k where k: "cb_stream_conn cb = Some k" "sc_stream k = p"
    by (auto simp: peer_of_def)
  with c have "conn_ok E w rc s x cb b k" by simp
  then show ?thesis using that k by (elim conn_okE) (auto simp: peer_of_def)
qed

text \<open>
  A stream keeps its property when its own record, its peer's record and the block of its
  buffer are unchanged.
\<close>

lemma stream_ok_frame:
  assumes ok: "stream_ok E w rc t z" and z: "px_streams w t = Some z"
    and peer: "\<And>p. peer_of z = Some p \<Longrightarrow> px_streams w' p = px_streams w p"
    and mem: "\<And>a. buf_addr z = Some a \<Longrightarrow> hp_mem (px_heap w') a = hp_mem (px_heap w) a"
    and rc: "rc' t = rc t" and e: "t \<in> E \<longleftrightarrow> t \<in> E'"
  shows "stream_ok E' w' rc' t z"
proof -
  obtain cb b where cb: "st_data z = Data cb" "cb_buf cb = Some b" "rts_buf_ok (px_heap w) b"
    "\<not> st_closing z" "st_connecting z = (st_read_cb z = None)"
    and c: "case cb_stream_conn cb of
           None \<Rightarrow> is_down z \<and> cb_pos cb = 0 \<and> cb_last cb = 0 \<and> rb_size b = 0 \<and> rc t = [] \<and>
                   st_writes z = [] \<and> st_delivered z = []
         | Some c \<Rightarrow> conn_ok E w rc t z cb b c"
    using ok by (elim stream_okE)
  have m: "hp_mem (px_heap w') (rb_buf b) = hp_mem (px_heap w) (rb_buf b)"
    using mem cb by (simp add: buf_addr_def)
  have bok: "rts_buf_ok (px_heap w') b" and cont: "rts_buf_contents (px_heap w') b = rts_buf_contents (px_heap w) b"
    using cb(3) m by (simp_all add: rts_buf_ok_def rts_buf_contents_def)
  have "case cb_stream_conn cb of
           None \<Rightarrow> is_down z \<and> cb_pos cb = 0 \<and> cb_last cb = 0 \<and> rb_size b = 0 \<and> rc' t = [] \<and>
                   st_writes z = [] \<and> st_delivered z = []
         | Some c \<Rightarrow> conn_ok E' w' rc' t z cb b c"
    using c peer cb(1) rc e
    by (auto simp: conn_ok_def in_order_def cont peer_of_def split: option.splits)
  with cb bok show ?thesis unfolding stream_ok_def by (intro exI conjI)
qed

text \<open>
  The frame rule for a step on a stream \<open>s\<close> and its peer \<open>p\<close>: their records and buffers may
  change, a new stream appears only as one of them, and everything else stays.
\<close>

lemma px_inv_step:
  assumes inv: "px_inv E w rc" and h: "heap_ok (px_heap w')" "no_oom (px_heap w')"
    and same: "\<And>t. t \<notin> S \<Longrightarrow> px_streams w' t = px_streams w t \<and> rc' t = rc t \<and> (t \<in> E \<longleftrightarrow> t \<in> E')"
    and nxt: "px_next w \<le> px_next w'" "\<And>t. px_next w' \<le> t \<Longrightarrow> rc' t = []"
    and new: "\<And>t x. t \<in> S \<Longrightarrow> px_streams w' t = Some x \<Longrightarrow>
        t < px_next w' \<and> stream_ok E' w' rc' t x \<and>
        (buf_addr x = None \<or> (\<exists>x0. px_streams w t = Some x0 \<and> buf_addr x = buf_addr x0) \<or>
         (\<exists>a. buf_addr x = Some a \<and> hp_next (px_heap w) \<le> a)) "
    and closed: "\<And>t x p. t \<in> S \<Longrightarrow> px_streams w t = Some x \<Longrightarrow> peer_of x = Some p \<Longrightarrow> p \<in> S"
    and distinct: "\<And>s t x y. s \<in> S \<Longrightarrow> t \<in> S \<Longrightarrow> px_streams w' s = Some x \<Longrightarrow> px_streams w' t = Some y \<Longrightarrow>
        buf_addr x = buf_addr y \<Longrightarrow> s = t"
    and mem: "\<And>t x a. t \<notin> S \<Longrightarrow> px_streams w t = Some x \<Longrightarrow> buf_addr x = Some a \<Longrightarrow>
        hp_mem (px_heap w') a = hp_mem (px_heap w) a"
  shows "px_inv E' w' rc'"
proof -
  have old: "stream_ok E' w' rc' t z" if t: "t \<notin> S" and z: "px_streams w t = Some z" for t z
  proof (rule stream_ok_frame [OF px_inv_stream_ok [OF inv z] z])
    fix p assume p: "peer_of z = Some p"
    have "p \<notin> S"
    proof
      assume "p \<in> S"
      moreover obtain y where "px_streams w p = Some y" "peer_of y = Some t"
        using px_inv_peer_sym [OF inv z p] by blast
      ultimately show False using closed t by blast
    qed
    then show "px_streams w' p = px_streams w p" using same by blast
  next
    fix a assume "buf_addr z = Some a"
    then show "hp_mem (px_heap w') a = hp_mem (px_heap w) a" using mem t z by blast
  next
    show "rc' t = rc t" using same t by blast
    show "t \<in> E \<longleftrightarrow> t \<in> E'" using same t by blast
  qed
  have addr: "\<exists>a. buf_addr z = Some a \<and> hp_mem (px_heap w) a \<noteq> None"
    if "px_streams w t = Some z" for t z
    using px_inv_stream_ok [OF inv that]
    by (elim stream_okE) (auto simp: buf_addr_def dest: rts_buf_ok_live)
  have lt: "a < hp_next (px_heap w)" if "px_streams w t = Some z" "buf_addr z = Some a" for t z a
    using addr [OF that(1)] that(2) inv by (auto simp: px_inv_def heap_ok_def)
  have cross: False if s: "s \<in> S" "px_streams w' s = Some x" and t: "t \<notin> S" "px_streams w' t = Some y"
    and e: "buf_addr x = buf_addr y" for s t x y
  proof -
    have y: "px_streams w t = Some y" using same t by simp
    then obtain a where a: "buf_addr y = Some a" "a < hp_next (px_heap w)" using addr lt by blast
    then obtain x0 where x0: "px_streams w s = Some x0" "buf_addr x0 = Some a"
      using new [OF s] e by fastforce
    have "s = t" using inv x0 y a by (auto simp: px_inv_def)
    with s t show False by blast
  qed
  show ?thesis
    unfolding px_inv_def
  proof (intro conjI allI impI h)
    fix s x assume sx: "px_streams w' s = Some x"
    show "s < px_next w'"
    proof (cases "s \<in> S")
      case False
      then have "s < px_next w" using sx same inv by (auto simp: px_inv_def)
      then show ?thesis using nxt(1) by simp
    qed (use new sx in blast)
    show "stream_ok E' w' rc' s x"
      by (cases "s \<in> S") (use new sx same old in auto)
  next
    fix s assume "px_next w' \<le> s" then show "rc' s = []" by (rule nxt(2))
  next
    fix s t x y
    assume st: "px_streams w' s = Some x" "px_streams w' t = Some y" and e: "buf_addr x = buf_addr y"
    show "s = t"
    proof (cases "s \<in> S"; cases "t \<in> S")
      assume "s \<notin> S" "t \<notin> S"
      then show ?thesis using st e same inv by (auto simp: px_inv_def)
    next
      assume "s \<in> S" "t \<notin> S"
      then show ?thesis using cross st e by blast
    next
      assume "s \<notin> S" "t \<in> S"
      then show ?thesis using cross st e [symmetric] by blast
    next
      assume "s \<in> S" "t \<in> S"
      then show ?thesis using distinct st e by blast
    qed
  qed
qed

section \<open>Access on states that satisfy the invariant\<close>

named_theorems px_simps \<open>equations for stream access\<close>

lemma get_stream_Some [px_simps]: "px_streams w s = Some x \<Longrightarrow> get_stream w s = Inr x"
  by (simp add: get_stream_def)

lemma get_cb_Data [px_simps]: "px_streams w s = Some x \<Longrightarrow> st_data x = Data cb \<Longrightarrow> get_cb w s = Inr cb"
  by (simp add: get_cb_def get_stream_def)

lemma put_cb_Some [px_simps]:
  "px_streams w s = Some x \<Longrightarrow> put_cb w s cb = Inr (put_stream w s (x\<lparr>st_data := Data cb\<rparr>))"
  by (simp add: put_cb_def get_stream_def)

lemma px_streams_put [px_simps]: "px_streams (put_stream w s x) = (px_streams w)(s \<mapsto> x)"
  by (simp add: put_stream_def)

lemma px_heap_put [px_simps]: "px_heap (put_stream w s x) = px_heap w"
  by (simp add: put_stream_def)

lemma px_next_put [px_simps]: "px_next (put_stream w s x) = px_next w"
  by (simp add: put_stream_def)

lemma malloc_struct_no_oom [px_simps]:
  "no_oom (px_heap w) \<Longrightarrow>
   malloc_struct w = (True, w\<lparr>px_heap := (px_heap w)\<lparr>hp_next := Suc (hp_next (px_heap w))\<rparr>\<rparr>)"
  by (simp add: malloc_struct_def malloc_obj_def no_oom_def)

lemma malloc_no_oom [px_simps]:
  "no_oom h \<Longrightarrow> malloc h n =
     (Some (hp_next h), h\<lparr>hp_next := Suc (hp_next h),
        hp_mem := (hp_mem h)(hp_next h \<mapsto> replicate (nat n) (hp_junk h))\<rparr>)"
  by (simp add: malloc_def no_oom_def Let_def)

lemma uv_write_open [px_simps]:
  "px_streams w s = Some x \<Longrightarrow> \<not> st_closing x \<Longrightarrow>
   uv_write w s r = Inr (put_stream w s (x\<lparr>st_writes := st_writes x @ [r]\<rparr>))"
  by (simp add: uv_write_def get_stream_def)

lemma uv_read_start_open [px_simps]:
  "px_streams w s = Some x \<Longrightarrow> \<not> st_closing x \<Longrightarrow>
   uv_read_start w s cb = Inr (put_stream w s (x\<lparr>st_read_cb := Some cb\<rparr>))"
  by (simp add: uv_read_start_def get_stream_def)

section \<open>Steps of the transfer\<close>

lemma transfer_idle:
  assumes "px_streams w s = Some x" "st_data x = Data cb" "cb_buf cb = Some b"
    and "cb_pos cb = cb_last cb" "0 \<le> cb_pos cb" "cb_pos cb \<le> rb_size b" "rb_size b < 2 ^ 31"
    and "px_streams w p = Some y" "\<not> st_closing y" "p \<noteq> s" "no_oom (px_heap w)"
  shows "transfer_stream_data w s p wcb = Inr (0,
    w\<lparr>px_heap := (px_heap w)\<lparr>hp_next := Suc (hp_next (px_heap w))\<rparr>,
       px_streams := (px_streams w)(s \<mapsto> x\<lparr>st_data := Data (cb\<lparr>cb_last := rb_size b\<rparr>)\<rparr>,
         p \<mapsto> y\<lparr>st_writes := st_writes y @ [\<lparr>wr_addr = rb_buf b, wr_off = cb_pos cb,
              wr_len = rb_size b - cb_pos cb, wr_cb = wcb\<rparr>]\<rparr>)\<rparr>)"
  using assms
  by (simp add: transfer_stream_data_def px_simps Let_def uv_write_def get_stream_def put_stream_def)

lemma append_to_cb_ok:
  assumes "px_streams w s = Some x" "st_data x = Data cb" "cb_buf cb = Some b"
    and "hp_mem (px_heap w) base = Some (bs @ rest)" "n = int (length bs)"
    and "rts_buf_ok (px_heap w) b" "heap_ok (px_heap w)" "no_oom (px_heap w)" "rts_buf_fits b n"
  obtains b' h' where
    "append_to_cb w s base n = Inr (w\<lparr>px_heap := h', px_streams := (px_streams w)
        (s \<mapsto> x\<lparr>st_data := Data (cb\<lparr>cb_buf := Some b'\<rparr>)\<rparr>)\<rparr>)"
    "rts_buf_appended (px_heap w) b bs b' h'"
proof -
  obtain b' h' where a: "rts_buf_append (px_heap w) b (Some (bs @ rest)) n = Inr (0, b', h')"
    "rts_buf_appended (px_heap w) b bs b' h'"
    using rts_buf_append_cases [of "px_heap w" b n "bs @ rest"] assms
    by (auto simp: no_oom_def)
  show ?thesis
    by (rule that [OF _ a(2)])
      (use assms a(1) in \<open>simp add: append_to_cb_def get_cb_def get_stream_def block_bytes_def
         put_cb_def put_stream_def\<close>)
qed

text \<open>
  What a read of \<open>bs\<close> leaves behind, for a stream with a peer: the new record of the stream,
  the new record of its peer and the new heap. \<open>received\<close> relates them to the state in which
  the bytes are in the read buffer at \<open>base\<close>, which is freed.
\<close>

definition received :: "proxy \<Rightarrow> addr \<Rightarrow> nat \<Rightarrow> nat \<Rightarrow> u8 list \<Rightarrow> write_cb \<Rightarrow> proxy \<Rightarrow> bool" where
  "received w base s p bs wcb w' \<longleftrightarrow>
     (\<exists>x cb b y b' c. px_streams w s = Some x \<and> st_data x = Data cb \<and> cb_buf cb = Some b \<and>
        cb_stream_conn cb = Some c \<and> sc_stream c = p \<and> px_streams w p = Some y \<and>
        rts_buf_ok (px_heap w') b' \<and> rts_buf_contents (px_heap w') b' = rts_buf_contents (px_heap w) b @ bs \<and>
        rb_size b' = rb_size b + int (length bs) \<and>
        (rb_buf b' = rb_buf b \<or> hp_next (px_heap w) \<le> rb_buf b' \<and> cb_pos cb = cb_last cb) \<and>
        heap_ok (px_heap w') \<and> no_oom (px_heap w') \<and> px_next w' = px_next w \<and>
        (\<forall>a. a < hp_next (px_heap w) \<longrightarrow> a \<noteq> rb_buf b \<longrightarrow> a \<noteq> base \<longrightarrow>
           hp_mem (px_heap w') a = hp_mem (px_heap w) a) \<and>
        px_streams w' =
          (if sc_ready c \<and> cb_pos cb = cb_last cb
           then (px_streams w)(s \<mapsto> x\<lparr>st_data := Data (cb\<lparr>cb_buf := Some b', cb_last := rb_size b'\<rparr>)\<rparr>,
                  p \<mapsto> y\<lparr>st_writes := st_writes y @ [\<lparr>wr_addr = rb_buf b', wr_off = cb_pos cb,
                       wr_len = rb_size b' - cb_pos cb, wr_cb = wcb\<rparr>]\<rparr>)
           else (px_streams w)(s \<mapsto> x\<lparr>st_data := Data (cb\<lparr>cb_buf := Some b'\<rparr>)\<rparr>)))"

end
