(* ===== verification/ProxySteps.thy ===== *)
theory ProxySteps
  imports ProxyInv
begin

text \<open>
  Every event of a run without failures keeps the invariant of \<open>ProxyInv\<close>: the lemmas per
  callback, and the events such a run consists of.
\<close>

section \<open>Receiving data\<close>

lemma rts_buf_appended_heap:
  assumes "rts_buf_appended h b bs b' h'" "no_oom h"
  shows "no_oom h'"
  using assms by (simp add: rts_buf_appended_def no_oom_def)

lemma receive_steps:
  assumes h1: "heap_ok (px_heap w1)" "no_oom (px_heap w1)" "hp_mem (px_heap w1) base = Some (bs @ rest)"
    and x: "px_streams w1 s = Some x" "st_data x = Data cb" "cb_buf cb = Some b"
    and b: "rts_buf_ok (px_heap w1) b" "rts_buf_fits b n" "n = int (length bs)" "rb_buf b \<noteq> base"
    and room: "cb_pos cb = cb_last cb \<or> n + 1 \<le> rb_capacity b - rb_size b"
    and pos: "0 \<le> cb_pos cb" "cb_pos cb \<le> rb_size b"
    and c: "cb_stream_conn cb = Some c" "sc_stream c = p" "p \<noteq> s"
    and y: "px_streams w1 p = Some y" "\<not> st_closing y"
  shows "\<exists>w'. ebind (append_to_cb w1 s base n) (\<lambda>w2. ebind (forward w2 s wcb) (\<lambda>w3. free_base w3 base)) = Inr w'
    \<and> received w1 base s p bs wcb w'"
proof -
  let ?h1 = "px_heap w1"
  let ?n = "hp_next ?h1"
  have lt: "rb_buf b < ?n" "base < ?n"
    using b(1) h1 by (auto simp: heap_ok_def dest: rts_buf_ok_live)
  obtain b' h2 where ap: "append_to_cb w1 s base n = Inr (w1\<lparr>px_heap := h2,
        px_streams := (px_streams w1)(s \<mapsto> x\<lparr>st_data := Data (cb\<lparr>cb_buf := Some b'\<rparr>)\<rparr>)\<rparr>)"
      and bs': "rts_buf_appended ?h1 b bs b' h2"
    by (rule append_to_cb_ok [OF x h1(3) b(3) b(1) h1(1,2) b(2)])
  let ?w2 = "w1\<lparr>px_heap := h2,
        px_streams := (px_streams w1)(s \<mapsto> x\<lparr>st_data := Data (cb\<lparr>cb_buf := Some b'\<rparr>)\<rparr>)\<rparr>"
  have h2: "heap_ok h2" "rts_buf_ok h2 b'" "rts_buf_contents h2 b' = rts_buf_contents ?h1 b @ bs"
      "rb_size b' = rb_size b + int (length bs)" "no_oom h2" "rb_size b' < 2 ^ 31"
    using bs' h1 rts_buf_appended_heap [OF bs' h1(2)]
    by (auto simp: rts_buf_appended_def elim: rts_buf_okE)
  have mem2: "hp_mem h2 a = hp_mem ?h1 a" if "a \<noteq> rb_buf b" "a < ?n" for a
    using bs' that by (auto simp: rts_buf_appended_def)
  have mv: "rb_buf b' = rb_buf b \<or> ?n \<le> rb_buf b' \<and> cb_pos cb = cb_last cb"
    using bs' room b(3) by (auto simp: rts_buf_appended_def)
  have bb: "rb_buf b' \<noteq> base" using mv b(4) lt by auto
  have base2: "hp_mem h2 base = Some (bs @ rest)" using mem2 b(4) lt h1(3) by auto
  let ?clear = "\<lambda>h. h\<lparr>hp_mem := (hp_mem h)(base := None)\<rparr>"
  have fin: "heap_ok (?clear h) \<and> no_oom (?clear h) \<and> rts_buf_ok (?clear h) b'
     \<and> rts_buf_contents (?clear h) b' = rts_buf_contents ?h1 b @ bs"
     if "h = h2 \<or> h = h2\<lparr>hp_next := Suc (hp_next h2)\<rparr>" for h
    using that h2(1-3,5) bb heap_ok_clear [of h2 base] heap_ok_clear [OF heap_ok_Suc_next [OF h2(1)], of base]
    by (auto simp: no_oom_def rts_buf_ok_def rts_buf_contents_def)
  let ?x1 = "x\<lparr>st_data := Data (cb\<lparr>cb_buf := Some b'\<rparr>)\<rparr>" and ?cb1 = "cb\<lparr>cb_buf := Some b'\<rparr>"
  have x1: "px_streams ?w2 s = Some ?x1" "st_data ?x1 = Data ?cb1" "cb_buf ?cb1 = Some b'"
     "px_streams ?w2 p = Some y" "no_oom (px_heap ?w2)" using y c h2(5) by auto
  show ?thesis
  proof (cases "sc_ready c \<and> cb_pos cb = cb_last cb")
    case True
    let ?h3 = "h2\<lparr>hp_next := Suc (hp_next h2)\<rparr>"
    let ?w3 = "?w2\<lparr>px_heap := ?h3,
       px_streams := (px_streams w1)(s \<mapsto> x\<lparr>st_data := Data (cb\<lparr>cb_buf := Some b', cb_last := rb_size b'\<rparr>)\<rparr>,
         p \<mapsto> y\<lparr>st_writes := st_writes y @ [\<lparr>wr_addr = rb_buf b', wr_off = cb_pos cb,
              wr_len = rb_size b' - cb_pos cb, wr_cb = wcb\<rparr>]\<rparr>)\<rparr>"
    have tr: "transfer_stream_data ?w2 s p wcb = Inr (0, ?w3)"
      using True pos h2 c y by (subst transfer_idle [OF x1(1-3) _ _ _ _ x1(4) y(2) _ x1(5)]) auto
    have fw: "forward ?w2 s wcb = Inr ?w3"
      using True c tr by (simp add: forward_def get_cb_def get_stream_def)
    have fr: "free_base ?w3 base = Inr (?w3\<lparr>px_heap := ?clear ?h3\<rparr>)"
      using base2 by (simp add: free_base_def free_block_def)
    show ?thesis
      using ap fw fr x c y True h2 mv mem2 fin [of ?h3] by (auto simp: received_def)
  next
    case False
    have fw: "forward ?w2 s wcb = Inr ?w2"
      using False c by (auto simp: forward_def get_cb_def get_stream_def)
    have fr: "free_base ?w2 base = Inr (?w2\<lparr>px_heap := ?clear h2\<rparr>)"
      using base2 by (simp add: free_base_def free_block_def)
    show ?thesis
      using ap fw fr x c y False h2 mv mem2 fin [of h2] by (auto simp: received_def)
  qed
qed

lemma in_order_receive_idle:
  assumes "in_order h cb b ws wcb dl rc ready" "cb_pos cb = cb_last cb" "bs \<noteq> []"
    and "rts_buf_contents h' b' = rts_buf_contents h b @ bs" "rb_size b' = rb_size b + int (length bs)"
    and "rts_buf_ok h b"
  shows "\<not> ready \<Longrightarrow> in_order h' (cb\<lparr>cb_buf := Some b'\<rparr>) b' ws wcb dl (rc @ bs) ready"
    and "ready \<Longrightarrow> in_order h' (cb\<lparr>cb_buf := Some b', cb_last := rb_size b'\<rparr>) b'
        (ws @ [\<lparr>wr_addr = rb_buf b', wr_off = cb_pos cb, wr_len = rb_size b' - cb_pos cb, wr_cb = wcb\<rparr>])
        wcb dl (rc @ bs) ready"
  using assms length_rts_buf_contents [OF assms(6)] by (auto simp: in_order_def)

lemma in_order_receive_busy:
  assumes "in_order h cb b ws wcb dl rc ready" "cb_pos cb \<noteq> cb_last cb"
    and "rts_buf_contents h' b' = rts_buf_contents h b @ bs" "rb_size b' = rb_size b + int (length bs)"
    and "rb_buf b' = rb_buf b" "rts_buf_ok h b"
  shows "in_order h' (cb\<lparr>cb_buf := Some b'\<rparr>) b' ws wcb dl (rc @ bs) ready"
  using assms length_rts_buf_contents [OF assms(6)] by (auto simp: in_order_def)

lemma stream_okI:
  assumes "st_data x = Data cb" "cb_buf cb = Some b" "rts_buf_ok (px_heap w) b"
    "\<not> st_closing x" "st_connecting x = (st_read_cb x = None)"
    "cb_stream_conn cb = Some c" "conn_ok E w rc s x cb b c"
  shows "stream_ok E w rc s x"
  using assms by (auto simp: stream_ok_def)

lemma conn_okI:
  assumes "px_streams w (sc_stream c) = Some y" "st_data y = Data cb'" "cb_stream_conn cb' = Some c'"
    "sc_stream c' = s" "sc_stream c \<noteq> s" "is_down x \<noteq> is_down y" "sc_ready c = (\<not> st_connecting y)"
    "s \<notin> E \<Longrightarrow> \<not> sc_ready c \<Longrightarrow> 0 < rb_size b"
    "in_order (px_heap w) cb b (st_writes y) (wcb_of x) (st_delivered y) (rc s) (sc_ready c)"
  shows "conn_ok E w rc s x cb b c"
  using assms by (auto simp: conn_ok_def)

lemma in_order_frame:
  "in_order h cb b ws wcb dl rc ready \<Longrightarrow> hp_mem h' (rb_buf b) = hp_mem h (rb_buf b) \<Longrightarrow>
   in_order h' cb b ws wcb dl rc ready"
  by (subgoal_tac "rts_buf_contents h' b = rts_buf_contents h b")
    (simp_all add: in_order_def, simp add: rts_buf_contents_def)

lemma px_inv_addr:
  assumes "px_inv E w rc" "px_streams w s = Some x"
  shows "\<exists>a. buf_addr x = Some a \<and> a < hp_next (px_heap w)"
  using px_inv_stream_ok [OF assms] assms(1)
  by (elim stream_okE) (auto simp: buf_addr_def px_inv_def heap_ok_def dest: rts_buf_ok_live)

lemma px_inv_addr_distinct:
  "px_inv E w rc \<Longrightarrow> px_streams w s = Some x \<Longrightarrow> px_streams w t = Some y \<Longrightarrow> s \<noteq> t
   \<Longrightarrow> buf_addr x \<noteq> buf_addr y"
  by (auto simp: px_inv_def)

text \<open>The stream and its peer under the invariant, with both directions.\<close>

lemma px_inv_pairE:
  assumes "px_inv E w rc" "px_streams w s = Some x" "st_data x = Data cb" "cb_stream_conn cb = Some c"
  obtains b y cb' b' c' where
    "cb_buf cb = Some b" "rts_buf_ok (px_heap w) b" "\<not> st_closing x"
    "st_connecting x = (st_read_cb x = None)"
    "px_streams w (sc_stream c) = Some y" "st_data y = Data cb'" "cb_buf cb' = Some b'"
    "rts_buf_ok (px_heap w) b'" "\<not> st_closing y" "st_connecting y = (st_read_cb y = None)"
    "cb_stream_conn cb' = Some c'" "sc_stream c' = s" "sc_stream c \<noteq> s" "is_down x \<noteq> is_down y"
    "sc_ready c = (\<not> st_connecting y)" "sc_ready c' = (\<not> st_connecting x)"
    "s \<notin> E \<longrightarrow> \<not> sc_ready c \<longrightarrow> 0 < rb_size b"
    "sc_stream c \<notin> E \<longrightarrow> \<not> sc_ready c' \<longrightarrow> 0 < rb_size b'"
    "in_order (px_heap w) cb b (st_writes y) (wcb_of x) (st_delivered y) (rc s) (sc_ready c)"
    "in_order (px_heap w) cb' b' (st_writes x) (wcb_of y) (st_delivered x) (rc (sc_stream c)) (sc_ready c')"
    "rb_buf b \<noteq> rb_buf b'"
proof -
  obtain b where b: "cb_buf cb = Some b" "rts_buf_ok (px_heap w) b" "\<not> st_closing x"
    "st_connecting x = (st_read_cb x = None)" "conn_ok E w rc s x cb b c"
    using px_inv_stream_ok [OF assms(1,2)] assms(3,4) by (elim stream_okE) auto
  obtain y cb' c' where y: "px_streams w (sc_stream c) = Some y" "st_data y = Data cb'"
    "cb_stream_conn cb' = Some c'" "sc_stream c' = s" "sc_stream c \<noteq> s" "is_down x \<noteq> is_down y"
    "sc_ready c = (\<not> st_connecting y)" "s \<notin> E \<longrightarrow> \<not> sc_ready c \<longrightarrow> 0 < rb_size b"
    "in_order (px_heap w) cb b (st_writes y) (wcb_of x) (st_delivered y) (rc s) (sc_ready c)"
    using b(5) by (elim conn_okE)
  obtain b' where b': "cb_buf cb' = Some b'" "rts_buf_ok (px_heap w) b'" "\<not> st_closing y"
    "st_connecting y = (st_read_cb y = None)" "conn_ok E w rc (sc_stream c) y cb' b' c'"
    using px_inv_stream_ok [OF assms(1) y(1)] y(2,3) by (elim stream_okE) auto
  have d: "sc_ready c' = (\<not> st_connecting x)"
    "sc_stream c \<notin> E \<longrightarrow> \<not> sc_ready c' \<longrightarrow> 0 < rb_size b'"
    "in_order (px_heap w) cb' b' (st_writes x) (wcb_of y) (st_delivered x) (rc (sc_stream c)) (sc_ready c')"
    using b'(5) y(4) assms(2) by (auto elim!: conn_okE)
  have ne: "rb_buf b \<noteq> rb_buf b'"
    using px_inv_addr_distinct [OF assms(1) y(1) assms(2) y(5)] assms(3) y(2) b(1) b'(1)
    by (auto simp: buf_addr_def)
  show ?thesis by (rule that) (use b y b' d ne in auto)
qed


text \<open>No stream's buffer is the block at \<open>a\<close>.\<close>

definition unshared :: "proxy \<Rightarrow> addr \<Rightarrow> bool" where
  "unshared w a \<longleftrightarrow> (\<forall>t z. px_streams w t = Some z \<longrightarrow> buf_addr z \<noteq> Some a)"

lemma unsharedD: "unshared w a \<Longrightarrow> px_streams w t = Some z \<Longrightarrow> buf_addr z \<noteq> Some a"
  by (auto simp: unshared_def)

lemma received_inv:
  assumes inv: "px_inv E w rc" and r: "received w base s p bs (wcb_of x) w'"
    and base: "unshared w base"
    and x: "px_streams w s = Some x" and E: "E \<subseteq> {s}" and bs: "bs \<noteq> []"
  shows "px_inv {} w' (rc(s := rc s @ bs))"
proof -
  let ?h = "px_heap w" and ?h' = "px_heap w'" and ?rc = "rc(s := rc s @ bs)"
  from r x obtain cb b y b2 c where
    cb: "st_data x = Data cb" "cb_buf cb = Some b" "cb_stream_conn cb = Some c" "sc_stream c = p"
    and y: "px_streams w p = Some y"
    and b2: "rts_buf_ok ?h' b2" "rts_buf_contents ?h' b2 = rts_buf_contents ?h b @ bs"
      "rb_size b2 = rb_size b + int (length bs)"
      "rb_buf b2 = rb_buf b \<or> hp_next ?h \<le> rb_buf b2 \<and> cb_pos cb = cb_last cb"
    and h': "heap_ok ?h'" "no_oom ?h'" "px_next w' = px_next w"
      "\<And>a. a < hp_next ?h \<Longrightarrow> a \<noteq> rb_buf b \<Longrightarrow> a \<noteq> base \<Longrightarrow> hp_mem ?h' a = hp_mem ?h a"
    and str: "px_streams w' =
          (if sc_ready c \<and> cb_pos cb = cb_last cb
           then (px_streams w)(s \<mapsto> x\<lparr>st_data := Data (cb\<lparr>cb_buf := Some b2, cb_last := rb_size b2\<rparr>)\<rparr>,
                  p \<mapsto> y\<lparr>st_writes := st_writes y @ [\<lparr>wr_addr = rb_buf b2, wr_off = cb_pos cb,
                       wr_len = rb_size b2 - cb_pos cb, wr_cb = wcb_of x\<rparr>]\<rparr>)
           else (px_streams w)(s \<mapsto> x\<lparr>st_data := Data (cb\<lparr>cb_buf := Some b2\<rparr>)\<rparr>))"
    unfolding received_def by auto
  obtain b0 y0 cb' b' c' where pr:
    "cb_buf cb = Some b0" "rts_buf_ok ?h b0" "\<not> st_closing x" "st_connecting x = (st_read_cb x = None)"
    "px_streams w p = Some y0" "st_data y0 = Data cb'" "cb_buf cb' = Some b'"
    "rts_buf_ok ?h b'" "\<not> st_closing y0" "st_connecting y0 = (st_read_cb y0 = None)"
    "cb_stream_conn cb' = Some c'" "sc_stream c' = s" "p \<noteq> s" "is_down x \<noteq> is_down y0"
    "sc_ready c = (\<not> st_connecting y0)" "sc_ready c' = (\<not> st_connecting x)"
    "p \<notin> E \<longrightarrow> \<not> sc_ready c' \<longrightarrow> 0 < rb_size b'"
    "in_order ?h cb b0 (st_writes y0) (wcb_of x) (st_delivered y0) (rc s) (sc_ready c)"
    "in_order ?h cb' b' (st_writes x) (wcb_of y0) (st_delivered x) (rc p) (sc_ready c')"
    "rb_buf b0 \<noteq> rb_buf b'"
    by (rule px_inv_pairE [OF inv x cb(1,3)]) (use cb(4) in auto)
  have eqs [simp]: "b0 = b" "y0 = y" using pr cb y by auto
  have addr: "rb_buf b' < hp_next ?h" "rb_buf b < hp_next ?h"
    using inv rts_buf_ok_live [OF pr(8)] rts_buf_ok_live [OF pr(2)] by (auto simp: px_inv_def heap_ok_def)
  have mem': "hp_mem ?h' (rb_buf b') = hp_mem ?h (rb_buf b')" using h'(4) addr(1) pr(20) unsharedD [OF base y] pr(6,7) by (auto simp: buf_addr_def)
  have b'ok: "rts_buf_ok ?h' b'" using pr(8) mem' by (simp add: rts_buf_ok_def)
  have sz0: "0 \<le> rb_size b" using pr(2) by (auto elim: rts_buf_okE)
  have pE: "p \<notin> E" using E pr(13) by auto
  let ?go = "sc_ready c \<and> cb_pos cb = cb_last cb"
  define cb2 where "cb2 = (if ?go then cb\<lparr>cb_buf := Some b2, cb_last := rb_size b2\<rparr> else cb\<lparr>cb_buf := Some b2\<rparr>)"
  define x2 where "x2 = x\<lparr>st_data := Data cb2\<rparr>"
  define y2 where "y2 = (if ?go then y\<lparr>st_writes := st_writes y @ [\<lparr>wr_addr = rb_buf b2, wr_off = cb_pos cb,
                       wr_len = rb_size b2 - cb_pos cb, wr_cb = wcb_of x\<rparr>]\<rparr> else y)"
  have str': "px_streams w' = (px_streams w)(s \<mapsto> x2, p \<mapsto> y2)"
    using y pr(13) by (auto simp: str x2_def y2_def cb2_def fun_eq_iff)
  have dirs: "is_down x2 = is_down x" "is_down y2 = is_down y" "wcb_of x2 = wcb_of x" "wcb_of y2 = wcb_of y"
    by (auto simp: x2_def y2_def is_down_def wcb_of_def)
  have io: "in_order ?h' cb2 b2 (st_writes y2) (wcb_of x2) (st_delivered y2) (?rc s) (sc_ready c)"
  proof (cases "cb_pos cb = cb_last cb")
    case True
    then show ?thesis
      using in_order_receive_idle [OF pr(18) _ bs b2(2,3) [folded eqs(1)]] pr(2) dirs
      by (cases "sc_ready c") (auto simp: cb2_def y2_def)
  next
    case False
    then show ?thesis
      using in_order_receive_busy [OF pr(18) _ b2(2,3) [folded eqs(1)]] pr(2) dirs b2(4)
      by (auto simp: cb2_def y2_def)
  qed
  have io': "in_order ?h' cb' b' (st_writes x2) (wcb_of y2) (st_delivered x2) (?rc p) (sc_ready c')"
    using in_order_frame [OF pr(19) mem'] dirs pr(13) by (simp add: x2_def)
  have x2: "st_data x2 = Data cb2" "\<not> st_closing x2" "st_connecting x2 = (st_read_cb x2 = None)"
    "st_connecting x2 = st_connecting x" "px_streams w' s = Some x2"
    using pr(3,4,13) str' by (simp_all add: x2_def)
  have cb2: "cb_buf cb2 = Some b2" "cb_stream_conn cb2 = Some c"
    using cb(3) by (simp_all add: cb2_def)
  have y2: "st_data y2 = Data cb'" "\<not> st_closing y2" "st_connecting y2 = (st_read_cb y2 = None)"
    "st_connecting y2 = st_connecting y" "px_streams w' p = Some y2"
    using pr(6,9,10) str' by (simp_all add: y2_def)
  have dd: "is_down x2 \<noteq> is_down y2" using pr(14) dirs by simp
  have pos2: "0 < rb_size b2" using b2(3) sz0 bs by (cases bs) simp_all
  have "conn_ok {} w' ?rc s x2 cb2 b2 c"
    by (rule conn_okI [where y = y2 and cb' = cb' and c' = c'])
      (use cb(4) y2 pr(11-13,15) dd io pos2 in simp_all)
  then have sok: "stream_ok {} w' ?rc s x2"
    by (rule stream_okI [OF x2(1) cb2(1) b2(1) x2(2,3) cb2(2)])
  have "conn_ok {} w' ?rc p y2 cb' b' c'"
    by (rule conn_okI [where y = x2 and cb' = cb2 and c' = c])
      (use cb(4) x2 cb2 pr(12,13,16,17) dd io' pE in simp_all)
  then have pok: "stream_ok {} w' ?rc p y2"
    by (rule stream_okI [OF y2(1) pr(7) b'ok y2(2,3) pr(11)])
  have ad: "buf_addr x2 = Some (rb_buf b2)" "buf_addr y2 = Some (rb_buf b')" "buf_addr x = Some (rb_buf b)"
    "buf_addr y = Some (rb_buf b')" "peer_of x = Some p" "peer_of y = Some s"
    using cb pr(6,7,11,12) x2(1) cb2 y2(1) by (simp_all add: buf_addr_def peer_of_def)
  have lt: "s < px_next w" "p < px_next w" using inv x y by (auto simp: px_inv_def)
  have rc0: "rc t = []" if "px_next w \<le> t" for t using inv that by (simp add: px_inv_def)
  show ?thesis
  proof (rule px_inv_step [where S = "{s, p}", OF inv h'(1,2)])
    fix t z assume t: "t \<in> {s, p}" "px_streams w' t = Some z"
    then show "t < px_next w' \<and> stream_ok {} w' ?rc t z \<and> (buf_addr z = None \<or>
      (\<exists>x0. px_streams w t = Some x0 \<and> buf_addr z = buf_addr x0) \<or>
      (\<exists>a. buf_addr z = Some a \<and> hp_next ?h \<le> a))"
      using sok pok ad b2(4) x y inv str' pr(13) h'(3) by (auto simp: px_inv_def)
  next
    fix t z a assume t: "t \<notin> {s, p}" "px_streams w t = Some z" "buf_addr z = Some a"
    then have "a \<noteq> rb_buf b" using px_inv_addr_distinct [OF inv t(2) x] ad by auto
    moreover have "a < hp_next ?h" "a \<noteq> base" using px_inv_addr [OF inv t(2)] unsharedD [OF base t(2)] t(3) by auto
    ultimately show "hp_mem ?h' a = hp_mem ?h a" using h'(4) by blast
  qed (use str' E pr(13) ad b2(4) addr x y rc0 lt h'(3) pr(20) in auto)
qed


section \<open>New streams\<close>

lemma fresh_stream_sel [simp]:
  "st_data fresh_stream = Uninit" "st_read_cb fresh_stream = None" "st_connecting fresh_stream = False"
  "st_closing fresh_stream = False" "st_writes fresh_stream = []" "st_delivered fresh_stream = []"
  by (simp_all add: fresh_stream_def)

definition fresh_buf :: "addr \<Rightarrow> rts_buf_t" where
  "fresh_buf a = \<lparr>rb_buf = a, rb_size = 0, rb_capacity = DEFAULT_BUF_SIZE\<rparr>"

definition fresh_cb :: "addr \<Rightarrow> callback_data_t" where
  "fresh_cb a = \<lparr>cb_stream_conn = None, cb_buf = Some (fresh_buf a), cb_pos = 0, cb_last = 0\<rparr>"

text \<open>The heap after \<open>k\<close> struct allocations, a buffer allocation at \<open>a\<close> among them.\<close>

definition heap_plus :: "heap \<Rightarrow> nat \<Rightarrow> addr \<Rightarrow> heap" where
  "heap_plus h k a = h\<lparr>hp_next := hp_next h + k,
     hp_mem := (hp_mem h)(a \<mapsto> replicate (nat DEFAULT_BUF_SIZE) (hp_junk h))\<rparr>"

lemma heap_plus_ok:
  assumes "heap_ok h" "no_oom h" "hp_next h \<le> a" "a < hp_next h + k"
  shows "heap_ok (heap_plus h k a)" "no_oom (heap_plus h k a)" "rts_buf_ok (heap_plus h k a) (fresh_buf a)"
    "rts_buf_contents (heap_plus h k a) (fresh_buf a) = []"
    "\<And>b. b \<noteq> a \<Longrightarrow> hp_mem (heap_plus h k a) b = hp_mem h b"
  using assms by (auto simp: heap_ok_def heap_plus_def no_oom_def rts_buf_ok_def rts_buf_contents_def
      fresh_buf_def DEFAULT_BUF_SIZE_def intro: less_le_trans)

lemma init_callback_data_ok:
  assumes "no_oom (px_heap w)" "px_streams w s = Some x"
  shows "init_callback_data w (Some s) = Inr (0, w\<lparr>
     px_heap := heap_plus (px_heap w) 3 (Suc (hp_next (px_heap w))),
     px_streams := (px_streams w)(s \<mapsto> x\<lparr>st_data := Data (fresh_cb (Suc (hp_next (px_heap w))))\<rparr>)\<rparr>)"
  using assms
  by (simp add: init_callback_data_def malloc_struct_def malloc_obj_def no_oom_def rts_buf_init_def
      malloc_def Let_def put_cb_def get_stream_def put_stream_def heap_plus_def fresh_cb_def fresh_buf_def
      DEFAULT_BUF_SIZE_def numeral_3_eq_3)

lemma new_stream_ok:
  assumes "no_oom (px_heap w)"
  shows "new_stream w = (Some (px_next w), w\<lparr>px_heap := (px_heap w)\<lparr>hp_next := Suc (hp_next (px_heap w))\<rparr>,
     px_next := Suc (px_next w), px_streams := (px_streams w)(px_next w \<mapsto> fresh_stream)\<rparr>)"
  using assms by (simp add: new_stream_def malloc_obj_def no_oom_def)

lemma heap_plus_Suc:
  "heap_plus (h\<lparr>hp_next := Suc (hp_next h)\<rparr>) k a = heap_plus h (Suc k) a"
  by (simp add: heap_plus_def)

lemma new_connection_steps:
  assumes "no_oom (px_heap w)"
  shows "on_new_downstream_connection w 0 0 = Inr (w\<lparr>
     px_heap := heap_plus (px_heap w) 4 (hp_next (px_heap w) + 2), px_next := Suc (px_next w),
     px_streams := (px_streams w)(px_next w \<mapsto> fresh_stream\<lparr>
        st_data := Data (fresh_cb (hp_next (px_heap w) + 2)), st_read_cb := Some Downstream_read\<rparr>)\<rparr>)"
proof -
  let ?w1 = "w\<lparr>px_heap := (px_heap w)\<lparr>hp_next := Suc (hp_next (px_heap w))\<rparr>,
     px_next := Suc (px_next w), px_streams := (px_streams w)(px_next w \<mapsto> fresh_stream)\<rparr>"
  have n: "no_oom (px_heap ?w1)" "px_streams ?w1 (px_next w) = Some fresh_stream"
    using assms by (simp_all add: no_oom_def)
  show ?thesis
    using init_callback_data_ok [OF n]
    by (simp add: on_new_downstream_connection_def new_stream_ok [OF assms]
        uv_read_start_def get_stream_def put_stream_def heap_plus_Suc numeral_Bit0)
qed

lemma new_connection_inv:
  assumes inv: "px_inv {} w rc"
  shows "\<exists>w'. on_new_downstream_connection w 0 0 = Inr w' \<and> px_inv {} w' rc"
proof -
  let ?h = "px_heap w" and ?n = "px_next w"
  let ?a = "hp_next ?h + 2"
  let ?x = "fresh_stream\<lparr>st_data := Data (fresh_cb ?a), st_read_cb := Some Downstream_read\<rparr>"
  let ?w' = "w\<lparr>px_heap := heap_plus ?h 4 ?a, px_next := Suc ?n, px_streams := (px_streams w)(?n \<mapsto> ?x)\<rparr>"
  have h: "heap_ok ?h" "no_oom ?h" using inv by (auto simp: px_inv_def)
  note hp = heap_plus_ok [of ?h ?a 4, OF h, simplified]
  have rc0: "rc ?n = []" "\<And>t. Suc ?n \<le> t \<Longrightarrow> rc t = []" using inv by (auto simp: px_inv_def)
  have fresh: "px_streams w ?n = None" using inv by (cases "px_streams w ?n") (auto simp: px_inv_def)
  have sok: "stream_ok {} ?w' rc ?n ?x"
    using hp(3) rc0 by (simp add: stream_ok_def fresh_stream_def fresh_cb_def is_down_def) (simp add: fresh_buf_def)
  have "px_inv {} ?w' rc"
  proof (rule px_inv_step [where S = "{?n}", OF inv])
    fix t z assume t: "t \<in> {?n}" "px_streams ?w' t = Some z"
    then show "t < px_next ?w' \<and> stream_ok {} ?w' rc t z \<and> (buf_addr z = None \<or>
      (\<exists>x0. px_streams w t = Some x0 \<and> buf_addr z = buf_addr x0) \<or>
      (\<exists>a. buf_addr z = Some a \<and> hp_next ?h \<le> a))"
      using sok by (auto simp: buf_addr_def fresh_cb_def fresh_buf_def)
  next
    fix t z a assume t: "t \<notin> {?n}" "px_streams w t = Some z" "buf_addr z = Some a"
    then have "a < hp_next ?h" using px_inv_addr [OF inv t(2)] by auto
    then show "hp_mem (px_heap ?w') a = hp_mem ?h a" using hp(5) by simp
  qed (use hp rc0 fresh in auto)
  then show ?thesis using new_connection_steps [OF h(2)] by blast
qed

end
