(* ===== verification/ProxyEvents.thy ===== *)
theory ProxyEvents
  imports ProxySteps
begin

text \<open>
  The events of runs without failures, their effect on what has been received, and the proof that
  each keeps the invariant and does not fault.
\<close>

section \<open>The read buffer\<close>

lemma px_inv_heap_block:
  assumes inv: "px_inv E w rc"
  defines "base \<equiv> hp_next (px_heap w)"
  shows "px_inv E (w\<lparr>px_heap := (px_heap w)\<lparr>hp_next := Suc base, hp_mem := (hp_mem (px_heap w))(base \<mapsto> blk)\<rparr>\<rparr>) rc"
    and "px_streams w t = Some z \<Longrightarrow> buf_addr z \<noteq> Some base"
proof -
  let ?w' = "w\<lparr>px_heap := (px_heap w)\<lparr>hp_next := Suc base, hp_mem := (hp_mem (px_heap w))(base \<mapsto> blk)\<rparr>\<rparr>"
  show "px_inv E ?w' rc"
  proof (rule px_inv_step [where S = "{}", OF inv])
    show "heap_ok (px_heap ?w')" "no_oom (px_heap ?w')"
      using inv by (auto simp: px_inv_def heap_ok_def no_oom_def base_def less_SucI)
  next
    fix t z a assume "px_streams w t = Some z" "buf_addr z = Some a"
    then show "hp_mem (px_heap ?w') a = hp_mem (px_heap w) a"
      using px_inv_addr [OF inv] by (fastforce simp: base_def)
  qed (use inv in \<open>auto simp: px_inv_def\<close>)
  show "px_streams w t = Some z \<Longrightarrow> buf_addr z \<noteq> Some base"
    using px_inv_addr [OF inv] by (fastforce simp: base_def)
qed

lemma alloc_and_read:
  assumes "no_oom h" "length bs \<le> 64 * 1024"
  shows "\<exists>rest. alloc_buffer h (64 * 1024) = (Some (hp_next h), h\<lparr>hp_next := Suc (hp_next h),
      hp_mem := (hp_mem h)(hp_next h \<mapsto> replicate 65536 (hp_junk h))\<rparr>) \<and>
    heap_write (h\<lparr>hp_next := Suc (hp_next h), hp_mem := (hp_mem h)(hp_next h \<mapsto> replicate 65536 (hp_junk h))\<rparr>)
      (hp_next h) 0 bs =
    Inr (h\<lparr>hp_next := Suc (hp_next h), hp_mem := (hp_mem h)(hp_next h \<mapsto> bs @ rest)\<rparr>)"
  using assms by (auto simp: alloc_buffer_def malloc_no_oom heap_write_def)

section \<open>The first read of a downstream\<close>

text \<open>A downstream without an upstream gets one, still connecting, before the bytes are stored.\<close>

lemma init_upstream_steps:
  assumes "no_oom (px_heap w)" "px_streams w d = Some x" "st_data x = Data cb" "d \<noteq> px_next w"
  defines "a \<equiv> hp_next (px_heap w) + 5"
  shows "init_upstream_connection w (Some d) = Inr (0, w\<lparr>
     px_heap := heap_plus (px_heap w) 7 a, px_next := Suc (px_next w),
     px_streams := (px_streams w)(
        d \<mapsto> x\<lparr>st_data := Data (cb\<lparr>cb_stream_conn := Some \<lparr>sc_stream = px_next w, sc_ready = False\<rparr>\<rparr>)\<rparr>,
        px_next w \<mapsto> fresh_stream\<lparr>
          st_data := Data ((fresh_cb a)\<lparr>cb_stream_conn := Some \<lparr>sc_stream = d, sc_ready = True\<rparr>\<rparr>),
          st_connecting := True\<rparr>)\<rparr>)"
proof -
  let ?n = "px_next w" and ?h = "px_heap w"
  let ?w4 = "w\<lparr>px_next := Suc ?n, px_streams := (px_streams w)(?n \<mapsto> fresh_stream),
      px_heap := ?h\<lparr>hp_next := hp_next ?h + 4\<rparr>\<rparr>"
  have ms: "malloc_struct v = (True, v\<lparr>px_heap := (px_heap v)\<lparr>hp_next := Suc (hp_next (px_heap v))\<rparr>\<rparr>)"
    if "hp_oom (px_heap v) = hp_oom ?h" for v
    using assms(1) that by (simp add: malloc_struct_def malloc_obj_def no_oom_def)
  have n: "no_oom (px_heap ?w4)" "px_streams ?w4 ?n = Some fresh_stream"
    using assms(1) by (simp_all add: no_oom_def)
  have icd: "init_callback_data ?w4 (Some ?n) = Inr (0, w\<lparr>px_heap := heap_plus ?h 7 a, px_next := Suc ?n,
      px_streams := (px_streams w)(?n \<mapsto> fresh_stream\<lparr>st_data := Data (fresh_cb a)\<rparr>)\<rparr>)"
    using init_callback_data_ok [OF n] by (simp add: heap_plus_def a_def add.commute)
  show ?thesis
    using assms(2-4) icd
    by (simp add: init_upstream_connection_def new_stream_ok [OF assms(1)] ms get_cb_def get_stream_def
        put_cb_def put_stream_def uv_tcp_connect_def numeral_Bit0 fun_upd_twist)
qed

lemma init_upstream_inv:
  assumes inv: "px_inv {} w rc" and x: "px_streams w d = Some x" "st_data x = Data cb" "cb_stream_conn cb = None"
  shows "\<exists>w'. init_upstream_connection w (Some d) = Inr (0, w') \<and> px_inv {d} w' rc \<and>
    px_streams w' d = Some (x\<lparr>st_data := Data (cb\<lparr>cb_stream_conn := Some \<lparr>sc_stream = px_next w, sc_ready = False\<rparr>\<rparr>)\<rparr>) \<and>
    (\<forall>a. a < hp_next (px_heap w) \<longrightarrow> hp_mem (px_heap w') a = hp_mem (px_heap w) a) \<and>
    (\<forall>t z. px_streams w' t = Some z \<longrightarrow>
       (\<exists>z0. px_streams w t = Some z0 \<and> buf_addr z = buf_addr z0) \<or> buf_addr z = Some (hp_next (px_heap w) + 5))"
proof -
  let ?u = "px_next w" and ?h = "px_heap w"
  let ?a = "hp_next ?h + 5"
  let ?c = "\<lparr>sc_stream = ?u, sc_ready = False\<rparr>" and ?c' = "\<lparr>sc_stream = d, sc_ready = True\<rparr>"
  let ?cb = "cb\<lparr>cb_stream_conn := Some ?c\<rparr>" and ?cb' = "(fresh_cb ?a)\<lparr>cb_stream_conn := Some ?c'\<rparr>"
  let ?x = "x\<lparr>st_data := Data ?cb\<rparr>" and ?y = "fresh_stream\<lparr>st_data := Data ?cb', st_connecting := True\<rparr>"
  let ?w' = "w\<lparr>px_heap := heap_plus ?h 7 ?a, px_next := Suc ?u, px_streams := (px_streams w)(d \<mapsto> ?x, ?u \<mapsto> ?y)\<rparr>"
  have h: "heap_ok ?h" "no_oom ?h" using inv by (auto simp: px_inv_def)
  note hp = heap_plus_ok [of ?h ?a 7, OF h, simplified]
  have d: "d < ?u" using inv x(1) by (auto simp: px_inv_def)
  have rc0: "rc t = []" if "?u \<le> t" for t using inv that by (simp add: px_inv_def)
  have fresh: "px_streams w ?u = None" using inv by (cases "px_streams w ?u") (auto simp: px_inv_def)
  obtain b where b: "cb_buf cb = Some b" "rts_buf_ok ?h b" "\<not> st_closing x" "st_connecting x = (st_read_cb x = None)"
    "is_down x" "cb_pos cb = 0" "cb_last cb = 0" "rb_size b = 0" "rc d = []" "st_writes x = []" "st_delivered x = []"
    using px_inv_stream_ok [OF inv x(1)] x(2,3) by (elim stream_okE) auto
  have ba: "rb_buf b < hp_next ?h" using b(2) h(1) by (auto simp: heap_ok_def dest: rts_buf_ok_live)
  have bok: "rts_buf_ok (px_heap ?w') b" using b(2) hp(5) [of "rb_buf b"] ba by (simp add: rts_buf_ok_def)
  have cont: "rts_buf_contents (px_heap ?w') b = []"
    using length_rts_buf_contents [OF bok] b(8) by simp
  have dn: "is_down ?x" "\<not> is_down ?y" "st_connecting ?x = False"
    using b(4,5) by (auto simp: is_down_def)
  have fcb: "cb_buf ?cb' = Some (fresh_buf ?a)" "cb_pos ?cb' = 0" "cb_last ?cb' = 0"
    by (simp_all add: fresh_cb_def)
  have "conn_ok {d} ?w' rc d ?x ?cb b ?c"
    by (rule conn_okI [where y = ?y and cb' = ?cb' and c' = ?c'])
      (use b d dn cont in \<open>simp_all add: in_order_def\<close>)
  then have sok: "stream_ok {d} ?w' rc d ?x"
    by (rule stream_okI [where b = b, rotated -1]) (use b bok in simp_all)
  have "conn_ok {d} ?w' rc ?u ?y ?cb' (fresh_buf ?a) ?c'"
    by (rule conn_okI [where y = ?x and cb' = ?cb and c' = ?c])
      (use b d dn hp rc0 fcb in \<open>simp_all add: in_order_def fresh_buf_def\<close>)
  then have pok: "stream_ok {d} ?w' rc ?u ?y"
    by (rule stream_okI [where b = "fresh_buf ?a", rotated -1]) (use hp fcb in simp_all)
  have ad: "buf_addr ?x = Some (rb_buf b)" "buf_addr ?y = Some ?a" "buf_addr x = Some (rb_buf b)"
     "peer_of x = None"
    using b x by (simp_all add: buf_addr_def peer_of_def fresh_cb_def fresh_buf_def)
  have "px_inv {d} ?w' rc"
  proof (rule px_inv_step [where S = "{d, ?u}", OF inv])
    fix t z assume "t \<in> {d, ?u}" "px_streams ?w' t = Some z"
    then show "t < px_next ?w' \<and> stream_ok {d} ?w' rc t z \<and> (buf_addr z = None \<or>
      (\<exists>x0. px_streams w t = Some x0 \<and> buf_addr z = buf_addr x0) \<or>
      (\<exists>a. buf_addr z = Some a \<and> hp_next ?h \<le> a))"
      using sok pok ad d x by auto
  next
    fix t z a assume t: "t \<notin> {d, ?u}" "px_streams w t = Some z" "buf_addr z = Some a"
    then have "a < hp_next ?h" using px_inv_addr [OF inv t(2)] by auto
    then show "hp_mem (px_heap ?w') a = hp_mem ?h a" using hp(5) by simp
  qed (use hp rc0 fresh x d ad ba in auto)
  moreover have "init_upstream_connection w (Some d) = Inr (0, ?w')"
    using init_upstream_steps [OF h(2) x(1,2)] d by simp
  ultimately show ?thesis using hp(5) ad x d by (intro exI [of _ ?w']) auto
qed

section \<open>Runs without failures\<close>

text \<open>
  The events of a run in which nothing fails: connections are accepted and established, reads
  return data, writes succeed. A read must leave the buffer below 1 GiB, and while a request
  points into the buffer, the new bytes must fit without moving it. (With a read size of 64 KiB
  and an initial buffer of 8092 bytes the program does not ensure that.)
\<close>

definition read_fits :: "callback_data_t \<Rightarrow> int \<Rightarrow> bool" where
  "read_fits cb n = (case cb_buf cb of None \<Rightarrow> False
     | Some b \<Rightarrow> rts_buf_fits b n \<and> (cb_pos cb = cb_last cb \<or> n + 1 \<le> rb_capacity b - rb_size b))"

fun healthy :: "proxy \<Rightarrow> event \<Rightarrow> bool" where
  "healthy w (NewConnection status accept_res) = (status = 0 \<and> accept_res = 0)"
| "healthy w (Readable s n bs) =
     (n = int (length bs) \<and> length bs \<le> 64 * 1024 \<and>
      (case px_streams w s of None \<Rightarrow> False
       | Some x \<Rightarrow> st_read_cb x \<noteq> None \<and>
           (case st_data x of Data cb \<Rightarrow> read_fits cb n | _ \<Rightarrow> False)))"
| "healthy w (Connected s status) = (status = 0 \<and> px_streams w s \<noteq> None)"
| "healthy w (WritePart s k) = (px_streams w s \<noteq> None)"
| "healthy w (WriteDone s status) = (status = 0 \<and> px_streams w s \<noteq> None)"

text \<open>What has been read from each stream.\<close>

fun received_by :: "(nat \<Rightarrow> u8 list) \<Rightarrow> event \<Rightarrow> nat \<Rightarrow> u8 list" where
  "received_by rc (Readable s n bs) = rc(s := rc s @ bs)"
| "received_by rc _ = rc"

lemma read_existing_inv:
  assumes inv: "px_inv E w1 rc" and E: "E \<subseteq> {s}"
    and base: "hp_mem (px_heap w1) base = Some (bs @ rest)"
      "unshared w1 base"
    and x: "px_streams w1 s = Some x" "st_data x = Data cb" "cb_stream_conn cb = Some c"
    and fits: "read_fits cb n" "n = int (length bs)" "bs \<noteq> []"
  shows "\<exists>w'. ebind (append_to_cb w1 s base n) (\<lambda>w2. ebind (forward w2 s (wcb_of x)) (\<lambda>w3. free_base w3 base))
     = Inr w' \<and> px_inv {} w' (rc(s := rc s @ bs))"
proof -
  obtain b y cb' b' c' where pr: "cb_buf cb = Some b" "rts_buf_ok (px_heap w1) b"
    "px_streams w1 (sc_stream c) = Some y" "\<not> st_closing y" "sc_stream c \<noteq> s"
    "in_order (px_heap w1) cb b (st_writes y) (wcb_of x) (st_delivered y) (rc s) (sc_ready c)"
    by (rule px_inv_pairE [OF inv x]) blast
  have nb: "rb_buf b \<noteq> base" using unsharedD [OF base(2) x(1)] x(2) pr(1) by (simp add: buf_addr_def)
  have f: "rts_buf_fits b n" "cb_pos cb = cb_last cb \<or> n + 1 \<le> rb_capacity b - rb_size b"
    using fits(1) pr(1) by (simp_all add: read_fits_def)
  have pos: "0 \<le> cb_pos cb" "cb_pos cb \<le> rb_size b" using pr(6) by (auto simp: in_order_def)
  have h: "heap_ok (px_heap w1)" "no_oom (px_heap w1)" using inv by (auto simp: px_inv_def)
  obtain w' where w': "ebind (append_to_cb w1 s base n) (\<lambda>w2. ebind (forward w2 s (wcb_of x)) (\<lambda>w3. free_base w3 base)) = Inr w'"
    "received w1 base s (sc_stream c) bs (wcb_of x) w'"
    using receive_steps [OF h base(1) x(1,2) pr(1,2) f(1) fits(2) nb f(2) pos x(3) refl pr(5,3,4)] by blast
  show ?thesis using w'(1) received_inv [OF inv w'(2) base(2) x(1) E fits(3)] by blast
qed

lemma readable_inv:
  assumes inv: "px_inv {} w rc" and e: "healthy w (Readable s n bs)"
  shows "\<exists>w'. proxy_step w (Readable s n bs) = Inr w' \<and> px_inv {} w' (rc(s := rc s @ bs))"
proof -
  from e obtain x cb rcb where x: "px_streams w s = Some x" "st_data x = Data cb" "st_read_cb x = Some rcb"
    and n: "n = int (length bs)" "length bs \<le> 64 * 1024" "read_fits cb n"
    by (auto split: option.splits data_ptr.splits)
  let ?h = "px_heap w" and ?base = "hp_next (px_heap w)"
  have h: "no_oom ?h" using inv by (simp add: px_inv_def)
  obtain rest where al: "alloc_buffer ?h (64 * 1024) = (Some ?base, ?h\<lparr>hp_next := Suc ?base,
      hp_mem := (hp_mem ?h)(?base \<mapsto> replicate 65536 (hp_junk ?h))\<rparr>)"
    "heap_write (?h\<lparr>hp_next := Suc ?base, hp_mem := (hp_mem ?h)(?base \<mapsto> replicate 65536 (hp_junk ?h))\<rparr>)
      ?base 0 bs = Inr (?h\<lparr>hp_next := Suc ?base, hp_mem := (hp_mem ?h)(?base \<mapsto> bs @ rest)\<rparr>)"
    using alloc_and_read [OF h n(2)] by blast
  define w1 where "w1 = w\<lparr>px_heap := ?h\<lparr>hp_next := Suc ?base, hp_mem := (hp_mem ?h)(?base \<mapsto> bs @ rest)\<rparr>\<rparr>"
  have inv1: "px_inv {} w1 rc" and ba1: "unshared w1 ?base"
    using px_inv_heap_block [OF inv] by (auto simp: w1_def unshared_def)
  have x1: "px_streams w1 s = Some x" "hp_mem (px_heap w1) ?base = Some (bs @ rest)"
    "?base < hp_next (px_heap w1)" using x by (simp_all add: w1_def)
  have step: "proxy_step w (Readable s n bs) = run_read_cb rcb w1 s n ?base"
    using x n(1) al by (simp add: get_stream_def w1_def)
  show ?thesis
  proof (cases "bs = []")
    case True
    then have "run_read_cb rcb w1 s n ?base = Inr w1" using n(1)
      by (cases rcb) (simp_all add: downstream_read_def upstream_read_def)
    then show ?thesis using step inv1 True by simp
  next
    case False
    then have n0: "n > 0" using n(1) by simp
    show ?thesis
    proof (cases "cb_stream_conn cb")
      case (Some c)
      obtain w' where "ebind (append_to_cb w1 s ?base n) (\<lambda>w2. ebind (forward w2 s (wcb_of x)) (\<lambda>w3. free_base w3 ?base))
         = Inr w'" "px_inv {} w' (rc(s := rc s @ bs))"
        using read_existing_inv [OF inv1 _ x1(2) ba1 x1(1) x(2) Some n(3,1) False] by blast
      moreover have "run_read_cb rcb w1 s n ?base =
          ebind (append_to_cb w1 s ?base n) (\<lambda>w2. ebind (forward w2 s (wcb_of x)) (\<lambda>w3. free_base w3 ?base))"
        using n0 x(3) x1(1) x(2) Some
        by (cases rcb) (simp_all add: downstream_read_def upstream_read_def get_cb_def get_stream_def
            wcb_of_def is_down_def)
      ultimately show ?thesis using step by auto
    next
      case None
      have dn: "is_down x" using px_inv_stream_ok [OF inv x(1)] x(2) None by (elim stream_okE) auto
      obtain w2 where w2: "init_upstream_connection w1 (Some s) = Inr (0, w2)" "px_inv {s} w2 rc"
        "px_streams w2 s = Some (x\<lparr>st_data := Data (cb\<lparr>cb_stream_conn := Some \<lparr>sc_stream = px_next w1, sc_ready = False\<rparr>\<rparr>)\<rparr>)"
        "\<forall>a. a < hp_next (px_heap w1) \<longrightarrow> hp_mem (px_heap w2) a = hp_mem (px_heap w1) a"
        "\<forall>t z. px_streams w2 t = Some z \<longrightarrow>
       (\<exists>z0. px_streams w1 t = Some z0 \<and> buf_addr z = buf_addr z0) \<or> buf_addr z = Some (hp_next (px_heap w1) + 5)"
        using init_upstream_inv [OF inv1 x1(1) x(2) None] by blast
      let ?cb = "cb\<lparr>cb_stream_conn := Some \<lparr>sc_stream = px_next w1, sc_ready = False\<rparr>\<rparr>"
      let ?x = "x\<lparr>st_data := Data ?cb\<rparr>"
      have ba2: "unshared w2 ?base"
        using w2(5) ba1 x1(3) by (fastforce simp: unshared_def)
      have m2: "hp_mem (px_heap w2) ?base = Some (bs @ rest)" using w2(4) x1(2,3) by simp
      have f2: "read_fits ?cb n" using n(3) by (cases "cb_buf cb") (simp_all add: read_fits_def)
      obtain w' where "ebind (append_to_cb w2 s ?base n) (\<lambda>w3. ebind (forward w3 s (wcb_of ?x)) (\<lambda>w4. free_base w4 ?base))
         = Inr w'" "px_inv {} w' (rc(s := rc s @ bs))"
        using read_existing_inv [OF w2(2) _ m2 ba2 w2(3) _ _ f2 n(1) False] by auto
      moreover have "run_read_cb rcb w1 s n ?base =
          ebind (append_to_cb w2 s ?base n) (\<lambda>w3. ebind (forward w3 s (wcb_of ?x)) (\<lambda>w4. free_base w4 ?base))"
        using n0 x(3) x1(1) x(2) None w2(1) dn
        by (cases rcb) (simp_all add: downstream_read_def get_cb_def get_stream_def wcb_of_def is_down_def)
      ultimately show ?thesis using step by auto
    qed
  qed
qed


section \<open>Connection and write events\<close>

text \<open>A step that changes the records of a pair but neither buffers nor the blocks of the heap.\<close>

lemma px_inv_pair_update:
  assumes inv: "px_inv {} w rc"
    and x: "px_streams w s = Some x" "peer_of x = Some p" and y: "px_streams w p = Some y" "peer_of y = Some s"
    and h: "heap_ok (px_heap w')" "no_oom (px_heap w')" "hp_mem (px_heap w') = hp_mem (px_heap w)"
    and w': "px_streams w' = (px_streams w)(s \<mapsto> x2, p \<mapsto> y2)" "px_next w' = px_next w"
    and ok: "stream_ok {} w' rc s x2" "stream_ok {} w' rc p y2"
    and ad: "buf_addr x2 = buf_addr x" "buf_addr y2 = buf_addr y"
  shows "px_inv {} w' rc"
proof (rule px_inv_step [where S = "{s, p}", OF inv h(1,2)])
  have sp: "p \<noteq> s" "s < px_next w" "p < px_next w"
    using px_inv_peer_sym [OF inv x] inv x y by (auto simp: px_inv_def)
  have rc0: "rc t = []" if "px_next w \<le> t" for t using inv that by (simp add: px_inv_def)
  have ne: "buf_addr x \<noteq> buf_addr y" using px_inv_addr_distinct [OF inv x(1) y(1)] sp by blast
  show "t \<notin> {s, p} \<Longrightarrow> px_streams w' t = px_streams w t \<and> rc t = rc t \<and> (t \<in> {}) = (t \<in> {})" for t
    using w' by simp
  show "px_next w \<le> px_next w'" "\<And>t. px_next w' \<le> t \<Longrightarrow> rc t = []" using w' rc0 by auto
  show "t < px_next w' \<and> stream_ok {} w' rc t z \<and> (buf_addr z = None \<or>
      (\<exists>x0. px_streams w t = Some x0 \<and> buf_addr z = buf_addr x0) \<or>
      (\<exists>a. buf_addr z = Some a \<and> hp_next (px_heap w) \<le> a))"
    if "t \<in> {s, p}" "px_streams w' t = Some z" for t z
    using that sp w' ok ad x(1) y(1) by auto
  show "q \<in> {s, p}" if "t \<in> {s, p}" "px_streams w t = Some z" "peer_of z = Some q" for t z q
    using that x y by auto
  show "s' = t" if "s' \<in> {s, p}" "t \<in> {s, p}" "px_streams w' s' = Some z" "px_streams w' t = Some v"
      "buf_addr z = buf_addr v" for s' t z v
    using that w' ad ne sp by auto
  show "hp_mem (px_heap w') a = hp_mem (px_heap w) a" for a using h by simp
qed

text \<open>Both streams of a pair are fine when both directions are.\<close>

lemma pair_okI:
  assumes "px_streams w s = Some x" "px_streams w p = Some y" "s \<noteq> p"
    and "st_data x = Data cb" "cb_buf cb = Some b" "cb_stream_conn cb = Some c" "sc_stream c = p"
    and "st_data y = Data cb'" "cb_buf cb' = Some b'" "cb_stream_conn cb' = Some c'" "sc_stream c' = s"
    and "rts_buf_ok (px_heap w) b" "rts_buf_ok (px_heap w) b'" "\<not> st_closing x" "\<not> st_closing y"
    and "st_connecting x = (st_read_cb x = None)" "st_connecting y = (st_read_cb y = None)"
    and "is_down x \<noteq> is_down y" "sc_ready c = (\<not> st_connecting y)" "sc_ready c' = (\<not> st_connecting x)"
    and "\<not> sc_ready c \<Longrightarrow> 0 < rb_size b" "\<not> sc_ready c' \<Longrightarrow> 0 < rb_size b'"
    and "in_order (px_heap w) cb b (st_writes y) (wcb_of x) (st_delivered y) (rc s) (sc_ready c)"
    and "in_order (px_heap w) cb' b' (st_writes x) (wcb_of y) (st_delivered x) (rc p) (sc_ready c')"
  shows "stream_ok {} w rc s x \<and> stream_ok {} w rc p y"
proof (rule conjI)
  have "conn_ok {} w rc s x cb b c"
    by (rule conn_okI [where y = y and cb' = cb' and c' = c']) (use assms in simp_all)
  then show "stream_ok {} w rc s x"
    by (rule stream_okI [where b = b, rotated -1]) (use assms in simp_all)
  have "conn_ok {} w rc p y cb' b' c'"
    by (rule conn_okI [where y = x and cb' = cb and c' = c]) (use assms in simp_all)
  then show "stream_ok {} w rc p y"
    by (rule stream_okI [where b = b', rotated -1]) (use assms in simp_all)
qed

lemma in_order_waitingD:
  assumes "in_order h cb b ws wcb dl rc False"
  shows "cb_pos cb = 0" "cb_last cb = 0" "ws = []" "rc = dl @ rts_buf_contents h b"
  using assms by (auto simp: in_order_def split: if_splits)

lemma connected_inv:
  assumes inv: "px_inv {} w rc" and e: "healthy w (Connected u 0)"
  shows "\<exists>w'. proxy_step w (Connected u 0) = Inr w' \<and> px_inv {} w' rc"
proof -
  from e obtain x where x: "px_streams w u = Some x" by auto
  show ?thesis
  proof (cases "st_connecting x")
    case False
    then show ?thesis using x inv by (simp add: get_stream_def)
  next
    case True
    obtain cb where cb: "st_data x = Data cb" and c0: "case cb_stream_conn cb of None \<Rightarrow> is_down x | Some _ \<Rightarrow> True"
      "st_connecting x = (st_read_cb x = None)"
      using px_inv_stream_ok [OF inv x] by (elim stream_okE) (auto split: option.splits)
    have "\<not> is_down x" using True c0(2) by (simp add: is_down_def)
    then obtain c where c: "cb_stream_conn cb = Some c" using c0(1) by (cases "cb_stream_conn cb") auto
    obtain b y cb' b' c' where pr:
    "cb_buf cb = Some b" "rts_buf_ok (px_heap w) b" "\<not> st_closing x"
    "px_streams w (sc_stream c) = Some y" "st_data y = Data cb'" "cb_buf cb' = Some b'"
    "rts_buf_ok (px_heap w) b'" "\<not> st_closing y" "st_connecting y = (st_read_cb y = None)"
    "cb_stream_conn cb' = Some c'" "sc_stream c' = u" "sc_stream c \<noteq> u" "is_down x \<noteq> is_down y"
    "sc_ready c = (\<not> st_connecting y)" "sc_ready c' = (\<not> st_connecting x)"
    "sc_stream c \<notin> {} \<longrightarrow> \<not> sc_ready c' \<longrightarrow> 0 < rb_size b'"
    "in_order (px_heap w) cb b (st_writes y) (wcb_of x) (st_delivered y) (rc u) (sc_ready c)"
    "in_order (px_heap w) cb' b' (st_writes x) (wcb_of y) (st_delivered x) (rc (sc_stream c)) (sc_ready c')"
      by (rule px_inv_pairE [OF inv x cb c]) (rule that; assumption)
    let ?d = "sc_stream c" and ?h = "px_heap w"
    have nr: "sc_ready c' = False" "0 < rb_size b'" using pr(15,16) True by auto
    note wt = in_order_waitingD [OF pr(18) [unfolded nr(1)]]
    have sz: "rb_size b' < 2 ^ 31" using pr(7) by (auto elim: rts_buf_okE)
    have yd: "is_down y" "st_connecting y = False" using pr(9,13) \<open>\<not> is_down x\<close> by (auto simp: is_down_def)
    let ?r = "\<lparr>wr_addr = rb_buf b', wr_off = 0, wr_len = rb_size b', wr_cb = After_upstream_write\<rparr>"
    let ?c' = "c'\<lparr>sc_ready := True\<rparr>"
    let ?cb' = "cb'\<lparr>cb_stream_conn := Some ?c', cb_last := rb_size b'\<rparr>"
    let ?y = "y\<lparr>st_data := Data ?cb'\<rparr>"
    let ?x = "x\<lparr>st_connecting := False, st_read_cb := Some Upstream_read, st_writes := [?r]\<rparr>"
    let ?w' = "w\<lparr>px_heap := ?h\<lparr>hp_next := Suc (hp_next ?h)\<rparr>, px_streams := (px_streams w)(u \<mapsto> ?x, ?d \<mapsto> ?y)\<rparr>"
    have h: "heap_ok ?h" "no_oom ?h" using inv by (auto simp: px_inv_def)
    have step: "proxy_step w (Connected u 0) = Inr ?w'"
      using x True cb c pr h(2) wt nr sz
      by (simp add: get_stream_def on_upstream_connect_def get_cb_def put_stream_def uv_read_start_def
          put_cb_def transfer_stream_data_def Let_def malloc_struct_no_oom uv_write_def fun_upd_twist)
    have frame: "rts_buf_ok (px_heap ?w') z = rts_buf_ok ?h z" "rts_buf_contents (px_heap ?w') z = rts_buf_contents ?h z" for z
      by (simp_all add: rts_buf_ok_def rts_buf_contents_def)
    have dirs: "is_down ?x = False" "is_down ?y" "wcb_of ?x = wcb_of x" "wcb_of ?y = wcb_of y" "wcb_of y = After_upstream_write"
      using yd \<open>\<not> is_down x\<close> by (auto simp: is_down_def wcb_of_def)
    have o1: "in_order (px_heap ?w') cb b (st_writes ?y) (wcb_of ?x) (st_delivered ?y) (rc u) (sc_ready c)"
      using pr(17) dirs by (simp add: in_order_def frame [simplified])
    have o2: "in_order (px_heap ?w') ?cb' b' (st_writes ?x) (wcb_of ?y) (st_delivered ?x) (rc ?d) True"
      using wt nr dirs by (simp add: in_order_def frame [simplified])
    have ok: "stream_ok {} ?w' rc u ?x \<and> stream_ok {} ?w' rc ?d ?y"
      by (rule pair_okI [where cb = cb and b = b and c = c and cb' = ?cb' and b' = b' and c' = ?c'])
        (use pr cb c yd dirs o1 o2 frame in simp_all)
    have "px_inv {} ?w' rc"
      by (rule px_inv_pair_update [OF inv x, where p = ?d and y = y and ?x2.0 = ?x and ?y2.0 = ?y])
        (use pr cb c ok h heap_ok_Suc_next [OF h(1)] in
          \<open>auto simp: peer_of_def buf_addr_def no_oom_def\<close>)
    then show ?thesis using step by blast
  qed
qed


text \<open>A stream with a queued request: the request points into its peer's buffer.\<close>

lemma heap_read_contents:
  assumes "rts_buf_ok h b" "0 \<le> off" "0 \<le> k" "off + k \<le> rb_size b"
  shows "heap_read h (rb_buf b) off k = Inr (take (nat k) (drop (nat off) (rts_buf_contents h b)))"
proof -
  obtain blk where blk: "hp_mem h (rb_buf b) = Some blk" "int (length blk) = rb_capacity b"
    "rb_size b \<le> rb_capacity b" using assms(1) by (rule rts_buf_okE)
  have "take (nat k) (drop (nat off) (take (nat (rb_size b)) blk)) = take (nat k) (drop (nat off) blk)"
    using assms(2-4) by (simp add: drop_take min_def nat_diff_distrib)
  then show ?thesis
    using blk assms(2-4) by (simp add: heap_read_def rts_buf_contents_def)
qed

lemma px_inv_writeE:
  assumes inv: "px_inv {} w rc" and x: "px_streams w s = Some x" "st_writes x = r # rs"
  obtains cb c b y cb' b' c' where
    "st_data x = Data cb" "cb_stream_conn cb = Some c" "cb_buf cb = Some b" "rts_buf_ok (px_heap w) b"
    "\<not> st_closing x" "\<not> st_connecting x" "st_read_cb x \<noteq> None"
    "px_streams w (sc_stream c) = Some y" "st_data y = Data cb'" "cb_buf cb' = Some b'"
    "rts_buf_ok (px_heap w) b'" "\<not> st_closing y" "st_connecting y = (st_read_cb y = None)"
    "cb_stream_conn cb' = Some c'" "sc_stream c' = s" "sc_stream c \<noteq> s" "is_down x \<noteq> is_down y"
    "sc_ready c = (\<not> st_connecting y)" "sc_ready c'"
    "\<not> sc_ready c \<longrightarrow> 0 < rb_size b"
    "in_order (px_heap w) cb b (st_writes y) (wcb_of x) (st_delivered y) (rc s) (sc_ready c)"
    "rs = []" "wr_addr r = rb_buf b'" "wr_cb r = wcb_of y" "cb_pos cb' \<noteq> cb_last cb'"
    "0 \<le> cb_pos cb'" "cb_pos cb' \<le> wr_off r" "0 \<le> wr_len r" "wr_off r + wr_len r = cb_last cb'"
    "cb_last cb' \<le> rb_size b'"
    "rc (sc_stream c) = st_delivered x @ drop (nat (wr_off r)) (rts_buf_contents (px_heap w) b')"
proof -
  obtain cb where cb: "st_data x = Data cb" and c0: "cb_stream_conn cb = None \<longrightarrow> st_writes x = []"
    using px_inv_stream_ok [OF inv x(1)] that by (elim stream_okE) (auto split: option.splits)
  obtain c where c: "cb_stream_conn cb = Some c" using c0 x(2) by (cases "cb_stream_conn cb") auto
  show ?thesis
  proof (rule px_inv_pairE [OF inv x(1) cb c])
    fix b y cb' b' c'
    assume pr: "cb_buf cb = Some b" "rts_buf_ok (px_heap w) b" "\<not> st_closing x"
      "st_connecting x = (st_read_cb x = None)"
      "px_streams w (sc_stream c) = Some y" "st_data y = Data cb'" "cb_buf cb' = Some b'"
      "rts_buf_ok (px_heap w) b'" "\<not> st_closing y" "st_connecting y = (st_read_cb y = None)"
      "cb_stream_conn cb' = Some c'" "sc_stream c' = s" "sc_stream c \<noteq> s" "is_down x \<noteq> is_down y"
      "sc_ready c = (\<not> st_connecting y)" "sc_ready c' = (\<not> st_connecting x)"
      "s \<notin> {} \<longrightarrow> \<not> sc_ready c \<longrightarrow> 0 < rb_size b"
      "in_order (px_heap w) cb b (st_writes y) (wcb_of x) (st_delivered y) (rc s) (sc_ready c)"
      "in_order (px_heap w) cb' b' (st_writes x) (wcb_of y) (st_delivered x) (rc (sc_stream c)) (sc_ready c')"
    have q: "sc_ready c'" "rs = []" "wr_addr r = rb_buf b'" "wr_cb r = wcb_of y" "cb_pos cb' \<noteq> cb_last cb'"
      "0 \<le> cb_pos cb'" "cb_pos cb' \<le> wr_off r" "0 \<le> wr_len r" "wr_off r + wr_len r = cb_last cb'"
      "cb_last cb' \<le> rb_size b'"
      "rc (sc_stream c) = st_delivered x @ drop (nat (wr_off r)) (rts_buf_contents (px_heap w) b')"
      using pr(19) x(2) by (auto simp: in_order_def split: if_splits)
    have "\<not> st_connecting x" "st_read_cb x \<noteq> None" using q(1) pr(4,16) by auto
    then show thesis
      using that [OF cb c pr(1-3)] pr(5-18) q by simp
  qed
qed

lemma take_bytes_read:
  "heap_read (px_heap w) (wr_addr r) (wr_off r) k = Inr bs \<Longrightarrow> (k = 0 \<longrightarrow> bs = []) \<Longrightarrow>
   take_bytes w s x r k = Inr (x\<lparr>st_delivered := st_delivered x @ bs\<rparr>)"
  by (simp add: take_bytes_def)

lemma write_part_inv:
  assumes inv: "px_inv {} w rc" and e: "healthy w (WritePart s k)"
  shows "\<exists>w'. proxy_step w (WritePart s k) = Inr w' \<and> px_inv {} w' rc"
proof -
  from e obtain x where x: "px_streams w s = Some x" by auto
  show ?thesis
  proof (cases "st_writes x")
    case Nil
    then show ?thesis using x inv by (simp add: get_stream_def)
  next
    case (Cons r rs)
    obtain cb c b y cb' b' c' where pr:
    "st_data x = Data cb" "cb_stream_conn cb = Some c" "cb_buf cb = Some b" "rts_buf_ok (px_heap w) b"
    "\<not> st_closing x" "\<not> st_connecting x" "st_read_cb x \<noteq> None"
    "px_streams w (sc_stream c) = Some y" "st_data y = Data cb'" "cb_buf cb' = Some b'"
    "rts_buf_ok (px_heap w) b'" "\<not> st_closing y" "st_connecting y = (st_read_cb y = None)"
    "cb_stream_conn cb' = Some c'" "sc_stream c' = s" "sc_stream c \<noteq> s" "is_down x \<noteq> is_down y"
    "sc_ready c = (\<not> st_connecting y)" "sc_ready c'" "\<not> sc_ready c \<longrightarrow> 0 < rb_size b"
    "in_order (px_heap w) cb b (st_writes y) (wcb_of x) (st_delivered y) (rc s) (sc_ready c)"
    and q: "rs = []" "wr_addr r = rb_buf b'" "wr_cb r = wcb_of y" "cb_pos cb' \<noteq> cb_last cb'"
    "0 \<le> cb_pos cb'" "cb_pos cb' \<le> wr_off r" "0 \<le> wr_len r" "wr_off r + wr_len r = cb_last cb'"
    "cb_last cb' \<le> rb_size b'"
    "rc (sc_stream c) = st_delivered x @ drop (nat (wr_off r)) (rts_buf_contents (px_heap w) b')"
      by (rule px_inv_writeE [OF inv x Cons]) (rule that; assumption)
    show ?thesis
    proof (cases "int k > wr_len r")
      case True
      then show ?thesis using x inv Cons by (simp add: get_stream_def)
    next
      case False
      let ?d = "sc_stream c" and ?cont = "rts_buf_contents (px_heap w) b'"
      let ?r = "r\<lparr>wr_off := wr_off r + int k, wr_len := wr_len r - int k\<rparr>"
      let ?bs = "take k (drop (nat (wr_off r)) ?cont)"
      let ?x = "x\<lparr>st_delivered := st_delivered x @ ?bs, st_writes := [?r]\<rparr>"
      let ?w' = "w\<lparr>px_streams := (px_streams w)(s \<mapsto> ?x)\<rparr>"
      have rd: "heap_read (px_heap w) (wr_addr r) (wr_off r) (int k) = Inr ?bs"
        using heap_read_contents [OF pr(11), of "wr_off r" "int k"] q False by simp
      have tk: "take_bytes w s x r (int k) = Inr (x\<lparr>st_delivered := st_delivered x @ ?bs\<rparr>)"
        by (rule take_bytes_read [OF rd]) simp
      have step: "proxy_step w (WritePart s k) = Inr ?w'"
        using x Cons pr(5,6) False tk q(1) by (simp add: get_stream_def put_stream_def)
      have dirs: "is_down ?x = is_down x" "wcb_of ?x = wcb_of x" by (simp_all add: is_down_def wcb_of_def)
      have "nat (wr_off r + int k) = nat (wr_off r) + k" using q by (simp add: nat_add_distrib)
      then have dc: "?bs @ drop (nat (wr_off r + int k)) ?cont = drop (nat (wr_off r)) ?cont"
        by (metis append_take_drop_id drop_drop add.commute)
      have o2: "in_order (px_heap ?w') cb' b' (st_writes ?x) (wcb_of y) (st_delivered ?x) (rc ?d) (sc_ready c')"
        using q pr(19) False dc by (auto simp: in_order_def)
      have ok: "stream_ok {} ?w' rc s ?x \<and> stream_ok {} ?w' rc ?d y"
        by (rule pair_okI [where cb = cb and b = b and c = c and cb' = cb' and b' = b' and c' = c'])
          (use pr dirs o2 in simp_all)
      have "px_inv {} ?w' rc"
        by (rule px_inv_pair_update [OF inv x, where p = ?d and y = y and ?x2.0 = ?x and ?y2.0 = y])
          (use pr ok inv in \<open>auto simp: peer_of_def buf_addr_def px_inv_def\<close>)
      then show ?thesis using step by blast
    qed
  qed
qed


lemma after_write_more:
  assumes x: "px_streams w s = Some x" "st_data x = Data cb" "cb_stream_conn cb = Some c" "\<not> st_closing x"
    and y: "px_streams w (sc_stream c) = Some y" "st_data y = Data cb'" "cb_buf cb' = Some b'" "sc_stream c \<noteq> s"
    and more: "cb_last cb' \<noteq> rb_size b'" "0 \<le> cb_last cb'" "cb_last cb' \<le> rb_size b'" "rb_size b' < 2 ^ 31"
    and oom: "no_oom (px_heap w)"
  shows "after_write wcb w s = Inr (w\<lparr>px_heap := (px_heap w)\<lparr>hp_next := Suc (hp_next (px_heap w))\<rparr>,
     px_streams := (px_streams w)(sc_stream c \<mapsto> y\<lparr>st_data := Data (cb'\<lparr>cb_pos := cb_last cb', cb_last := rb_size b'\<rparr>)\<rparr>,
       s \<mapsto> x\<lparr>st_writes := st_writes x @ [\<lparr>wr_addr = rb_buf b', wr_off = cb_last cb',
          wr_len = rb_size b' - cb_last cb', wr_cb = wcb\<rparr>]\<rparr>)\<rparr>)"
  using assms
  by (simp add: after_write_def get_cb_def get_stream_def put_cb_def put_stream_def
      transfer_stream_data_def Let_def malloc_struct_no_oom uv_write_def)

lemma after_write_finished:
  assumes x: "px_streams w s = Some x" "st_data x = Data cb" "cb_stream_conn cb = Some c"
    and y: "px_streams w (sc_stream c) = Some y" "st_data y = Data cb'" "cb_buf cb' = Some b'"
    and all: "cb_last cb' = rb_size b'"
  shows "after_write wcb w s = Inr (w\<lparr>px_streams := (px_streams w)(sc_stream c \<mapsto> y\<lparr>st_data :=
       Data (cb'\<lparr>cb_buf := Some (b'\<lparr>rb_size := 0\<rparr>), cb_last := 0, cb_pos := 0\<rparr>)\<rparr>)\<rparr>)"
  using assms by (simp add: after_write_def get_cb_def get_stream_def put_cb_def put_stream_def)

lemma write_done_inv:
  assumes inv: "px_inv {} w rc" and e: "healthy w (WriteDone s 0)"
  shows "\<exists>w'. proxy_step w (WriteDone s 0) = Inr w' \<and> px_inv {} w' rc"
proof -
  from e obtain x where x: "px_streams w s = Some x" by auto
  show ?thesis
  proof (cases "st_writes x")
    case Nil
    then show ?thesis using x inv by (simp add: get_stream_def)
  next
    case (Cons r rs)
    obtain cb c b y cb' b' c' where pr:
    "st_data x = Data cb" "cb_stream_conn cb = Some c" "cb_buf cb = Some b" "rts_buf_ok (px_heap w) b"
    "\<not> st_closing x" "\<not> st_connecting x" "st_read_cb x \<noteq> None"
    "px_streams w (sc_stream c) = Some y" "st_data y = Data cb'" "cb_buf cb' = Some b'"
    "rts_buf_ok (px_heap w) b'" "\<not> st_closing y" "st_connecting y = (st_read_cb y = None)"
    "cb_stream_conn cb' = Some c'" "sc_stream c' = s" "sc_stream c \<noteq> s" "is_down x \<noteq> is_down y"
    "sc_ready c = (\<not> st_connecting y)" "sc_ready c'" "\<not> sc_ready c \<longrightarrow> 0 < rb_size b"
    "in_order (px_heap w) cb b (st_writes y) (wcb_of x) (st_delivered y) (rc s) (sc_ready c)"
    and q: "rs = []" "wr_addr r = rb_buf b'" "wr_cb r = wcb_of y" "cb_pos cb' \<noteq> cb_last cb'"
    "0 \<le> cb_pos cb'" "cb_pos cb' \<le> wr_off r" "0 \<le> wr_len r" "wr_off r + wr_len r = cb_last cb'"
    "cb_last cb' \<le> rb_size b'"
    "rc (sc_stream c) = st_delivered x @ drop (nat (wr_off r)) (rts_buf_contents (px_heap w) b')"
      by (rule px_inv_writeE [OF inv x Cons]) (rule that; assumption)
    let ?h = "px_heap w" and ?d = "sc_stream c" and ?cont = "rts_buf_contents (px_heap w) b'"
    let ?bs = "take (nat (wr_len r)) (drop (nat (wr_off r)) ?cont)"
    let ?x1 = "x\<lparr>st_delivered := st_delivered x @ ?bs, st_writes := []\<rparr>"
    let ?w1 = "w\<lparr>px_streams := (px_streams w)(s \<mapsto> ?x1)\<rparr>"
    have h: "heap_ok ?h" "no_oom ?h" using inv by (auto simp: px_inv_def)
    have rd: "heap_read ?h (wr_addr r) (wr_off r) (wr_len r) = Inr ?bs"
      using heap_read_contents [OF pr(11), of "wr_off r" "wr_len r"] q by simp
    have tk: "take_bytes w s x r (wr_len r) = Inr (x\<lparr>st_delivered := st_delivered x @ ?bs\<rparr>)"
      by (rule take_bytes_read [OF rd]) simp
    have step: "proxy_step w (WriteDone s 0) = after_write (wcb_of y) ?w1 s"
      using x Cons pr(5,6) tk q(1,3)
      by (simp add: get_stream_def put_stream_def wcb_of_def after_upstream_write_def
          after_downstream_write_def)
    have len: "int (length ?cont) = rb_size b'" by (rule length_rts_buf_contents [OF pr(11)])
    have "nat (cb_last cb') = nat (wr_off r) + nat (wr_len r)" using q(5-8) by linarith
    then have dc: "?bs @ drop (nat (cb_last cb')) ?cont = drop (nat (wr_off r)) ?cont"
      by (metis append_take_drop_id drop_drop add.commute)
    have sz: "rb_size b' < 2 ^ 31" "0 < rb_capacity b'" "rb_capacity b' < 2 ^ 31"
      using pr(11) by (auto elim: rts_buf_okE)
    have w1: "px_streams ?w1 s = Some ?x1" "px_streams ?w1 ?d = Some y" "no_oom (px_heap ?w1)"
      using pr(8,16) h by simp_all
    show ?thesis
    proof (cases "cb_last cb' = rb_size b'")
      case False
      let ?r2 = "\<lparr>wr_addr = rb_buf b', wr_off = cb_last cb', wr_len = rb_size b' - cb_last cb', wr_cb = wcb_of y\<rparr>"
      let ?cb2 = "cb'\<lparr>cb_pos := cb_last cb', cb_last := rb_size b'\<rparr>"
      let ?x2 = "?x1\<lparr>st_writes := [?r2]\<rparr>" and ?y2 = "y\<lparr>st_data := Data ?cb2\<rparr>"
      let ?w2 = "w\<lparr>px_heap := ?h\<lparr>hp_next := Suc (hp_next ?h)\<rparr>, px_streams := (px_streams w)(s \<mapsto> ?x2, ?d \<mapsto> ?y2)\<rparr>"
      have aw: "after_write (wcb_of y) ?w1 s = Inr ?w2"
        using after_write_more [OF w1(1) _ pr(2) _ w1(2) pr(9,10,16) False _ q(9) sz(1) w1(3)] pr q
        by (simp add: fun_upd_twist)
      have frame: "rts_buf_ok (px_heap ?w2) z = rts_buf_ok ?h z" "rts_buf_contents (px_heap ?w2) z = rts_buf_contents ?h z" for z
        by (simp_all add: rts_buf_ok_def rts_buf_contents_def)
      have dirs: "is_down ?x2 = is_down x" "is_down ?y2 = is_down y" "wcb_of ?x2 = wcb_of x" "wcb_of ?y2 = wcb_of y"
        by (simp_all add: is_down_def wcb_of_def)
      have o1: "in_order (px_heap ?w2) cb b (st_writes ?y2) (wcb_of ?x2) (st_delivered ?y2) (rc s) (sc_ready c)"
        using pr(21) dirs by (simp add: in_order_def frame [simplified])
      have o2: "in_order (px_heap ?w2) ?cb2 b' (st_writes ?x2) (wcb_of ?y2) (st_delivered ?x2) (rc ?d) (sc_ready c')"
        using q pr(19) dirs False dc by (simp add: in_order_def frame [simplified])
      have ok: "stream_ok {} ?w2 rc s ?x2 \<and> stream_ok {} ?w2 rc ?d ?y2"
        by (rule pair_okI [where cb = cb and b = b and c = c and cb' = ?cb2 and b' = b' and c' = c'])
          (use pr dirs o1 o2 frame in simp_all)
      have "px_inv {} ?w2 rc"
        by (rule px_inv_pair_update [OF inv x, where p = ?d and y = y and ?x2.0 = ?x2 and ?y2.0 = ?y2])
          (use pr ok h heap_ok_Suc_next [OF h(1)] in \<open>auto simp: peer_of_def buf_addr_def no_oom_def\<close>)
      then show ?thesis using step aw by simp
    next
      case True
      let ?b2 = "b'\<lparr>rb_size := 0\<rparr>"
      let ?cb2 = "cb'\<lparr>cb_buf := Some ?b2, cb_last := 0, cb_pos := 0\<rparr>"
      let ?y2 = "y\<lparr>st_data := Data ?cb2\<rparr>"
      let ?w2 = "w\<lparr>px_streams := (px_streams w)(s \<mapsto> ?x1, ?d \<mapsto> ?y2)\<rparr>"
      have aw: "after_write (wcb_of y) ?w1 s = Inr ?w2"
        using after_write_finished [OF w1(1) _ pr(2) w1(2) pr(9,10) True] pr by simp
      have dirs: "is_down ?x1 = is_down x" "is_down ?y2 = is_down y" "wcb_of ?x1 = wcb_of x" "wcb_of ?y2 = wcb_of y"
        by (simp_all add: is_down_def wcb_of_def)
      have b2: "rts_buf_ok ?h ?b2" "rts_buf_contents ?h ?b2 = []"
        using pr(11) by (auto simp: rts_buf_ok_def rts_buf_contents_def split: option.splits)
      have "drop (nat (cb_last cb')) ?cont = []" using len True by simp
      then have "?bs = drop (nat (wr_off r)) ?cont" using dc by simp
      then have o2: "in_order (px_heap ?w2) ?cb2 ?b2 (st_writes ?x1) (wcb_of ?y2) (st_delivered ?x1) (rc ?d) (sc_ready c')"
        using q b2 by (simp add: in_order_def)
      have ok: "stream_ok {} ?w2 rc s ?x1 \<and> stream_ok {} ?w2 rc ?d ?y2"
        by (rule pair_okI [where cb = cb and b = b and c = c and cb' = ?cb2 and b' = ?b2 and c' = c'])
          (use pr dirs o2 b2 in simp_all)
      have "px_inv {} ?w2 rc"
        by (rule px_inv_pair_update [OF inv x, where p = ?d and y = y and ?x2.0 = ?x1 and ?y2.0 = ?y2])
          (use pr ok h in \<open>auto simp: peer_of_def buf_addr_def\<close>)
      then show ?thesis using step aw by simp
    qed
  qed
qed

section \<open>Every healthy event\<close>

lemma healthy_step:
  assumes inv: "px_inv {} w rc" and e: "healthy w e"
  shows "\<exists>w'. proxy_step w e = Inr w' \<and> px_inv {} w' (received_by rc e)"
proof (cases e)
  case (NewConnection status acc)
  then show ?thesis using new_connection_inv [OF inv] e by simp
next
  case (Readable s n bs)
  then show ?thesis using readable_inv [OF inv, of s n bs] e by simp
next
  case (Connected s status)
  then show ?thesis using connected_inv [OF inv, of s] e by simp
next
  case (WritePart s k)
  then show ?thesis using write_part_inv [OF inv, of s k] e by simp
next
  case (WriteDone s status)
  then show ?thesis using write_done_inv [OF inv, of s] e by simp
qed

text \<open>A run, each of whose events is healthy in the state it meets.\<close>

fun healthy_run :: "proxy \<Rightarrow> event list \<Rightarrow> bool" where
  "healthy_run w [] = True"
| "healthy_run w (e # es) =
     (healthy w e \<and> (case proxy_step w e of Inl _ \<Rightarrow> True | Inr w1 \<Rightarrow> healthy_run w1 es))"

definition received_in :: "event list \<Rightarrow> nat \<Rightarrow> u8 list" where
  "received_in es = foldl received_by (\<lambda>_. []) es"

lemma healthy_run_inv:
  "px_inv {} w rc \<Longrightarrow> healthy_run w es \<Longrightarrow>
   \<exists>w'. proxy_run w es = Inr w' \<and> px_inv {} w' (foldl received_by rc es)"
proof (induction es arbitrary: w rc)
  case Nil
  then show ?case by simp
next
  case (Cons e es)
  obtain w1 where w1: "proxy_step w e = Inr w1" "px_inv {} w1 (received_by rc e)"
    using healthy_step [OF Cons.prems(1), of e] Cons.prems(2) by auto
  then show ?case using Cons.IH [OF w1(2)] Cons.prems(2) by simp
qed

lemma px_inv_init:
  "heap_ok h \<Longrightarrow> no_oom h \<Longrightarrow> px_inv {} (proxy_init h) (\<lambda>_. [])"
  by (simp add: px_inv_def proxy_init_def)

lemma healthy_run_init:
  assumes "heap_ok h" "no_oom h" "healthy_run (proxy_init h) es"
  obtains w where "proxy_run (proxy_init h) es = Inr w" "px_inv {} w (received_in es)"
  using healthy_run_inv [OF px_inv_init [OF assms(1,2)] assms(3)] that by (auto simp: received_in_def)

end
