(* ===== verification/ProxyProps.thy ===== *)
theory ProxyProps
  imports ProxyEvents "HOL-Library.Sublist"
begin

text \<open>
  What the proxy guarantees in runs without failures, and what it does when a connection fails
  or ends.
\<close>

section \<open>Forwarding\<close>

definition empty_heap :: heap where
  "empty_heap = \<lparr>hp_mem = (\<lambda>_. None), hp_next = 0, hp_oom = (\<lambda>_. False), hp_junk = 0\<rparr>"

lemma empty_heap_ok: "heap_ok empty_heap" "no_oom empty_heap"
  by (simp_all add: empty_heap_def heap_ok_def no_oom_def)

text \<open>A sample run: a request in two reads, a reply, and partial writes in between.\<close>

definition sample_run :: "event list" where
  "sample_run = [NewConnection 0 0, Readable 0 3 [1, 2, 3], Connected 1 0, WritePart 1 2,
     Readable 0 2 [4, 5], WriteDone 1 0, Readable 1 2 [9, 8], WriteDone 0 0, WriteDone 1 0]"

lemmas run_defs = on_new_downstream_connection_def new_stream_def malloc_obj_def malloc_def
  init_callback_data_def malloc_struct_def rts_buf_init_def get_stream_def put_stream_def
  uv_read_start_def put_cb_def get_cb_def alloc_buffer_def heap_write_def heap_read_def
  downstream_read_def upstream_read_def init_upstream_connection_def uv_tcp_connect_def
  append_to_cb_def block_bytes_def rts_buf_append_def read_src_def forward_def
  transfer_stream_data_def uv_write_def free_base_def free_block_def on_upstream_connect_def
  take_bytes_def after_upstream_write_def after_downstream_write_def after_write_def
  read_fits_def rts_buf_fits_def DEFAULT_BUF_SIZE_def fresh_stream_def Let_def

lemma sample_healthy: "healthy_run (proxy_init empty_heap) sample_run"
  by (simp add: sample_run_def proxy_init_def empty_heap_def run_defs)


lemma px_inv_channel:
  assumes inv: "px_inv {} w rc" and x: "px_streams w s = Some x" "peer_of x = Some p"
  shows "\<exists>y. px_streams w p = Some y \<and> prefix (st_delivered y) (rc s) \<and>
    (st_writes y = [] \<and> \<not> st_connecting y \<longrightarrow> st_delivered y = rc s)"
proof -
  obtain cb where cb: "st_data x = Data cb" using px_inv_stream_ok [OF inv x(1)] by (elim stream_okE)
  with x(2) obtain c where c: "cb_stream_conn cb = Some c" "sc_stream c = p" by (auto simp: peer_of_def)
  show ?thesis
  proof (rule px_inv_pairE [OF inv x(1) cb c(1)])
    fix b y cb' b' c'
    assume pr: "rts_buf_ok (px_heap w) b" "px_streams w (sc_stream c) = Some y"
      "sc_ready c = (\<not> st_connecting y)"
      "in_order (px_heap w) cb b (st_writes y) (wcb_of x) (st_delivered y) (rc s) (sc_ready c)"
    have "prefix (st_delivered y) (rc s)" using pr(4) by (auto simp: in_order_def split: if_splits)
    moreover have "st_delivered y = rc s" if "st_writes y = []" "\<not> st_connecting y"
      using pr(3,4) that length_rts_buf_contents [OF pr(1)] by (auto simp: in_order_def split: if_splits)
    ultimately show ?thesis using pr(2) c(2) by blast
  qed
qed

text \<open>
  C1: in a healthy run the proxy never touches memory it must not, and whatever one side of a
  connection has received from the proxy is a prefix of what the proxy read from the other side:
  nothing is lost, duplicated or reordered, in either direction, for any number of connections and
  any interleaving of reads, partial writes and completions. A run is healthy when no allocation
  fails, every connection is accepted and established, every write succeeds, no stream ends or
  reports an error, and every read fits: the buffer of the stream stays below 1 GiB, and while a
  write request points into it the new bytes fit without moving it. Without that last condition
  the claim fails (a read that moves the buffer under a request is the subject of the section on failures), and so it does with failures and ends.
\<close>

theorem proxy_forwards_in_order:
  assumes "heap_ok h" "no_oom h" "healthy_run (proxy_init h) es"
  shows "\<exists>w. proxy_run (proxy_init h) es = Inr w \<and>
    (\<forall>s x p. px_streams w s = Some x \<longrightarrow> peer_of x = Some p \<longrightarrow>
       (\<exists>y. px_streams w p = Some y \<and> prefix (st_delivered y) (received_in es s)))"
proof -
  obtain w where w: "proxy_run (proxy_init h) es = Inr w" "px_inv {} w (received_in es)"
    using assms by (rule healthy_run_init)
  then show ?thesis using px_inv_channel [OF w(2)] by blast
qed

theorem proxy_forwards_in_order_witness:
  "\<exists>w. proxy_run (proxy_init empty_heap) sample_run = Inr w \<and>
    (\<forall>s x p. px_streams w s = Some x \<longrightarrow> peer_of x = Some p \<longrightarrow>
       (\<exists>y. px_streams w p = Some y \<and> prefix (st_delivered y) (received_in sample_run s)))"
  by (rule proxy_forwards_in_order [OF empty_heap_ok sample_healthy])

text \<open>
  C2: no data gets stuck in a healthy run (as above: no allocation fails, nothing fails or ends,
  and every read fits, without moving the buffer while a write is in flight). When the connection
  to a peer is up and no write to it is outstanding, everything read for it has been delivered, so
  a pending byte always has a write request that will carry it.
\<close>

theorem proxy_nothing_stuck:
  assumes "heap_ok h" "no_oom h" "healthy_run (proxy_init h) es"
    and "proxy_run (proxy_init h) es = Inr w"
    and "px_streams w s = Some x" "peer_of x = Some p" "px_streams w p = Some y"
    and "st_writes y = []" "\<not> st_connecting y"
  shows "st_delivered y = received_in es s"
proof -
  have "px_inv {} w (received_in es)"
    using healthy_run_init [OF assms(1-3)] assms(4) by (metis sum.inject(2))
  then show ?thesis using px_inv_channel [OF _ assms(5,6)] assms(7-9) by fastforce
qed

lemma sample_result:
  "\<exists>w x y. proxy_run (proxy_init empty_heap) sample_run = Inr w \<and> px_streams w 0 = Some x \<and>
     px_streams w 1 = Some y \<and> peer_of x = Some 1 \<and> st_writes y = [] \<and> \<not> st_connecting y"
  by (simp add: sample_run_def proxy_init_def empty_heap_def run_defs peer_of_def)

theorem proxy_nothing_stuck_witness:
  "\<exists>w y. proxy_run (proxy_init empty_heap) sample_run = Inr w \<and> px_streams w 1 = Some y \<and>
     st_delivered y = received_in sample_run 0 \<and> received_in sample_run 0 = [1, 2, 3, 4, 5]"
proof -
  obtain w x y where w: "proxy_run (proxy_init empty_heap) sample_run = Inr w" "px_streams w 0 = Some x"
     "px_streams w 1 = Some y" "peer_of x = Some 1" "st_writes y = []" "\<not> st_connecting y"
    using sample_result by blast
  have "st_delivered y = received_in sample_run 0"
    by (rule proxy_nothing_stuck [OF empty_heap_ok sample_healthy w(1,2,4,3,5,6)])
  moreover have "received_in sample_run 0 = [1, 2, 3, 4, 5]"
    by (simp add: received_in_def sample_run_def)
  ultimately show ?thesis using w by blast
qed

section \<open>Failures\<close>

text \<open>
  C34: when the connection to the upstream cannot be established, \<open>on_upstream_connect\<close> clears the
  downstream's \<open>stream_conn\<close>, cleans up and falls through to code that dereferences it: the
  process crashes, in every reachable state with a connection attempt outstanding.
\<close>

theorem proxy_connect_failure_faults:
  assumes "px_inv {} w rc" "px_streams w u = Some x" "st_connecting x" "status < 0"
  shows "proxy_step w (Connected u status) = Inl NullDeref"
proof -
  obtain cb where cb: "st_data x = Data cb" and c0: "case cb_stream_conn cb of None \<Rightarrow> is_down x | Some _ \<Rightarrow> True"
    "st_connecting x = (st_read_cb x = None)"
    using px_inv_stream_ok [OF assms(1,2)] by (elim stream_okE) (auto split: option.splits)
  then obtain c where c: "cb_stream_conn cb = Some c"
    using assms(3) by (cases "cb_stream_conn cb") (auto simp: is_down_def)
  show ?thesis
  proof (rule px_inv_pairE [OF assms(1,2) cb c])
    fix b y cb' b' c'
    assume pr: "cb_buf cb = Some b" "rts_buf_ok (px_heap w) b" "px_streams w (sc_stream c) = Some y"
      "st_data y = Data cb'" "cb_stream_conn cb' = Some c'" "sc_stream c \<noteq> u"
    obtain blk where "hp_mem (px_heap w) (rb_buf b) = Some blk" using pr(2) by (rule rts_buf_okE)
    then show ?thesis
      using assms cb c pr
      by (simp add: get_stream_def put_stream_def on_upstream_connect_def get_cb_def put_cb_def
          cleanup_callback_data_def rts_buf_free_def free_block_def uv_close_def uv_read_start_def)
  qed
qed

lemma connecting_state:
  "\<exists>w x. proxy_run (proxy_init empty_heap) [NewConnection 0 0, Readable 0 1 [7]] = Inr w \<and>
     px_streams w 1 = Some x \<and> st_connecting x"
  by (simp add: proxy_init_def empty_heap_def run_defs)

theorem proxy_connect_failure_faults_witness:
  "\<exists>w. proxy_run (proxy_init empty_heap) [NewConnection 0 0, Readable 0 1 [7]] = Inr w \<and>
     proxy_step w (Connected 1 (- 111)) = Inl NullDeref"
proof -
  obtain w x where w: "proxy_run (proxy_init empty_heap) [NewConnection 0 0, Readable 0 1 [7]] = Inr w"
     "px_streams w 1 = Some x" "st_connecting x" using connecting_state by blast
  have "healthy_run (proxy_init empty_heap) [NewConnection 0 0, Readable 0 1 [7]]"
    by (simp add: proxy_init_def empty_heap_def run_defs)
  then have "px_inv {} w (received_in [NewConnection 0 0, Readable 0 1 [7]])"
    using healthy_run_init [OF empty_heap_ok] w(1) by (metis sum.inject(2))
  then have "proxy_step w (Connected 1 (- 111)) = Inl NullDeref"
    by (rule proxy_connect_failure_faults [OF _ w(2,3)]) simp
  with w show ?thesis by blast
qed

lemma read_event_end:
  assumes "no_oom (px_heap w)" "px_streams w s = Some x" "st_read_cb x = Some cb" "n < 0"
  shows "\<exists>h base. proxy_step w (Readable s n []) = run_read_cb cb (w\<lparr>px_heap := h\<rparr>) s n base \<and>
    no_oom h \<and> (\<forall>a blk. hp_mem (px_heap w) a = Some blk \<longrightarrow> a \<noteq> base \<longrightarrow> hp_mem h a = Some blk) \<and>
    base = hp_next (px_heap w)"
  using assms by (auto simp: get_stream_def alloc_buffer_def malloc_no_oom heap_write_def no_oom_def)

text \<open>
  C35: if the downstream ends first, the end of the upstream crashes: \<open>downstream_read\<close> clears the
  upstream's \<open>stream_conn\<close>, which \<open>upstream_read\<close> then dereferences without the test that
  \<open>downstream_read\<close> has.
\<close>

theorem proxy_downstream_end_first_faults:
  assumes inv: "px_inv {} w rc" and x: "px_streams w d = Some x" "is_down x" "peer_of x = Some u"
    and y: "px_streams w u = Some y" "\<not> st_connecting y" and n: "n < 0" "m < 0"
  shows "proxy_run w [Readable d n [], Readable u m []] = Inl NullDeref"
proof -
  obtain cb c where cb: "st_data x = Data cb" "cb_stream_conn cb = Some c" "sc_stream c = u"
    using px_inv_stream_ok [OF inv x(1)] x(3) by (elim stream_okE) (auto simp: peer_of_def)
  show ?thesis
  proof (rule px_inv_pairE [OF inv x(1) cb(1,2)])
    fix b y' cb' b' c'
    assume "cb_buf cb = Some b" "rts_buf_ok (px_heap w) b" "px_streams w (sc_stream c) = Some y'"
      "st_data y' = Data cb'" "sc_stream c \<noteq> d" "is_down x \<noteq> is_down y'" "st_connecting y' = (st_read_cb y' = None)"
    then have pr: "cb_buf cb = Some b" "rts_buf_ok (px_heap w) b" "st_data y = Data cb'" "u \<noteq> d"
      "st_read_cb y = Some Upstream_read"
      using cb(3) y x(2) by (auto simp: is_down_def) (metis read_cb.exhaust)+
    obtain blk where blk: "hp_mem (px_heap w) (rb_buf b) = Some blk" using pr(2) by (rule rts_buf_okE)
    have h: "heap_ok (px_heap w)" "no_oom (px_heap w)" using inv by (auto simp: px_inv_def)
    have lt: "rb_buf b \<noteq> hp_next (px_heap w)" using h(1) blk by (auto simp: heap_ok_def)
    obtain h1 where h1: "proxy_step w (Readable d n []) = downstream_read (w\<lparr>px_heap := h1\<rparr>) d n (hp_next (px_heap w))"
      "no_oom h1" "hp_mem h1 (rb_buf b) = Some blk"
      using read_event_end [OF h(2) x(1), of Downstream_read n] x(2) n(1) blk lt
      by (auto simp: is_down_def simp del: proxy_step.simps)
    let ?x' = "x\<lparr>st_data := Null, st_closing := True, st_read_cb := None\<rparr>"
    let ?y' = "y\<lparr>st_data := Data (cb'\<lparr>cb_stream_conn := None\<rparr>)\<rparr>"
    let ?h2 = "h1\<lparr>hp_mem := (hp_mem h1)(rb_buf b := None)\<rparr>"
    let ?w2 = "w\<lparr>px_heap := ?h2, px_streams := (px_streams w)(u \<mapsto> ?y', d \<mapsto> ?x')\<rparr>"
    have s1: "proxy_step w (Readable d n []) = Inr ?w2"
      using h1 x cb y pr n by (simp del: proxy_step.simps add: downstream_read_def get_cb_def get_stream_def
          detach_peer_def put_cb_def put_stream_def cleanup_and_close_def cleanup_callback_data_def
          rts_buf_free_def free_block_def uv_close_def)
    have oom: "no_oom (px_heap ?w2)" using h1(2) by (simp add: no_oom_def)
    have y2: "px_streams ?w2 u = Some ?y'" "st_read_cb ?y' = Some Upstream_read" using pr by simp_all
    obtain h3 where "proxy_step ?w2 (Readable u m []) = upstream_read (?w2\<lparr>px_heap := h3\<rparr>) u m (hp_next (px_heap ?w2))"
      using read_event_end [OF oom y2 n(2)] by (auto simp del: proxy_step.simps)
    then have "proxy_step ?w2 (Readable u m []) = Inl NullDeref"
      using y2(1) n(2) by (simp del: proxy_step.simps add: upstream_read_def get_cb_def get_stream_def)
    then show ?thesis using s1 by (simp del: proxy_step.simps)
  qed
qed


lemma connected_state:
  "\<exists>w x y. proxy_run (proxy_init empty_heap) [NewConnection 0 0, Readable 0 1 [7], Connected 1 0, WriteDone 1 0] = Inr w \<and>
     px_streams w 0 = Some x \<and> is_down x \<and> peer_of x = Some 1 \<and> px_streams w 1 = Some y \<and> \<not> st_connecting y \<and>
     healthy_run (proxy_init empty_heap) [NewConnection 0 0, Readable 0 1 [7], Connected 1 0, WriteDone 1 0]"
  by (simp add: proxy_init_def empty_heap_def run_defs peer_of_def is_down_def)

lemma connected_state_inv:
  obtains w x y rc where
    "proxy_run (proxy_init empty_heap) [NewConnection 0 0, Readable 0 1 [7], Connected 1 0, WriteDone 1 0] = Inr w"
    "px_inv {} w rc" "px_streams w 0 = Some x" "is_down x" "peer_of x = Some 1" "px_streams w 1 = Some y"
    "\<not> st_connecting y"
  using connected_state healthy_run_init [OF empty_heap_ok] by (metis sum.inject(2))

theorem proxy_downstream_end_first_faults_witness:
  "proxy_run (proxy_init empty_heap) [NewConnection 0 0, Readable 0 1 [7], Connected 1 0, WriteDone 1 0,
     Readable 0 (- 4095) [], Readable 1 (- 4095) []] = Inl NullDeref"
proof -
  obtain w x y rc where w:
    "proxy_run (proxy_init empty_heap) [NewConnection 0 0, Readable 0 1 [7], Connected 1 0, WriteDone 1 0] = Inr w"
    "px_inv {} w rc" "px_streams w 0 = Some x" "is_down x" "peer_of x = Some 1" "px_streams w 1 = Some y"
    "\<not> st_connecting y" by (rule connected_state_inv)
  have "proxy_run w [Readable 0 (- 4095) [], Readable 1 (- 4095) []] = Inl NullDeref"
    by (rule proxy_downstream_end_first_faults [OF w(2-7)]) simp_all
  with w(1) show ?thesis by (auto simp: ebind_eq_Inr simp del: proxy_step.simps)
qed

text \<open>The streams an event is delivered for.\<close>

fun event_on :: "nat set \<Rightarrow> event \<Rightarrow> bool" where
  "event_on S (NewConnection status accept_res) = False"
| "event_on S (Readable s n bs) = (s \<in> S)"
| "event_on S (Connected s status) = (s \<in> S)"
| "event_on S (WritePart s k) = (s \<in> S)"
| "event_on S (WriteDone s status) = (s \<in> S)"

text \<open>A stream that is closed, with nothing outstanding, hears of no event any more.\<close>

lemma closed_stream_step:
  assumes "px_streams w s = Some x" "st_read_cb x = None" "\<not> st_connecting x" "st_writes x = []" "event_on {s} e"
  shows "proxy_step w e = Inr w"
  using assms by (cases e) (simp_all add: get_stream_def)

lemma torn_down_write_done:
  assumes "px_streams w s = Some x" "st_data x = Null" "\<not> st_connecting x" "st_writes x \<noteq> []" "status < 0"
  shows "proxy_step w (WriteDone s status) = Inl NullDeref"
  using assms by (cases "st_writes x"; cases "wr_cb (hd (st_writes x))")
    (simp_all add: get_stream_def after_upstream_write_def after_downstream_write_def after_write_def
      get_cb_def put_stream_def)

text \<open>
  C10: when the end of the upstream is delivered and right after it the end of the downstream, both
  ends are torn down: the upstream's end detaches the downstream, the downstream's end finds no
  peer, and afterwards both streams are closing, hold no callback data and the blocks of both
  buffers are free again. If no write was outstanding on either stream, no later event of the two
  does anything; if one was, the callback libuv makes for it when the stream is closed, with an
  error, dereferences NULL.
\<close>

theorem proxy_upstream_end_first_releases:
  assumes inv: "px_inv {} w rc" and x: "px_streams w d = Some x" "is_down x" "peer_of x = Some u"
    and y: "px_streams w u = Some y" "\<not> st_connecting y" and n: "n < 0" "m < 0"
  shows "\<exists>w' x' y'. proxy_run w [Readable u n [], Readable d m []] = Inr w' \<and>
    px_streams w' d = Some x' \<and> st_closing x' \<and> st_data x' = Null \<and>
    px_streams w' u = Some y' \<and> st_closing y' \<and> st_data y' = Null \<and>
    (\<forall>a. buf_addr x = Some a \<or> buf_addr y = Some a \<longrightarrow> hp_mem (px_heap w') a = None) \<and>
    (\<forall>e. st_writes x = [] \<and> st_writes y = [] \<and> event_on {d, u} e \<longrightarrow> proxy_step w' e = Inr w') \<and>
    (\<forall>k. st_writes x \<noteq> [] \<and> k < 0 \<longrightarrow> proxy_step w' (WriteDone d k) = Inl NullDeref) \<and>
    (\<forall>k. st_writes y \<noteq> [] \<and> k < 0 \<longrightarrow> proxy_step w' (WriteDone u k) = Inl NullDeref)"
proof -
  obtain cb c where cb: "st_data x = Data cb" "cb_stream_conn cb = Some c" "sc_stream c = u"
    using px_inv_stream_ok [OF inv x(1)] x(3) by (elim stream_okE) (auto simp: peer_of_def)
  show ?thesis
  proof (rule px_inv_pairE [OF inv x(1) cb(1,2)])
    fix b y' cb' b' c'
    assume "cb_buf cb = Some b" "rts_buf_ok (px_heap w) b" "px_streams w (sc_stream c) = Some y'"
      "st_data y' = Data cb'" "cb_buf cb' = Some b'" "rts_buf_ok (px_heap w) b'" "sc_stream c \<noteq> d"
      "is_down x \<noteq> is_down y'" "st_connecting y' = (st_read_cb y' = None)"
      "cb_stream_conn cb' = Some c'" "sc_stream c' = d" "rb_buf b \<noteq> rb_buf b'"
    then have pr: "cb_buf cb = Some b" "rts_buf_ok (px_heap w) b" "st_data y = Data cb'" "cb_buf cb' = Some b'"
      "rts_buf_ok (px_heap w) b'" "u \<noteq> d" "cb_stream_conn cb' = Some c'" "sc_stream c' = d" "rb_buf b \<noteq> rb_buf b'"
      "st_read_cb y = Some Upstream_read"
      using cb(3) y x(2) by (auto simp: is_down_def) (metis read_cb.exhaust)+
    obtain blk where blk: "hp_mem (px_heap w) (rb_buf b) = Some blk" using pr(2) by (rule rts_buf_okE)
    obtain blk' where blk': "hp_mem (px_heap w) (rb_buf b') = Some blk'" using pr(5) by (rule rts_buf_okE)
    have h: "heap_ok (px_heap w)" "no_oom (px_heap w)" using inv by (auto simp: px_inv_def)
    have lt: "rb_buf b < hp_next (px_heap w)" "rb_buf b' < hp_next (px_heap w)" using h(1) blk blk' by (auto simp: heap_ok_def)
    let ?n = "hp_next (px_heap w)"
    let ?h1 = "(px_heap w)\<lparr>hp_next := Suc ?n, hp_mem := (hp_mem (px_heap w))(?n \<mapsto> replicate 65536 (hp_junk (px_heap w)))\<rparr>"
    let ?h2 = "?h1\<lparr>hp_mem := (hp_mem ?h1)(rb_buf b' := None)\<rparr>"
    let ?y' = "y\<lparr>st_data := Null, st_closing := True, st_read_cb := None\<rparr>"
    let ?x1 = "x\<lparr>st_data := Data (cb\<lparr>cb_stream_conn := None\<rparr>)\<rparr>"
    let ?w2 = "w\<lparr>px_heap := ?h2, px_streams := (px_streams w)(d \<mapsto> ?x1, u \<mapsto> ?y')\<rparr>"
    have s1: "proxy_step w (Readable u n []) = Inr ?w2"
      using x cb y pr n h(2) blk' lt by (simp add: upstream_read_def get_cb_def get_stream_def malloc_no_oom
          detach_peer_def put_cb_def put_stream_def cleanup_and_close_def cleanup_callback_data_def alloc_buffer_def
          rts_buf_free_def free_block_def uv_close_def heap_write_def)
    have oom: "no_oom (px_heap ?w2)" using h(2) by (simp add: no_oom_def)
    have "hp_mem (px_heap ?w2) (rb_buf b) = Some blk" using blk lt pr(9) by auto
    then obtain h3 base where h3: "proxy_step ?w2 (Readable d m []) = downstream_read (?w2\<lparr>px_heap := h3\<rparr>) d m base"
      "hp_mem h3 (rb_buf b) = Some blk" "hp_mem h3 (rb_buf b') = None"
      using oom lt pr(6,9) x(2) n(2) by (simp add: get_stream_def alloc_buffer_def malloc_no_oom heap_write_def is_down_def)
    then obtain w' where w': "proxy_run w [Readable u n [], Readable d m []] = Inr w'"
      "px_streams w' d = Some (x\<lparr>st_data := Null, st_closing := True, st_read_cb := None\<rparr>)"
      "px_streams w' u = Some (y\<lparr>st_data := Null, st_closing := True, st_read_cb := None\<rparr>)"
      "hp_mem (px_heap w') (rb_buf b) = None" "hp_mem (px_heap w') (rb_buf b') = None"
      using s1 n pr x(2) cb by (simp del: proxy_step.simps add: downstream_read_def get_cb_def get_stream_def
          cleanup_and_close_def cleanup_callback_data_def rts_buf_free_def free_block_def uv_close_def
          put_stream_def)
    have nc: "\<not> st_connecting x"
      by (rule px_inv_pairE [OF inv x(1) cb(1,2)]) (use x(2) in \<open>auto simp: is_down_def\<close>)
    have still: "proxy_step w' e = Inr w'" if "st_writes x = []" "st_writes y = []" "event_on {d, u} e" for e
    proof -
      have "event_on {d} e \<or> event_on {u} e" using that(3) by (cases e) auto
      then show ?thesis
        using closed_stream_step [OF w'(2), of e] closed_stream_step [OF w'(3), of e] that nc y(2) by auto
    qed
    have late: "st_writes x \<noteq> [] \<Longrightarrow> k < 0 \<Longrightarrow> proxy_step w' (WriteDone d k) = Inl NullDeref"
      "st_writes y \<noteq> [] \<Longrightarrow> k < 0 \<Longrightarrow> proxy_step w' (WriteDone u k) = Inl NullDeref" for k
      using torn_down_write_done [OF w'(2), of k] torn_down_write_done [OF w'(3), of k] nc y(2)
      by (simp_all del: proxy_step.simps)
    show ?thesis
      using w' pr cb still late by (intro exI conjI) (auto simp: buf_addr_def simp del: proxy_run.simps)
  qed
qed

theorem proxy_upstream_end_first_releases_witness:
  "\<exists>w x' y'. proxy_run (proxy_init empty_heap) [NewConnection 0 0, Readable 0 1 [7], Connected 1 0, WriteDone 1 0,
     Readable 1 (- 4095) [], Readable 0 (- 4095) []] = Inr w \<and>
     px_streams w 0 = Some x' \<and> st_closing x' \<and> px_streams w 1 = Some y' \<and> st_closing y'"
proof -
  obtain w x y rc where w:
    "proxy_run (proxy_init empty_heap) [NewConnection 0 0, Readable 0 1 [7], Connected 1 0, WriteDone 1 0] = Inr w"
    "px_inv {} w rc" "px_streams w 0 = Some x" "is_down x" "peer_of x = Some 1" "px_streams w 1 = Some y"
    "\<not> st_connecting y" by (rule connected_state_inv)
  have "\<exists>w' x' y'. proxy_run w [Readable 1 (- 4095) [], Readable 0 (- 4095) []] = Inr w' \<and>
     px_streams w' 0 = Some x' \<and> st_closing x' \<and> px_streams w' 1 = Some y' \<and> st_closing y'"
    using proxy_upstream_end_first_releases [OF w(2-7), of "- 4095" "- 4095"] by auto
  with w(1) show ?thesis by (auto simp: ebind_eq_Inr simp del: proxy_step.simps)
qed

text \<open>
  A read that makes the buffer grow while a write request of the peer points into it: the block
  the request points to is freed and the peer keeps the request.
\<close>

lemma read_moves_buffer:
  assumes inv: "px_inv {} w rc" and x: "px_streams w s = Some x" "\<not> st_connecting x"
    and cb: "st_data x = Data cb" "cb_buf cb = Some b" "cb_stream_conn cb = Some c"
    and busy: "cb_pos cb \<noteq> cb_last cb"
    and y: "px_streams w (sc_stream c) = Some y" "sc_stream c \<noteq> s" and ok: "rts_buf_ok (px_heap w) b"
    and rd: "st_connecting x = (st_read_cb x = None)"
    and n: "n = int (length bs)" "bs \<noteq> []" "length bs \<le> 64 * 1024" "rts_buf_fits b n"
    and grow: "rb_capacity b - rb_size b < n + 1"
  shows "\<exists>w'. proxy_step w (Readable s n bs) = Inr w' \<and> hp_mem (px_heap w') (rb_buf b) = None \<and>
    px_streams w' (sc_stream c) = Some y"
proof -
  let ?h = "px_heap w" and ?base = "hp_next (px_heap w)"
  obtain rcb where rcb: "st_read_cb x = Some rcb" using x(2) rd by auto
  have h: "heap_ok ?h" "no_oom ?h" using inv by (auto simp: px_inv_def)
  obtain rest where al: "alloc_buffer ?h (64 * 1024) = (Some ?base, ?h\<lparr>hp_next := Suc ?base,
      hp_mem := (hp_mem ?h)(?base \<mapsto> replicate 65536 (hp_junk ?h))\<rparr>)"
    "heap_write (?h\<lparr>hp_next := Suc ?base, hp_mem := (hp_mem ?h)(?base \<mapsto> replicate 65536 (hp_junk ?h))\<rparr>)
      ?base 0 bs = Inr (?h\<lparr>hp_next := Suc ?base, hp_mem := (hp_mem ?h)(?base \<mapsto> bs @ rest)\<rparr>)"
    using alloc_and_read [OF h(2) n(3)] by blast
  define h1 where "h1 = ?h\<lparr>hp_next := Suc ?base, hp_mem := (hp_mem ?h)(?base \<mapsto> bs @ rest)\<rparr>"
  define w1 where "w1 = w\<lparr>px_heap := h1\<rparr>"
  obtain blk where blk: "hp_mem ?h (rb_buf b) = Some blk" using ok by (rule rts_buf_okE)
  have lt: "rb_buf b < ?base" using h(1) blk by (auto simp: heap_ok_def)
  have h1: "heap_ok h1" "rts_buf_ok h1 b" "hp_mem h1 (rb_buf b) = Some blk" "\<not> hp_oom h1 (hp_next h1)"
    "hp_mem h1 ?base = Some (bs @ rest)" "hp_next h1 = Suc ?base"
    using h ok lt blk by (auto simp: h1_def heap_ok_def rts_buf_ok_def no_oom_def less_Suc_eq)
  have len: "n \<le> int (length (bs @ rest))" using n(1) by simp
  note g = rts_buf_append_grow [OF h1(2,1) n(4) len grow h1(3,4)]
  have step: "proxy_step w (Readable s n bs) = run_read_cb rcb w1 s n ?base"
    using x n(1) al rcb by (simp add: get_stream_def w1_def h1_def)
  have n0: "n > 0" using n(1,2) by simp
  have w1: "px_streams w1 s = Some x" "px_heap w1 = h1" using x by (simp_all add: w1_def)
  obtain b2 h2 where ap: "append_to_cb w1 s ?base n = Inr (w1\<lparr>px_heap := h2,
       px_streams := (px_streams w1)(s \<mapsto> x\<lparr>st_data := Data (cb\<lparr>cb_buf := Some b2\<rparr>)\<rparr>)\<rparr>)"
     "hp_mem h2 (rb_buf b) = None" "hp_mem h2 ?base = Some (bs @ rest)"
    using w1 cb h1(5) g lt h1(6)
    by (simp add: append_to_cb_def get_cb_def get_stream_def block_bytes_def put_cb_def put_stream_def)
  let ?w2 = "w1\<lparr>px_heap := h2, px_streams := (px_streams w1)(s \<mapsto> x\<lparr>st_data := Data (cb\<lparr>cb_buf := Some b2\<rparr>)\<rparr>)\<rparr>"
  have fw: "forward ?w2 s k = Inr ?w2" for k
    using cb(3) busy by (simp add: forward_def get_cb_def get_stream_def)
  have "run_read_cb rcb w1 s n ?base = Inr (?w2\<lparr>px_heap := h2\<lparr>hp_mem := (hp_mem h2)(?base := None)\<rparr>\<rparr>)"
    using n0 w1 cb ap(1,3) fw
    by (cases rcb) (simp_all add: downstream_read_def upstream_read_def get_cb_def get_stream_def
        free_base_def free_block_def)
  then show ?thesis using step ap(2) y by (simp add: w1_def)
qed

text \<open>
  C36: the buffer is written from in place. In every reachable state of the proxy, a read (of up to
  64 KiB, below 1 GiB in all) that does not fit into the buffer of a stream while a write request
  of its peer still has bytes of that buffer to send makes the peer's request point into a freed
  block: whether the kernel then takes a part of it or all of it, libuv reads freed memory.
\<close>

theorem proxy_grow_in_flight_faults:
  assumes inv: "px_inv {} w rc" and x: "px_streams w s = Some x" "\<not> st_connecting x"
    and cb: "st_data x = Data cb" "cb_buf cb = Some b" "peer_of x = Some p"
    and y: "px_streams w p = Some y" "st_writes y = r # rs" "0 < wr_len r"
    and n: "n = int (length bs)" "bs \<noteq> []" "length bs \<le> 64 * 1024" "rts_buf_fits b n"
    and grow: "rb_capacity b - rb_size b < n + 1"
  shows "(\<forall>status \<ge> 0. proxy_run w [Readable s n bs, WriteDone p status] = Inl UseAfterFree) \<and>
    (\<forall>k > 0. int k \<le> wr_len r \<longrightarrow> proxy_run w [Readable s n bs, WritePart p k] = Inl UseAfterFree)"
proof -
  obtain c where c: "cb_stream_conn cb = Some c" "sc_stream c = p" using cb by (auto simp: peer_of_def)
  have st: "rts_buf_ok (px_heap w) b \<and> st_connecting x = (st_read_cb x = None) \<and> p \<noteq> s \<and> \<not> st_closing y \<and>
     \<not> st_connecting y \<and> cb_pos cb \<noteq> cb_last cb \<and> wr_addr r = rb_buf b"
    by (rule px_inv_pairE [OF inv x(1) cb(1) c(1)]) (use c cb y in \<open>auto simp: in_order_def split: if_splits\<close>)
  obtain w' where w': "proxy_step w (Readable s n bs) = Inr w'" "hp_mem (px_heap w') (rb_buf b) = None"
     "px_streams w' p = Some y"
    using read_moves_buffer [OF inv x cb(1,2) c(1) _ _ _ _ _ n grow] st c(2) y(1) by auto
  have "proxy_step w' (WriteDone p status) = Inl UseAfterFree" if "status \<ge> 0" for status
    using w'(2,3) st y that by (simp add: get_stream_def take_bytes_def heap_read_def)
  moreover have "proxy_step w' (WritePart p k) = Inl UseAfterFree" if "0 < k" "int k \<le> wr_len r" for k
    using w'(2,3) st y that by (simp add: get_stream_def take_bytes_def heap_read_def)
  ultimately show ?thesis using w'(1) by (simp del: proxy_step.simps)
qed

lemma in_flight_state:
  "\<exists>w x y cb b r. proxy_run (proxy_init empty_heap) [NewConnection 0 0, Readable 0 3 [1, 2, 3], Connected 1 0] = Inr w \<and>
     px_streams w 0 = Some x \<and> \<not> st_connecting x \<and> st_data x = Data cb \<and> cb_buf cb = Some b \<and> peer_of x = Some 1 \<and>
     px_streams w 1 = Some y \<and> st_writes y = [r] \<and> wr_len r = 3 \<and> rb_capacity b = 8092 \<and> rb_size b = 3 \<and>
     healthy_run (proxy_init empty_heap) [NewConnection 0 0, Readable 0 3 [1, 2, 3], Connected 1 0]"
  by (simp add: proxy_init_def empty_heap_def run_defs peer_of_def)

theorem proxy_grow_in_flight_faults_witness:
  "proxy_run (proxy_init empty_heap)
     [NewConnection 0 0, Readable 0 3 [1, 2, 3], Connected 1 0, Readable 0 8090 (replicate 8090 0), WriteDone 1 0]
   = Inl UseAfterFree"
proof -
  obtain w x y cb b r where w: "proxy_run (proxy_init empty_heap) [NewConnection 0 0, Readable 0 3 [1, 2, 3], Connected 1 0] = Inr w"
     "px_streams w 0 = Some x" "\<not> st_connecting x" "st_data x = Data cb" "cb_buf cb = Some b" "peer_of x = Some 1"
     "px_streams w 1 = Some y" "st_writes y = [r]" "wr_len r = 3" "rb_capacity b = 8092" "rb_size b = 3"
     and hr: "healthy_run (proxy_init empty_heap) [NewConnection 0 0, Readable 0 3 [1, 2, 3], Connected 1 0]"
    using in_flight_state by blast
  have "px_inv {} w (received_in [NewConnection 0 0, Readable 0 3 [1, 2, 3], Connected 1 0])"
    using healthy_run_init [OF empty_heap_ok hr] w(1) by (metis sum.inject(2))
  then have "proxy_run w [Readable 0 8090 (replicate 8090 0), WriteDone 1 0] = Inl UseAfterFree"
    using proxy_grow_in_flight_faults [OF _ w(2-8), of "received_in [NewConnection 0 0, Readable 0 3 [1, 2, 3], Connected 1 0]"
        8090 "replicate 8090 0"] w(9-11) by (simp del: proxy_run.simps add: rts_buf_fits_def)
  with w(1) show ?thesis by (auto simp: ebind_eq_Inr simp del: proxy_step.simps)
qed

text \<open>
  A write request that completes after the stream's peer has gone (here the downstream ends
  while its data is still being written to the upstream) makes the completion callback
  dereference the cleared \<open>stream_conn\<close>.
\<close>

theorem proxy_write_done_after_peer_end_faults:
  "proxy_run (proxy_init empty_heap)
     [NewConnection 0 0, Readable 0 3 [1, 2, 3], Connected 1 0, Readable 0 (- 4095) [], WriteDone 1 (- 32)]
   = Inl NullDeref"
  by (simp add: proxy_init_def empty_heap_def run_defs detach_peer_def cleanup_and_close_def
      cleanup_callback_data_def rts_buf_free_def uv_close_def)

end
