(* ===== verification/AesCore.thy ===== *)
theory AesCore
  imports AesTables
begin

text \<open>
  The block cipher of \<open>third/openssl/crypto/aes/aes_core.c\<close>: the two key expansions, the
  encryption and decryption of one block in the looped form that \<open>aes_locl.h\<close> selects and in the
  \<open>FULL_UNROLL\<close> form, and the key expansions of the branch for the assembler builds. Reading or
  writing \<open>rd_key\<close> behind its last word, or a block behind its last byte, is the fault
  \<open>OutOfBounds\<close>; a table index is below 256 by construction.
\<close>

section \<open>Words and bytes\<close>

text \<open>The macros \<open>GETU32\<close> and \<open>PUTU32\<close> on the byte list behind the pointer.\<close>

definition GETU32 :: "u8 list \<Rightarrow> u32" where
  "GETU32 pt = push_bit 24 (ucast (pt ! 0)) XOR push_bit 16 (ucast (pt ! 1))
     XOR push_bit 8 (ucast (pt ! 2)) XOR ucast (pt ! 3)"

definition PUTU32 :: "u32 \<Rightarrow> u8 list" where
  "PUTU32 st = [ucast (drop_bit 24 st), ucast (drop_bit 16 st), ucast (drop_bit 8 st), ucast st]"

text \<open>The four table indices of a word: \<open>s >> 24\<close>, \<open>(s >> 16) & 0xff\<close>, \<open>(s >> 8) & 0xff\<close>, \<open>s & 0xff\<close>.\<close>

definition b3 :: "u32 \<Rightarrow> nat" where "b3 s = unat (drop_bit 24 s)"
definition b2 :: "u32 \<Rightarrow> nat" where "b2 s = unat (drop_bit 16 s AND 0xff)"
definition b1 :: "u32 \<Rightarrow> nat" where "b1 s = unat (drop_bit 8 s AND 0xff)"
definition b0 :: "u32 \<Rightarrow> nat" where "b0 s = unat (s AND 0xff)"

type_synonym block4 = "u32 \<times> u32 \<times> u32 \<times> u32"

fun xor4 :: "block4 \<Rightarrow> block4 \<Rightarrow> block4" where
  "xor4 (a0, a1, a2, a3) (c0, c1, c2, c3) = (a0 XOR c0, a1 XOR c1, a2 XOR c2, a3 XOR c3)"

definition get_block :: "u8 list \<Rightarrow> block4 exec" where
  "get_block p =
     (if length p < 16 then Inl OutOfBounds
      else Inr (GETU32 p, GETU32 (drop 4 p), GETU32 (drop 8 p), GETU32 (drop 12 p)))"

fun put_block :: "block4 \<Rightarrow> u8 list" where
  "put_block (s0, s1, s2, s3) = PUTU32 s0 @ PUTU32 s1 @ PUTU32 s2 @ PUTU32 s3"

section \<open>Keys\<close>

text \<open>\<open>struct aes_key_st\<close>: the array \<open>rd_key\<close> has \<open>4 * (AES_MAXNR + 1)\<close> words.\<close>

record AES_KEY =
  rd_key :: "u32 list"
  rounds :: int

definition AES_MAXNR :: nat where "AES_MAXNR = 14"

text \<open>The four words \<open>rk[i]\<close> to \<open>rk[i + 3]\<close>.\<close>

definition rk4 :: "u32 list \<Rightarrow> nat \<Rightarrow> block4 exec" where
  "rk4 rk i =
     (if length rk < i + 4 then Inl OutOfBounds
      else Inr (rk ! i, rk ! (i + 1), rk ! (i + 2), rk ! (i + 3)))"

section \<open>Key expansion for encryption\<close>

text \<open>
  The expression that starts each round of the expansion, without and with the rotation, in the
  form over \<open>Te0\<close> to \<open>Te3\<close> and in the form over \<open>Te4\<close> of the assembler branch.
\<close>

definition key_g :: "u32 \<Rightarrow> u32" where
  "key_g temp = (Te2 ! b2 temp AND 0xff000000) XOR (Te3 ! b1 temp AND 0x00ff0000)
     XOR (Te0 ! b0 temp AND 0x0000ff00) XOR (Te1 ! b3 temp AND 0x000000ff)"

definition key_h :: "u32 \<Rightarrow> u32" where
  "key_h temp = (Te2 ! b3 temp AND 0xff000000) XOR (Te3 ! b2 temp AND 0x00ff0000)
     XOR (Te0 ! b1 temp AND 0x0000ff00) XOR (Te1 ! b0 temp AND 0x000000ff)"

definition asm_key_g :: "u32 \<Rightarrow> u32" where
  "asm_key_g temp = push_bit 24 (ucast (Te4 ! b2 temp)) XOR push_bit 16 (ucast (Te4 ! b1 temp))
     XOR push_bit 8 (ucast (Te4 ! b0 temp)) XOR ucast (Te4 ! b3 temp)"

definition asm_key_h :: "u32 \<Rightarrow> u32" where
  "asm_key_h temp = push_bit 24 (ucast (Te4 ! b3 temp)) XOR push_bit 16 (ucast (Te4 ! b2 temp))
     XOR push_bit 8 (ucast (Te4 ! b1 temp)) XOR ucast (Te4 ! b0 temp)"

text \<open>
  The assignments of one round of the three loops, with \<open>rk\<close> at word \<open>p\<close> in round \<open>i\<close>. The two
  branches of the file have the same loops around the expressions \<open>g\<close> and \<open>h\<close>.
\<close>

definition words128 :: "(u32 \<Rightarrow> u32) \<Rightarrow> nat \<Rightarrow> nat \<Rightarrow> u32 list \<Rightarrow> u32 list" where
  "words128 g i p rk =
     (let temp = rk ! (p + 3);
          rk4 = rk[p + 4 := rk ! p XOR g temp XOR rcon ! i];
          rk5 = rk4[p + 5 := rk4 ! (p + 1) XOR rk4 ! (p + 4)];
          rk6 = rk5[p + 6 := rk5 ! (p + 2) XOR rk5 ! (p + 5)]
      in rk6[p + 7 := rk6 ! (p + 3) XOR rk6 ! (p + 6)])"

definition words192 :: "(u32 \<Rightarrow> u32) \<Rightarrow> nat \<Rightarrow> nat \<Rightarrow> u32 list \<Rightarrow> u32 list" where
  "words192 g i p rk =
     (let temp = rk ! (p + 5);
          rk6 = rk[p + 6 := rk ! p XOR g temp XOR rcon ! i];
          rk7 = rk6[p + 7 := rk6 ! (p + 1) XOR rk6 ! (p + 6)];
          rk8 = rk7[p + 8 := rk7 ! (p + 2) XOR rk7 ! (p + 7)]
      in rk8[p + 9 := rk8 ! (p + 3) XOR rk8 ! (p + 8)])"

definition tail192 :: "nat \<Rightarrow> u32 list \<Rightarrow> u32 list" where
  "tail192 p rk =
     (let rk10 = rk[p + 10 := rk ! (p + 4) XOR rk ! (p + 9)]
      in rk10[p + 11 := rk10 ! (p + 5) XOR rk10 ! (p + 10)])"

definition words256 :: "(u32 \<Rightarrow> u32) \<Rightarrow> nat \<Rightarrow> nat \<Rightarrow> u32 list \<Rightarrow> u32 list" where
  "words256 g i p rk =
     (let temp = rk ! (p + 7);
          rk8 = rk[p + 8 := rk ! p XOR g temp XOR rcon ! i];
          rk9 = rk8[p + 9 := rk8 ! (p + 1) XOR rk8 ! (p + 8)];
          rk10 = rk9[p + 10 := rk9 ! (p + 2) XOR rk9 ! (p + 9)]
      in rk10[p + 11 := rk10 ! (p + 3) XOR rk10 ! (p + 10)])"

definition tail256 :: "(u32 \<Rightarrow> u32) \<Rightarrow> nat \<Rightarrow> u32 list \<Rightarrow> u32 list" where
  "tail256 h p rk =
     (let temp = rk ! (p + 11);
          rk12 = rk[p + 12 := rk ! (p + 4) XOR h temp];
          rk13 = rk12[p + 13 := rk12 ! (p + 5) XOR rk12 ! (p + 12)];
          rk14 = rk13[p + 14 := rk13 ! (p + 6) XOR rk13 ! (p + 13)]
      in rk14[p + 15 := rk14 ! (p + 7) XOR rk14 ! (p + 14)])"

lemma length_words [simp]:
  "length (words128 g i p rk) = length rk" "length (words192 g i p rk) = length rk"
  "length (tail192 p rk) = length rk" "length (words256 g i p rk) = length rk"
  "length (tail256 h p rk) = length rk"
  by (simp_all add: words128_def words192_def tail192_def words256_def tail256_def Let_def)

text \<open>The three loops; each ends at its test of \<open>++i\<close>, or in a fault behind the end of an array.\<close>

function expand128 :: "(u32 \<Rightarrow> u32) \<Rightarrow> nat \<Rightarrow> nat \<Rightarrow> u32 list \<Rightarrow> u32 list exec" where
  "expand128 g i p rk =
     (if length rk < p + 8 \<or> length rcon \<le> i then Inl OutOfBounds
      else
        let rk1 = words128 g i p rk
        in if i + 1 = 10 then Inr rk1 else expand128 g (i + 1) (p + 4) rk1)"
  by pat_completeness auto
termination by (relation "measure (\<lambda>(g, i, p, rk). length rk - p)") auto

function expand192 :: "(u32 \<Rightarrow> u32) \<Rightarrow> nat \<Rightarrow> nat \<Rightarrow> u32 list \<Rightarrow> u32 list exec" where
  "expand192 g i p rk =
     (if length rk < p + 10 \<or> length rcon \<le> i then Inl OutOfBounds
      else
        let rk1 = words192 g i p rk
        in if i + 1 = 8 then Inr rk1
           else if length rk1 < p + 12 then Inl OutOfBounds
           else expand192 g (i + 1) (p + 6) (tail192 p rk1))"
  by pat_completeness auto
termination by (relation "measure (\<lambda>(g, i, p, rk). length rk - p)") auto

function expand256 ::
    "(u32 \<Rightarrow> u32) \<Rightarrow> (u32 \<Rightarrow> u32) \<Rightarrow> nat \<Rightarrow> nat \<Rightarrow> u32 list \<Rightarrow> u32 list exec" where
  "expand256 g h i p rk =
     (if length rk < p + 12 \<or> length rcon \<le> i then Inl OutOfBounds
      else
        let rk1 = words256 g i p rk
        in if i + 1 = 7 then Inr rk1
           else if length rk1 < p + 16 then Inl OutOfBounds
           else expand256 g h (i + 1) (p + 8) (tail256 h p rk1))"
  by pat_completeness auto
termination by (relation "measure (\<lambda>(g, h, i, p, rk). length rk - p)") auto

declare expand128.simps [simp del] expand192.simps [simp del] expand256.simps [simp del]

text \<open>
  The first words of the key. \<open>userKey\<close> must have the bytes the code reads, \<open>bits / 8\<close> of them.
\<close>

fun load_words :: "u8 list \<Rightarrow> nat \<Rightarrow> nat \<Rightarrow> u32 list \<Rightarrow> u32 list exec" where
  "load_words userKey i 0 rk = Inr rk"
| "load_words userKey i (Suc n) rk =
     (if length userKey < 4 * i + 4 \<or> length rk \<le> i then Inl OutOfBounds
      else load_words userKey (Suc i) n (rk[i := GETU32 (drop (4 * i) userKey)]))"

text \<open>
  \<open>private_AES_set_encrypt_key\<close>, given the expressions of its branch: the return value and the
  key structure it leaves. \<open>None\<close> is the NULL pointer.
\<close>

definition set_encrypt_key_with ::
    "(u32 \<Rightarrow> u32) \<Rightarrow> (u32 \<Rightarrow> u32) \<Rightarrow> u8 list option \<Rightarrow> int \<Rightarrow> AES_KEY option
     \<Rightarrow> (int \<times> AES_KEY option) exec" where
  "set_encrypt_key_with g h userKey bits key =
     (case (userKey, key) of
        (Some uk, Some k) \<Rightarrow>
          if bits \<noteq> 128 \<and> bits \<noteq> 192 \<and> bits \<noteq> 256 then Inr (-2, key)
          else
            (let k1 = k\<lparr>rounds := (if bits = 128 then 10 else if bits = 192 then 12 else 14)\<rparr> in
             ebind (load_words uk 0 4 (rd_key k1)) (\<lambda>rk.
             ebind
               (if bits = 128 then expand128 g 0 0 rk
                else
                  ebind (load_words uk 4 2 rk) (\<lambda>rk.
                  if bits = 192 then expand192 g 0 0 rk
                  else
                    ebind (load_words uk 6 2 rk) (\<lambda>rk. expand256 g h 0 0 rk)))
               (\<lambda>rk. Inr (0, Some (k1\<lparr>rd_key := rk\<rparr>)))))
      | _ \<Rightarrow> Inr (-1, key))"

definition private_AES_set_encrypt_key ::
    "u8 list option \<Rightarrow> int \<Rightarrow> AES_KEY option \<Rightarrow> (int \<times> AES_KEY option) exec" where
  "private_AES_set_encrypt_key = set_encrypt_key_with key_g key_h"

definition asm_AES_set_encrypt_key ::
    "u8 list option \<Rightarrow> int \<Rightarrow> AES_KEY option \<Rightarrow> (int \<times> AES_KEY option) exec" where
  "asm_AES_set_encrypt_key = set_encrypt_key_with asm_key_g asm_key_h"

section \<open>Key expansion for decryption\<close>

definition inv_mix_word :: "u32 \<Rightarrow> u32" where
  "inv_mix_word w =
     Td0 ! unat (Te1 ! b3 w AND 0xff) XOR Td1 ! unat (Te1 ! b2 w AND 0xff)
     XOR Td2 ! unat (Te1 ! b1 w AND 0xff) XOR Td3 ! unat (Te1 ! b0 w AND 0xff)"

text \<open>The same transform in the assembler branch, four bytes at a time, with \<open>ROTATE\<close> undefined.\<close>

definition swar_double :: "u32 \<Rightarrow> u32" where
  "swar_double t = (let m = t AND 0x80808080 in
     push_bit 1 (t AND 0x7f7f7f7f) XOR ((m - drop_bit 7 m) AND 0x1b1b1b1b))"

definition asm_inv_mix_word :: "u32 \<Rightarrow> u32" where
  "asm_inv_mix_word tp1 =
     (let tp2 = swar_double tp1; tp4 = swar_double tp2; tp8 = swar_double tp4;
          tp9 = tp8 XOR tp1; tpb = tp9 XOR tp2; tpd = tp9 XOR tp4; tpe = tp8 XOR tp4 XOR tp2
      in tpe XOR drop_bit 16 tpd XOR push_bit 16 tpd XOR drop_bit 8 tp9 XOR push_bit 24 tp9
         XOR drop_bit 24 tpb XOR push_bit 8 tpb)"

text \<open>The loop that inverts the order of the round keys; \<open>i\<close> and \<open>j\<close> are multiples of four.\<close>

definition swap_words :: "u32 list \<Rightarrow> nat \<Rightarrow> nat \<Rightarrow> u32 list" where
  "swap_words rk i j = (let temp = rk ! i in (rk[i := rk ! j])[j := temp])"

function reverse_keys :: "nat \<Rightarrow> int \<Rightarrow> u32 list \<Rightarrow> u32 list exec" where
  "reverse_keys i j rk =
     (if int i < j then
        if length rk < nat j + 4 then Inl OutOfBounds
        else
          let rk0 = swap_words rk i (nat j);
              rk1 = swap_words rk0 (i + 1) (nat j + 1);
              rk2 = swap_words rk1 (i + 2) (nat j + 2);
              rk3 = swap_words rk2 (i + 3) (nat j + 3)
          in reverse_keys (i + 4) (j - 4) rk3
      else Inr rk)"
  by pat_completeness auto
termination by (relation "measure (\<lambda>(i, j, rk). nat (j - int i))") auto

declare reverse_keys.simps [simp del]

text \<open>The loop over the round keys 1 to \<open>rounds - 1\<close>.\<close>

function mix_keys :: "(u32 \<Rightarrow> u32) \<Rightarrow> int \<Rightarrow> nat \<Rightarrow> int \<Rightarrow> u32 list \<Rightarrow> u32 list exec" where
  "mix_keys f i p nr rk =
     (if i < nr then
        if length rk < p + 8 then Inl OutOfBounds
        else
          let q = p + 4;
              rk0 = rk[q := f (rk ! q)];
              rk1 = rk0[q + 1 := f (rk0 ! (q + 1))];
              rk2 = rk1[q + 2 := f (rk1 ! (q + 2))];
              rk3 = rk2[q + 3 := f (rk2 ! (q + 3))]
          in mix_keys f (i + 1) q nr rk3
      else Inr rk)"
  by pat_completeness auto
termination by (relation "measure (\<lambda>(f, i, p, nr, rk). nat (nr - i))") auto

declare mix_keys.simps [simp del]

definition set_decrypt_key_with ::
    "(u8 list option \<Rightarrow> int \<Rightarrow> AES_KEY option \<Rightarrow> (int \<times> AES_KEY option) exec) \<Rightarrow> (u32 \<Rightarrow> u32)
     \<Rightarrow> u8 list option \<Rightarrow> int \<Rightarrow> AES_KEY option \<Rightarrow> (int \<times> AES_KEY option) exec" where
  "set_decrypt_key_with set_enc f userKey bits key =
     ebind (set_enc userKey bits key) (\<lambda>(status, key1).
     if status < 0 then Inr (status, key1)
     else
       ebind (deref key1) (\<lambda>k.
       ebind (reverse_keys 0 (4 * rounds k) (rd_key k)) (\<lambda>rk.
       ebind (mix_keys f 1 0 (rounds k) rk) (\<lambda>rk.
       Inr (0, Some (k\<lparr>rd_key := rk\<rparr>))))))"

definition private_AES_set_decrypt_key ::
    "u8 list option \<Rightarrow> int \<Rightarrow> AES_KEY option \<Rightarrow> (int \<times> AES_KEY option) exec" where
  "private_AES_set_decrypt_key = set_decrypt_key_with private_AES_set_encrypt_key inv_mix_word"

definition asm_AES_set_decrypt_key ::
    "u8 list option \<Rightarrow> int \<Rightarrow> AES_KEY option \<Rightarrow> (int \<times> AES_KEY option) exec" where
  "asm_AES_set_decrypt_key = set_decrypt_key_with asm_AES_set_encrypt_key asm_inv_mix_word"

section \<open>Encryption of a block\<close>

fun enc_round :: "block4 \<Rightarrow> block4 \<Rightarrow> block4" where
  "enc_round (s0, s1, s2, s3) (k0, k1, k2, k3) =
     (Te0 ! b3 s0 XOR Te1 ! b2 s1 XOR Te2 ! b1 s2 XOR Te3 ! b0 s3 XOR k0,
      Te0 ! b3 s1 XOR Te1 ! b2 s2 XOR Te2 ! b1 s3 XOR Te3 ! b0 s0 XOR k1,
      Te0 ! b3 s2 XOR Te1 ! b2 s3 XOR Te2 ! b1 s0 XOR Te3 ! b0 s1 XOR k2,
      Te0 ! b3 s3 XOR Te1 ! b2 s0 XOR Te2 ! b1 s1 XOR Te3 ! b0 s2 XOR k3)"

fun enc_last :: "block4 \<Rightarrow> block4 \<Rightarrow> block4" where
  "enc_last (t0, t1, t2, t3) (k0, k1, k2, k3) =
     ((Te2 ! b3 t0 AND 0xff000000) XOR (Te3 ! b2 t1 AND 0x00ff0000)
        XOR (Te0 ! b1 t2 AND 0x0000ff00) XOR (Te1 ! b0 t3 AND 0x000000ff) XOR k0,
      (Te2 ! b3 t1 AND 0xff000000) XOR (Te3 ! b2 t2 AND 0x00ff0000)
        XOR (Te0 ! b1 t3 AND 0x0000ff00) XOR (Te1 ! b0 t0 AND 0x000000ff) XOR k1,
      (Te2 ! b3 t2 AND 0xff000000) XOR (Te3 ! b2 t3 AND 0x00ff0000)
        XOR (Te0 ! b1 t0 AND 0x0000ff00) XOR (Te1 ! b0 t1 AND 0x000000ff) XOR k2,
      (Te2 ! b3 t3 AND 0xff000000) XOR (Te3 ! b2 t0 AND 0x00ff0000)
        XOR (Te0 ! b1 t1 AND 0x0000ff00) XOR (Te1 ! b0 t2 AND 0x000000ff) XOR k3)"

text \<open>
  The loop \<open>for (;;)\<close> over two rounds at a time, with \<open>rk\<close> at word \<open>p\<close>: it ends when \<open>--r\<close> is zero,
  and for any other \<open>r\<close> runs behind the end of \<open>rd_key\<close>. \<open>rnd\<close> is the round of the direction.
\<close>

function round_loop ::
    "(block4 \<Rightarrow> block4 \<Rightarrow> block4) \<Rightarrow> u32 list \<Rightarrow> int \<Rightarrow> nat \<Rightarrow> block4 \<Rightarrow> (nat \<times> block4) exec" where
  "round_loop rnd rk r p s =
     (case rk4 rk (p + 4) of
        Inl e \<Rightarrow> Inl e
      | Inr k \<Rightarrow>
          (let t = rnd s k in
           if r - 1 = 0 then Inr (p + 8, t)
           else case rk4 rk (p + 8) of
                  Inl e \<Rightarrow> Inl e
                | Inr k' \<Rightarrow> round_loop rnd rk (r - 1) (p + 8) (rnd t k')))"
  by pat_completeness auto
termination
  by (relation "measure (\<lambda>(rnd, rk, r, p, s). length rk - p)") (auto simp: rk4_def split: if_splits)

declare round_loop.simps [simp del]

text \<open>The body both directions share, around their round and their last round.\<close>

definition block_with ::
    "(block4 \<Rightarrow> block4 \<Rightarrow> block4) \<Rightarrow> (block4 \<Rightarrow> block4 \<Rightarrow> block4) \<Rightarrow> u8 list \<Rightarrow> AES_KEY \<Rightarrow> u8 list exec" where
  "block_with rnd lst inp key =
     ebind (get_block inp) (\<lambda>s.
     ebind (rk4 (rd_key key) 0) (\<lambda>k.
     ebind (round_loop rnd (rd_key key) (rounds key div 2) 0 (xor4 s k)) (\<lambda>(p, t).
     ebind (rk4 (rd_key key) p) (\<lambda>k.
     Inr (put_block (lst t k))))))"

definition AES_encrypt :: "u8 list \<Rightarrow> AES_KEY \<Rightarrow> u8 list exec" where
  "AES_encrypt inp key = block_with enc_round enc_last inp key"

section \<open>Decryption of a block\<close>

fun dec_round :: "block4 \<Rightarrow> block4 \<Rightarrow> block4" where
  "dec_round (s0, s1, s2, s3) (k0, k1, k2, k3) =
     (Td0 ! b3 s0 XOR Td1 ! b2 s3 XOR Td2 ! b1 s2 XOR Td3 ! b0 s1 XOR k0,
      Td0 ! b3 s1 XOR Td1 ! b2 s0 XOR Td2 ! b1 s3 XOR Td3 ! b0 s2 XOR k1,
      Td0 ! b3 s2 XOR Td1 ! b2 s1 XOR Td2 ! b1 s0 XOR Td3 ! b0 s3 XOR k2,
      Td0 ! b3 s3 XOR Td1 ! b2 s2 XOR Td2 ! b1 s1 XOR Td3 ! b0 s0 XOR k3)"

fun dec_last :: "block4 \<Rightarrow> block4 \<Rightarrow> block4" where
  "dec_last (t0, t1, t2, t3) (k0, k1, k2, k3) =
     (push_bit 24 (ucast (Td4 ! b3 t0)) XOR push_bit 16 (ucast (Td4 ! b2 t3))
        XOR push_bit 8 (ucast (Td4 ! b1 t2)) XOR ucast (Td4 ! b0 t1) XOR k0,
      push_bit 24 (ucast (Td4 ! b3 t1)) XOR push_bit 16 (ucast (Td4 ! b2 t0))
        XOR push_bit 8 (ucast (Td4 ! b1 t3)) XOR ucast (Td4 ! b0 t2) XOR k1,
      push_bit 24 (ucast (Td4 ! b3 t2)) XOR push_bit 16 (ucast (Td4 ! b2 t1))
        XOR push_bit 8 (ucast (Td4 ! b1 t0)) XOR ucast (Td4 ! b0 t3) XOR k2,
      push_bit 24 (ucast (Td4 ! b3 t3)) XOR push_bit 16 (ucast (Td4 ! b2 t2))
        XOR push_bit 8 (ucast (Td4 ! b1 t1)) XOR ucast (Td4 ! b0 t0) XOR k3)"

definition AES_decrypt :: "u8 list \<Rightarrow> AES_KEY \<Rightarrow> u8 list exec" where
  "AES_decrypt inp key = block_with dec_round dec_last inp key"

section \<open>The unrolled form\<close>

text \<open>
  The rounds of the \<open>FULL_UNROLL\<close> build, with their literal offsets into \<open>rk\<close>: nine, eleven or
  thirteen of them by \<open>rounds\<close>, then the last one at \<open>rk + (rounds << 2)\<close>.
\<close>

definition do_round ::
    "(block4 \<Rightarrow> block4 \<Rightarrow> block4) \<Rightarrow> u32 list \<Rightarrow> nat \<Rightarrow> block4 \<Rightarrow> block4 exec" where
  "do_round rnd rk i s = ebind (rk4 rk i) (\<lambda>k. Inr (rnd s k))"

definition unrolled_with ::
    "(block4 \<Rightarrow> block4 \<Rightarrow> block4) \<Rightarrow> (block4 \<Rightarrow> block4 \<Rightarrow> block4) \<Rightarrow> u8 list \<Rightarrow> AES_KEY \<Rightarrow> u8 list exec" where
  "unrolled_with rnd lst inp key =
     (let rk = rd_key key in
      ebind (get_block inp) (\<lambda>s.
      ebind (rk4 rk 0) (\<lambda>k.
      ebind (do_round rnd rk 4 (xor4 s k)) (\<lambda>t.
      ebind (do_round rnd rk 8 t) (\<lambda>s.
      ebind (do_round rnd rk 12 s) (\<lambda>t.
      ebind (do_round rnd rk 16 t) (\<lambda>s.
      ebind (do_round rnd rk 20 s) (\<lambda>t.
      ebind (do_round rnd rk 24 t) (\<lambda>s.
      ebind (do_round rnd rk 28 s) (\<lambda>t.
      ebind (do_round rnd rk 32 t) (\<lambda>s.
      ebind (do_round rnd rk 36 s) (\<lambda>t.
      ebind
        (if rounds key > 10 then
           ebind (do_round rnd rk 40 t) (\<lambda>s.
           ebind (do_round rnd rk 44 s) (\<lambda>t.
           if rounds key > 12 then
             ebind (do_round rnd rk 48 t) (\<lambda>s. do_round rnd rk 52 s)
           else Inr t))
         else Inr t) (\<lambda>t.
      ebind (if rounds key < 0 then Inl OutOfBounds else rk4 rk (nat (rounds key) * 4)) (\<lambda>k.
      Inr (put_block (lst t k))))))))))))))))"

definition AES_encrypt_unrolled :: "u8 list \<Rightarrow> AES_KEY \<Rightarrow> u8 list exec" where
  "AES_encrypt_unrolled inp key = unrolled_with enc_round enc_last inp key"

definition AES_decrypt_unrolled :: "u8 list \<Rightarrow> AES_KEY \<Rightarrow> u8 list exec" where
  "AES_decrypt_unrolled inp key = unrolled_with dec_round dec_last inp key"

end
