(* ===== verification/AesTableFacts.thy ===== *)
theory AesTableFacts
  imports AesCore
begin

text \<open>
  What the tables of \<open>aes_core.c\<close> contain. The comment in front of them gives each as the S-box
  times a column of constants in the field of the cipher; these are the theorems that say so,
  with the multiplication written out, and that \<open>Td4\<close> inverts \<open>Te4\<close>.
\<close>

section \<open>The field and the columns\<close>

definition xtime :: "u8 \<Rightarrow> u8" where
  "xtime x = push_bit 1 x XOR (if bit x 7 then 0x1b else 0)"

fun gmul :: "nat \<Rightarrow> u8 \<Rightarrow> u8" where
  "gmul n x = (if n = 0 then 0 else (if odd n then x else 0) XOR gmul (n div 2) (xtime x))"

declare gmul.simps [simp del]

lemma gmul_0 [simp]: "gmul 0 x = 0"
  by (simp add: gmul.simps)

lemma gmul_rec: "n \<noteq> 0 \<Longrightarrow> gmul n x = (if odd n then x else 0) XOR gmul (n div 2) (xtime x)"
  by (simp add: gmul.simps)

text \<open>The constants of the cipher's two matrices.\<close>

lemma gmul_consts:
  "gmul (Suc 0) x = x"
  "gmul 2 x = xtime x"
  "gmul 3 x = xtime x XOR x"
  "gmul 9 x = xtime (xtime (xtime x)) XOR x"
  "gmul 11 x = xtime (xtime (xtime x)) XOR xtime x XOR x"
  "gmul 13 x = xtime (xtime (xtime x)) XOR xtime (xtime x) XOR x"
  "gmul 14 x = xtime (xtime (xtime x)) XOR xtime (xtime x) XOR xtime x"
  by (simp_all add: gmul_rec ac_simps)

definition word4 :: "u8 \<Rightarrow> u8 \<Rightarrow> u8 \<Rightarrow> u8 \<Rightarrow> u32" where
  "word4 a b c d = push_bit 24 (ucast a) XOR push_bit 16 (ucast b) XOR push_bit 8 (ucast c) XOR ucast d"

text \<open>\<open>col a b c d x\<close> is the word \<open>x.[a, b, c, d]\<close> of the comment.\<close>

definition col :: "nat \<Rightarrow> nat \<Rightarrow> nat \<Rightarrow> nat \<Rightarrow> u8 \<Rightarrow> u32" where
  "col a b c d x = word4 (gmul a x) (gmul b x) (gmul c x) (gmul d x)"

lemma col_fun:
  "col 2 1 1 3 = (\<lambda>x. word4 (xtime x) x x (xtime x XOR x))"
  "col 3 2 1 1 = (\<lambda>x. word4 (xtime x XOR x) (xtime x) x x)"
  "col 1 3 2 1 = (\<lambda>x. word4 x (xtime x XOR x) (xtime x) x)"
  "col 1 1 3 2 = (\<lambda>x. word4 x x (xtime x XOR x) (xtime x))"
  "col 14 9 13 11 = (\<lambda>x. let x2 = xtime x; x4 = xtime x2; x8 = xtime x4; x9 = x8 XOR x in
     word4 (x8 XOR x4 XOR x2) x9 (x9 XOR x4) (x9 XOR x2))"
  "col 11 14 9 13 = (\<lambda>x. let x2 = xtime x; x4 = xtime x2; x8 = xtime x4; x9 = x8 XOR x in
     word4 (x9 XOR x2) (x8 XOR x4 XOR x2) x9 (x9 XOR x4))"
  "col 13 11 14 9 = (\<lambda>x. let x2 = xtime x; x4 = xtime x2; x8 = xtime x4; x9 = x8 XOR x in
     word4 (x9 XOR x4) (x9 XOR x2) (x8 XOR x4 XOR x2) x9)"
  "col 9 13 11 14 = (\<lambda>x. let x2 = xtime x; x4 = xtime x2; x8 = xtime x4; x9 = x8 XOR x in
     word4 x9 (x9 XOR x4) (x9 XOR x2) (x8 XOR x4 XOR x2))"
  by (rule ext, simp add: col_def gmul_consts Let_def ac_simps)+

section \<open>The tables\<close>

lemma length_Te4 [simp]: "length Te4 = 256"
  by (simp add: Te4_def)

lemma length_Td4 [simp]: "length Td4 = 256"
  by (simp add: Td4_def)

lemma length_rcon [simp]: "length rcon = 10"
  by (simp add: rcon_def)

lemma Te0_eq: "Te0 = map (col 2 1 1 3) Te4"
  unfolding col_fun Te0_def Te4_def by (simp add: xtime_def word4_def)

lemma Te1_eq: "Te1 = map (col 3 2 1 1) Te4"
  unfolding col_fun Te1_def Te4_def by (simp add: xtime_def word4_def)

lemma Te2_eq: "Te2 = map (col 1 3 2 1) Te4"
  unfolding col_fun Te2_def Te4_def by (simp add: xtime_def word4_def)

lemma Te3_eq: "Te3 = map (col 1 1 3 2) Te4"
  unfolding col_fun Te3_def Te4_def by (simp add: xtime_def word4_def)

lemma Td0_eq: "Td0 = map (col 14 9 13 11) Td4"
  unfolding col_fun Td0_def Td4_def by (simp add: xtime_def word4_def Let_def)

lemma Td1_eq: "Td1 = map (col 11 14 9 13) Td4"
  unfolding col_fun Td1_def Td4_def by (simp add: xtime_def word4_def Let_def)

lemma Td2_eq: "Td2 = map (col 13 11 14 9) Td4"
  unfolding col_fun Td2_def Td4_def by (simp add: xtime_def word4_def Let_def)

lemma Td3_eq: "Td3 = map (col 9 13 11 14) Td4"
  unfolding col_fun Td3_def Td4_def by (simp add: xtime_def word4_def Let_def)

lemma upt_256: "[0..<256] = 0 # 1 # [2..<256]"
  by (simp add: upt_conv_Cons numeral_2_eq_2)

lemma Td4_Te4: "map (\<lambda>s. Td4 ! unat s) Te4 = map of_nat [0..<256]"
  unfolding Te4_def Td4_def upt_256 by (simp add: upt_rec_numeral)

section \<open>The S-box and its inverse\<close>

definition sbox :: "u8 \<Rightarrow> u8" where "sbox x = Te4 ! unat x"
definition inv_sbox :: "u8 \<Rightarrow> u8" where "inv_sbox x = Td4 ! unat x"

lemma unat_u8 [simp]: "unat (x :: u8) < 256"
  using unsigned_less [of x] by simp

lemma inv_sbox_sbox [simp]: "inv_sbox (sbox x) = x"
proof -
  have "map (\<lambda>s. Td4 ! unat s) Te4 ! unat x = map of_nat [0..<256] ! unat x"
    by (simp only: Td4_Te4)
  then show ?thesis by (simp add: sbox_def inv_sbox_def)
qed

lemma sbox_inj: "sbox x = sbox y \<longleftrightarrow> x = y"
  by (metis inv_sbox_sbox)

lemma T_nth:
  "Te0 ! unat x = col 2 1 1 3 (sbox x)" "Te1 ! unat x = col 3 2 1 1 (sbox x)"
  "Te2 ! unat x = col 1 3 2 1 (sbox x)" "Te3 ! unat x = col 1 1 3 2 (sbox x)"
  "Td0 ! unat x = col 14 9 13 11 (inv_sbox x)" "Td1 ! unat x = col 11 14 9 13 (inv_sbox x)"
  "Td2 ! unat x = col 13 11 14 9 (inv_sbox x)" "Td3 ! unat x = col 9 13 11 14 (inv_sbox x)"
  "Te4 ! unat x = sbox x" "Td4 ! unat x = inv_sbox x"
  by (simp_all add: Te0_eq Te1_eq Te2_eq Te3_eq Td0_eq Td1_eq Td2_eq Td3_eq sbox_def inv_sbox_def)

section \<open>Words as four bytes\<close>

lemma mask8: "(0xff :: u32) = mask 8"
  by (simp add: mask_eq_exp_minus_1)

lemma word4_bytes:
  "drop_bit 24 (word4 a b c d) = ucast a"
  "drop_bit 16 (word4 a b c d) AND 0xff = ucast b"
  "drop_bit 8 (word4 a b c d) AND 0xff = ucast c"
  "word4 a b c d AND 0xff = ucast d"
  unfolding mask8 word4_def
  by (rule bit_word_eqI, auto simp: bit_simps dest: bit_imp_le_length)+

lemma word4_ucast:
  "ucast (drop_bit 24 (word4 a b c d)) = a" "ucast (drop_bit 16 (word4 a b c d)) = b"
  "ucast (drop_bit 8 (word4 a b c d)) = c" "ucast (word4 a b c d) = d"
  unfolding word4_def by (rule bit_word_eqI, auto simp: bit_simps dest: bit_imp_le_length)+

lemma unat_ucast_u8 [simp]: "unat (ucast (x :: u8) :: u32) = unat x"
proof -
  have "unat x < 2 ^ 32" by (rule order_less_trans [OF unat_u8]) simp
  then show ?thesis by (simp add: unsigned_ucast_eq take_bit_nat_eq_self)
qed

lemma b_word4 [simp]:
  "b3 (word4 a b c d) = unat a" "b2 (word4 a b c d) = unat b"
  "b1 (word4 a b c d) = unat c" "b0 (word4 a b c d) = unat d"
  by (simp_all add: b3_def b2_def b1_def b0_def word4_bytes)

lemma word4_split:
  "word4 (ucast (drop_bit 24 w)) (ucast (drop_bit 16 w)) (ucast (drop_bit 8 w)) (ucast w) = w"
proof (rule bit_word_eqI)
  fix n assume "n < LENGTH(32)"
  then show "bit (word4 (ucast (drop_bit 24 w)) (ucast (drop_bit 16 w)) (ucast (drop_bit 8 w))
      (ucast w)) n = bit w n"
    unfolding word4_def by (cases "n < 8"; cases "n < 16"; cases "n < 24"; auto simp: bit_simps)
qed

lemma word4_cases [case_names word4]:
  obtains a b c d where "w = word4 a b c d"
  using word4_split [of w] by metis

lemma word4_xor [simp]:
  "word4 a b c d XOR word4 a' b' c' d' = word4 (a XOR a') (b XOR b') (c XOR c') (d XOR d')"
  by (simp add: word4_def push_bit_xor unsigned_xor_eq ac_simps)

lemma lane_same: "push_bit k (ucast (x :: u8)) AND push_bit k (mask 8) = (push_bit k (ucast x) :: u32)"
  by (rule bit_word_eqI) (auto simp: bit_simps dest: bit_imp_le_length)

lemma lane_other:
  "j + 8 \<le> k \<or> k + 8 \<le> j \<Longrightarrow> push_bit k (ucast (x :: u8)) AND push_bit j (mask 8) = (0 :: u32)"
  by (rule bit_word_eqI) (auto simp: bit_simps dest: bit_imp_le_length)

lemmas lanes = lane_same lane_other lane_same [of 0, simplified push_bit_0_id id_apply]
  lane_other [of 0, simplified push_bit_0_id id_apply] lane_other [where k = 0, simplified push_bit_0_id id_apply]

lemma word4_mask:
  "word4 a b c d AND 0xff000000 = word4 a 0 0 0" "word4 a b c d AND 0x00ff0000 = word4 0 b 0 0"
  "word4 a b c d AND 0x0000ff00 = word4 0 0 c 0" "word4 a b c d AND 0x000000ff = word4 0 0 0 d"
proof -
  have m: "(0xff000000 :: u32) = push_bit 24 (mask 8)" "(0x00ff0000 :: u32) = push_bit 16 (mask 8)"
    "(0x0000ff00 :: u32) = push_bit 8 (mask 8)" by (simp_all add: mask_eq_exp_minus_1)
  show "word4 a b c d AND 0xff000000 = word4 a 0 0 0" "word4 a b c d AND 0x00ff0000 = word4 0 b 0 0"
    "word4 a b c d AND 0x0000ff00 = word4 0 0 c 0" "word4 a b c d AND 0x000000ff = word4 0 0 0 d"
    by (simp_all add: m mask8 word4_def bit.conj_xor_distrib2 lanes)
qed

lemma GETU32_word4: "GETU32 (a # b # c # d # r) = word4 a b c d"
  by (simp add: GETU32_def word4_def eval_nat_numeral)

lemma PUTU32_word4: "PUTU32 (word4 a b c d) = [a, b, c, d]"
  by (simp add: PUTU32_def word4_ucast)

lemma length_PUTU32 [simp]: "length (PUTU32 w) = 4"
  by (simp add: PUTU32_def)

end
