(* ===== verification/AesSpec.thy ===== *)
theory AesSpec
  imports AesTableFacts
begin

text \<open>
  The cipher as its standard defines it, on a state of four columns: the byte substitution, the
  shift of the rows, the mixing of a column by the matrix of the field and the round keys; and
  the recurrence of the key expansion. The table code is proved equal to these in \<open>AesCorrect\<close>.
\<close>

section \<open>The steps of a round\<close>

fun map4 :: "(u32 \<Rightarrow> u32) \<Rightarrow> block4 \<Rightarrow> block4" where
  "map4 f (s0, s1, s2, s3) = (f s0, f s1, f s2, f s3)"

definition map_bytes :: "(u8 \<Rightarrow> u8) \<Rightarrow> u32 \<Rightarrow> u32" where
  "map_bytes f w = word4 (f (ucast (drop_bit 24 w))) (f (ucast (drop_bit 16 w)))
     (f (ucast (drop_bit 8 w))) (f (ucast w))"

definition mix_matrix :: "nat \<Rightarrow> nat \<Rightarrow> nat \<Rightarrow> nat \<Rightarrow> u32 \<Rightarrow> u32" where
  "mix_matrix p q r s w =
     (let a = ucast (drop_bit 24 w); b = ucast (drop_bit 16 w); c = ucast (drop_bit 8 w); d = ucast w in
      word4 (gmul p a XOR gmul q b XOR gmul r c XOR gmul s d)
            (gmul s a XOR gmul p b XOR gmul q c XOR gmul r d)
            (gmul r a XOR gmul s b XOR gmul p c XOR gmul q d)
            (gmul q a XOR gmul r b XOR gmul s c XOR gmul p d))"

definition mix_column :: "u32 \<Rightarrow> u32" where "mix_column = mix_matrix 2 3 1 1"
definition inv_mix_column :: "u32 \<Rightarrow> u32" where "inv_mix_column = mix_matrix 14 11 13 9"

text \<open>Byte \<open>r\<close> of column \<open>j\<close> comes from column \<open>j + r\<close>, or \<open>j - r\<close> in the inverse.\<close>

fun pick4 :: "u32 \<Rightarrow> u32 \<Rightarrow> u32 \<Rightarrow> u32 \<Rightarrow> u32" where
  "pick4 w x y z = word4 (ucast (drop_bit 24 w)) (ucast (drop_bit 16 x)) (ucast (drop_bit 8 y)) (ucast z)"

fun shift_rows :: "block4 \<Rightarrow> block4" where
  "shift_rows (s0, s1, s2, s3) =
     (pick4 s0 s1 s2 s3, pick4 s1 s2 s3 s0, pick4 s2 s3 s0 s1, pick4 s3 s0 s1 s2)"

fun inv_shift_rows :: "block4 \<Rightarrow> block4" where
  "inv_shift_rows (s0, s1, s2, s3) =
     (pick4 s0 s3 s2 s1, pick4 s1 s0 s3 s2, pick4 s2 s1 s0 s3, pick4 s3 s2 s1 s0)"

definition sub_shift :: "block4 \<Rightarrow> block4" where
  "sub_shift s = shift_rows (map4 (map_bytes sbox) s)"

definition inv_sub_shift :: "block4 \<Rightarrow> block4" where
  "inv_sub_shift s = map4 (map_bytes inv_sbox) (inv_shift_rows s)"

section \<open>The cipher\<close>

text \<open>\<open>round_state k i s\<close> is the state after the key of round \<open>i\<close> has been added.\<close>

primrec round_state :: "(nat \<Rightarrow> block4) \<Rightarrow> nat \<Rightarrow> block4 \<Rightarrow> block4" where
  "round_state k 0 s = xor4 s (k 0)"
| "round_state k (Suc i) s = xor4 (map4 mix_column (sub_shift (round_state k i s))) (k (Suc i))"

definition cipher :: "(nat \<Rightarrow> block4) \<Rightarrow> nat \<Rightarrow> block4 \<Rightarrow> block4" where
  "cipher k nr s = xor4 (sub_shift (round_state k (nr - 1) s)) (k nr)"

text \<open>The equivalent inverse cipher, with its own key schedule.\<close>

primrec inv_round_state :: "(nat \<Rightarrow> block4) \<Rightarrow> nat \<Rightarrow> block4 \<Rightarrow> block4" where
  "inv_round_state k 0 s = xor4 s (k 0)"
| "inv_round_state k (Suc i) s =
     xor4 (map4 inv_mix_column (inv_sub_shift (inv_round_state k i s))) (k (Suc i))"

definition inv_cipher :: "(nat \<Rightarrow> block4) \<Rightarrow> nat \<Rightarrow> block4 \<Rightarrow> block4" where
  "inv_cipher k nr s = xor4 (inv_sub_shift (inv_round_state k (nr - 1) s)) (k nr)"

text \<open>The key schedule of the inverse cipher: the round keys backwards, the inner ones mixed.\<close>

definition inv_keys :: "(nat \<Rightarrow> block4) \<Rightarrow> nat \<Rightarrow> nat \<Rightarrow> block4" where
  "inv_keys k nr i = (if i = 0 \<or> i = nr then k (nr - i) else map4 inv_mix_column (k (nr - i)))"

section \<open>Algebra\<close>

lemma xor_cancel [simp]: "(x :: 'a :: ring_bit_operations) XOR (x XOR y) = y"
  by (simp flip: xor.assoc)

lemma xtime_xor: "xtime (x XOR y) = xtime x XOR xtime y"
  by (auto simp: xtime_def push_bit_xor bit_simps ac_simps)

lemma gmul_xor: "gmul n (x XOR y) = gmul n x XOR gmul n y"
proof (induction n arbitrary: x y rule: less_induct)
  case (less n)
  then show ?case by (cases "n = 0") (auto simp: gmul_rec xtime_xor ac_simps)
qed

lemma map_bytes_word4 [simp]: "map_bytes f (word4 a b c d) = word4 (f a) (f b) (f c) (f d)"
  by (simp add: map_bytes_def word4_ucast)

lemma mix_matrix_word4 [simp]:
  "mix_matrix p q r s (word4 a b c d) =
     word4 (gmul p a XOR gmul q b XOR gmul r c XOR gmul s d)
           (gmul s a XOR gmul p b XOR gmul q c XOR gmul r d)
           (gmul r a XOR gmul s b XOR gmul p c XOR gmul q d)
           (gmul q a XOR gmul r b XOR gmul s c XOR gmul p d)"
  by (simp add: mix_matrix_def word4_ucast)

lemma pick4_word4 [simp]:
  "pick4 (word4 p0 q0 r0 v0) (word4 p1 q1 r1 v1) (word4 p2 q2 r2 v2) (word4 p3 q3 r3 v3) =
     word4 p0 q1 r2 v3"
  by (simp add: word4_ucast)

declare pick4.simps [simp del]

lemma mix_matrix_xor: "mix_matrix p q r s (v XOR w) = mix_matrix p q r s v XOR mix_matrix p q r s w"
  by (cases v rule: word4_cases; cases w rule: word4_cases) (simp add: gmul_xor ac_simps)

lemma inv_mix_mix [simp]: "inv_mix_column (mix_column w) = w"
  by (cases w rule: word4_cases)
    (simp add: inv_mix_column_def mix_column_def gmul_consts xtime_xor ac_simps)

lemma xor4_cancel [simp]: "xor4 (xor4 s k) k = s"
  by (cases s; cases k) (simp add: ac_simps)

lemma map4_map4: "map4 f (map4 g s) = map4 (\<lambda>x. f (g x)) s"
  by (cases s) simp

lemma map4_inv_mix_xor4:
  "map4 inv_mix_column (xor4 s k) = xor4 (map4 inv_mix_column s) (map4 inv_mix_column k)"
  by (cases s; cases k) (simp add: inv_mix_column_def mix_matrix_xor)

lemma map4_id [simp]: "map4 (\<lambda>x. x) s = s"
  by (cases s) simp

lemma block4_cases [case_names block]:
  obtains p0 q0 r0 v0 p1 q1 r1 v1 p2 q2 r2 v2 p3 q3 r3 v3 where
    "s = (word4 p0 q0 r0 v0, word4 p1 q1 r1 v1, word4 p2 q2 r2 v2, word4 p3 q3 r3 v3)"
  by (metis prod_cases4 word4_cases)

lemma inv_sub_shift_sub_shift [simp]: "inv_sub_shift (sub_shift s) = s"
  by (cases s rule: block4_cases) (simp add: sub_shift_def inv_sub_shift_def)

section \<open>The inverse cipher inverts the cipher\<close>

lemma inv_round_state_cipher:
  assumes "i < nr"
  shows "inv_round_state (inv_keys k nr) i (cipher k nr s) = sub_shift (round_state k (nr - 1 - i) s)"
  using assms
proof (induction i)
  case 0
  then show ?case by (simp add: cipher_def inv_keys_def)
next
  case (Suc i)
  let ?j = "nr - 1 - Suc i"
  have j: "nr - 1 - i = Suc ?j" "nr - Suc i = Suc ?j" using Suc.prems by simp_all
  have "inv_round_state (inv_keys k nr) (Suc i) (cipher k nr s) =
      xor4 (map4 inv_mix_column (round_state k (Suc ?j) s)) (map4 inv_mix_column (k (Suc ?j)))"
    using Suc.prems j by (simp add: Suc.IH inv_keys_def del: round_state.simps)
  also have "\<dots> = sub_shift (round_state k ?j s)"
    by (simp flip: map4_inv_mix_xor4 add: map4_map4)
  finally show ?case .
qed

theorem inv_cipher_cipher:
  assumes "0 < nr"
  shows "inv_cipher (inv_keys k nr) nr (cipher k nr s) = s"
proof -
  have "inv_round_state (inv_keys k nr) (nr - 1) (cipher k nr s) = sub_shift (round_state k 0 s)"
    using inv_round_state_cipher [of "nr - 1" nr k s] assms by simp
  then show ?thesis using assms by (simp add: inv_cipher_def inv_keys_def)
qed

end
