(* ===== verification/AesCorrect.thy ===== *)
theory AesCorrect
  imports AesSpec
begin

text \<open>
  The table code of \<open>AesCore\<close> computes the cipher of \<open>AesSpec\<close>: the rounds, the loops around them,
  the unrolled form, and the blocks as bytes.
\<close>

section \<open>Rounds\<close>

lemmas xor_ac = xor.assoc xor.commute xor.left_commute

lemmas table_simps = T_nth col_def gmul_consts word4_mask sub_shift_def inv_sub_shift_def
  mix_column_def inv_mix_column_def

lemma enc_round_eq: "enc_round s k = xor4 (map4 mix_column (sub_shift s)) k"
  by (cases s rule: block4_cases; cases k rule: block4_cases)
    (simp add: table_simps xor_ac)

lemma dec_round_eq: "dec_round s k = xor4 (map4 inv_mix_column (inv_sub_shift s)) k"
  by (cases s rule: block4_cases; cases k rule: block4_cases)
    (simp add: table_simps xor_ac)

lemma enc_last_eq: "enc_last s k = xor4 (sub_shift s) k"
  by (cases s rule: block4_cases; cases k rule: block4_cases)
    (simp add: table_simps xor_ac)

lemma word4_fold:
  "push_bit 24 (ucast a) XOR push_bit 16 (ucast b) XOR push_bit 8 (ucast c) XOR ucast d XOR w =
     word4 a b c d XOR w"
  by (simp add: word4_def xor_ac)

lemma dec_last_eq: "dec_last s k = xor4 (inv_sub_shift s) k"
  by (cases s rule: block4_cases; cases k rule: block4_cases)
    (simp only: dec_last.simps b_word4 T_nth word4_fold, simp add: inv_sub_shift_def)

lemma inv_mix_word_eq: "inv_mix_word w = inv_mix_column w"
  by (cases w rule: word4_cases)
    (simp add: inv_mix_word_def T_nth col_def gmul_consts inv_mix_column_def word4_bytes xor_ac)

section \<open>Blocks as bytes\<close>

definition block_of :: "u8 list \<Rightarrow> block4" where
  "block_of p = (GETU32 p, GETU32 (drop 4 p), GETU32 (drop 8 p), GETU32 (drop 12 p))"

lemma get_block_eq: "get_block p = (if length p < 16 then Inl OutOfBounds else Inr (block_of p))"
  by (simp add: get_block_def block_of_def)

lemma length_put_block [simp]: "length (put_block s) = 16"
  by (cases s) simp

lemma block_of_put_block [simp]: "block_of (put_block s) = s"
  by (cases s rule: block4_cases) (simp add: block_of_def PUTU32_word4 GETU32_word4)

lemma put_block_of:
  assumes "length p = 16"
  shows "put_block (block_of p) = p"
proof -
  obtain x0 x1 x2 x3 x4 x5 x6 x7 x8 x9 xa xb xc xd xe xf where
    "p = [x0, x1, x2, x3, x4, x5, x6, x7, x8, x9, xa, xb, xc, xd, xe, xf]"
    using assms by (auto simp: eval_nat_numeral length_Suc_conv)
  then show ?thesis by (simp add: block_of_def GETU32_word4 PUTU32_word4)
qed

section \<open>The loops\<close>

definition aes_key_ok :: "AES_KEY \<Rightarrow> bool" where
  "aes_key_ok key \<longleftrightarrow> length (rd_key key) = 4 * (AES_MAXNR + 1) \<and> rounds key \<in> {10, 12, 14}"

definition round_key :: "u32 list \<Rightarrow> nat \<Rightarrow> block4" where
  "round_key rk i = (rk ! (4 * i), rk ! (4 * i + 1), rk ! (4 * i + 2), rk ! (4 * i + 3))"

lemma rk4_ok: "4 * i + 4 \<le> length rk \<Longrightarrow> rk4 rk (4 * i) = Inr (round_key rk i)"
  by (simp add: rk4_def round_key_def)

text \<open>\<open>m\<close> rounds from round key \<open>i\<close> on.\<close>

primrec run_rounds ::
    "(block4 \<Rightarrow> block4 \<Rightarrow> block4) \<Rightarrow> (nat \<Rightarrow> block4) \<Rightarrow> nat \<Rightarrow> nat \<Rightarrow> block4 \<Rightarrow> block4" where
  "run_rounds rnd k i 0 s = s"
| "run_rounds rnd k i (Suc m) s = run_rounds rnd k (Suc i) m (rnd s (k i))"

lemma run_rounds_enc:
  "run_rounds enc_round k (Suc i) m (round_state k i s) = round_state k (i + m) s"
  by (induction m arbitrary: i) (simp_all add: enc_round_eq flip: round_state.simps)

lemma run_rounds_dec:
  "run_rounds dec_round k (Suc i) m (inv_round_state k i s) = inv_round_state k (i + m) s"
  by (induction m arbitrary: i) (simp_all add: dec_round_eq flip: inv_round_state.simps)

lemma round_loop_ok:
  assumes "4 * (i + 2 * n + 2) \<le> length rk"
  shows "round_loop rnd rk (int n + 1) (4 * i) s =
    Inr (4 * (i + 2 * n + 2), run_rounds rnd (round_key rk) (Suc i) (2 * n + 1) s)"
  using assms
proof (induction n arbitrary: i s)
  case 0
  then show ?case
    using rk4_ok [of "Suc i" rk] by (simp add: round_loop.simps [of _ _ 1] Let_def add.commute)
next
  case (Suc n)
  have k: "rk4 rk (4 * i + 4) = Inr (round_key rk (Suc i))"
    "rk4 rk (4 * i + 8) = Inr (round_key rk (Suc (Suc i)))"
    using rk4_ok [of "Suc i" rk] rk4_ok [of "Suc (Suc i)" rk] Suc.prems by (simp_all add: add.commute)
  have IH: "round_loop rnd rk (int n + 1) (4 * i + 8) t =
    Inr (4 * (i + 2 * Suc n + 2), run_rounds rnd (round_key rk) (Suc (Suc (Suc i))) (2 * n + 1) t)" for t
    using Suc.IH [of "i + 2" t] Suc.prems by (simp add: eval_nat_numeral)
  have "round_loop rnd rk (int (Suc n) + 1) (4 * i) s =
    round_loop rnd rk (int n + 1) (4 * i + 8)
      (rnd (rnd s (round_key rk (Suc i))) (round_key rk (Suc (Suc i))))"
    by (subst round_loop.simps) (simp add: k Let_def add.commute [of 1 "int n"])
  then show ?case by (simp add: IH del: add_Suc_right)
qed

lemma block_with_ok:
  assumes "aes_key_ok key" "16 \<le> length inp"
  defines "k \<equiv> round_key (rd_key key)" and "nr \<equiv> nat (rounds key)"
  shows "block_with rnd lst inp key =
    Inr (put_block (lst (run_rounds rnd k 1 (nr - 1) (xor4 (block_of inp) (k 0))) (k nr)))"
proof -
  have len: "length (rd_key key) = 60" and r: "rounds key \<in> {10, 12, 14}"
    using assms(1) by (auto simp: aes_key_ok_def AES_MAXNR_def)
  obtain n where n: "rounds key = int (2 * n + 2)" "2 * n + 2 \<le> 14"
    using r by (auto intro: that [of 4] that [of 5] that [of 6])
  have nr: "nr = 2 * n + 2" using n by (simp add: nr_def)
  have l: "round_loop rnd (rd_key key) (int n + 1) 0 s =
      Inr (4 * nr, run_rounds rnd k 1 (nr - 1) s)" for s
    using round_loop_ok [of 0 n "rd_key key" rnd s] n len by (simp add: nr k_def)
  have d: "rounds key div 2 = int n + 1" using n by simp
  have k0: "rk4 (rd_key key) 0 = Inr (k 0)" "rk4 (rd_key key) (4 * nr) = Inr (k nr)"
    using rk4_ok [of 0 "rd_key key"] rk4_ok [of nr "rd_key key"] n len by (simp_all add: k_def nr)
  show ?thesis using assms(2) by (simp add: block_with_def get_block_eq k0 d l)
qed

lemma AES_encrypt_ok:
  assumes "aes_key_ok key" "16 \<le> length inp"
  shows "AES_encrypt inp key =
    Inr (put_block (cipher (round_key (rd_key key)) (nat (rounds key)) (block_of inp)))"
  using assms run_rounds_enc [of "round_key (rd_key key)" 0 "nat (rounds key) - 1" "block_of inp"]
  by (simp add: AES_encrypt_def block_with_ok enc_last_eq cipher_def)

lemma AES_decrypt_ok:
  assumes "aes_key_ok key" "16 \<le> length inp"
  shows "AES_decrypt inp key =
    Inr (put_block (inv_cipher (round_key (rd_key key)) (nat (rounds key)) (block_of inp)))"
  using assms run_rounds_dec [of "round_key (rd_key key)" 0 "nat (rounds key) - 1" "block_of inp"]
  by (simp add: AES_decrypt_def block_with_ok dec_last_eq inv_cipher_def)

section \<open>The unrolled form\<close>

lemma rk4_cases: "rk4 rk i = Inl OutOfBounds \<or> (\<exists>k. rk4 rk i = Inr k)"
  by (simp add: rk4_def)

lemma rk4_mono: "rk4 rk i = Inl e \<Longrightarrow> i \<le> j \<Longrightarrow> rk4 rk j = Inl e"
  by (auto simp: rk4_def split: if_splits)

lemma ebind_loop: "ebind (case m of Inl e \<Rightarrow> Inl e | Inr x \<Rightarrow> f x) g = ebind m (\<lambda>x. ebind (f x) g)"
  by (cases m) simp_all

lemma unrolled_eq_loop:
  assumes "rounds key \<in> {10, 12, 14}"
  shows "unrolled_with rnd lst inp key = block_with rnd lst inp key"
proof -
  have l: "round_loop rnd rk r p s =
      ebind (rk4 rk (p + 4)) (\<lambda>k. let t = rnd s k in
        if r - 1 = 0 then Inr (p + 8, t)
        else ebind (rk4 rk (p + 8)) (\<lambda>k'. round_loop rnd rk (r - 1) (p + 8) (rnd t k')))" for rk r p s
    by (subst round_loop.simps) (auto simp: ebind_def Let_def split: sum.splits)
  have c: "rounds key = 10 \<or> rounds key = 12 \<or> rounds key = 14" using assms by auto
  then show ?thesis
    by (elim disjE)
      (simp_all add: unrolled_with_def block_with_def do_round_def Let_def ebind_assoc l
         [of _ 5] l [of _ 4] l [of _ 3] l [of _ 2] l [of _ 1] l [of _ 6] l [of _ 7])
qed

end
