(* ===== verification/AesKeys.thy ===== *)
theory AesKeys
  imports AesCorrect
begin

text \<open>
  The key expansions: \<open>private_AES_set_encrypt_key\<close> fills \<open>rd_key\<close> by the recurrence of the
  standard, \<open>private_AES_set_decrypt_key\<close> turns it into the schedule of the inverse cipher, and
  the branch for the assembler builds computes the same two schedules.
\<close>

section \<open>The recurrence\<close>

definition rot_word :: "u32 \<Rightarrow> u32" where
  "rot_word w = word4 (ucast (drop_bit 16 w)) (ucast (drop_bit 8 w)) (ucast w) (ucast (drop_bit 24 w))"

definition key_word :: "nat \<Rightarrow> u32 list \<Rightarrow> nat \<Rightarrow> u32" where
  "key_word nk rk i =
     (let temp = rk ! (i - 1) in
      rk ! (i - nk) XOR
        (if i mod nk = 0 then map_bytes sbox (rot_word temp) XOR word4 ((xtime ^^ (i div nk - 1)) 1) 0 0 0
         else if nk > 6 \<and> i mod nk = 4 then map_bytes sbox temp
         else temp))"

definition expanding :: "nat \<Rightarrow> u32 list \<Rightarrow> nat \<Rightarrow> u32 list \<Rightarrow> bool" where
  "expanding nk uk n rk \<longleftrightarrow>
     length rk = 60 \<and> nk \<le> n \<and> take nk rk = uk \<and> (\<forall>i. nk \<le> i \<and> i < n \<longrightarrow> rk ! i = key_word nk rk i)"

lemma rcon_nth: "i < 10 \<Longrightarrow> rcon ! i = word4 ((xtime ^^ i) 1) 0 0 0"
proof -
  have "list_all (\<lambda>i. rcon ! i = word4 ((xtime ^^ i) 1) 0 0 0) [0..<10]"
    by code_simp
  then show "i < 10 \<Longrightarrow> rcon ! i = word4 ((xtime ^^ i) 1) 0 0 0" by (simp add: list_all_iff)
qed

lemma key_g_eq: "key_g w = map_bytes sbox (rot_word w)"
  by (cases w rule: word4_cases) (simp add: key_g_def T_nth col_def gmul_consts word4_mask rot_word_def word4_ucast)

lemma key_h_eq: "key_h w = map_bytes sbox w"
  by (cases w rule: word4_cases) (simp add: key_h_def T_nth col_def gmul_consts word4_mask)

lemma asm_key_g_eq: "asm_key_g = key_g"
proof
  fix w show "asm_key_g w = key_g w" unfolding key_g_eq
    by (cases w rule: word4_cases) (simp add: asm_key_g_def T_nth rot_word_def word4_ucast flip: word4_def)
qed

lemma asm_key_h_eq: "asm_key_h = key_h"
proof
  fix w show "asm_key_h w = key_h w" unfolding key_h_eq
    by (cases w rule: word4_cases) (simp add: asm_key_h_def T_nth flip: word4_def)
qed

lemma expanding_upd:
  assumes e: "expanding nk uk n rk" and n: "n < 60" "0 < nk" and v: "v = key_word nk rk n"
  shows "expanding nk uk (Suc n) (rk[n := v])"
proof -
  have nk: "nk \<le> n" "length rk = 60" using e by (auto simp: expanding_def)
  have "key_word nk (rk[n := v]) i = key_word nk rk i" if "nk \<le> i" "i \<le> n" for i
    using that n by (simp add: key_word_def)
  then show ?thesis
    using e n v nk by (auto simp: expanding_def less_Suc_eq nth_list_update)
qed

lemma expanding_step:
  assumes "expanding nk uk n rk" "n < 60" "0 < nk" "v = key_word nk rk n" "n' = Suc n"
  shows "expanding nk uk n' (rk[n := v])"
  using assms by (simp add: expanding_upd)

lemmas key_word_simps = key_word_def Let_def key_g_eq key_h_eq rcon_nth add.commute

section \<open>One round of each loop\<close>

lemma words128_ok:
  assumes "expanding 4 uk (p + 4) rk" "p = 4 * i" "p + 8 \<le> 60" "i < 10"
  shows "expanding 4 uk (p + 8) (words128 key_g i p rk)"
proof -
  define rk4 where "rk4 = rk[p + 4 := rk ! p XOR key_g (rk ! (p + 3)) XOR rcon ! i]"
  define rk5 where "rk5 = rk4[p + 5 := rk4 ! (p + 1) XOR rk4 ! (p + 4)]"
  define rk6 where "rk6 = rk5[p + 6 := rk5 ! (p + 2) XOR rk5 ! (p + 5)]"
  define rk7 where "rk7 = rk6[p + 7 := rk6 ! (p + 3) XOR rk6 ! (p + 6)]"
  have m: "(p + 4) mod 4 = 0" "(p + 5) mod 4 = 1" "(p + 6) mod 4 = 2" "(p + 7) mod 4 = 3" "(p + 4) div 4 - 1 = i"
    using assms(2) by simp_all
  have e4: "expanding 4 uk (p + 5) rk4" unfolding rk4_def
    by (rule expanding_step [OF assms(1)]) (use m assms(3,4) in \<open>simp_all add: key_word_simps\<close>)
  have e5: "expanding 4 uk (p + 6) rk5" unfolding rk5_def
    by (rule expanding_step [OF e4]) (use m assms(3,4) in \<open>simp_all add: key_word_simps\<close>)
  have e6: "expanding 4 uk (p + 7) rk6" unfolding rk6_def
    by (rule expanding_step [OF e5]) (use m assms(3,4) in \<open>simp_all add: key_word_simps\<close>)
  have e7: "expanding 4 uk (p + 8) rk7" unfolding rk7_def
    by (rule expanding_step [OF e6]) (use m assms(3,4) in \<open>simp_all add: key_word_simps\<close>)
  have "words128 key_g i p rk = rk7"
    by (simp only: words128_def Let_def rk4_def rk5_def rk6_def rk7_def)
  with e7 show ?thesis by simp
qed

lemma words192_ok:
  assumes "expanding 6 uk (p + 6) rk" "p = 6 * i" "p + 10 \<le> 60" "i < 10"
  shows "expanding 6 uk (p + 10) (words192 key_g i p rk)"
proof -
  define rk6 where "rk6 = rk[p + 6 := rk ! p XOR key_g (rk ! (p + 5)) XOR rcon ! i]"
  define rk7 where "rk7 = rk6[p + 7 := rk6 ! (p + 1) XOR rk6 ! (p + 6)]"
  define rk8 where "rk8 = rk7[p + 8 := rk7 ! (p + 2) XOR rk7 ! (p + 7)]"
  define rk9 where "rk9 = rk8[p + 9 := rk8 ! (p + 3) XOR rk8 ! (p + 8)]"
  have m: "(p + 6) mod 6 = 0" "(p + 7) mod 6 = 1" "(p + 8) mod 6 = 2" "(p + 9) mod 6 = 3" "(p + 6) div 6 - 1 = i"
    using assms(2) by simp_all
  have e6: "expanding 6 uk (p + 7) rk6" unfolding rk6_def
    by (rule expanding_step [OF assms(1)]) (use m assms(3,4) in \<open>simp_all add: key_word_simps\<close>)
  have e7: "expanding 6 uk (p + 8) rk7" unfolding rk7_def
    by (rule expanding_step [OF e6]) (use m assms(3,4) in \<open>simp_all add: key_word_simps\<close>)
  have e8: "expanding 6 uk (p + 9) rk8" unfolding rk8_def
    by (rule expanding_step [OF e7]) (use m assms(3,4) in \<open>simp_all add: key_word_simps\<close>)
  have e9: "expanding 6 uk (p + 10) rk9" unfolding rk9_def
    by (rule expanding_step [OF e8]) (use m assms(3,4) in \<open>simp_all add: key_word_simps\<close>)
  have "words192 key_g i p rk = rk9"
    by (simp only: words192_def Let_def rk6_def rk7_def rk8_def rk9_def)
  with e9 show ?thesis by simp
qed

lemma tail192_ok:
  assumes "expanding 6 uk (p + 10) rk" "p = 6 * i" "p + 12 \<le> 60" "i < 10"
  shows "expanding 6 uk (p + 12) (tail192 p rk)"
proof -
  define rk10 where "rk10 = rk[p + 10 := rk ! (p + 4) XOR rk ! (p + 9)]"
  define rk11 where "rk11 = rk10[p + 11 := rk10 ! (p + 5) XOR rk10 ! (p + 10)]"
  have m: "(p + 10) mod 6 = 4" "(p + 11) mod 6 = 5"
    using assms(2) by simp_all
  have e10: "expanding 6 uk (p + 11) rk10" unfolding rk10_def
    by (rule expanding_step [OF assms(1)]) (use m assms(3,4) in \<open>simp_all add: key_word_simps\<close>)
  have e11: "expanding 6 uk (p + 12) rk11" unfolding rk11_def
    by (rule expanding_step [OF e10]) (use m assms(3,4) in \<open>simp_all add: key_word_simps\<close>)
  have "tail192 p rk = rk11"
    by (simp only: tail192_def Let_def rk10_def rk11_def)
  with e11 show ?thesis by simp
qed

lemma words256_ok:
  assumes "expanding 8 uk (p + 8) rk" "p = 8 * i" "p + 12 \<le> 60" "i < 10"
  shows "expanding 8 uk (p + 12) (words256 key_g i p rk)"
proof -
  define rk8 where "rk8 = rk[p + 8 := rk ! p XOR key_g (rk ! (p + 7)) XOR rcon ! i]"
  define rk9 where "rk9 = rk8[p + 9 := rk8 ! (p + 1) XOR rk8 ! (p + 8)]"
  define rk10 where "rk10 = rk9[p + 10 := rk9 ! (p + 2) XOR rk9 ! (p + 9)]"
  define rk11 where "rk11 = rk10[p + 11 := rk10 ! (p + 3) XOR rk10 ! (p + 10)]"
  have m: "(p + 8) mod 8 = 0" "(p + 9) mod 8 = 1" "(p + 10) mod 8 = 2" "(p + 11) mod 8 = 3" "(p + 8) div 8 - 1 = i"
    using assms(2) by simp_all
  have e8: "expanding 8 uk (p + 9) rk8" unfolding rk8_def
    by (rule expanding_step [OF assms(1)]) (use m assms(3,4) in \<open>simp_all add: key_word_simps\<close>)
  have e9: "expanding 8 uk (p + 10) rk9" unfolding rk9_def
    by (rule expanding_step [OF e8]) (use m assms(3,4) in \<open>simp_all add: key_word_simps\<close>)
  have e10: "expanding 8 uk (p + 11) rk10" unfolding rk10_def
    by (rule expanding_step [OF e9]) (use m assms(3,4) in \<open>simp_all add: key_word_simps\<close>)
  have e11: "expanding 8 uk (p + 12) rk11" unfolding rk11_def
    by (rule expanding_step [OF e10]) (use m assms(3,4) in \<open>simp_all add: key_word_simps\<close>)
  have "words256 key_g i p rk = rk11"
    by (simp only: words256_def Let_def rk8_def rk9_def rk10_def rk11_def)
  with e11 show ?thesis by simp
qed

lemma tail256_ok:
  assumes "expanding 8 uk (p + 12) rk" "p = 8 * i" "p + 16 \<le> 60" "i < 10"
  shows "expanding 8 uk (p + 16) (tail256 key_h p rk)"
proof -
  define rk12 where "rk12 = rk[p + 12 := rk ! (p + 4) XOR key_h (rk ! (p + 11))]"
  define rk13 where "rk13 = rk12[p + 13 := rk12 ! (p + 5) XOR rk12 ! (p + 12)]"
  define rk14 where "rk14 = rk13[p + 14 := rk13 ! (p + 6) XOR rk13 ! (p + 13)]"
  define rk15 where "rk15 = rk14[p + 15 := rk14 ! (p + 7) XOR rk14 ! (p + 14)]"
  have m: "(p + 12) mod 8 = 4" "(p + 13) mod 8 = 5" "(p + 14) mod 8 = 6" "(p + 15) mod 8 = 7"
    using assms(2) by simp_all
  have e12: "expanding 8 uk (p + 13) rk12" unfolding rk12_def
    by (rule expanding_step [OF assms(1)]) (use m assms(3,4) in \<open>simp_all add: key_word_simps\<close>)
  have e13: "expanding 8 uk (p + 14) rk13" unfolding rk13_def
    by (rule expanding_step [OF e12]) (use m assms(3,4) in \<open>simp_all add: key_word_simps\<close>)
  have e14: "expanding 8 uk (p + 15) rk14" unfolding rk14_def
    by (rule expanding_step [OF e13]) (use m assms(3,4) in \<open>simp_all add: key_word_simps\<close>)
  have e15: "expanding 8 uk (p + 16) rk15" unfolding rk15_def
    by (rule expanding_step [OF e14]) (use m assms(3,4) in \<open>simp_all add: key_word_simps\<close>)
  have "tail256 key_h p rk = rk15"
    by (simp only: tail256_def Let_def rk12_def rk13_def rk14_def rk15_def)
  with e15 show ?thesis by simp
qed

section \<open>The three loops\<close>

lemma expand128_ok:
  assumes "expanding 4 uk (p + 4) rk" "p = 4 * i" "i < 10"
  shows "\<exists>rk'. expand128 key_g i p rk = Inr rk' \<and> expanding 4 uk 44 rk'"
  using assms
proof (induction "key_g" i p rk rule: expand128.induct)
  case (1 i p rk)
  have len: "length rk = 60" and b: "p + 8 \<le> 60" "i + 1 < 10 \<Longrightarrow> p + 8 \<le> 60"
    using 1(2-4) by (auto simp: expanding_def)
  have w: "expanding 4 uk (p + 8) (words128 key_g i p rk)"
    using 1(2-4) b by (intro words128_ok) auto
  show ?case
  proof (cases "i + 1 = 10")
    case True
    then have "expand128 key_g i p rk = Inr (words128 key_g i p rk)"
      using len b by (subst expand128.simps) simp
    then show ?thesis using w True 1(3) by simp
  next
    case False
    note w
    then have "\<exists>rk'. expand128 key_g (i + 1) (p + 4) (words128 key_g i p rk) = Inr rk' \<and> expanding 4 uk 44 rk'"
      using 1(2-4) b len False by (intro 1(1)) (auto simp: add.commute)
    moreover have "expand128 key_g i p rk = expand128 key_g (i + 1) (p + 4) (words128 key_g i p rk)"
      using len b 1(4) False by (subst expand128.simps) simp
    ultimately show ?thesis by simp
  qed
qed

lemma expand192_ok:
  assumes "expanding 6 uk (p + 6) rk" "p = 6 * i" "i < 8"
  shows "\<exists>rk'. expand192 key_g i p rk = Inr rk' \<and> expanding 6 uk 52 rk'"
  using assms
proof (induction "key_g" i p rk rule: expand192.induct)
  case (1 i p rk)
  have len: "length rk = 60" and b: "p + 10 \<le> 60" "i + 1 < 8 \<Longrightarrow> p + 12 \<le> 60"
    using 1(2-4) by (auto simp: expanding_def)
  have w: "expanding 6 uk (p + 10) (words192 key_g i p rk)"
    using 1(2-4) b by (intro words192_ok) auto
  show ?case
  proof (cases "i + 1 = 8")
    case True
    then have "expand192 key_g i p rk = Inr (words192 key_g i p rk)"
      using len b by (subst expand192.simps) simp
    then show ?thesis using w True 1(3) by simp
  next
    case False
    have "expanding 6 uk (p + 12) (tail192 p (words192 key_g i p rk))"
      using w 1(2-4) b False by (intro tail192_ok) auto
    then have "\<exists>rk'. expand192 key_g (i + 1) (p + 6) (tail192 p (words192 key_g i p rk)) = Inr rk' \<and> expanding 6 uk 52 rk'"
      using 1(2-4) b len False by (intro 1(1)) (auto simp: add.commute)
    moreover have "expand192 key_g i p rk = expand192 key_g (i + 1) (p + 6) (tail192 p (words192 key_g i p rk))"
      using len b 1(4) False by (subst expand192.simps) simp
    ultimately show ?thesis by simp
  qed
qed

lemma expand256_ok:
  assumes "expanding 8 uk (p + 8) rk" "p = 8 * i" "i < 7"
  shows "\<exists>rk'. expand256 key_g key_h i p rk = Inr rk' \<and> expanding 8 uk 60 rk'"
  using assms
proof (induction "key_g" "key_h" i p rk rule: expand256.induct)
  case (1 i p rk)
  have len: "length rk = 60" and b: "p + 12 \<le> 60" "i + 1 < 7 \<Longrightarrow> p + 16 \<le> 60"
    using 1(2-4) by (auto simp: expanding_def)
  have w: "expanding 8 uk (p + 12) (words256 key_g i p rk)"
    using 1(2-4) b by (intro words256_ok) auto
  show ?case
  proof (cases "i + 1 = 7")
    case True
    then have "expand256 key_g key_h i p rk = Inr (words256 key_g i p rk)"
      using len b by (subst expand256.simps) simp
    then show ?thesis using w True 1(3) by simp
  next
    case False
    have "expanding 8 uk (p + 16) (tail256 key_h p (words256 key_g i p rk))"
      using w 1(2-4) b False by (intro tail256_ok) auto
    then have "\<exists>rk'. expand256 key_g key_h (i + 1) (p + 8) (tail256 key_h p (words256 key_g i p rk)) = Inr rk' \<and> expanding 8 uk 60 rk'"
      using 1(2-4) b len False by (intro 1(1)) (auto simp: add.commute)
    moreover have "expand256 key_g key_h i p rk = expand256 key_g key_h (i + 1) (p + 8) (tail256 key_h p (words256 key_g i p rk))"
      using len b 1(4) False by (subst expand256.simps) simp
    ultimately show ?thesis by simp
  qed
qed

section \<open>The key schedules\<close>

definition user_words :: "u8 list \<Rightarrow> nat \<Rightarrow> u32 list" where
  "user_words uk n = map (\<lambda>i. GETU32 (drop (4 * i) uk)) [0..<n]"

lemma load_words_ok:
  assumes "4 * (i + n) \<le> length uk" "i + n \<le> length rk" "take i rk = user_words uk i"
  shows "\<exists>rk'. load_words uk i n rk = Inr rk' \<and> length rk' = length rk \<and>
    take (i + n) rk' = user_words uk (i + n)"
  using assms
proof (induction n arbitrary: i rk)
  case (Suc n)
  let ?rk = "rk[i := GETU32 (drop (4 * i) uk)]"
  have "take (Suc i) ?rk = user_words uk (Suc i)"
    using Suc.prems by (simp add: take_Suc_conv_app_nth user_words_def)
  then show ?case using Suc.IH [of "Suc i" ?rk] Suc.prems by simp
qed simp

text \<open>The sizes of a key of \<open>bits\<close> bits: words of the key and rounds.\<close>

definition key_words :: "int \<Rightarrow> nat" where "key_words bits = nat (bits div 32)"

lemma set_encrypt_key_ok:
  assumes "bits \<in> {128, 192, 256}" "bits div 8 \<le> int (length uk)" "length (rd_key k) = 60"
  shows "\<exists>k'. private_AES_set_encrypt_key (Some uk) bits (Some k) = Inr (0, Some k') \<and>
    aes_key_ok k' \<and> rounds k' = int (key_words bits) + 6 \<and>
    expanding (key_words bits) (user_words uk (key_words bits)) (4 * (key_words bits + 7)) (rd_key k')"
proof -
  have e: "expanding n uk' n rk" if "length rk = 60" "take n rk = uk'" for n uk' rk
    using that by (auto simp: expanding_def)
  consider "bits = 128" | "bits = 192" | "bits = 256" using assms(1) by auto
  then show ?thesis
  proof cases
    case 1
    obtain rk where rk: "load_words uk 0 4 (rd_key k) = Inr rk" "length rk = 60" "take 4 rk = user_words uk 4"
      using load_words_ok [of 0 4 uk "rd_key k"] assms 1 by (auto simp: user_words_def)
    obtain rk' where rk': "expand128 key_g 0 0 rk = Inr rk'" "expanding 4 (user_words uk 4) 44 rk'"
      using expand128_ok [of "user_words uk 4" 0 rk 0] e [OF rk(2,3)] by auto
    then show ?thesis
      using 1 rk by (simp add: private_AES_set_encrypt_key_def set_encrypt_key_with_def aes_key_ok_def
          AES_MAXNR_def key_words_def) (simp add: expanding_def)
  next
    case 2
    obtain rk0 where rk0: "load_words uk 0 4 (rd_key k) = Inr rk0" "length rk0 = 60" "take 4 rk0 = user_words uk 4"
      using load_words_ok [of 0 4 uk "rd_key k"] assms 2 by (auto simp: user_words_def)
    obtain rk where rk: "load_words uk 4 2 rk0 = Inr rk" "length rk = 60" "take 6 rk = user_words uk 6"
      using load_words_ok [of 4 2 uk rk0] assms 2 rk0 by auto
    obtain rk' where rk': "expand192 key_g 0 0 rk = Inr rk'" "expanding 6 (user_words uk 6) 52 rk'"
      using expand192_ok [of "user_words uk 6" 0 rk 0] e [OF rk(2,3)] by auto
    then show ?thesis
      using 2 rk rk0 by (simp add: private_AES_set_encrypt_key_def set_encrypt_key_with_def aes_key_ok_def
          AES_MAXNR_def key_words_def) (simp add: expanding_def)
  next
    case 3
    obtain rk0 where rk0: "load_words uk 0 4 (rd_key k) = Inr rk0" "length rk0 = 60" "take 4 rk0 = user_words uk 4"
      using load_words_ok [of 0 4 uk "rd_key k"] assms 3 by (auto simp: user_words_def)
    obtain rk1 where rk1: "load_words uk 4 2 rk0 = Inr rk1" "length rk1 = 60" "take 6 rk1 = user_words uk 6"
      using load_words_ok [of 4 2 uk rk0] assms 3 rk0 by auto
    obtain rk where rk: "load_words uk 6 2 rk1 = Inr rk" "length rk = 60" "take 8 rk = user_words uk 8"
      using load_words_ok [of 6 2 uk rk1] assms 3 rk1 by auto
    obtain rk' where rk': "expand256 key_g key_h 0 0 rk = Inr rk'" "expanding 8 (user_words uk 8) 60 rk'"
      using expand256_ok [of "user_words uk 8" 0 rk 0] e [OF rk(2,3)] by auto
    then show ?thesis
      using 3 rk rk0 rk1 by (simp add: private_AES_set_encrypt_key_def set_encrypt_key_with_def aes_key_ok_def
          AES_MAXNR_def key_words_def) (simp add: expanding_def)
  qed
qed

section \<open>Inverting the order of the round keys\<close>

lemma nth_swap_words:
  "i < length rk \<Longrightarrow> j < length rk \<Longrightarrow> n < length rk \<Longrightarrow>
   swap_words rk i j ! n = (if n = j then rk ! i else if n = i then rk ! j else rk ! n)"
  by (auto simp: swap_words_def nth_list_update)

lemma length_swap_words [simp]: "length (swap_words rk i j) = length rk"
  by (simp add: swap_words_def Let_def)

definition swap4 :: "u32 list \<Rightarrow> nat \<Rightarrow> nat \<Rightarrow> u32 list" where
  "swap4 rk i j = swap_words (swap_words (swap_words (swap_words rk i j) (i + 1) (j + 1)) (i + 2) (j + 2))
     (i + 3) (j + 3)"

lemma length_swap4 [simp]: "length (swap4 rk i j) = length rk"
  by (simp add: swap4_def)

lemma round_key_swap4:
  assumes "4 * a + 4 \<le> length rk" "4 * b + 4 \<le> length rk" "4 * i + 4 \<le> length rk" "a \<noteq> b"
  shows "round_key (swap4 rk (4 * a) (4 * b)) i =
    (if i = a then round_key rk b else if i = b then round_key rk a else round_key rk i)"
proof -
  have ne: "i \<noteq> j \<Longrightarrow> 4 * i + c \<noteq> 4 * j + d" if "c < 4" "d < 4" for i j c d :: nat
    using that by presburger
  show ?thesis
    using assms ne [of 0 0] ne [of 0 1] ne [of 0 2] ne [of 0 3] ne [of 1 0] ne [of 1 1] ne [of 1 2] ne [of 1 3]
      ne [of 2 0] ne [of 2 1] ne [of 2 2] ne [of 2 3] ne [of 3 0] ne [of 3 1] ne [of 3 2] ne [of 3 3]
    by (simp add: round_key_def swap4_def nth_swap_words)
qed

lemma reverse_keys_ok:
  assumes "4 * b + 4 \<le> length rk"
  shows "\<exists>rk'. reverse_keys (4 * a) (4 * int b) rk = Inr rk' \<and> length rk' = length rk \<and>
    (\<forall>i. 4 * i + 4 \<le> length rk \<longrightarrow>
       round_key rk' i = (if a \<le> i \<and> i \<le> b then round_key rk (a + b - i) else round_key rk i))"
  using assms
proof (induction "b - a" arbitrary: a b rk rule: less_induct)
  case less
  show ?case
  proof (cases "a < b")
    case False
    then have "a \<le> i \<and> i \<le> b \<longrightarrow> a + b - i = i" for i by auto
    then show ?thesis using False by (subst reverse_keys.simps) auto
  next
    case True
    let ?rk = "swap4 rk (4 * a) (4 * b)"
    have j: "4 * int b - 4 = 4 * int (b - 1)" "nat (4 * int b) = 4 * b" using True by auto
    have s: "reverse_keys (4 * a) (4 * int b) rk = reverse_keys (4 * Suc a) (4 * int (b - 1)) ?rk"
      using True less.prems
      by (subst reverse_keys.simps) (simp add: j Let_def swap4_def add.commute flip: j(1))
    have lt: "b - 1 - Suc a < b - a" "4 * (b - 1) + 4 \<le> length ?rk" using True less.prems by auto
    obtain rk' where rk': "reverse_keys (4 * Suc a) (4 * int (b - 1)) ?rk = Inr rk'" "length rk' = length rk"
      "\<And>i. 4 * i + 4 \<le> length rk \<Longrightarrow>
       round_key rk' i = (if Suc a \<le> i \<and> i \<le> b - 1 then round_key ?rk (Suc a + (b - 1) - i) else round_key ?rk i)"
      using less.hyps [OF lt] unfolding length_swap4 by blast
    have "round_key rk' i = (if a \<le> i \<and> i \<le> b then round_key rk (a + b - i) else round_key rk i)"
      if i: "4 * i + 4 \<le> length rk" for i
    proof -
      have bounds: "4 * a + 4 \<le> length rk" "4 * b + 4 \<le> length rk" using True less.prems by auto
      consider "Suc a \<le> i \<and> i \<le> b - 1" | "i = a" | "i = b" | "i < a \<or> b < i" using True by linarith
      then show ?thesis
      proof cases
        case 1
        then have "4 * (a + b - i) + 4 \<le> length rk" "Suc a + (b - 1) - i = a + b - i"
          "a + b - i \<noteq> a" "a + b - i \<noteq> b" "i \<le> b" using True less.prems by auto
        then show ?thesis using 1 rk'(3) [OF i] bounds True by (simp add: round_key_swap4)
      qed (use rk'(3) [OF i] bounds True i in \<open>auto simp: round_key_swap4\<close>)
    qed
    then show ?thesis using s rk' by auto
  qed
qed

text \<open>The inner round keys go through the inverse column mixing.\<close>

definition mix4 :: "(u32 \<Rightarrow> u32) \<Rightarrow> nat \<Rightarrow> u32 list \<Rightarrow> u32 list" where
  "mix4 f q rk =
     (let rk0 = rk[q := f (rk ! q)]; rk1 = rk0[q + 1 := f (rk0 ! (q + 1))];
          rk2 = rk1[q + 2 := f (rk1 ! (q + 2))]
      in rk2[q + 3 := f (rk2 ! (q + 3))])"

lemma length_mix4 [simp]: "length (mix4 f q rk) = length rk"
  by (simp add: mix4_def Let_def)

lemma round_key_mix4:
  assumes "4 * a + 4 \<le> length rk" "4 * i + 4 \<le> length rk"
  shows "round_key (mix4 f (4 * a) rk) i = (if i = a then map4 f (round_key rk a) else round_key rk i)"
proof -
  have ne: "i \<noteq> a \<Longrightarrow> 4 * i + c \<noteq> 4 * a + d" if "c < 4" "d < 4" for c d :: nat
    using that by presburger
  show ?thesis
    using assms ne [of 0 0] ne [of 0 1] ne [of 0 2] ne [of 0 3] ne [of 1 0] ne [of 1 1] ne [of 1 2] ne [of 1 3]
      ne [of 2 0] ne [of 2 1] ne [of 2 2] ne [of 2 3] ne [of 3 0] ne [of 3 1] ne [of 3 2] ne [of 3 3]
    by (simp add: round_key_def mix4_def Let_def nth_list_update)
qed

lemma mix_keys_ok:
  assumes "4 * nr \<le> length rk" "0 < i"
  shows "\<exists>rk'. mix_keys f (int i) (4 * (i - 1)) (int nr) rk = Inr rk' \<and> length rk' = length rk \<and>
    (\<forall>j. 4 * j + 4 \<le> length rk \<longrightarrow>
       round_key rk' j = (if i \<le> j \<and> j < nr then map4 f (round_key rk j) else round_key rk j))"
  using assms
proof (induction "nr - i" arbitrary: i rk rule: less_induct)
  case less
  show ?case
  proof (cases "i < nr")
    case False
    then show ?thesis by (subst mix_keys.simps) auto
  next
    case True
    let ?rk = "mix4 f (4 * i) rk"
    obtain m where m: "i = Suc m" using less.prems(2) gr0_implies_Suc by blast
    have q: "4 * Suc m = 4 * m + 4" by simp
    have s: "mix_keys f (int i) (4 * (i - 1)) (int nr) rk = mix_keys f (int (Suc i)) (4 * (Suc i - 1)) (int nr) ?rk"
      using True less.prems by (subst mix_keys.simps) (simp add: m q Let_def mix4_def add.commute [of _ 1] del: mult_Suc_right)
    have lt: "nr - Suc i < nr - i" "4 * nr \<le> length ?rk" "0 < Suc i" using True less.prems by auto
    obtain rk' where rk': "mix_keys f (int (Suc i)) (4 * (Suc i - 1)) (int nr) ?rk = Inr rk'" "length rk' = length rk"
      "\<And>j. 4 * j + 4 \<le> length rk \<Longrightarrow>
       round_key rk' j = (if Suc i \<le> j \<and> j < nr then map4 f (round_key ?rk j) else round_key ?rk j)"
      using less.hyps [OF lt] unfolding length_mix4 by blast
    have "4 * i + 4 \<le> length rk" using True less.prems by simp
    then show ?thesis using s rk' True by (auto simp: round_key_mix4)
  qed
qed

lemma inv_mix_word_fun: "inv_mix_word = inv_mix_column"
  by (rule ext) (rule inv_mix_word_eq)

lemma set_decrypt_key_ok:
  assumes "private_AES_set_encrypt_key uk bits key = Inr (0, Some k)" "aes_key_ok k"
  shows "\<exists>k'. private_AES_set_decrypt_key uk bits key = Inr (0, Some k') \<and> aes_key_ok k' \<and>
    rounds k' = rounds k \<and>
    (\<forall>j \<le> nat (rounds k). round_key (rd_key k') j = inv_keys (round_key (rd_key k)) (nat (rounds k)) j)"
proof -
  let ?nr = "nat (rounds k)"
  have r: "rounds k = int ?nr" "?nr \<le> 14" "0 < ?nr" and len: "length (rd_key k) = 60"
    using assms(2) by (auto simp: aes_key_ok_def AES_MAXNR_def)
  have b: "4 * ?nr + 4 \<le> length (rd_key k)" using r len by simp
  obtain rk1 where rk1: "reverse_keys 0 (4 * rounds k) (rd_key k) = Inr rk1" "length rk1 = 60"
    "\<And>i. 4 * i + 4 \<le> 60 \<Longrightarrow> round_key rk1 i =
       (if i \<le> ?nr then round_key (rd_key k) (?nr - i) else round_key (rd_key k) i)"
    using reverse_keys_ok [OF b, of 0] r len by auto
  obtain rk2 where rk2: "mix_keys inv_mix_column 1 0 (rounds k) rk1 = Inr rk2" "length rk2 = 60"
    "\<And>j. 4 * j + 4 \<le> 60 \<Longrightarrow> round_key rk2 j =
       (if 1 \<le> j \<and> j < ?nr then map4 inv_mix_column (round_key rk1 j) else round_key rk1 j)"
    using mix_keys_ok [of ?nr rk1 1 inv_mix_column] r rk1(2) by auto
  have "round_key rk2 j = inv_keys (round_key (rd_key k)) ?nr j" if "j \<le> ?nr" for j
    using that r rk1(3) [of j] rk2(3) [of j] by (auto simp: inv_keys_def)
  then show ?thesis
    using assms rk1 rk2 r by (simp add: private_AES_set_decrypt_key_def set_decrypt_key_with_def
        inv_mix_word_fun aes_key_ok_def AES_MAXNR_def)
qed

section \<open>Decryption inverts encryption\<close>

lemma inv_round_state_cong:
  "(\<And>j. j \<le> i \<Longrightarrow> k j = k' j) \<Longrightarrow> inv_round_state k i s = inv_round_state k' i s"
  by (induction i) simp_all

lemma inv_cipher_cong:
  assumes "\<And>j. j \<le> nr \<Longrightarrow> k j = k' j"
  shows "inv_cipher k nr s = inv_cipher k' nr s"
  using assms inv_round_state_cong [of "nr - 1" k k' s] by (simp add: inv_cipher_def)

text \<open>Two key structures that belong together.\<close>

definition key_pair :: "AES_KEY \<Rightarrow> AES_KEY \<Rightarrow> bool" where
  "key_pair ke kd \<longleftrightarrow> aes_key_ok ke \<and> aes_key_ok kd \<and> rounds kd = rounds ke \<and>
     (\<forall>j \<le> nat (rounds ke). round_key (rd_key kd) j = inv_keys (round_key (rd_key ke)) (nat (rounds ke)) j)"

lemma key_pair_blocks:
  assumes "key_pair ke kd" "length p = 16"
  shows "\<exists>c. AES_encrypt p ke = Inr c \<and> length c = 16 \<and> AES_decrypt c kd = Inr p"
proof -
  let ?nr = "nat (rounds ke)"
  have ok: "aes_key_ok ke" "aes_key_ok kd" "rounds kd = rounds ke" "0 < ?nr"
    using assms(1) by (auto simp: key_pair_def aes_key_ok_def)
  have "inv_cipher (round_key (rd_key kd)) ?nr s = inv_cipher (inv_keys (round_key (rd_key ke)) ?nr) ?nr s" for s
    using assms(1) by (intro inv_cipher_cong) (auto simp: key_pair_def)
  then show ?thesis
    using ok assms(2) by (simp add: AES_encrypt_ok AES_decrypt_ok inv_cipher_cipher put_block_of)
qed

text \<open>The recurrence determines the words it covers, whatever the structure held before.\<close>

lemma expanding_unique:
  assumes "expanding nk uk n rk" "expanding nk uk n rk'" "0 < nk" "i < n"
  shows "rk ! i = rk' ! i"
  using assms(4)
proof (induction i rule: less_induct)
  case (less i)
  show ?case
  proof (cases "i < nk")
    case True
    then have "rk ! i = take nk rk ! i" "rk' ! i = take nk rk' ! i" by simp_all
    then show ?thesis using assms by (simp add: expanding_def)
  next
    case False
    then have "key_word nk rk i = key_word nk rk' i"
      using less assms(3) by (simp add: key_word_def)
    then show ?thesis using False less.prems assms by (simp add: expanding_def)
  qed
qed

lemma set_keys_pair:
  assumes "bits \<in> {128, 192, 256}" "bits div 8 \<le> int (length uk)"
    and "length (rd_key k) = 60" "length (rd_key k2) = 60"
  shows "\<exists>ke kd. private_AES_set_encrypt_key (Some uk) bits (Some k) = Inr (0, Some ke) \<and>
    private_AES_set_decrypt_key (Some uk) bits (Some k2) = Inr (0, Some kd) \<and> key_pair ke kd"
proof -
  let ?nk = "key_words bits"
  obtain ke where ke: "private_AES_set_encrypt_key (Some uk) bits (Some k) = Inr (0, Some ke)"
    "aes_key_ok ke" "rounds ke = int ?nk + 6" "expanding ?nk (user_words uk ?nk) (4 * (?nk + 7)) (rd_key ke)"
    using set_encrypt_key_ok [OF assms(1-3)] by blast
  obtain ke2 where ke2: "private_AES_set_encrypt_key (Some uk) bits (Some k2) = Inr (0, Some ke2)"
    "aes_key_ok ke2" "rounds ke2 = int ?nk + 6" "expanding ?nk (user_words uk ?nk) (4 * (?nk + 7)) (rd_key ke2)"
    using set_encrypt_key_ok [OF assms(1,2,4)] by blast
  obtain kd where kd: "private_AES_set_decrypt_key (Some uk) bits (Some k2) = Inr (0, Some kd)" "aes_key_ok kd"
    "rounds kd = rounds ke2"
    "\<forall>j \<le> nat (rounds ke2). round_key (rd_key kd) j = inv_keys (round_key (rd_key ke2)) (nat (rounds ke2)) j"
    using set_decrypt_key_ok [OF ke2(1,2)] by blast
  have nk: "0 < ?nk" using assms(1) by (auto simp: key_words_def)
  have "rd_key ke2 ! i = rd_key ke ! i" if "i < 4 * (?nk + 7)" for i
    using expanding_unique [OF ke2(4) ke(4) nk that] .
  then have "round_key (rd_key ke2) j = round_key (rd_key ke) j" if "j \<le> ?nk + 6" for j
    using that by (simp add: round_key_def)
  then have "inv_keys (round_key (rd_key ke2)) (?nk + 6) j = inv_keys (round_key (rd_key ke)) (?nk + 6) j"
    if "j \<le> ?nk + 6" for j using that by (simp add: inv_keys_def)
  moreover have "nat (rounds ke) = ?nk + 6" "nat (rounds ke2) = ?nk + 6" using ke(3) ke2(3) by auto
  ultimately have "key_pair ke kd" using ke ke2(3) kd by (simp add: key_pair_def)
  then show ?thesis using ke(1) kd(1) by blast
qed

end
