(* ===== verification/AesAsm.thy ===== *)
theory AesAsm
  imports AesKeys
begin

text \<open>
  The assembler branch of \<open>aes_core.c\<close> mixes the four bytes of a round key at once, with shifts,
  masks and a subtraction that builds the reduction masks. It computes the same transform as the
  table code.
\<close>

lemma bit_word4:
  "bit (word4 a b c d) n = (if n < 8 then bit d n else if n < 16 then bit c (n - 8)
     else if n < 24 then bit b (n - 16) else bit a (n - 24))"
  unfolding word4_def
  by (cases "n < 8"; cases "n < 16"; cases "n < 24"; cases "n < 32")
    (auto simp: bit_simps dest: bit_imp_le_length)

lemma word4_and: "word4 a b c d AND word4 a' b' c' d' = word4 (a AND a') (b AND b') (c AND c') (d AND d')"
  by (rule bit_word_eqI) (simp add: bit_word4 bit_and_iff)

lemma word4_rotate:
  "drop_bit 16 (word4 a b c d) XOR push_bit 16 (word4 a b c d) = word4 c d a b"
  "drop_bit 8 (word4 a b c d) XOR push_bit 24 (word4 a b c d) = word4 d a b c"
  "drop_bit 24 (word4 a b c d) XOR push_bit 8 (word4 a b c d) = word4 b c d a"
  by (rule bit_word_eqI, auto simp: bit_word4 bit_simps dest: bit_imp_le_length)+

lemma push_bit_word4:
  assumes "\<not> bit b 7" "\<not> bit c 7" "\<not> bit d 7"
  shows "push_bit 1 (word4 a b c d) = word4 (push_bit 1 a) (push_bit 1 b) (push_bit 1 c) (push_bit 1 d)"
proof (rule bit_word_eqI)
  fix n assume "n < LENGTH(32)"
  moreover have "n - Suc 0 - 8 = n - 8 - Suc 0" "n - Suc 0 - 16 = n - 16 - Suc 0" "n - Suc 0 - 24 = n - 24 - Suc 0"
    by auto
  moreover have "n = 8 \<or> n = 16 \<or> n = 24 \<or> n = 0 \<or> n \<noteq> 8 \<and> n \<noteq> 16 \<and> n \<noteq> 24 \<and> 0 < n" by auto
  ultimately show "bit (push_bit 1 (word4 a b c d)) n =
      bit (word4 (push_bit 1 a) (push_bit 1 b) (push_bit 1 c) (push_bit 1 d)) n"
    using assms by (elim disjE) (auto simp: bit_word4 bit_simps simp del: push_bit_Suc)
qed

lemma top_bit: "x AND 0x80 = (if bit x 7 then 0x80 else (0 :: u8))"
proof (rule bit_word_eqI)
  fix n assume "n < LENGTH(8)"
  then have "n = 0 \<or> n = 1 \<or> n = 2 \<or> n = 3 \<or> n = 4 \<or> n = 5 \<or> n = 6 \<or> n = 7" by auto
  then show "bit (x AND 0x80) n = bit (if bit x 7 then 0x80 else (0 :: u8)) n"
    by (elim disjE) (simp_all add: bit_and_iff)
qed

lemma low_bits:
  "\<not> bit (x AND 0x7f :: u8) 7" "push_bit 1 (x AND 0x7f) = push_bit 1 (x :: u8)"
proof -
  have m: "(0x7f :: u8) = mask 7" by (simp add: mask_eq_exp_minus_1)
  show "\<not> bit (x AND 0x7f :: u8) 7" by (simp add: m bit_simps)
  show "push_bit 1 (x AND 0x7f) = push_bit 1 (x :: u8)"
    unfolding m by (rule bit_word_eqI) (auto simp: bit_simps simp del: push_bit_Suc)
qed

text \<open>The subtraction turns the top bit of each byte into the mask of its reduction.\<close>

lemma reduction_masks:
  fixes p q r s :: bool
  defines "m \<equiv> word4 (if p then 0x80 else 0) (if q then 0x80 else 0) (if r then 0x80 else 0) (if s then 0x80 else 0)"
  shows "(m - drop_bit 7 m) AND 0x1b1b1b1b =
    word4 (if p then 0x1b else 0) (if q then 0x1b else 0) (if r then 0x1b else 0) (if s then 0x1b else 0)"
  by (cases p; cases q; cases r; cases s; simp add: m_def word4_def)

lemma swar_double_word4: "swar_double (word4 a b c d) = word4 (xtime a) (xtime b) (xtime c) (xtime d)"
proof -
  have k: "(0x80808080 :: u32) = word4 0x80 0x80 0x80 0x80" "(0x7f7f7f7f :: u32) = word4 0x7f 0x7f 0x7f 0x7f"
    by (simp_all add: word4_def)
  show ?thesis
    unfolding swar_double_def k Let_def word4_and top_bit reduction_masks
    by (simp only: push_bit_word4 low_bits not_False_eq_True word4_xor xtime_def)
qed

lemma asm_inv_mix_word_eq: "asm_inv_mix_word = inv_mix_word"
proof
  fix w
  have r: "x XOR drop_bit 16 y XOR push_bit 16 y XOR drop_bit 8 z XOR push_bit 24 z XOR drop_bit 24 u XOR push_bit 8 u
      = x XOR (drop_bit 16 y XOR push_bit 16 y) XOR (drop_bit 8 z XOR push_bit 24 z) XOR (drop_bit 24 u XOR push_bit 8 u)"
    for x y z u :: u32 by (simp add: xor_ac)
  show "asm_inv_mix_word w = inv_mix_word w" unfolding inv_mix_word_eq
    by (cases w rule: word4_cases)
      (simp only: asm_inv_mix_word_def Let_def swar_double_word4 word4_xor r word4_rotate inv_mix_column_def
         mix_matrix_word4 gmul_consts, simp add: xor_ac)
qed

lemma asm_keys_eq:
  "asm_AES_set_encrypt_key = private_AES_set_encrypt_key"
  "asm_AES_set_decrypt_key = private_AES_set_decrypt_key"
  by (simp_all add: asm_AES_set_encrypt_key_def private_AES_set_encrypt_key_def asm_AES_set_decrypt_key_def
      private_AES_set_decrypt_key_def asm_key_g_eq asm_key_h_eq asm_inv_mix_word_eq)

end
