(* ===== verification/Cbc.thy ===== *)
theory Cbc
  imports Prelude
begin

text \<open>
  Cipher block chaining, \<open>third/openssl/crypto/modes/cbc128.c\<close>, over any block function: the two
  loops of the encryption, the decryption for separate buffers and the one for a single buffer,
  each with its tail loop for the bytes behind the last full block. The contract of a block cipher
  is the locale \<open>block_cipher\<close>; what chaining guarantees is proved from it.

  Pointers are lists of the bytes behind them: \<open>inp\<close> of the readable ones, the result of the bytes
  written to \<open>out\<close>. \<open>block\<close> takes the 16 bytes it reads and the key pointer. XOR by words of
  \<open>size_t\<close> is XOR by bytes, so the branches for strict alignment write the same bytes.
\<close>

type_synonym 'k block128_f = "u8 list \<Rightarrow> 'k \<Rightarrow> u8 list exec"

definition xor_bytes :: "u8 list \<Rightarrow> u8 list \<Rightarrow> u8 list" where
  "xor_bytes = map2 (XOR)"

section \<open>Encryption\<close>

text \<open>The loop \<open>while (len >= 16)\<close>; the results are the bytes written, the last block and the rest.\<close>

function cbc_enc_full ::
    "'k block128_f \<Rightarrow> 'k \<Rightarrow> u8 list \<Rightarrow> nat \<Rightarrow> u8 list \<Rightarrow> (u8 list \<times> u8 list \<times> nat \<times> u8 list) exec" where
  "cbc_enc_full block key inp len iv =
     (if len \<ge> 16 then
        ebind (read_src inp 16) (\<lambda>x.
        ebind (block (xor_bytes x iv) key) (\<lambda>y.
        ebind (cbc_enc_full block key (drop 16 inp) (len - 16) y) (\<lambda>(out, r).
        Inr (y @ out, r))))
      else Inr ([], inp, len, iv))"
  by pat_completeness auto
termination by (relation "measure (\<lambda>(b, k, i, len, v). len)") auto

text \<open>The loop \<open>while (len)\<close>: a short last block is filled up with bytes of the chaining value.\<close>

function cbc_enc_tail ::
    "'k block128_f \<Rightarrow> 'k \<Rightarrow> u8 list \<Rightarrow> nat \<Rightarrow> u8 list \<Rightarrow> (u8 list \<times> u8 list) exec" where
  "cbc_enc_tail block key inp len iv =
     (if len = 0 then Inr ([], iv)
      else
        (let n = min 16 len in
         ebind (read_src inp (int n)) (\<lambda>x.
         ebind (block (xor_bytes x (take n iv) @ drop n iv) key) (\<lambda>y.
         if len \<le> 16 then Inr (y, y)
         else
           ebind (cbc_enc_tail block key (drop 16 inp) (len - 16) y) (\<lambda>(out, iv').
           Inr (y @ out, iv'))))))"
  by pat_completeness auto
termination by (relation "measure (\<lambda>(b, k, i, len, v). len)") auto

declare cbc_enc_full.simps [simp del] cbc_enc_tail.simps [simp del]

text \<open>
  \<open>CRYPTO_cbc128_encrypt\<close>: the bytes written to \<open>out\<close> and the new \<open>ivec\<close>. Each block of \<open>in\<close> is read
  before its place in \<open>out\<close> is written and never after, so \<open>in == out\<close> makes no difference. With
  \<open>OPENSSL_SMALL_FOOTPRINT\<close> only the second loop is compiled.
\<close>

definition CRYPTO_cbc128_encrypt ::
    "u8 list \<Rightarrow> nat \<Rightarrow> 'k \<Rightarrow> u8 list \<Rightarrow> 'k block128_f \<Rightarrow> (u8 list \<times> u8 list) exec" where
  "CRYPTO_cbc128_encrypt inp len key ivec block =
     ebind (cbc_enc_full block key inp len ivec) (\<lambda>(out, inp', len', iv).
     ebind (cbc_enc_tail block key inp' len' iv) (\<lambda>(out', iv').
     Inr (out @ out', iv')))"

definition small_cbc128_encrypt ::
    "u8 list \<Rightarrow> nat \<Rightarrow> 'k \<Rightarrow> u8 list \<Rightarrow> 'k block128_f \<Rightarrow> (u8 list \<times> u8 list) exec" where
  "small_cbc128_encrypt inp len key ivec block = cbc_enc_tail block key inp len ivec"

section \<open>Decryption\<close>

text \<open>The loop for \<open>in != out\<close>, where the chaining value is a pointer into the input.\<close>

function cbc_dec_full ::
    "'k block128_f \<Rightarrow> 'k \<Rightarrow> u8 list \<Rightarrow> nat \<Rightarrow> u8 list \<Rightarrow> (u8 list \<times> u8 list \<times> nat \<times> u8 list) exec" where
  "cbc_dec_full block key inp len iv =
     (if len \<ge> 16 then
        ebind (read_src inp 16) (\<lambda>x.
        ebind (block x key) (\<lambda>y.
        ebind (cbc_dec_full block key (drop 16 inp) (len - 16) x) (\<lambda>(out, r).
        Inr (xor_bytes y iv @ out, r))))
      else Inr ([], inp, len, iv))"
  by pat_completeness auto
termination by (relation "measure (\<lambda>(b, k, i, len, v). len)") auto

text \<open>
  The loop \<open>while (len)\<close>: it reads 16 bytes in any case, writes at most \<open>len\<close> and leaves the block
  it read in \<open>ivec\<close>.
\<close>

function cbc_dec_tail ::
    "'k block128_f \<Rightarrow> 'k \<Rightarrow> u8 list \<Rightarrow> nat \<Rightarrow> u8 list \<Rightarrow> (u8 list \<times> u8 list) exec" where
  "cbc_dec_tail block key inp len ivec =
     (if len = 0 then Inr ([], ivec)
      else
        (let n = min 16 len in
         ebind (read_src inp 16) (\<lambda>c.
         ebind (block c key) (\<lambda>tmp.
         (let out = xor_bytes (take n tmp) (take n ivec); ivec' = take n c @ drop n ivec in
          if len \<le> 16 then Inr (out, take n ivec' @ drop n c)
          else
            ebind (cbc_dec_tail block key (drop 16 inp) (len - 16) ivec') (\<lambda>(out', iv').
            Inr (out @ out', iv')))))))"
  by pat_completeness auto
termination by (relation "measure (\<lambda>(b, k, i, len, v). len)") auto

declare cbc_dec_full.simps [simp del] cbc_dec_tail.simps [simp del]

definition CRYPTO_cbc128_decrypt ::
    "u8 list \<Rightarrow> nat \<Rightarrow> 'k \<Rightarrow> u8 list \<Rightarrow> 'k block128_f \<Rightarrow> (u8 list \<times> u8 list) exec" where
  "CRYPTO_cbc128_decrypt inp len key ivec block =
     ebind (cbc_dec_full block key inp len ivec) (\<lambda>(out, inp', len', iv).
     ebind (cbc_dec_tail block key inp' len' iv) (\<lambda>(out', iv').
     Inr (out @ out', iv')))"

text \<open>With \<open>OPENSSL_SMALL_FOOTPRINT\<close> the tail loop does all the work, and handles both cases.\<close>

definition small_cbc128_decrypt ::
    "u8 list \<Rightarrow> nat \<Rightarrow> 'k \<Rightarrow> u8 list \<Rightarrow> 'k block128_f \<Rightarrow> (u8 list \<times> u8 list) exec" where
  "small_cbc128_decrypt inp len key ivec block = cbc_dec_tail block key inp len ivec"

text \<open>
  The same call with \<open>in == out\<close>: one buffer, read and overwritten at position \<open>p\<close>. The block is
  decrypted into \<open>tmp\<close> and each byte of \<open>in\<close> is saved into \<open>ivec\<close> as its place is overwritten.
\<close>

function inplace_dec_full ::
    "'k block128_f \<Rightarrow> 'k \<Rightarrow> u8 list \<Rightarrow> nat \<Rightarrow> nat \<Rightarrow> u8 list \<Rightarrow> (u8 list \<times> nat \<times> nat \<times> u8 list) exec" where
  "inplace_dec_full block key buf p len ivec =
     (if len \<ge> 16 then
        ebind (read_src (drop p buf) 16) (\<lambda>c.
        ebind (block c key) (\<lambda>tmp.
        ebind (write_at buf p (xor_bytes tmp ivec)) (\<lambda>buf'.
        inplace_dec_full block key buf' (p + 16) (len - 16) c)))
      else Inr (buf, p, len, ivec))"
  by pat_completeness auto
termination by (relation "measure (\<lambda>(b, k, i, p, len, v). len)") auto

function inplace_dec_tail ::
    "'k block128_f \<Rightarrow> 'k \<Rightarrow> u8 list \<Rightarrow> nat \<Rightarrow> nat \<Rightarrow> u8 list \<Rightarrow> (u8 list \<times> u8 list) exec" where
  "inplace_dec_tail block key buf p len ivec =
     (if len = 0 then Inr (buf, ivec)
      else
        (let n = min 16 len in
         ebind (read_src (drop p buf) 16) (\<lambda>c.
         ebind (block c key) (\<lambda>tmp.
         ebind (write_at buf p (xor_bytes (take n tmp) (take n ivec))) (\<lambda>buf'.
         (let ivec' = take n c @ drop n ivec in
          if len \<le> 16 then Inr (buf', take n ivec' @ take (16 - n) (drop (p + n) buf'))
          else inplace_dec_tail block key buf' (p + 16) (len - 16) ivec'))))))"
  by pat_completeness auto
termination by (relation "measure (\<lambda>(b, k, i, p, len, v). len)") auto

declare inplace_dec_full.simps [simp del] inplace_dec_tail.simps [simp del]

definition inplace_cbc128_decrypt ::
    "u8 list \<Rightarrow> nat \<Rightarrow> 'k \<Rightarrow> u8 list \<Rightarrow> 'k block128_f \<Rightarrow> (u8 list \<times> u8 list) exec" where
  "inplace_cbc128_decrypt buf len key ivec block =
     ebind (inplace_dec_full block key buf 0 len ivec) (\<lambda>(buf', p, len', iv).
     inplace_dec_tail block key buf' p len' iv)"

section \<open>Chaining as a function on bytes\<close>

lemma length_xor_bytes [simp]: "length (xor_bytes x y) = min (length x) (length y)"
  by (simp add: xor_bytes_def)

lemma xor_bytes_cancel: "length y \<le> length x \<Longrightarrow> xor_bytes (xor_bytes y x) x = y"
proof (induction y x rule: list_induct2')
  case (4 a y b x)
  then show ?case by (simp add: xor_bytes_def xor.assoc)
qed (simp_all add: xor_bytes_def)

lemma take_xor_bytes: "take n (xor_bytes x y) = xor_bytes (take n x) (take n y)"
  by (simp add: xor_bytes_def take_map take_zip)

lemma xor_bytes_append:
  "length a = length c \<Longrightarrow> xor_bytes (a @ b) (c @ d) = xor_bytes a c @ xor_bytes b d"
  by (simp add: xor_bytes_def)

lemma blocks_round_up:
  fixes q r len :: nat
  assumes "len = 16 * q + r" "1 \<le> r" "r < 16"
  shows "(len + 15) div 16 = q + 1"
  using assms by (intro div_nat_eqI) auto

text \<open>A block function where it returns, and chaining over the full blocks of a byte list.\<close>

definition total_block :: "'k block128_f \<Rightarrow> 'k \<Rightarrow> u8 list \<Rightarrow> u8 list" where
  "total_block block key x = (case block x key of Inl _ \<Rightarrow> [] | Inr y \<Rightarrow> y)"

fun cbc_bytes :: "(u8 list \<Rightarrow> u8 list) \<Rightarrow> u8 list \<Rightarrow> u8 list \<Rightarrow> u8 list" where
  "cbc_bytes E iv xs =
     (if length xs < 16 then []
      else let y = E (xor_bytes (take 16 xs) iv) in y @ cbc_bytes E y (drop 16 xs))"

fun cbc_inv_bytes :: "(u8 list \<Rightarrow> u8 list) \<Rightarrow> u8 list \<Rightarrow> u8 list \<Rightarrow> u8 list" where
  "cbc_inv_bytes D iv xs =
     (if length xs < 16 then []
      else xor_bytes (D (take 16 xs)) iv @ cbc_inv_bytes D (take 16 xs) (drop 16 xs))"

declare cbc_bytes.simps [simp del] cbc_inv_bytes.simps [simp del]

text \<open>The chaining value after \<open>ys\<close> has been written or read: its last block.\<close>

definition last_block :: "u8 list \<Rightarrow> u8 list \<Rightarrow> u8 list" where
  "last_block iv ys = drop (length ys) (iv @ ys)"

lemma last_block_Nil [simp]: "last_block iv [] = iv"
  by (simp add: last_block_def)

lemma length_last_block [simp]: "length (last_block iv ys) = length iv"
  by (simp add: last_block_def)

lemma last_block_append: "length y = length iv \<Longrightarrow> last_block iv (y @ ys) = last_block y ys"
  by (simp add: last_block_def)

lemma cbc_bytes_step:
  "16 \<le> length xs \<Longrightarrow> cbc_bytes E iv xs =
     (let y = E (xor_bytes (take 16 xs) iv) in y @ cbc_bytes E y (drop 16 xs))"
  by (subst cbc_bytes.simps) simp

lemma cbc_inv_bytes_step:
  "16 \<le> length xs \<Longrightarrow> cbc_inv_bytes D iv xs =
     xor_bytes (D (take 16 xs)) iv @ cbc_inv_bytes D (take 16 xs) (drop 16 xs)"
  by (subst cbc_inv_bytes.simps) simp

lemma cbc_bytes_short [simp]: "length xs < 16 \<Longrightarrow> cbc_bytes E iv xs = []"
  by (subst cbc_bytes.simps) simp

lemma cbc_inv_bytes_short [simp]: "length xs < 16 \<Longrightarrow> cbc_inv_bytes D iv xs = []"
  by (subst cbc_inv_bytes.simps) simp

section \<open>The contract of a block cipher\<close>

locale block_cipher =
  fixes enc :: "'k block128_f" and dec :: "'k block128_f" and pair :: "'k \<Rightarrow> 'k \<Rightarrow> bool"
  assumes enc_block: "pair ke kd \<Longrightarrow> length p = 16 \<Longrightarrow>
      \<exists>c. enc p ke = Inr c \<and> length c = 16 \<and> dec c kd = Inr p"
    and dec_block: "pair ke kd \<Longrightarrow> length c = 16 \<Longrightarrow> \<exists>p. dec c kd = Inr p \<and> length p = 16"
begin

lemma enc_total:
  assumes "pair ke kd" "length p = 16"
  shows "enc p ke = Inr (total_block enc ke p)" "length (total_block enc ke p) = 16"
    "dec (total_block enc ke p) kd = Inr p"
  using enc_block [OF assms] by (auto simp: total_block_def)

lemma dec_total:
  assumes "pair ke kd" "length c = 16"
  shows "dec c kd = Inr (total_block dec kd c)" "length (total_block dec kd c) = 16"
  using dec_block [OF assms] by (auto simp: total_block_def)

lemma dec_enc_total [simp]:
  "pair ke kd \<Longrightarrow> length p = 16 \<Longrightarrow> total_block dec kd (total_block enc ke p) = p"
  using enc_total(3) [of ke kd p] by (simp add: total_block_def)

lemma length_cbc_bytes:
  assumes "pair ke kd" "length iv = 16"
  shows "length (cbc_bytes (total_block enc ke) iv xs) = 16 * (length xs div 16)"
  using assms(2)
proof (induction "total_block enc ke" iv xs rule: cbc_bytes.induct)
  case (1 iv xs)
  show ?case
  proof (cases "length xs < 16")
    case False
    then show ?thesis
      using 1 enc_total(2) [OF assms(1)] by (simp add: cbc_bytes_step Let_def le_div_geq)
  qed simp
qed

lemma length_cbc_inv_bytes:
  assumes "pair ke kd" "length iv = 16"
  shows "length (cbc_inv_bytes (total_block dec kd) iv xs) = 16 * (length xs div 16)"
  using assms(2)
proof (induction "total_block dec kd" iv xs rule: cbc_inv_bytes.induct)
  case (1 iv xs)
  show ?case
  proof (cases "length xs < 16")
    case False
    then show ?thesis
      using 1 dec_total(2) [OF assms(1)] by (simp add: cbc_inv_bytes_step le_div_geq)
  qed simp
qed

text \<open>The loops of the code compute these functions on input that is a multiple of the block size.\<close>

lemma enc_full_ok:
  assumes "pair ke kd" "length iv = 16" "len \<le> length inp"
  shows "cbc_enc_full enc ke inp len iv =
    (let ys = cbc_bytes (total_block enc ke) iv (take len inp) in
     Inr (ys, drop (16 * (len div 16)) inp, len mod 16, last_block iv ys))"
  using assms(2,3)
proof (induction len arbitrary: inp iv rule: less_induct)
  case (less len)
  show ?case
  proof (cases "16 \<le> len")
    case True
    let ?y = "total_block enc ke (xor_bytes (take 16 inp) iv)"
    have y: "enc (xor_bytes (take 16 inp) iv) ke = Inr ?y" "length ?y = 16"
      using enc_total [OF assms(1)] True less.prems by auto
    have "cbc_enc_full enc ke (drop 16 inp) (len - 16) ?y =
      (let ys = cbc_bytes (total_block enc ke) ?y (take (len - 16) (drop 16 inp)) in
       Inr (ys, drop (16 * ((len - 16) div 16)) (drop 16 inp), (len - 16) mod 16, last_block ?y ys))"
      using True less.prems y by (intro less.IH) auto
    then show ?thesis
      using True less.prems y
      by (subst cbc_enc_full.simps)
        (simp add: read_src_ok cbc_bytes_step [of "take len inp"] Let_def last_block_append le_div_geq
          le_mod_geq min_absorb1 drop_take add.commute)
  qed (use less.prems in \<open>simp add: cbc_enc_full.simps [of _ _ _ len]\<close>)
qed

lemma dec_full_ok:
  assumes "pair ke kd" "length iv = 16" "len \<le> length inp"
  shows "cbc_dec_full dec kd inp len iv =
    Inr (cbc_inv_bytes (total_block dec kd) iv (take len inp), drop (16 * (len div 16)) inp, len mod 16,
         last_block iv (take (16 * (len div 16)) inp))"
  using assms(2,3)
proof (induction len arbitrary: inp iv rule: less_induct)
  case (less len)
  show ?case
  proof (cases "16 \<le> len")
    case True
    have y: "dec (take 16 inp) kd = Inr (total_block dec kd (take 16 inp))"
      using dec_total [OF assms(1)] True less.prems by auto
    have "cbc_dec_full dec kd (drop 16 inp) (len - 16) (take 16 inp) =
      Inr (cbc_inv_bytes (total_block dec kd) (take 16 inp) (take (len - 16) (drop 16 inp)),
        drop (16 * ((len - 16) div 16)) (drop 16 inp), (len - 16) mod 16,
        last_block (take 16 inp) (take (16 * ((len - 16) div 16)) (drop 16 inp)))"
      using True less.prems by (intro less.IH) auto
    moreover have "last_block iv (take (16 + 16 * ((len - 16) div 16)) inp) =
        last_block (take 16 inp) (take (16 * ((len - 16) div 16)) (drop 16 inp))"
      using True less.prems by (simp add: take_add last_block_append)
    ultimately show ?thesis
      using True less.prems y
      by (subst cbc_dec_full.simps)
        (simp add: read_src_ok cbc_inv_bytes_step [of "take len inp"] le_div_geq le_mod_geq min_absorb1
          drop_take add.commute)
  qed (use less.prems in \<open>simp add: cbc_dec_full.simps [of _ _ _ len]\<close>)
qed

text \<open>Decryption of the chained blocks, and chaining over concatenated inputs.\<close>

lemma cbc_inv_cbc:
  assumes "pair ke kd" "length iv = 16" "16 dvd length xs"
  shows "cbc_inv_bytes (total_block dec kd) iv (cbc_bytes (total_block enc ke) iv xs) = xs"
  using assms(2,3)
proof (induction "total_block enc ke" iv xs rule: cbc_bytes.induct)
  case (1 iv xs)
  show ?case
  proof (cases "length xs < 16")
    case False
    let ?x = "xor_bytes (take 16 xs) iv"
    have y: "length (total_block enc ke ?x) = 16" "length ?x = 16"
      using enc_total(2) [OF assms(1)] False 1 by auto
    have "16 dvd length (drop 16 xs)" using 1(3) False by simp
    then have "cbc_inv_bytes (total_block dec kd) (total_block enc ke ?x)
        (cbc_bytes (total_block enc ke) (total_block enc ke ?x) (drop 16 xs)) = drop 16 xs"
      using 1(1) [OF _ refl] False y by simp
    then show ?thesis
      using False y 1(2) assms(1)
      by (simp add: cbc_bytes_step Let_def cbc_inv_bytes_step xor_bytes_cancel)
  qed (use 1 in \<open>auto simp: dvd_def\<close>)
qed

lemma cbc_bytes_append:
  assumes "pair ke kd" "length iv = 16" "16 dvd length xs"
  shows "cbc_bytes (total_block enc ke) iv (xs @ zs) =
    (let ys = cbc_bytes (total_block enc ke) iv xs in
     ys @ cbc_bytes (total_block enc ke) (last_block iv ys) zs)"
  using assms(2,3)
proof (induction "total_block enc ke" iv xs rule: cbc_bytes.induct)
  case (1 iv xs)
  show ?case
  proof (cases "length xs < 16")
    case False
    let ?y = "total_block enc ke (xor_bytes (take 16 xs) iv)"
    have y: "length ?y = 16" using enc_total(2) [OF assms(1)] False 1 by auto
    have "16 dvd length (drop 16 xs)" using 1(3) False by simp
    then show ?thesis
      using 1(1) [OF _ refl] False y 1(2)
      by (simp add: cbc_bytes_step Let_def last_block_append)
  qed (use 1 in \<open>auto simp: dvd_def\<close>)
qed

lemma cbc_inv_bytes_append:
  assumes "pair ke kd" "length iv = 16" "16 dvd length xs"
  shows "cbc_inv_bytes (total_block dec kd) iv (xs @ zs) =
    cbc_inv_bytes (total_block dec kd) iv xs @ cbc_inv_bytes (total_block dec kd) (last_block iv xs) zs"
  using assms(2,3)
proof (induction "total_block dec kd" iv xs rule: cbc_inv_bytes.induct)
  case (1 iv xs)
  show ?case
  proof (cases "length xs < 16")
    case False
    have "16 dvd length (drop 16 xs)" using 1(3) False by simp
    moreover have "last_block iv xs = last_block (take 16 xs) (drop 16 xs)"
      using last_block_append [of "take 16 xs" iv "drop 16 xs"] 1(2) False by simp
    ultimately show ?thesis using 1(1) False 1(2) by (simp add: cbc_inv_bytes_step)
  qed (use 1 in \<open>auto simp: dvd_def\<close>)
qed

text \<open>The two functions of the code on a multiple of the block size.\<close>

lemma encrypt_ok:
  assumes "pair ke kd" "length iv = 16" "16 dvd len" "len \<le> length inp"
  shows "CRYPTO_cbc128_encrypt inp len ke iv enc =
    (let ys = cbc_bytes (total_block enc ke) iv (take len inp) in Inr (ys, last_block iv ys))"
  using assms(3) by (simp add: CRYPTO_cbc128_encrypt_def enc_full_ok [OF assms(1,2,4)] Let_def
      cbc_enc_tail.simps [of _ _ _ 0] mod_eq_0_iff_dvd)

lemma decrypt_ok:
  assumes "pair ke kd" "length iv = 16" "16 dvd len" "len \<le> length inp"
  shows "CRYPTO_cbc128_decrypt inp len kd iv dec =
    Inr (cbc_inv_bytes (total_block dec kd) iv (take len inp), last_block iv (take len inp))"
  using assms(3) by (simp add: CRYPTO_cbc128_decrypt_def dec_full_ok [OF assms(1,2,4)]
      cbc_dec_tail.simps [of _ _ _ 0] mod_eq_0_iff_dvd)

text \<open>One loop does the work of two: the tail loop alone computes what both loops compute.\<close>

lemma enc_tail_full:
  assumes "pair ke kd" "length iv = 16"
  shows "cbc_enc_tail enc ke inp len iv = CRYPTO_cbc128_encrypt inp len ke iv enc"
  using assms(2)
proof (induction len arbitrary: inp iv rule: less_induct)
  case (less len)
  show ?case
  proof (cases "16 \<le> len \<and> 16 \<le> length inp")
    case True
    let ?y = "total_block enc ke (xor_bytes (take 16 inp) iv)"
    have y: "enc (xor_bytes (take 16 inp) iv) ke = Inr ?y" "length ?y = 16"
      using enc_total [OF assms(1)] True less.prems by auto
    have IH: "cbc_enc_tail enc ke (drop 16 inp) (len - 16) ?y =
        CRYPTO_cbc128_encrypt (drop 16 inp) (len - 16) ke ?y enc"
      using True y by (intro less.IH) auto
    have z: "cbc_enc_tail enc ke xs 0 v = Inr ([], v)" "cbc_enc_full enc ke xs 0 v = Inr ([], xs, 0, v)" for xs v
      by (simp_all add: cbc_enc_tail.simps [of _ _ _ 0] cbc_enc_full.simps [of _ _ _ 0])
    have "CRYPTO_cbc128_encrypt inp len ke iv enc =
        ebind (CRYPTO_cbc128_encrypt (drop 16 inp) (len - 16) ke ?y enc) (\<lambda>(out, iv'). Inr (?y @ out, iv'))"
      using True y by (simp add: CRYPTO_cbc128_encrypt_def cbc_enc_full.simps [of _ _ inp] read_src_ok
          ebind_assoc split_def)
    moreover have "cbc_enc_tail enc ke inp len iv =
        ebind (cbc_enc_tail enc ke (drop 16 inp) (len - 16) ?y) (\<lambda>(out, iv'). Inr (?y @ out, iv'))"
      using True y less.prems z
      by (subst cbc_enc_tail.simps) (cases "len = 16"; simp add: read_src_ok Let_def min_absorb1)
    ultimately show ?thesis using IH by simp
  next
    case False
    then consider "len < 16" | "16 \<le> len" "length inp < 16" by linarith
    then show ?thesis
    proof cases
      case 1
      then show ?thesis
        by (simp add: CRYPTO_cbc128_encrypt_def cbc_enc_full.simps [of _ _ inp])
    next
      case 2
      then show ?thesis
        by (simp add: CRYPTO_cbc128_encrypt_def cbc_enc_full.simps [of _ _ inp] read_src_def
            cbc_enc_tail.simps [of _ _ inp len])
    qed
  qed
qed

text \<open>A round trip for any length: the output is rounded up to whole blocks.\<close>

lemma tail_roundtrip:
  assumes "pair ke kd" "length iv = 16" "len \<le> length inp"
  shows "\<exists>out iv'. cbc_enc_tail enc ke inp len iv = Inr (out, iv') \<and> length iv' = 16 \<and>
    length out = 16 * ((len + 15) div 16) \<and> cbc_dec_tail dec kd out len iv = Inr (take len inp, iv')"
  using assms(2,3)
proof (induction len arbitrary: inp iv rule: less_induct)
  case (less len)
  let ?n = "min 16 len"
  let ?x = "xor_bytes (take ?n inp) (take ?n iv) @ drop ?n iv"
  let ?y = "total_block enc ke ?x"
  have x: "length ?x = 16" using less.prems by auto
  note y = enc_total [OF assms(1) x]
  have xx: "xor_bytes (take ?n ?x) (take ?n iv) = take ?n inp"
    using less.prems by (simp add: xor_bytes_cancel)
  consider "len = 0" | "0 < len" "len \<le> 16" | "16 < len" by linarith
  then show ?case
  proof cases
    case 1
    then show ?thesis using less.prems by (simp add: cbc_enc_tail.simps [of _ _ _ 0] cbc_dec_tail.simps [of _ _ _ 0])
  next
    case 2
    then have "cbc_enc_tail enc ke inp len iv = Inr (?y, ?y)"
      using less.prems y by (subst cbc_enc_tail.simps) (simp add: read_src_ok Let_def min_absorb2)
    moreover have "cbc_dec_tail dec kd ?y len iv = Inr (take len inp, ?y)"
      using 2 y xx less.prems by (subst cbc_dec_tail.simps) (simp add: read_src_ok Let_def min_absorb2)
    moreover have "(len + 15) div 16 = 1" using 2 by simp
    ultimately show ?thesis using y by simp
  next
    case 3
    have "len - 16 < len" "length ?y = 16" "len - 16 \<le> length (drop 16 inp)" using 3 y less.prems by auto
    from less.IH [OF this] obtain out iv' where r: "cbc_enc_tail enc ke (drop 16 inp) (len - 16) ?y = Inr (out, iv')"
      "length iv' = 16" "length out = 16 * ((len - 16 + 15) div 16)"
      "cbc_dec_tail dec kd out (len - 16) ?y = Inr (take (len - 16) (drop 16 inp), iv')" by blast
    have e: "cbc_enc_tail enc ke inp len iv = Inr (?y @ out, iv')"
      using 3 less.prems y r by (subst cbc_enc_tail.simps) (simp add: read_src_ok Let_def min_absorb1)
    have "cbc_dec_tail dec kd (?y @ out) len iv = Inr (take 16 inp @ take (len - 16) (drop 16 inp), iv')"
      using 3 less.prems y xx r by (subst cbc_dec_tail.simps) (simp add: read_src_ok Let_def min_absorb1)
    moreover have "take 16 inp @ take (len - 16) (drop 16 inp) = take len inp"
      using 3 by (simp flip: take_add)
    moreover have "length (?y @ out) = 16 * ((len + 15) div 16)"
      using 3 r(3) y(2) by (simp add: le_div_geq)
    ultimately show ?thesis using e r(2) by metis
  qed
qed

lemma dec_tail_full:
  assumes "length iv = 16"
  shows "cbc_dec_tail block key inp len iv = CRYPTO_cbc128_decrypt inp len key iv block"
  using assms
proof (induction len arbitrary: inp iv rule: less_induct)
  case (less len)
  have z: "cbc_dec_tail block key xs 0 v = Inr ([], v)" "cbc_dec_full block key xs 0 v = Inr ([], xs, 0, v)" for xs v
    by (simp_all add: cbc_dec_tail.simps [of _ _ _ 0] cbc_dec_full.simps [of _ _ _ 0])
  consider "len < 16" | "16 \<le> len" "length inp < 16" | "16 \<le> len" "16 \<le> length inp" by linarith
  then show ?case
  proof cases
    case 3
    have IH: "cbc_dec_tail block key (drop 16 inp) (len - 16) (take 16 inp) =
        CRYPTO_cbc128_decrypt (drop 16 inp) (len - 16) key (take 16 inp) block"
      using 3 by (intro less.IH) auto
    have x: "xor_bytes (take 16 y) (take 16 iv) = xor_bytes y iv" for y
      using less.prems take_xor_bytes [of 16 y iv] by simp
    have "CRYPTO_cbc128_decrypt inp len key iv block = ebind (block (take 16 inp) key) (\<lambda>y.
        ebind (CRYPTO_cbc128_decrypt (drop 16 inp) (len - 16) key (take 16 inp) block)
          (\<lambda>(out, iv'). Inr (xor_bytes y iv @ out, iv')))"
      using 3 by (simp add: CRYPTO_cbc128_decrypt_def cbc_dec_full.simps [of _ _ inp] read_src_ok
          ebind_assoc split_def)
    moreover have "cbc_dec_tail block key inp len iv = ebind (block (take 16 inp) key) (\<lambda>y.
        ebind (cbc_dec_tail block key (drop 16 inp) (len - 16) (take 16 inp))
          (\<lambda>(out, iv'). Inr (xor_bytes y iv @ out, iv')))"
      using 3 less.prems z x
      by (subst cbc_dec_tail.simps) (cases "len = 16"; simp add: read_src_ok Let_def min_absorb1)
    ultimately show ?thesis using IH by simp
  next
    case 1
    then show ?thesis
      by (simp add: CRYPTO_cbc128_decrypt_def cbc_dec_full.simps [of _ _ inp])
  next
    case 2
    then show ?thesis
      by (simp add: CRYPTO_cbc128_decrypt_def cbc_dec_full.simps [of _ _ inp] read_src_def
          cbc_dec_tail.simps [of _ _ inp len] Let_def)
  qed
qed

lemma cbc_roundtrip:
  assumes "pair ke kd" "length iv = 16" "len \<le> length inp"
  shows "\<exists>out iv'. CRYPTO_cbc128_encrypt inp len ke iv enc = Inr (out, iv') \<and>
    length out = 16 * ((len + 15) div 16) \<and> CRYPTO_cbc128_decrypt out len kd iv dec = Inr (take len inp, iv')"
  using tail_roundtrip [OF assms] enc_tail_full [OF assms(1,2)] dec_tail_full [OF assms(2)] by metis

text \<open>Decrypting a buffer in place gives what the two-buffer code gives, with the rest untouched.\<close>

lemma write_at_append: "length o' \<le> length xs \<Longrightarrow> write_at (pre @ xs) (length pre) o' = Inr (pre @ o' @ drop (length o') xs)"
  by (simp add: write_at_def)

lemma inplace_full_ok:
  assumes "pair ke kd" "length iv = 16" "len \<le> length xs"
  shows "inplace_dec_full dec kd (pre @ xs) (length pre) len iv =
    (let out = cbc_inv_bytes (total_block dec kd) iv (take len xs) in
     Inr (pre @ out @ drop (length out) xs, length pre + length out, len mod 16,
          last_block iv (take (16 * (len div 16)) xs)))"
  using assms(2,3)
proof (induction len arbitrary: pre xs iv rule: less_induct)
  case (less len)
  show ?case
  proof (cases "16 \<le> len")
    case True
    let ?o = "xor_bytes (total_block dec kd (take 16 xs)) iv"
    have y: "dec (take 16 xs) kd = Inr (total_block dec kd (take 16 xs))" "length ?o = 16"
      using dec_total [OF assms(1)] True less.prems by auto
    have w: "write_at (pre @ xs) (length pre) ?o = Inr ((pre @ ?o) @ drop 16 xs)"
      using y True less.prems by (simp add: write_at_append)
    have IH: "inplace_dec_full dec kd ((pre @ ?o) @ drop 16 xs) (length (pre @ ?o)) (len - 16) (take 16 xs) =
      (let out = cbc_inv_bytes (total_block dec kd) (take 16 xs) (take (len - 16) (drop 16 xs)) in
       Inr ((pre @ ?o) @ out @ drop (length out) (drop 16 xs), length (pre @ ?o) + length out, (len - 16) mod 16,
          last_block (take 16 xs) (take (16 * ((len - 16) div 16)) (drop 16 xs))))"
      using True less.prems by (intro less.IH) auto
    have l: "last_block iv (take (16 * (len div 16)) xs) =
        last_block (take 16 xs) (take (16 * ((len - 16) div 16)) (drop 16 xs))"
      using True less.prems by (simp add: le_div_geq take_add last_block_append)
    have i: "cbc_inv_bytes (total_block dec kd) iv (take len xs) =
        ?o @ cbc_inv_bytes (total_block dec kd) (take 16 xs) (take (len - 16) (drop 16 xs))"
      using True less.prems by (simp add: cbc_inv_bytes_step min_absorb1 drop_take)
    have "inplace_dec_full dec kd (pre @ xs) (length pre) len iv =
        inplace_dec_full dec kd ((pre @ ?o) @ drop 16 xs) (length (pre @ ?o)) (len - 16) (take 16 xs)"
      using True less.prems y w by (subst inplace_dec_full.simps) (simp add: read_src_ok)
    also have "\<dots> = (let out = cbc_inv_bytes (total_block dec kd) iv (take len xs) in
     Inr (pre @ out @ drop (length out) xs, length pre + length out, len mod 16,
          last_block iv (take (16 * (len div 16)) xs)))"
      unfolding IH using y(2) i l True by (simp add: Let_def le_mod_geq add.commute)
    finally show ?thesis .
  qed (use less.prems in \<open>simp add: inplace_dec_full.simps [of _ _ _ _ len]\<close>)
qed

lemma tail_block: "r < 16 \<Longrightarrow> take r xs @ drop r (take 16 xs) = take (16 :: nat) xs"
  using append_take_drop_id [of r "take 16 xs"] by (simp add: min_absorb1)

lemma inplace_tail_one:
  assumes "pair ke kd" "0 < r" "r < 16" "length v = 16" "16 \<le> length xs"
    and o: "o' = xor_bytes (take r (total_block dec kd (take 16 xs))) (take r v)"
  shows "inplace_dec_tail dec kd (pre @ xs) (length pre) r v = Inr (pre @ o' @ drop r xs, take 16 xs)"
    and "cbc_dec_tail dec kd xs r v = Inr (o', take 16 xs)" and "length o' = r"
proof -
  have y: "dec (take 16 xs) kd = Inr (total_block dec kd (take 16 xs))"
    "length (total_block dec kd (take 16 xs)) = 16"
    using dec_total [OF assms(1)] assms by auto
  then show l: "length o' = r" using assms by simp
  have td: "take r xs @ drop r (take 16 xs) = take 16 xs" "take r xs @ take (16 - r) (drop r xs) = take 16 xs"
    using tail_block [OF assms(3), of xs] assms(3) by (simp_all flip: take_add)
  show "cbc_dec_tail dec kd xs r v = Inr (o', take 16 xs)"
    using assms y td by (subst cbc_dec_tail.simps) (simp add: read_src_ok Let_def min_absorb2 min_absorb1)
  have w: "write_at (pre @ xs) (length pre) o' = Inr (pre @ o' @ drop r xs)"
    using write_at_append [of o' xs pre] l assms by simp
  have "inplace_dec_tail dec kd (pre @ xs) (length pre) r v =
      Inr (pre @ o' @ drop r xs, take r (take r (take 16 xs) @ drop r v) @
           take (16 - r) (drop (length pre + r) (pre @ o' @ drop r xs)))"
    using assms(2-5) y w unfolding o
    by (subst inplace_dec_tail.simps) (simp add: read_src_ok Let_def min_absorb2)
  then show "inplace_dec_tail dec kd (pre @ xs) (length pre) r v = Inr (pre @ o' @ drop r xs, take 16 xs)"
    using l td assms(3,5) by (simp add: min_absorb1)
qed

lemma inplace_eq_separate:
  assumes "pair ke kd" "length iv = 16" "16 * ((len + 15) div 16) \<le> length buf"
  shows "inplace_cbc128_decrypt buf len kd iv dec =
    ebind (CRYPTO_cbc128_decrypt buf len kd iv dec) (\<lambda>(out, iv'). Inr (out @ drop len buf, iv'))"
proof -
  have le: "len \<le> length buf" using assms(3) by linarith
  let ?q = "16 * (len div 16)" and ?r = "len mod 16"
  let ?out = "cbc_inv_bytes (total_block dec kd) iv (take len buf)"
  let ?v = "last_block iv (take ?q buf)"
  have lo: "length ?out = ?q" using length_cbc_inv_bytes [OF assms(1,2)] le by (simp add: min_absorb2)
  have fi: "inplace_dec_full dec kd buf 0 len iv = Inr (?out @ drop ?q buf, ?q, ?r, ?v)"
    using inplace_full_ok [OF assms(1,2) le, of "[]"] lo by (simp add: Let_def)
  have fs: "cbc_dec_full dec kd buf len iv = Inr (?out, drop ?q buf, ?r, ?v)"
    by (rule dec_full_ok [OF assms(1,2) le])
  have lv: "length ?v = 16" using assms(2) by simp
  have r: "?r < 16" by simp
  show ?thesis
  proof (cases "?r = 0")
    case True
    then have q: "?q = len" by (simp add: mod_eq_0_iff_dvd)
    show ?thesis using True q by (simp add: inplace_cbc128_decrypt_def CRYPTO_cbc128_decrypt_def fi fs
        inplace_dec_tail.simps [of _ _ _ _ 0] cbc_dec_tail.simps [of _ _ _ 0])
  next
    case False
    then have "1 \<le> ?r" by linarith
    then have "(len + 15) div 16 = len div 16 + 1"
      using blocks_round_up [of len "len div 16" ?r] r by simp
    then have ld: "16 \<le> length (drop ?q buf)" using assms(3) by simp
    define o' where "o' = xor_bytes (take ?r (total_block dec kd (take 16 (drop ?q buf)))) (take ?r ?v)"
    note one = inplace_tail_one [OF assms(1) _ r lv ld o'_def]
    have "cbc_dec_tail dec kd (drop ?q buf) ?r ?v = Inr (o', take 16 (drop ?q buf))"
      using False by (intro one) simp
    moreover have "inplace_dec_tail dec kd (?out @ drop ?q buf) ?q ?r ?v =
        Inr (?out @ o' @ drop ?r (drop ?q buf), take 16 (drop ?q buf))"
      using one(1) [of ?out] False lo by simp
    moreover have "drop ?r (drop ?q buf) = drop len buf" by (simp add: add.commute)
    ultimately show ?thesis
      by (simp add: inplace_cbc128_decrypt_def CRYPTO_cbc128_decrypt_def fi fs del: drop_drop)
  qed
qed

end

end
