(* ===== verification/Evp.thy ===== *)
theory Evp
  imports Prelude
begin

text \<open>
  The symmetric cipher interface of OpenSSL, \<open>third/openssl/crypto/evp/evp_enc.c\<close>: the context, its
  initialisation, the update and final calls of both directions, padding, key length and copying,
  for an arbitrary \<open>EVP_CIPHER\<close>. The build is the one without \<open>OPENSSL_FIPS\<close> and without a hardware
  engine for the cipher, where \<open>impl\<close> is NULL and stays NULL.

  A call that writes to \<open>out\<close> returns the bytes it wrote there, from the first one on; \<open>*outl\<close> is an
  argument and a result, because some error returns leave it alone. The error queue is not modelled.
\<close>

section \<open>Ciphers and contexts\<close>

type_synonym ulong = "64 word"

definition EVP_CIPH_ECB_MODE :: ulong where "EVP_CIPH_ECB_MODE = 0x1"
definition EVP_CIPH_CBC_MODE :: ulong where "EVP_CIPH_CBC_MODE = 0x2"
definition EVP_CIPH_CFB_MODE :: ulong where "EVP_CIPH_CFB_MODE = 0x3"
definition EVP_CIPH_OFB_MODE :: ulong where "EVP_CIPH_OFB_MODE = 0x4"
definition EVP_CIPH_CTR_MODE :: ulong where "EVP_CIPH_CTR_MODE = 0x5"
definition EVP_CIPH_WRAP_MODE :: ulong where "EVP_CIPH_WRAP_MODE = 0x10002"
definition EVP_CIPH_MODE :: ulong where "EVP_CIPH_MODE = 0xF0007"
definition EVP_CIPH_VARIABLE_LENGTH :: ulong where "EVP_CIPH_VARIABLE_LENGTH = 0x8"
definition EVP_CIPH_CUSTOM_IV :: ulong where "EVP_CIPH_CUSTOM_IV = 0x10"
definition EVP_CIPH_ALWAYS_CALL_INIT :: ulong where "EVP_CIPH_ALWAYS_CALL_INIT = 0x20"
definition EVP_CIPH_CTRL_INIT :: ulong where "EVP_CIPH_CTRL_INIT = 0x40"
definition EVP_CIPH_CUSTOM_KEY_LENGTH :: ulong where "EVP_CIPH_CUSTOM_KEY_LENGTH = 0x80"
definition EVP_CIPH_NO_PADDING :: ulong where "EVP_CIPH_NO_PADDING = 0x100"
definition EVP_CIPH_CUSTOM_COPY :: ulong where "EVP_CIPH_CUSTOM_COPY = 0x400"
definition EVP_CIPH_FLAG_DEFAULT_ASN1 :: ulong where "EVP_CIPH_FLAG_DEFAULT_ASN1 = 0x1000"
definition EVP_CIPH_FLAG_CUSTOM_CIPHER :: ulong where "EVP_CIPH_FLAG_CUSTOM_CIPHER = 0x100000"
definition EVP_CIPHER_CTX_FLAG_WRAP_ALLOW :: ulong where "EVP_CIPHER_CTX_FLAG_WRAP_ALLOW = 0x1"

lemmas evp_flags = EVP_CIPH_ECB_MODE_def EVP_CIPH_CBC_MODE_def EVP_CIPH_CFB_MODE_def
  EVP_CIPH_OFB_MODE_def EVP_CIPH_CTR_MODE_def EVP_CIPH_WRAP_MODE_def EVP_CIPH_MODE_def
  EVP_CIPH_VARIABLE_LENGTH_def EVP_CIPH_CUSTOM_IV_def EVP_CIPH_ALWAYS_CALL_INIT_def
  EVP_CIPH_CTRL_INIT_def EVP_CIPH_CUSTOM_KEY_LENGTH_def EVP_CIPH_NO_PADDING_def
  EVP_CIPH_CUSTOM_COPY_def EVP_CIPH_FLAG_DEFAULT_ASN1_def EVP_CIPH_FLAG_CUSTOM_CIPHER_def
  EVP_CIPHER_CTX_FLAG_WRAP_ALLOW_def

definition has_flag :: "ulong \<Rightarrow> ulong \<Rightarrow> bool" where
  "has_flag fl m \<longleftrightarrow> fl AND m \<noteq> 0"

text \<open>
  \<open>struct evp_cipher_st\<close>, with the functions taking what they read of the context: \<open>init\<close> the
  cipher data, the flags of the cipher, \<open>key_len\<close>, the key and \<open>enc\<close>; \<open>do_cipher\<close> the cipher data,
  \<open>iv\<close>, \<open>encrypt\<close>, the input and its length, returning its result, the bytes written and the new
  \<open>iv\<close>. \<open>blank\<close> is what a fresh block of \<open>ctx_size\<close> bytes holds.
\<close>

record 'd EVP_CIPHER =
  nid :: int
  block_size :: int
  c_key_len :: int
  iv_len :: int
  c_flags :: ulong
  init :: "'d option \<Rightarrow> ulong \<Rightarrow> int \<Rightarrow> u8 list option \<Rightarrow> int \<Rightarrow> (int \<times> 'd option) exec"
  do_cipher :: "'d option \<Rightarrow> u8 list \<Rightarrow> int \<Rightarrow> u8 list \<Rightarrow> int \<Rightarrow> (int \<times> u8 list \<times> u8 list) exec"
  cleanup :: "('d option \<Rightarrow> int) option"
  ctx_size :: int
  ctrl :: "('d option \<Rightarrow> int \<Rightarrow> int \<Rightarrow> (int \<times> 'd option) exec) option"
  blank :: 'd

text \<open>\<open>struct evp_cipher_ctx_st\<close>. The four arrays have 16, 16, 32 and 32 bytes.\<close>

record 'd EVP_CIPHER_CTX =
  cipher :: "'d EVP_CIPHER option"
  encrypt :: int
  buf_len :: int
  oiv :: "u8 list"
  iv :: "u8 list"
  buf :: "u8 list"
  num :: int
  key_len :: int
  flags :: ulong
  cipher_data :: "'d option"
  final_used :: int
  block_mask :: int
  final :: "u8 list"

definition EVP_MAX_IV_LENGTH :: int where "EVP_MAX_IV_LENGTH = 16"
definition EVP_MAX_BLOCK_LENGTH :: int where "EVP_MAX_BLOCK_LENGTH = 32"

text \<open>\<open>OPENSSL_assert\<close> ends the process when its condition fails.\<close>

definition openssl_assert :: "bool \<Rightarrow> unit exec" where
  "openssl_assert b = (if b then Inr () else Inl Abort)"

lemma openssl_assert_simps [simp, exec_simps]:
  "openssl_assert True = Inr ()" "openssl_assert False = Inl Abort"
  by (simp_all add: openssl_assert_def)

definition EVP_CIPHER_CTX_init :: "'d EVP_CIPHER_CTX" where
  "EVP_CIPHER_CTX_init = \<lparr>cipher = None, encrypt = 0, buf_len = 0, oiv = replicate 16 0,
     iv = replicate 16 0, buf = replicate 32 0, num = 0, key_len = 0, flags = 0,
     cipher_data = None, final_used = 0, block_mask = 0, final = replicate 32 0\<rparr>"

text \<open>The result \<open>None\<close> is the NULL pointer of a failed allocation.\<close>

definition EVP_CIPHER_CTX_new :: "heap \<Rightarrow> 'd EVP_CIPHER_CTX option \<times> heap" where
  "EVP_CIPHER_CTX_new h =
     (case malloc_obj h of
        (False, h1) \<Rightarrow> (None, h1)
      | (True, h1) \<Rightarrow> (Some EVP_CIPHER_CTX_init, h1))"

definition EVP_CIPHER_CTX_mode :: "'d EVP_CIPHER \<Rightarrow> ulong" where
  "EVP_CIPHER_CTX_mode c = c_flags c AND EVP_CIPH_MODE"

definition EVP_CIPHER_CTX_cleanup :: "'d EVP_CIPHER_CTX \<Rightarrow> int \<times> 'd EVP_CIPHER_CTX" where
  "EVP_CIPHER_CTX_cleanup c =
     (case cipher c of
        None \<Rightarrow> (1, EVP_CIPHER_CTX_init)
      | Some ci \<Rightarrow>
          (case cleanup ci of
             None \<Rightarrow> (1, EVP_CIPHER_CTX_init)
           | Some f \<Rightarrow> if f (cipher_data c) = 0 then (0, c) else (1, EVP_CIPHER_CTX_init)))"

definition EVP_CIPHER_CTX_ctrl ::
    "'d EVP_CIPHER_CTX \<Rightarrow> int \<Rightarrow> int \<Rightarrow> (int \<times> 'd EVP_CIPHER_CTX) exec" where
  "EVP_CIPHER_CTX_ctrl ctx type arg =
     (case cipher ctx of
        None \<Rightarrow> Inr (0, ctx)
      | Some c \<Rightarrow>
          (case ctrl c of
             None \<Rightarrow> Inr (0, ctx)
           | Some f \<Rightarrow>
               ebind (f (cipher_data ctx) type arg) (\<lambda>(ret, d).
               Inr (if ret = -1 then 0 else ret, ctx\<lparr>cipher_data := d\<rparr>))))"

section \<open>Initialisation\<close>

definition EVP_CTRL_INIT :: int where "EVP_CTRL_INIT = 0"
definition EVP_CTRL_SET_KEY_LENGTH :: int where "EVP_CTRL_SET_KEY_LENGTH = 1"

text \<open>The part from \<open>if (cipher)\<close> up to the label, which installs a cipher; \<open>None\<close> is \<open>return 0\<close>.\<close>

definition install_cipher ::
    "heap \<Rightarrow> 'd EVP_CIPHER_CTX \<Rightarrow> 'd EVP_CIPHER option \<Rightarrow> int
     \<Rightarrow> (bool \<times> 'd EVP_CIPHER_CTX \<times> heap) exec" where
  "install_cipher h ctx ci enc =
     (case ci of
        None \<Rightarrow> Inr (cipher ctx \<noteq> None, ctx, h)
      | Some c \<Rightarrow>
          (let ctx1 = (if cipher ctx \<noteq> None
                       then snd (EVP_CIPHER_CTX_cleanup ctx)\<lparr>encrypt := enc, flags := flags ctx\<rparr>
                       else ctx);
               ctx2 = ctx1\<lparr>cipher := Some c\<rparr>;
               (data_ok, ctx3, h1) =
                 (if ctx_size c \<noteq> 0
                  then (case malloc_obj h of
                          (False, h1) \<Rightarrow> (False, ctx2\<lparr>cipher_data := None\<rparr>, h1)
                        | (True, h1) \<Rightarrow> (True, ctx2\<lparr>cipher_data := Some (blank c)\<rparr>, h1))
                  else (True, ctx2\<lparr>cipher_data := None\<rparr>, h))
           in if \<not> data_ok then Inr (False, ctx3, h1)
              else
                let ctx4 = ctx3\<lparr>key_len := c_key_len c,
                             flags := flags ctx3 AND EVP_CIPHER_CTX_FLAG_WRAP_ALLOW\<rparr>
                in if has_flag (c_flags c) EVP_CIPH_CTRL_INIT
                   then ebind (EVP_CIPHER_CTX_ctrl ctx4 EVP_CTRL_INIT 0) (\<lambda>(r, ctx5).
                        Inr (r \<noteq> 0, ctx5, h1))
                   else Inr (True, ctx4, h1)))"

text \<open>The switch over the mode, which sets \<open>oiv\<close>, \<open>iv\<close> and \<open>num\<close>; \<open>None\<close> is its default case.\<close>

definition set_iv ::
    "'d EVP_CIPHER_CTX \<Rightarrow> 'd EVP_CIPHER \<Rightarrow> u8 list option \<Rightarrow> 'd EVP_CIPHER_CTX option exec" where
  "set_iv ctx c ivp =
     (let mode = EVP_CIPHER_CTX_mode c; n = iv_len c in
      if mode = 0 \<or> mode = EVP_CIPH_ECB_MODE then Inr (Some ctx)
      else if mode = EVP_CIPH_CFB_MODE \<or> mode = EVP_CIPH_OFB_MODE \<or> mode = EVP_CIPH_CBC_MODE then
        (let ctx1 = (if mode = EVP_CIPH_CBC_MODE then ctx else ctx\<lparr>num := 0\<rparr>) in
         ebind (openssl_assert (n \<le> EVP_MAX_IV_LENGTH)) (\<lambda>_.
         ebind (case ivp of
                  None \<Rightarrow> Inr ctx1
                | Some v \<Rightarrow>
                    ebind (read_src v n) (\<lambda>bs.
                    ebind (write_at (oiv ctx1) 0 bs) (\<lambda>o'. Inr (ctx1\<lparr>oiv := o'\<rparr>)))) (\<lambda>ctx2.
         ebind (write_at (iv ctx2) 0 (take (nat n) (oiv ctx2))) (\<lambda>i'.
         Inr (Some (ctx2\<lparr>iv := i'\<rparr>))))))
      else if mode = EVP_CIPH_CTR_MODE then
        (let ctx1 = ctx\<lparr>num := 0\<rparr> in
         case ivp of
           None \<Rightarrow> Inr (Some ctx1)
         | Some v \<Rightarrow>
             ebind (read_src v n) (\<lambda>bs.
             ebind (write_at (iv ctx1) 0 bs) (\<lambda>i'. Inr (Some (ctx1\<lparr>iv := i'\<rparr>)))))
      else Inr None)"

definition EVP_CipherInit_ex ::
    "heap \<Rightarrow> 'd EVP_CIPHER_CTX \<Rightarrow> 'd EVP_CIPHER option \<Rightarrow> u8 list option \<Rightarrow> u8 list option \<Rightarrow> int
     \<Rightarrow> (int \<times> 'd EVP_CIPHER_CTX \<times> heap) exec" where
  "EVP_CipherInit_ex h ctx ci key ivp enc0 =
     (let enc = (if enc0 = -1 then encrypt ctx else if enc0 \<noteq> 0 then 1 else 0);
          ctx0 = (if enc0 = -1 then ctx else ctx\<lparr>encrypt := enc\<rparr>) in
      ebind (install_cipher h ctx0 ci enc) (\<lambda>(ok, ctx1, h1).
      if \<not> ok then Inr (0, ctx1, h1)
      else
        ebind (deref (cipher ctx1)) (\<lambda>c.
        ebind (openssl_assert (block_size c = 1 \<or> block_size c = 8 \<or> block_size c = 16)) (\<lambda>_.
        if \<not> has_flag (flags ctx1) EVP_CIPHER_CTX_FLAG_WRAP_ALLOW
           \<and> EVP_CIPHER_CTX_mode c = EVP_CIPH_WRAP_MODE
        then Inr (0, ctx1, h1)
        else
          ebind (if has_flag (c_flags c) EVP_CIPH_CUSTOM_IV then Inr (Some ctx1) else set_iv ctx1 c ivp)
            (\<lambda>ctx2_opt. case ctx2_opt of
               None \<Rightarrow> Inr (0, ctx1, h1)
             | Some ctx2 \<Rightarrow>
                 ebind
                   (if key \<noteq> None \<or> has_flag (c_flags c) EVP_CIPH_ALWAYS_CALL_INIT
                    then ebind (init c (cipher_data ctx2) (c_flags c) (key_len ctx2) key enc) (\<lambda>(r, d).
                         Inr (r, ctx2\<lparr>cipher_data := d\<rparr>))
                    else Inr (1, ctx2)) (\<lambda>(r, ctx3).
                 if r = 0 then Inr (0, ctx3, h1)
                 else Inr (1, ctx3\<lparr>buf_len := 0, final_used := 0, block_mask := block_size c - 1\<rparr>, h1)))))))"

definition EVP_CipherInit ::
    "heap \<Rightarrow> 'd EVP_CIPHER_CTX \<Rightarrow> 'd EVP_CIPHER option \<Rightarrow> u8 list option \<Rightarrow> u8 list option \<Rightarrow> int
     \<Rightarrow> (int \<times> 'd EVP_CIPHER_CTX \<times> heap) exec" where
  "EVP_CipherInit h ctx ci key ivp enc =
     EVP_CipherInit_ex h (if ci \<noteq> None then EVP_CIPHER_CTX_init else ctx) ci key ivp enc"

definition EVP_EncryptInit_ex ::
    "heap \<Rightarrow> 'd EVP_CIPHER_CTX \<Rightarrow> 'd EVP_CIPHER option \<Rightarrow> u8 list option \<Rightarrow> u8 list option
     \<Rightarrow> (int \<times> 'd EVP_CIPHER_CTX \<times> heap) exec" where
  "EVP_EncryptInit_ex h ctx ci key ivp = EVP_CipherInit_ex h ctx ci key ivp 1"

definition EVP_DecryptInit_ex ::
    "heap \<Rightarrow> 'd EVP_CIPHER_CTX \<Rightarrow> 'd EVP_CIPHER option \<Rightarrow> u8 list option \<Rightarrow> u8 list option
     \<Rightarrow> (int \<times> 'd EVP_CIPHER_CTX \<times> heap) exec" where
  "EVP_DecryptInit_ex h ctx ci key ivp = EVP_CipherInit_ex h ctx ci key ivp 0"

section \<open>Update and final\<close>

definition M_do_cipher ::
    "'d EVP_CIPHER_CTX \<Rightarrow> u8 list \<Rightarrow> int \<Rightarrow> (int \<times> u8 list \<times> 'd EVP_CIPHER_CTX) exec" where
  "M_do_cipher ctx inp inl =
     ebind (deref (cipher ctx)) (\<lambda>c.
     ebind (do_cipher c (cipher_data ctx) (iv ctx) (encrypt ctx) inp inl) (\<lambda>(r, w, iv').
     Inr (r, w, ctx\<lparr>iv := iv'\<rparr>)))"

text \<open>
  The end of \<open>EVP_EncryptUpdate\<close>: the full blocks of the remaining input, and its last bytes into
  \<open>buf\<close>. \<open>w\<close> are the bytes written so far.
\<close>

definition update_rest ::
    "'d EVP_CIPHER_CTX \<Rightarrow> int \<Rightarrow> int \<Rightarrow> u8 list \<Rightarrow> u8 list \<Rightarrow> int
     \<Rightarrow> (int \<times> int \<times> u8 list \<times> 'd EVP_CIPHER_CTX) exec" where
  "update_rest ctx bl outl w inp inl =
     (let i = inl AND (bl - 1); inl' = inl - i in
      ebind (if inl' > 0 then M_do_cipher ctx inp inl' else Inr (1, [], ctx)) (\<lambda>(r, w', ctx1).
      if r = 0 then Inr (0, outl, w @ w', ctx1)
      else
        (let outl' = (if inl' > 0 then outl + inl' else outl) in
         ebind (if i \<noteq> 0
                then ebind (read_src (drop (nat inl') inp) i) (\<lambda>bs.
                     ebind (write_at (buf ctx1) 0 bs) (\<lambda>b'. Inr (ctx1\<lparr>buf := b'\<rparr>)))
                else Inr ctx1) (\<lambda>ctx2.
         Inr (1, outl', w @ w', ctx2\<lparr>buf_len := i\<rparr>)))))"

definition EVP_EncryptUpdate ::
    "'d EVP_CIPHER_CTX \<Rightarrow> int \<Rightarrow> u8 list \<Rightarrow> int \<Rightarrow> (int \<times> int \<times> u8 list \<times> 'd EVP_CIPHER_CTX) exec" where
  "EVP_EncryptUpdate ctx outl inp inl =
     ebind (deref (cipher ctx)) (\<lambda>c.
     if has_flag (c_flags c) EVP_CIPH_FLAG_CUSTOM_CIPHER then
       ebind (M_do_cipher ctx inp inl) (\<lambda>(i, w, ctx1).
       if i < 0 then Inr (0, outl, w, ctx1) else Inr (1, i, w, ctx1))
     else if inl \<le> 0 then Inr (if inl = 0 then 1 else 0, 0, [], ctx)
     else if buf_len ctx = 0 \<and> inl AND block_mask ctx = 0 then
       ebind (M_do_cipher ctx inp inl) (\<lambda>(r, w, ctx1).
       if r \<noteq> 0 then Inr (1, inl, w, ctx1) else Inr (0, 0, w, ctx1))
     else
       (let i = buf_len ctx; bl = block_size c in
        ebind (openssl_assert (bl \<le> EVP_MAX_BLOCK_LENGTH)) (\<lambda>_.
        if i \<noteq> 0 then
          ebind (int_arith (i + inl)) (\<lambda>total.
          if total < bl then
            ebind (read_src inp inl) (\<lambda>bs.
            ebind (write_at (buf ctx) (nat i) bs) (\<lambda>b'.
            Inr (1, 0, [], ctx\<lparr>buf := b', buf_len := i + inl\<rparr>)))
          else
            (let j = bl - i in
             ebind (read_src inp j) (\<lambda>bs.
             ebind (write_at (buf ctx) (nat i) bs) (\<lambda>b'.
             ebind (M_do_cipher (ctx\<lparr>buf := b'\<rparr>) b' bl) (\<lambda>(r, w, ctx1).
             if r = 0 then Inr (0, outl, w, ctx1)
             else update_rest ctx1 bl bl w (drop (nat j) inp) (inl - j))))))
        else update_rest ctx bl 0 [] inp inl)))"

definition EVP_EncryptFinal_ex ::
    "'d EVP_CIPHER_CTX \<Rightarrow> int \<Rightarrow> (int \<times> int \<times> u8 list \<times> 'd EVP_CIPHER_CTX) exec" where
  "EVP_EncryptFinal_ex ctx outl =
     ebind (deref (cipher ctx)) (\<lambda>c.
     if has_flag (c_flags c) EVP_CIPH_FLAG_CUSTOM_CIPHER then
       ebind (M_do_cipher ctx [] 0) (\<lambda>(r, w, ctx1).
       if r < 0 then Inr (0, outl, w, ctx1) else Inr (1, r, w, ctx1))
     else
       (let b = block_size c in
        ebind (openssl_assert (b \<le> EVP_MAX_BLOCK_LENGTH)) (\<lambda>_.
        if b = 1 then Inr (1, 0, [], ctx)
        else
          (let bl = buf_len ctx in
           if has_flag (flags ctx) EVP_CIPH_NO_PADDING then
             (if bl \<noteq> 0 then Inr (0, outl, [], ctx) else Inr (1, 0, [], ctx))
           else
             (let n = b - bl in
              ebind (write_at (buf ctx) (nat bl) (replicate (nat n) (of_int n))) (\<lambda>b'.
              ebind (M_do_cipher (ctx\<lparr>buf := b'\<rparr>) b' b) (\<lambda>(ret, w, ctx1).
              Inr (ret, if ret \<noteq> 0 then b else outl, w, ctx1))))))))"

text \<open>
  \<open>EVP_DecryptUpdate\<close> keeps the last full block back in \<open>final\<close>: it is written to \<open>out\<close> by the next
  call, or used up by \<open>EVP_DecryptFinal_ex\<close>. The inner call writes behind it.
\<close>

definition EVP_DecryptUpdate ::
    "'d EVP_CIPHER_CTX \<Rightarrow> int \<Rightarrow> u8 list \<Rightarrow> int \<Rightarrow> (int \<times> int \<times> u8 list \<times> 'd EVP_CIPHER_CTX) exec" where
  "EVP_DecryptUpdate ctx outl inp inl =
     ebind (deref (cipher ctx)) (\<lambda>c.
     if has_flag (c_flags c) EVP_CIPH_FLAG_CUSTOM_CIPHER then
       ebind (M_do_cipher ctx inp inl) (\<lambda>(fix_len, w, ctx1).
       if fix_len < 0 then Inr (0, 0, w, ctx1) else Inr (1, fix_len, w, ctx1))
     else if inl \<le> 0 then Inr (if inl = 0 then 1 else 0, 0, [], ctx)
     else if has_flag (flags ctx) EVP_CIPH_NO_PADDING then EVP_EncryptUpdate ctx outl inp inl
     else
       (let b = block_size c in
        ebind (openssl_assert (b \<le> EVP_MAX_BLOCK_LENGTH)) (\<lambda>_.
        (let fix_len = final_used ctx \<noteq> 0; w0 = (if fix_len then take (nat b) (final ctx) else []) in
         ebind (EVP_EncryptUpdate ctx outl inp inl) (\<lambda>(r, outl1, w, ctx1).
         if r = 0 then Inr (0, outl1, w0 @ w, ctx1)
         else
           ebind
             (if b > 1 \<and> buf_len ctx1 = 0 then
                (let outl2 = outl1 - b in
                 if outl2 < 0 then Inl OutOfBounds
                 else
                   ebind (read_src (drop (nat outl2) w) b) (\<lambda>last.
                   ebind (write_at (final ctx1) 0 last) (\<lambda>f'.
                   Inr (outl2, ctx1\<lparr>final_used := 1, final := f'\<rparr>))))
              else Inr (outl1, ctx1\<lparr>final_used := 0\<rparr>)) (\<lambda>(outl3, ctx2).
           Inr (1, if fix_len then outl3 + b else outl3, w0 @ w, ctx2)))))))"

text \<open>The padding is the value of the last byte, repeated as often as it says, up to a block.\<close>

definition EVP_DecryptFinal_ex ::
    "'d EVP_CIPHER_CTX \<Rightarrow> (int \<times> int \<times> u8 list \<times> 'd EVP_CIPHER_CTX) exec" where
  "EVP_DecryptFinal_ex ctx =
     ebind (deref (cipher ctx)) (\<lambda>c.
     if has_flag (c_flags c) EVP_CIPH_FLAG_CUSTOM_CIPHER then
       ebind (M_do_cipher ctx [] 0) (\<lambda>(i, w, ctx1).
       if i < 0 then Inr (0, 0, w, ctx1) else Inr (1, i, w, ctx1))
     else
       (let b = block_size c in
        if has_flag (flags ctx) EVP_CIPH_NO_PADDING then
          (if buf_len ctx \<noteq> 0 then Inr (0, 0, [], ctx) else Inr (1, 0, [], ctx))
        else if b > 1 then
          (if buf_len ctx \<noteq> 0 \<or> final_used ctx = 0 then Inr (0, 0, [], ctx)
           else
             ebind (openssl_assert (b \<le> EVP_MAX_BLOCK_LENGTH)) (\<lambda>_.
             (let n = uint (final ctx ! nat (b - 1)) in
              if n = 0 \<or> n > b then Inr (0, 0, [], ctx)
              else if \<exists>x \<in> set (take (nat n) (drop (nat (b - n)) (final ctx))). uint x \<noteq> n
              then Inr (0, 0, [], ctx)
              else Inr (1, b - n, take (nat (b - n)) (final ctx), ctx))))
        else Inr (1, 0, [], ctx)))"

definition EVP_CipherUpdate ::
    "'d EVP_CIPHER_CTX \<Rightarrow> int \<Rightarrow> u8 list \<Rightarrow> int \<Rightarrow> (int \<times> int \<times> u8 list \<times> 'd EVP_CIPHER_CTX) exec" where
  "EVP_CipherUpdate ctx outl inp inl =
     (if encrypt ctx \<noteq> 0 then EVP_EncryptUpdate ctx outl inp inl else EVP_DecryptUpdate ctx outl inp inl)"

definition EVP_CipherFinal_ex ::
    "'d EVP_CIPHER_CTX \<Rightarrow> int \<Rightarrow> (int \<times> int \<times> u8 list \<times> 'd EVP_CIPHER_CTX) exec" where
  "EVP_CipherFinal_ex ctx outl =
     (if encrypt ctx \<noteq> 0 then EVP_EncryptFinal_ex ctx outl else EVP_DecryptFinal_ex ctx)"

section \<open>Settings and copies\<close>

definition EVP_CIPHER_CTX_set_key_length ::
    "'d EVP_CIPHER_CTX \<Rightarrow> int \<Rightarrow> (int \<times> 'd EVP_CIPHER_CTX) exec" where
  "EVP_CIPHER_CTX_set_key_length c keylen =
     ebind (deref (cipher c)) (\<lambda>ci.
     if has_flag (c_flags ci) EVP_CIPH_CUSTOM_KEY_LENGTH
     then EVP_CIPHER_CTX_ctrl c EVP_CTRL_SET_KEY_LENGTH keylen
     else if key_len c = keylen then Inr (1, c)
     else if keylen > 0 \<and> has_flag (c_flags ci) EVP_CIPH_VARIABLE_LENGTH
     then Inr (1, c\<lparr>key_len := keylen\<rparr>)
     else Inr (0, c))"

definition EVP_CIPHER_CTX_set_padding :: "'d EVP_CIPHER_CTX \<Rightarrow> int \<Rightarrow> int \<times> 'd EVP_CIPHER_CTX" where
  "EVP_CIPHER_CTX_set_padding ctx pad =
     (1, if pad \<noteq> 0 then ctx\<lparr>flags := flags ctx AND NOT EVP_CIPH_NO_PADDING\<rparr>
         else ctx\<lparr>flags := flags ctx OR EVP_CIPH_NO_PADDING\<rparr>)"

text \<open>
  \<open>EVP_CIPHER_CTX_copy\<close> for ciphers without \<open>EVP_CIPH_CUSTOM_COPY\<close>, which none of the ciphers here
  has: the copy gets cipher data of its own. \<open>None\<close> is the NULL pointer.
\<close>

definition EVP_CIPHER_CTX_copy ::
    "heap \<Rightarrow> 'd EVP_CIPHER_CTX \<Rightarrow> 'd EVP_CIPHER_CTX option \<Rightarrow> int \<times> 'd EVP_CIPHER_CTX \<times> heap" where
  "EVP_CIPHER_CTX_copy h out inp =
     (case inp of
        None \<Rightarrow> (0, out, h)
      | Some i \<Rightarrow>
          (case cipher i of
             None \<Rightarrow> (0, out, h)
           | Some c \<Rightarrow>
               if cipher_data i \<noteq> None \<and> ctx_size c \<noteq> 0
               then (case malloc_obj h of
                       (False, h1) \<Rightarrow> (0, i\<lparr>cipher_data := None\<rparr>, h1)
                     | (True, h1) \<Rightarrow> (1, i, h1))
               else (1, i, h)))"

end
