(* ===== verification/EvpMode.thy ===== *)
theory EvpMode
  imports Evp
begin

text \<open>
  What the update and final calls of \<open>Evp\<close> need of a cipher, as the locales \<open>block_mode\<close> and
  \<open>invertible_mode\<close>, and what they guarantee from it: the output does not depend on how the input
  is cut into calls, and decrypting what was encrypted gives the message back.
\<close>

section \<open>The contract of a cipher\<close>

text \<open>
  \<open>out d e v x\<close> is what the cipher writes for the full blocks \<open>x\<close> with data \<open>d\<close>, direction \<open>e\<close> and
  chaining value \<open>v\<close>, and \<open>nxt d e v x\<close> the chaining value it leaves. \<open>good d e\<close> says that \<open>d\<close> has
  been set up for the direction.
\<close>

locale block_mode =
  fixes crypt :: "'d option \<Rightarrow> u8 list \<Rightarrow> int \<Rightarrow> u8 list \<Rightarrow> int \<Rightarrow> (int \<times> u8 list \<times> u8 list) exec"
    and bs :: nat
    and good :: "'d \<Rightarrow> int \<Rightarrow> bool"
    and iv_ok :: "u8 list \<Rightarrow> bool"
    and out :: "'d \<Rightarrow> int \<Rightarrow> u8 list \<Rightarrow> u8 list \<Rightarrow> u8 list"
    and nxt :: "'d \<Rightarrow> int \<Rightarrow> u8 list \<Rightarrow> u8 list \<Rightarrow> u8 list"
  assumes block_size: "bs = 8 \<or> bs = 16"
    and crypt_blocks: "good d e \<Longrightarrow> iv_ok v \<Longrightarrow> bs dvd n \<Longrightarrow> n \<le> length x \<Longrightarrow> n < 2 ^ 31 \<Longrightarrow>
      crypt (Some d) v e x (int n) = Inr (1, out d e v (take n x), nxt d e v (take n x))"
    and length_out: "good d e \<Longrightarrow> iv_ok v \<Longrightarrow> bs dvd length x \<Longrightarrow> length (out d e v x) = length x"
    and nxt_ok: "good d e \<Longrightarrow> iv_ok v \<Longrightarrow> bs dvd length x \<Longrightarrow> iv_ok (nxt d e v x)"
    and nxt_Nil: "nxt d e v [] = v"
    and out_append: "good d e \<Longrightarrow> iv_ok v \<Longrightarrow> bs dvd length x \<Longrightarrow> bs dvd length y \<Longrightarrow>
      out d e v (x @ y) = out d e v x @ out d e (nxt d e v x) y"
    and nxt_append: "good d e \<Longrightarrow> iv_ok v \<Longrightarrow> bs dvd length x \<Longrightarrow> bs dvd length y \<Longrightarrow>
      nxt d e v (x @ y) = nxt d e (nxt d e v x) y"

locale invertible_mode = block_mode +
  fixes matching :: "'d \<Rightarrow> 'd \<Rightarrow> bool"
  assumes matching_good: "matching de dd \<Longrightarrow> good de 1 \<and> good dd 0"
    and inverse: "matching de dd \<Longrightarrow> iv_ok v \<Longrightarrow> bs dvd length x \<Longrightarrow> out dd 0 v (out de 1 v x) = x"

section \<open>Sequences of calls\<close>

text \<open>One update call per chunk and the final call, as the programs make them; results are 1 or the run ends.\<close>

fun encrypt_chunks :: "'d EVP_CIPHER_CTX \<Rightarrow> u8 list list \<Rightarrow> u8 list option exec" where
  "encrypt_chunks ctx [] =
     ebind (EVP_EncryptFinal_ex ctx 0) (\<lambda>(r, n, w, _).
     Inr (if r = 1 then Some (take (nat n) w) else None))"
| "encrypt_chunks ctx (x # xs) =
     ebind (EVP_EncryptUpdate ctx 0 x (int (length x))) (\<lambda>(r, n, w, ctx1).
     if r \<noteq> 1 then Inr None
     else ebind (encrypt_chunks ctx1 xs) (\<lambda>res. Inr (map_option (\<lambda>rest. take (nat n) w @ rest) res)))"

fun decrypt_chunks :: "'d EVP_CIPHER_CTX \<Rightarrow> u8 list list \<Rightarrow> u8 list option exec" where
  "decrypt_chunks ctx [] =
     ebind (EVP_DecryptFinal_ex ctx) (\<lambda>(r, n, w, _).
     Inr (if r = 1 then Some (take (nat n) w) else None))"
| "decrypt_chunks ctx (x # xs) =
     ebind (EVP_DecryptUpdate ctx 0 x (int (length x))) (\<lambda>(r, n, w, ctx1).
     if r \<noteq> 1 then Inr None
     else ebind (decrypt_chunks ctx1 xs) (\<lambda>res. Inr (map_option (\<lambda>rest. take (nat n) w @ rest) res)))"

text \<open>Padding to full blocks, and its removal from the bytes of all blocks.\<close>

definition pad_block :: "nat \<Rightarrow> u8 list \<Rightarrow> u8 list" where
  "pad_block b m = (let n = b - length m mod b in m @ replicate n (of_nat n))"

definition unpad_block :: "nat \<Rightarrow> u8 list \<Rightarrow> u8 list option" where
  "unpad_block b m =
     (if m = [] then None
      else
        let n = unat (List.last m) in
        if n = 0 \<or> b < n \<or> drop (length m - n) m \<noteq> replicate n (List.last m) then None
        else Some (take (length m - n) m))"

lemma dvd_length_pad_block:
  assumes "0 < b"
  shows "b dvd length (pad_block b m)"
proof -
  have r: "length m mod b < b" "length m mod b \<le> length m" using assms by simp_all
  then have "length m + (b - length m mod b) = (length m - length m mod b) + b" by arith
  also have "b dvd \<dots>" by (simp add: minus_mod_eq_mult_div)
  finally show ?thesis by (simp add: pad_block_def Let_def)
qed

lemma unpad_pad_block:
  assumes "0 < b" "b < 256"
  shows "unpad_block b (pad_block b m) = Some m"
proof -
  define n where "n = b - length m mod b"
  have n: "0 < n" "n \<le> b" using assms by (auto simp: n_def)
  then have u: "unat (of_nat n :: u8) = n" using assms by (simp add: unat_of_nat)
  have "List.last (m @ replicate n (of_nat n)) = (of_nat n :: u8)" using n by simp
  then show ?thesis using n u by (simp add: unpad_block_def pad_block_def Let_def flip: n_def)
qed

section \<open>The block mask\<close>

lemma and_mask_nat:
  assumes "b = 8 \<or> b = 16"
  shows "int n AND (int b - 1) = int (n mod b)"
proof -
  have "int n AND 7 = take_bit 3 (int n)" "int n AND 15 = take_bit 4 (int n)"
    by (simp_all add: take_bit_eq_mask mask_eq_exp_minus_1)
  then show ?thesis using assms by (auto simp: zmod_int take_bit_eq_mod)
qed

section \<open>Contexts of a block mode\<close>

definition mode_base ::
    "('d option \<Rightarrow> u8 list \<Rightarrow> int \<Rightarrow> u8 list \<Rightarrow> int \<Rightarrow> (int \<times> u8 list \<times> u8 list) exec)
     \<Rightarrow> nat \<Rightarrow> 'd \<Rightarrow> int \<Rightarrow> 'd EVP_CIPHER_CTX \<Rightarrow> bool" where
  "mode_base crypt b d e ctx \<longleftrightarrow>
     (case cipher ctx of
        None \<Rightarrow> False
      | Some c \<Rightarrow> do_cipher c = crypt \<and> block_size c = int b
          \<and> \<not> has_flag (c_flags c) EVP_CIPH_FLAG_CUSTOM_CIPHER) \<and>
     cipher_data ctx = Some d \<and> encrypt ctx = e \<and> block_mask ctx = int b - 1 \<and>
     length (buf ctx) = 32 \<and> length (final ctx) = 32 \<and> \<not> has_flag (flags ctx) EVP_CIPH_NO_PADDING"

text \<open>The input bytes that wait in \<open>buf\<close> for their block.\<close>

definition pending :: "nat \<Rightarrow> 'd EVP_CIPHER_CTX \<Rightarrow> u8 list \<Rightarrow> bool" where
  "pending b ctx p \<longleftrightarrow> length p < b \<and> buf_len ctx = int (length p) \<and> take (length p) (buf ctx) = p"

lemma mode_baseE:
  assumes "mode_base crypt b d e ctx"
  obtains c where "cipher ctx = Some c" "do_cipher c = crypt" "block_size c = int b"
    "\<not> has_flag (c_flags c) EVP_CIPH_FLAG_CUSTOM_CIPHER" "cipher_data ctx = Some d" "encrypt ctx = e"
    "block_mask ctx = int b - 1" "length (buf ctx) = 32" "length (final ctx) = 32"
    "\<not> has_flag (flags ctx) EVP_CIPH_NO_PADDING"
  using assms by (auto simp: mode_base_def split: option.splits)

lemma mode_base_upd [simp]:
  "mode_base crypt b d e (ctx\<lparr>iv := v\<rparr>) = mode_base crypt b d e ctx"
  "mode_base crypt b d e (ctx\<lparr>buf_len := n\<rparr>) = mode_base crypt b d e ctx"
  "mode_base crypt b d e (ctx\<lparr>final_used := n\<rparr>) = mode_base crypt b d e ctx"
  "length bs = 32 \<Longrightarrow> mode_base crypt b d e ctx \<Longrightarrow> mode_base crypt b d e (ctx\<lparr>buf := bs\<rparr>)"
  "length bs = 32 \<Longrightarrow> mode_base crypt b d e ctx \<Longrightarrow> mode_base crypt b d e (ctx\<lparr>final := bs\<rparr>)"
  by (auto simp: mode_base_def split: option.splits)

lemma pending_Nil: "pending b ctx [] \<longleftrightarrow> 0 < b \<and> buf_len ctx = 0"
  by (auto simp: pending_def)

lemma write_at_ok: "p + length bs \<le> length xs \<Longrightarrow>
  write_at xs p bs = Inr (take p xs @ bs @ drop (p + length bs) xs)"
  by (simp add: write_at_def)

context block_mode
begin

lemma bs_pos [simp]: "0 < bs" "bs \<noteq> 0" "bs \<le> 32" "int bs \<le> EVP_MAX_BLOCK_LENGTH" "1 < bs" "bs < 2 ^ 31"
  using block_size by (auto simp: EVP_MAX_BLOCK_LENGTH_def)

lemma out_Nil [simp]: "good d e \<Longrightarrow> iv_ok v \<Longrightarrow> out d e v [] = []"
  using length_out [of d e v "[]"] by simp

lemma M_do_cipher_ok:
  assumes "mode_base crypt bs d e ctx" "good d e" "iv_ok (iv ctx)" "bs dvd n" "n \<le> length x" "n < 2 ^ 31"
  shows "M_do_cipher ctx x (int n) =
    Inr (1, out d e (iv ctx) (take n x), ctx\<lparr>iv := nxt d e (iv ctx) (take n x)\<rparr>)"
proof -
  obtain c where c: "cipher ctx = Some c" "do_cipher c = crypt" "cipher_data ctx = Some d" "encrypt ctx = e"
    using assms(1) by (rule mode_baseE)
  then show ?thesis by (simp add: M_do_cipher_def crypt_blocks [OF assms(2-6)])
qed

text \<open>The input so far is cut into the full blocks and the bytes behind them.\<close>

definition full :: "nat \<Rightarrow> nat" where "full n = n - n mod bs"

lemma full_props: "bs dvd full n" "full n \<le> n" "n - full n = n mod bs" "n - full n < bs"
proof -
  show "bs dvd full n" by (simp add: full_def minus_mod_eq_mult_div)
  show "full n \<le> n" by (simp add: full_def)
  show "n - full n = n mod bs" by (simp add: full_def)
  then show "n - full n < bs" by simp
qed

lemma update_rest_ok:
  assumes m: "mode_base crypt bs d e ctx" "good d e" "iv_ok (iv ctx)" and n: "n \<le> length x" "n < 2 ^ 31"
  shows "\<exists>ctx'. update_rest ctx (int bs) outl w x (int n) =
      Inr (1, outl + int (full n), w @ out d e (iv ctx) (take (full n) x), ctx') \<and>
    mode_base crypt bs d e ctx' \<and> iv ctx' = nxt d e (iv ctx) (take (full n) x) \<and>
    pending bs ctx' (drop (full n) (take n x)) \<and> final ctx' = final ctx \<and> final_used ctx' = final_used ctx"
proof -
  have i: "int n AND (int bs - 1) = int (n mod bs)" using block_size by (rule and_mask_nat)
  have f: "int n - int (n mod bs) = int (full n)" by (simp add: full_def of_nat_diff)
  let ?p = "drop (full n) (take n x)"
  have lp: "length ?p = n mod bs" "length ?p < bs" using n(1) full_props [of n] by auto
  let ?ctx1 = "ctx\<lparr>iv := nxt d e (iv ctx) (take (full n) x)\<rparr>"
  let ?b = "?p @ drop (n mod bs) (buf ctx)"
  have call: "(if int (full n) > 0 then M_do_cipher ctx x (int (full n)) else Inr (1, [], ctx)) =
      Inr (1, out d e (iv ctx) (take (full n) x), ?ctx1)"
  proof (cases "full n = 0")
    case True
    then show ?thesis using m by (simp add: nxt_Nil)
  next
    case False
    then show ?thesis using M_do_cipher_ok [OF m full_props(1), of n x] n(1) le_less_trans [OF full_props(2) n(2)] full_props(2) [of n] by simp
  qed
  have lb: "length (buf ctx) = 32" using m(1) by (rule mode_baseE)
  have lm: "n mod bs \<le> 32" using lp(2) lp(1) bs_pos(3) by linarith
  have rd: "read_src (drop (full n) x) (int (n mod bs)) = Inr ?p"
    using n(1) full_props [of n] by (simp add: read_src_def drop_take)
  have wr: "write_at (buf ctx) 0 ?p = Inr ?b" using lb lm lp by (simp add: write_at_ok)
  show ?thesis
  proof (cases "n mod bs = 0")
    case True
    then have "update_rest ctx (int bs) outl w x (int n) =
        Inr (1, outl + int (full n), w @ out d e (iv ctx) (take (full n) x), ?ctx1\<lparr>buf_len := 0\<rparr>)"
      unfolding update_rest_def i Let_def f call by simp
    moreover have "?p = []" using True lp by simp
    ultimately show ?thesis using m by (simp add: pending_Nil)
  next
    case False
    have "update_rest ctx (int bs) outl w x (int n) =
        Inr (1, outl + int (full n), w @ out d e (iv ctx) (take (full n) x),
          ?ctx1\<lparr>buf := ?b, buf_len := int (n mod bs)\<rparr>)"
      unfolding update_rest_def i Let_def f call using False rd wr by simp
    moreover have "length ?b = 32" using lb lm lp by simp
    ultimately show ?thesis using m lp by (simp add: pending_def)
  qed
qed

lemma full_less: "n < bs \<Longrightarrow> full n = 0"
  by (simp add: full_def)

lemma full_add: "full (bs + n) = bs + full n"
  by (simp add: full_def mod_less_eq_dividend)

lemma full_dvd: "bs dvd n \<Longrightarrow> full n = n"
  by (simp add: full_def)

text \<open>An update with nothing pending.\<close>

lemma EncryptUpdate_fresh:
  assumes m: "mode_base crypt bs d e ctx" "good d e" "iv_ok (iv ctx)"
    and p: "buf_len ctx = 0" and n: "0 < n" "n \<le> length x" "n < 2 ^ 31"
  shows "\<exists>ctx'. EVP_EncryptUpdate ctx outl x (int n) =
      Inr (1, int (full n), out d e (iv ctx) (take (full n) x), ctx') \<and>
    mode_base crypt bs d e ctx' \<and> iv ctx' = nxt d e (iv ctx) (take (full n) x) \<and>
    pending bs ctx' (drop (full n) (take n x)) \<and> final ctx' = final ctx \<and> final_used ctx' = final_used ctx"
proof -
  obtain c where c: "cipher ctx = Some c" "block_size c = int bs"
    "\<not> has_flag (c_flags c) EVP_CIPH_FLAG_CUSTOM_CIPHER" "block_mask ctx = int bs - 1"
    using m(1) by (rule mode_baseE)
  have i: "int n AND block_mask ctx = int (n mod bs)" using block_size c(4) by (simp only: and_mask_nat)
  show ?thesis
  proof (cases "bs dvd n")
    case True
    then have "EVP_EncryptUpdate ctx outl x (int n) =
        Inr (1, int n, out d e (iv ctx) (take n x), ctx\<lparr>iv := nxt d e (iv ctx) (take n x)\<rparr>)"
      using c p n i M_do_cipher_ok [OF m True n(2,3)] by (simp add: EVP_EncryptUpdate_def)
    then show ?thesis using True m n p by (simp add: full_dvd pending_Nil)
  next
    case False
    then have "n mod bs \<noteq> 0" by (simp add: dvd_eq_mod_eq_0)
    then have "EVP_EncryptUpdate ctx outl x (int n) = update_rest ctx (int bs) 0 [] x (int n)"
      using c p n i by (simp add: EVP_EncryptUpdate_def Let_def)
    then show ?thesis using update_rest_ok [OF m n(2,3), of 0 "[]"] by simp
  qed
qed

text \<open>An update that does not complete the pending block, and one that does.\<close>

lemma EncryptUpdate_short:
  assumes m: "mode_base crypt bs d e ctx" and p: "pending bs ctx p" "p \<noteq> []"
    and n: "0 < n" "n \<le> length x" "length p + n < bs"
  shows "\<exists>ctx'. EVP_EncryptUpdate ctx outl x (int n) = Inr (1, 0, [], ctx') \<and>
    mode_base crypt bs d e ctx' \<and> iv ctx' = iv ctx \<and> pending bs ctx' (p @ take n x) \<and>
    final ctx' = final ctx \<and> final_used ctx' = final_used ctx"
proof -
  obtain c where c: "cipher ctx = Some c" "block_size c = int bs"
    "\<not> has_flag (c_flags c) EVP_CIPH_FLAG_CUSTOM_CIPHER" "length (buf ctx) = 32"
    using m by (rule mode_baseE)
  let ?b = "p @ take n x @ drop (length p + n) (buf ctx)"
  have l: "length p + n \<le> 32" using n(3) bs_pos(3) by linarith
  have b: "buf_len ctx = int (length p)" "take (length p) (buf ctx) = p" using p(1) by (auto simp: pending_def)
  have wr: "write_at (buf ctx) (length p) (take n x) = Inr ?b" using l c(4) n b by (simp add: write_at_ok min_absorb2)
  have "length p + n < 2 ^ 31" using l by simp
  then have "int_arith (int (length p) + int n) = Inr (int (length p) + int n)" by (intro int_arith_id) simp_all
  then have "EVP_EncryptUpdate ctx outl x (int n) =
      Inr (1, 0, [], ctx\<lparr>buf := ?b, buf_len := int (length p) + int n\<rparr>)"
    using c n b p(2) wr by (simp add: EVP_EncryptUpdate_def Let_def read_src_ok)
  moreover have "length ?b = 32" using l c(4) n by simp
  ultimately show ?thesis using m n by (simp add: pending_def)
qed

lemma EncryptUpdate_complete:
  assumes m: "mode_base crypt bs d e ctx" "good d e" "iv_ok (iv ctx)"
    and p: "pending bs ctx p" "p \<noteq> []" and n: "n \<le> length x" "bs \<le> length p + n" "n < 2 ^ 30"
  shows "\<exists>ctx'. EVP_EncryptUpdate ctx outl x (int n) =
      (let y = p @ take n x; f = full (length p + n) in Inr (1, int f, out d e (iv ctx) (take f y), ctx')) \<and>
    (let y = p @ take n x; f = full (length p + n) in
     mode_base crypt bs d e ctx' \<and> iv ctx' = nxt d e (iv ctx) (take f y) \<and>
     pending bs ctx' (drop f y) \<and> final ctx' = final ctx \<and> final_used ctx' = final_used ctx)"
proof -
  obtain c where c: "cipher ctx = Some c" "block_size c = int bs"
    "\<not> has_flag (c_flags c) EVP_CIPH_FLAG_CUSTOM_CIPHER" "length (buf ctx) = 32"
    using m(1) by (rule mode_baseE)
  have b: "buf_len ctx = int (length p)" "take (length p) (buf ctx) = p" "length p < bs"
    using p(1) by (auto simp: pending_def)
  define j where "j = bs - length p"
  have j: "0 < j" "j \<le> n" "length p + j = bs" "j \<le> length x" using b(3) n by (auto simp: j_def)
  have lp32: "length p \<le> 32" using b(3) bs_pos(3) by linarith
  let ?b = "p @ take j x @ drop bs (buf ctx)"
  let ?y1 = "p @ take j x" and ?x2 = "drop j x"
  have lb: "length ?b = 32" "take bs ?b = ?y1" "length ?y1 = bs" using j c(4) lp32 by auto
  have wr: "write_at (buf ctx) (length p) (take j x) = Inr ?b" using j c(4) b bs_pos(3) by (simp add: write_at_ok min_absorb2)
  let ?ctx1 = "ctx\<lparr>buf := ?b, iv := nxt d e (iv ctx) ?y1\<rparr>"
  have mc: "M_do_cipher (ctx\<lparr>buf := ?b\<rparr>) ?b (int bs) = Inr (1, out d e (iv ctx) ?y1, ?ctx1)"
    using M_do_cipher_ok [of d e "ctx\<lparr>buf := ?b\<rparr>" bs ?b] m lb bs_pos(6) by simp
  have m1: "mode_base crypt bs d e ?ctx1" "iv_ok (iv ?ctx1)" using m lb nxt_ok [OF m(2,3), of ?y1] by simp_all
  have n2: "n - j \<le> length ?x2" "n - j < 2 ^ 31" using n(1,3) j by simp_all
  have f: "full (length p + n) = bs + full (n - j)" using full_add [of "n - j"] j by (metis add_diff_inverse_nat add.assoc leD)
  let ?F = "full (n - j)"
  have F: "j + ?F \<le> n" "bs + ?F - length p = j + ?F" using full_props(2) [of "n - j"] j by linarith+
  have y: "take (bs + ?F) (p @ take n x) = ?y1 @ take ?F ?x2"
  proof -
    have "take (bs + ?F) (p @ take n x) = p @ take (bs + ?F - length p) (take n x)" using b(3) by simp
    also have "\<dots> = p @ take (j + ?F) x" unfolding F(2) using F(1) by (simp add: min_absorb1)
    finally show ?thesis by (simp add: take_add)
  qed
  have z: "drop (bs + ?F) (p @ take n x) = drop ?F (take (n - j) ?x2)"
  proof -
    have "drop (bs + ?F) (p @ take n x) = drop (bs + ?F - length p) (take n x)" using b(3) by simp
    also have "\<dots> = drop ?F (drop j (take n x))" unfolding F(2) by (simp add: add.commute)
    finally show ?thesis by (simp add: drop_take)
  qed
  have io: "int_arith (int (length p) + int n) = Inr (int (length p) + int n)"
  proof (rule int_arith_id)
    have "length p + n < 2 ^ 31" using lp32 n(3) by simp
    then show "int (length p) + int n < 2 ^ 31" by simp
  qed simp
  have n0: "0 < n" using j by simp
  have st: "EVP_EncryptUpdate ctx outl x (int n) =
      update_rest ?ctx1 (int bs) (int bs) (out d e (iv ctx) ?y1) ?x2 (int (n - j))"
  proof -
    have e: "int bs - int (length p) = int j" using b(3) by (simp add: j_def)
    have e2: "int n - int j = int (n - j)" using j by simp
    show ?thesis
      unfolding EVP_EncryptUpdate_def using c n0 b p(2) n(2) wr mc j(4)
      by (simp add: Let_def io e e2 read_src_ok del: of_nat_diff)
  qed
  obtain ctx' where ctx': "update_rest ?ctx1 (int bs) (int bs) (out d e (iv ctx) ?y1) ?x2 (int (n - j)) =
      Inr (1, int bs + int (full (n - j)), out d e (iv ctx) ?y1 @ out d e (iv ?ctx1) (take (full (n - j)) ?x2), ctx')"
    "mode_base crypt bs d e ctx'" "iv ctx' = nxt d e (iv ?ctx1) (take (full (n - j)) ?x2)"
    "pending bs ctx' (drop (full (n - j)) (take (n - j) ?x2))" "final ctx' = final ctx" "final_used ctx' = final_used ctx"
    using update_rest_ok [OF m1(1) m(2) m1(2) n2, of "int bs" "out d e (iv ctx) ?y1"] by auto
  have dv: "bs dvd length (take (full (n - j)) ?x2)" using n2(1) full_props(1,2) [of "n - j"] by (simp add: min_absorb2)
  have "out d e (iv ctx) ?y1 @ out d e (iv ?ctx1) (take (full (n - j)) ?x2) =
      out d e (iv ctx) (?y1 @ take (full (n - j)) ?x2)"
    using out_append [OF m(2,3), of ?y1, OF _ dv] lb(3) by simp
  moreover have "nxt d e (iv ?ctx1) (take (full (n - j)) ?x2) = nxt d e (iv ctx) (?y1 @ take (full (n - j)) ?x2)"
    using nxt_append [OF m(2,3), of ?y1, OF _ dv] lb(3) by simp
  ultimately show ?thesis
    using st ctx' unfolding Let_def f y z by auto
qed

text \<open>All cases: the update writes the full blocks of the pending bytes and its input.\<close>

lemma EncryptUpdate_ok:
  assumes m: "mode_base crypt bs d e ctx" "good d e" "iv_ok (iv ctx)"
    and p: "pending bs ctx p" and n: "n \<le> length x" "n < 2 ^ 30"
  shows "\<exists>ctx'. EVP_EncryptUpdate ctx outl x (int n) =
      (let y = p @ take n x; f = full (length p + n) in Inr (1, int f, out d e (iv ctx) (take f y), ctx')) \<and>
    (let y = p @ take n x; f = full (length p + n) in
     mode_base crypt bs d e ctx' \<and> iv ctx' = nxt d e (iv ctx) (take f y) \<and>
     pending bs ctx' (drop f y) \<and> final ctx' = final ctx \<and> final_used ctx' = final_used ctx)"
proof -
  have lp: "length p < bs" using p by (simp add: pending_def)
  consider "n = 0" | "0 < n" "p = []" | "0 < n" "p \<noteq> []" "length p + n < bs" | "0 < n" "p \<noteq> []" "bs \<le> length p + n"
    by linarith
  then show ?thesis
  proof cases
    case 1
    obtain c where "cipher ctx = Some c" "\<not> has_flag (c_flags c) EVP_CIPH_FLAG_CUSTOM_CIPHER"
      using m(1) by (rule mode_baseE)
    then show ?thesis using 1 m p lp by (simp add: EVP_EncryptUpdate_def full_less nxt_Nil)
  next
    case 2
    then show ?thesis using EncryptUpdate_fresh [OF m, of n x outl] p n
      by (simp add: Let_def pending_Nil full_props(2) min_absorb1)
  next
    case 3
    then show ?thesis using EncryptUpdate_short [OF m(1) p, of n x outl] m n by (simp add: full_less nxt_Nil)
  next
    case 4
    then show ?thesis using EncryptUpdate_complete [OF m p, of n x outl] n by blast
  qed
qed

lemma EncryptFinal_ok:
  assumes m: "mode_base crypt bs d e ctx" "good d e" "iv_ok (iv ctx)" and p: "pending bs ctx p"
  shows "\<exists>ctx'. EVP_EncryptFinal_ex ctx outl = Inr (1, int bs, out d e (iv ctx) (pad_block bs p), ctx')"
proof -
  obtain c where c: "cipher ctx = Some c" "block_size c = int bs"
    "\<not> has_flag (c_flags c) EVP_CIPH_FLAG_CUSTOM_CIPHER" "length (buf ctx) = 32"
    "\<not> has_flag (flags ctx) EVP_CIPH_NO_PADDING"
    using m(1) by (rule mode_baseE)
  have b: "buf_len ctx = int (length p)" "take (length p) (buf ctx) = p" "length p < bs"
    using p by (auto simp: pending_def)
  define k where "k = bs - length p"
  have k: "int bs - int (length p) = int k" "length p + k = bs" using b(3) by (auto simp: k_def)
  let ?b = "p @ replicate k (of_nat k) @ drop bs (buf ctx)"
  have wr: "write_at (buf ctx) (length p) (replicate k (of_nat k)) = Inr ?b"
    using k c(4) b bs_pos(3) by (simp add: write_at_ok)
  have pb: "pad_block bs p = p @ replicate k (of_nat k)" using b(3) by (simp add: pad_block_def k_def)
  have lb: "length ?b = 32" "take bs ?b = pad_block bs p" using k c(4) bs_pos(3) unfolding pb by (auto simp flip: append_assoc)
  have "M_do_cipher (ctx\<lparr>buf := ?b\<rparr>) ?b (int bs) =
      Inr (1, out d e (iv ctx) (pad_block bs p), ctx\<lparr>buf := ?b, iv := nxt d e (iv ctx) (pad_block bs p)\<rparr>)"
    using M_do_cipher_ok [of d e "ctx\<lparr>buf := ?b\<rparr>" bs ?b] m lb bs_pos(6) by simp
  then show ?thesis
    unfolding EVP_EncryptFinal_ex_def c(1,2) deref_Some ebind_Inr Let_def b(1) k(1)
    using c(3,5) wr bs_pos(5) by simp
qed

lemma pad_block_append: "bs dvd length x \<Longrightarrow> pad_block bs (x @ y) = x @ pad_block bs y"
  by (auto simp: pad_block_def Let_def dvd_def)

text \<open>Encryption in chunks is the cipher on the padded message.\<close>

lemma encrypt_chunks_ok:
  assumes "mode_base crypt bs d e ctx" "good d e" "iv_ok (iv ctx)" "pending bs ctx p"
    and "\<forall>x \<in> set xs. length x < 2 ^ 30"
  shows "encrypt_chunks ctx xs = Inr (Some (out d e (iv ctx) (pad_block bs (p @ concat xs))))"
  using assms
proof (induction xs arbitrary: ctx p)
  case Nil
  obtain ctx' where "EVP_EncryptFinal_ex ctx 0 = Inr (1, int bs, out d e (iv ctx) (pad_block bs p), ctx')"
    using EncryptFinal_ok [OF Nil(1-4)] by blast
  moreover have "length (pad_block bs p) = bs" using Nil(4) by (simp add: pad_block_def pending_def)
  ultimately show ?case using length_out [OF Nil(2,3), of "pad_block bs p"] by simp
next
  case (Cons x xs)
  let ?y = "p @ x" and ?f = "full (length p + length x)"
  obtain ctx' where u: "EVP_EncryptUpdate ctx 0 x (int (length x)) = Inr (1, int ?f, out d e (iv ctx) (take ?f ?y), ctx')"
    "mode_base crypt bs d e ctx'" "iv ctx' = nxt d e (iv ctx) (take ?f ?y)" "pending bs ctx' (drop ?f ?y)"
    using EncryptUpdate_ok [OF Cons.prems(1-4), of "length x" x 0] Cons.prems(5) by (auto simp: Let_def)
  have dv: "bs dvd length (take ?f ?y)" "length (take ?f ?y) = ?f"
    using full_props(1,2) [of "length p + length x"] by (simp_all add: min_absorb2 del: take_append)
  have "iv_ok (iv ctx')" using nxt_ok [OF Cons.prems(2,3) dv(1)] u(3) by simp
  then have "encrypt_chunks ctx' xs = Inr (Some (out d e (iv ctx') (pad_block bs (drop ?f ?y @ concat xs))))"
    using Cons.IH [OF u(2) Cons.prems(2) _ u(4)] Cons.prems(5) by simp
  moreover have "pad_block bs (p @ concat (x # xs)) = take ?f ?y @ pad_block bs (drop ?f ?y @ concat xs)"
    using pad_block_append [OF dv(1), of "drop ?f ?y @ concat xs"]
    by (metis append.assoc append_take_drop_id concat.simps(2))
  ultimately show ?case
    using u out_append [OF Cons.prems(2,3) dv(1), of "pad_block bs (drop ?f ?y @ concat xs)"]
      length_out [OF Cons.prems(2,3) dv(1)] dv(2)
    by (simp add: dvd_length_pad_block del: take_append drop_append)
qed

end

section \<open>Decryption\<close>

text \<open>The block kept back in \<open>final\<close>, if any.\<close>

definition held :: "nat \<Rightarrow> 'd EVP_CIPHER_CTX \<Rightarrow> u8 list \<Rightarrow> bool" where
  "held b ctx hb \<longleftrightarrow> (if final_used ctx = 0 then hb = [] else length hb = b \<and> take b (final ctx) = hb)"

lemma eq_replicate_iff: "xs = replicate n a \<longleftrightarrow> length xs = n \<and> (\<forall>x \<in> set xs. x = a)"
  by (auto intro: replicate_eqI)

lemma unpad_block_append:
  assumes "b \<le> length zs" "0 < b"
  shows "unpad_block b (ys @ zs) = map_option ((@) ys) (unpad_block b zs)"
proof -
  have z: "zs \<noteq> []" using assms by auto
  let ?n = "unat (List.last zs)"
  have "length (ys @ zs) - ?n = length ys + (length zs - ?n)" if "?n \<le> b" using that assms by simp
  then show ?thesis using z by (auto simp: unpad_block_def Let_def)
qed

context block_mode
begin

lemma DecryptFinal_ok:
  assumes m: "mode_base crypt bs d e ctx" and p: "pending bs ctx p" and h: "held bs ctx hb"
  shows "EVP_DecryptFinal_ex ctx =
    (case (if p = [] then unpad_block bs hb else None) of
       None \<Rightarrow> Inr (0, 0, [], ctx)
     | Some m \<Rightarrow> Inr (1, int (length m), m, ctx))"
proof -
  obtain c where c: "cipher ctx = Some c" "block_size c = int bs"
    "\<not> has_flag (c_flags c) EVP_CIPH_FLAG_CUSTOM_CIPHER" "length (final ctx) = 32"
    "\<not> has_flag (flags ctx) EVP_CIPH_NO_PADDING"
    using m(1) by (rule mode_baseE)
  have bl: "buf_len ctx = 0 \<longleftrightarrow> p = []" using p by (auto simp: pending_def)
  show ?thesis
  proof (cases "p = [] \<and> hb \<noteq> []")
    case False
    then have n: "(if p = [] then unpad_block bs hb else None) = None" by (auto simp: unpad_block_def)
    have "buf_len ctx \<noteq> 0 \<or> final_used ctx = 0"
      using False bl h bs_pos(1) by (auto simp: held_def split: if_splits)
    then show ?thesis unfolding n using c bs_pos(5) by (simp add: EVP_DecryptFinal_ex_def Let_def)
  next
    case True
    then have hb: "final_used ctx \<noteq> 0" "length hb = bs" "take bs (final ctx) = hb"
      using h by (auto simp: held_def split: if_splits)
    have "List.last hb = hb ! (bs - 1)" using True hb(2) by (simp add: last_conv_nth)
    also have "hb ! (bs - 1) = final ctx ! (bs - 1)" unfolding hb(3) [symmetric] by simp
    finally have l: "List.last hb = final ctx ! (bs - 1)" .
    have ib: "nat (int bs - 1) = bs - 1" by (simp add: nat_diff_distrib)
    define n where "n = unat (final ctx ! (bs - 1))"
    have un: "uint (final ctx ! (bs - 1)) = int n" by (simp add: n_def)
    have nb: "nat (int bs - int n) = bs - n" by simp
    have d: "take n (drop (bs - n) (final ctx)) = drop (bs - n) hb" if "n \<le> bs"
      unfolding hb(3) [symmetric] using that by (simp add: take_drop)
    have e: "(\<exists>x \<in> set (drop (bs - n) hb). uint x \<noteq> int n) \<longleftrightarrow> drop (bs - n) hb \<noteq> replicate n (List.last hb)" if "n \<le> bs"
    proof -
      have "uint x = int n \<longleftrightarrow> x = final ctx ! (bs - 1)" for x
        unfolding un [symmetric] by (rule word_uint_eq_iff [symmetric])
      moreover have "length (drop (bs - n) hb) = n" using that hb by simp
      ultimately show ?thesis unfolding l by (simp add: eq_replicate_iff)
    qed
    have t: "take (bs - n) (final ctx) = take (bs - n) hb"
      unfolding hb(3) [symmetric] by (simp add: min_absorb1)
    have "EVP_DecryptFinal_ex ctx =
      (if n = 0 \<or> bs < n then Inr (0, 0, [], ctx)
       else if \<exists>x \<in> set (take n (drop (bs - n) (final ctx))). uint x \<noteq> int n then Inr (0, 0, [], ctx)
       else Inr (1, int bs - int n, take (bs - n) (final ctx), ctx))"
      unfolding EVP_DecryptFinal_ex_def c(1,2) deref_Some ebind_Inr Let_def ib un nat_int nb
      using c(3,5) bl hb(1) conjunct1 [OF True] bs_pos(4,5) by simp
    also have "\<dots> = (case unpad_block bs hb of None \<Rightarrow> Inr (0, 0, [], ctx)
        | Some m \<Rightarrow> Inr (1, int (length m), m, ctx))"
    proof -
      have up: "unpad_block bs hb = (if n = 0 \<or> bs < n \<or> drop (bs - n) hb \<noteq> replicate n (List.last hb)
          then None else Some (take (bs - n) hb))"
        using True unfolding unpad_block_def hb(2) by (simp add: Let_def l n_def)
      have "n = 0 \<or> bs < n \<or> n \<le> bs" by auto
      then show ?thesis
      proof (elim disjE)
        assume n: "n \<le> bs"
        show ?thesis unfolding up d [OF n] e [OF n] t using n hb(2) by (simp add: of_nat_diff)
      qed (simp_all add: up)
    qed
    finally show ?thesis using True by simp
  qed
qed

text \<open>
  A decrypting update hands out everything decrypted so far except, when no bytes are pending, the
  last block, which it keeps.
\<close>

lemma DecryptUpdate_ok:
  assumes m: "mode_base crypt bs d e ctx" "good d e" "iv_ok (iv ctx)"
    and p: "pending bs ctx p" and h: "held bs ctx hb" and n: "0 < n" "n \<le> length x" "n < 2 ^ 30"
  defines "y \<equiv> p @ take n x" and "f \<equiv> full (length p + n)"
  shows "\<exists>ctx' w em hb'. EVP_DecryptUpdate ctx outl x (int n) = Inr (1, int (length em), w, ctx') \<and>
    length w = length hb + f \<and> take (length em) w = em \<and> em @ hb' = hb @ out d e (iv ctx) (take f y) \<and>
    mode_base crypt bs d e ctx' \<and> iv ctx' = nxt d e (iv ctx) (take f y) \<and>
    pending bs ctx' (drop f y) \<and> held bs ctx' hb' \<and> (hb' = [] \<longleftrightarrow> drop f y \<noteq> [])"
proof -
  obtain c where c: "cipher ctx = Some c" "block_size c = int bs"
    "\<not> has_flag (c_flags c) EVP_CIPH_FLAG_CUSTOM_CIPHER" "\<not> has_flag (flags ctx) EVP_CIPH_NO_PADDING"
    using m(1) by (rule mode_baseE)
  let ?o = "out d e (iv ctx) (take f y)"
  obtain ctx1 where u: "EVP_EncryptUpdate ctx outl x (int n) = Inr (1, int f, ?o, ctx1)"
    "mode_base crypt bs d e ctx1" "iv ctx1 = nxt d e (iv ctx) (take f y)" "pending bs ctx1 (drop f y)"
    "final ctx1 = final ctx" "final_used ctx1 = final_used ctx"
    using EncryptUpdate_ok [OF m p n(2,3), of outl] by (auto simp: Let_def y_def f_def)
  have fy: "f \<le> length y" "bs dvd f" "length y = length p + n" "0 < length y"
    using full_props(1,2) [of "length p + n"] n by (auto simp: f_def y_def)
  have lo: "length ?o = f" using length_out [OF m(2,3), of "take f y"] fy by (simp add: min_absorb2)
  have w0: "(if final_used ctx \<noteq> 0 then take (nat (int bs)) (final ctx) else []) = hb"
    using h by (auto simp: held_def)
  then have w1: "(if final_used ctx \<noteq> 0 then take bs (final ctx) else []) = hb" by (simp only: nat_int)
  have lh: "length hb = (if final_used ctx \<noteq> 0 then bs else 0)" using h by (auto simp: held_def)
  have bl: "buf_len ctx1 = 0 \<longleftrightarrow> drop f y = []" using u(4) by (auto simp: pending_def)
  show ?thesis
  proof (cases "drop f y = []")
    case False
    have "EVP_DecryptUpdate ctx outl x (int n) =
        Inr (1, if final_used ctx \<noteq> 0 then int f + int bs else int f, hb @ ?o, ctx1\<lparr>final_used := 0\<rparr>)"
      unfolding EVP_DecryptUpdate_def c(1,2) deref_Some ebind_Inr Let_def w0 u(1)
      using c(3,4) n(1) False bl bs_pos(4) by (auto simp: EVP_CIPHER_CTX_set_padding_def)
    moreover have "(if final_used ctx \<noteq> 0 then int f + int bs else int f) = int (length (hb @ ?o))"
      using lh lo by simp
    moreover have "held bs (ctx1\<lparr>final_used := 0\<rparr>) []" by (simp add: held_def)
    moreover have "pending bs (ctx1\<lparr>final_used := 0\<rparr>) (drop f y)" using u(4) by (simp add: pending_def)
    ultimately show ?thesis
      using u False lo by (intro exI [of _ "ctx1\<lparr>final_used := 0\<rparr>"] exI [of _ "hb @ ?o"] exI [of _ "[]"]) simp
  next
    case True
    then have f: "bs \<le> f" using fy by (auto dest: dvd_imp_le)
    let ?last = "drop (f - bs) ?o"
    have ll: "length ?last = bs" using lo f by simp
    have lf: "length (final ctx1) = 32" using u(2) by (rule mode_baseE)
    let ?fin = "?last @ drop bs (final ctx1)"
    let ?ctx2 = "ctx1\<lparr>final_used := 1, final := ?fin\<rparr>"
    have wr: "write_at (final ctx1) 0 ?last = Inr ?fin" using lf ll bs_pos(3) by (simp add: write_at_ok)
    have rd: "read_src ?last (int bs) = Inr ?last" using ll by (simp add: read_src_ok)
    have fb: "int f - int bs = int (f - bs)" using f by simp
    have nf: "\<not> int (f - bs) < 0" by simp
    have "EVP_DecryptUpdate ctx outl x (int n) =
        Inr (1, if final_used ctx \<noteq> 0 then int (f - bs) + int bs else int (f - bs), hb @ ?o, ?ctx2)"
      unfolding EVP_DecryptUpdate_def c(1,2) deref_Some ebind_Inr Let_def w1 u(1) prod.case fb nat_int rd wr
      using c(3,4) n(1) True bl bs_pos(4,5) nf by auto
    moreover have "(if final_used ctx \<noteq> 0 then int (f - bs) + int bs else int (f - bs)) =
        int (length (hb @ take (f - bs) ?o))"
      using lh lo f by auto
    moreover have "length ?fin = 32" using ll lf bs_pos(3) by simp
    then have "mode_base crypt bs d e ?ctx2" using u(2) by simp
    moreover have "held bs ?ctx2 ?last" using ll by (simp add: held_def)
    moreover have "pending bs ?ctx2 (drop f y)" using u(4) by (simp add: pending_def)
    moreover have "?last \<noteq> []" using ll bs_pos(1) by (metis length_0_conv less_numeral_extra(3))
    ultimately show ?thesis
      using u True lo by (intro exI [of _ ?ctx2] exI [of _ "hb @ ?o"] exI [of _ "hb @ take (f - bs) ?o"]
          exI [of _ ?last]) simp
  qed
qed

lemma out_append_drop:
  assumes "good d e" "iv_ok v" "bs dvd f" "bs dvd length z" "f \<le> length z"
  shows "out d e v z = out d e v (take f z) @ out d e (nxt d e v (take f z)) (drop f z)"
proof -
  have "bs dvd length (take f z)" "bs dvd length (drop f z)" using assms by (simp_all add: min_absorb2 dvd_diff_nat)
  then show ?thesis using out_append [OF assms(1,2), of "take f z" "drop f z"] by simp
qed

text \<open>Decryption in chunks takes the padding off the decrypted blocks, or fails.\<close>

lemma decrypt_chunks_ok:
  assumes "mode_base crypt bs d e ctx" "good d e" "iv_ok (iv ctx)" "pending bs ctx p" "held bs ctx hb"
    and "p = [] \<or> hb = []" and "\<forall>x \<in> set xs. length x < 2 ^ 30"
  shows "decrypt_chunks ctx xs =
    Inr (if bs dvd length (p @ concat xs) then unpad_block bs (hb @ out d e (iv ctx) (p @ concat xs)) else None)"
  using assms
proof (induction xs arbitrary: ctx p hb)
  case Nil
  have "length p < bs" using Nil(4) by (simp add: pending_def)
  then have "bs dvd length p \<longleftrightarrow> p = []" by (auto dest: dvd_imp_le)
  then show ?case
    using DecryptFinal_ok [OF Nil(1,4,5)] Nil(2,3) by (auto split: option.splits)
next
  case (Cons x xs)
  show ?case
  proof (cases "x = []")
    case True
    obtain c where "cipher ctx = Some c" "\<not> has_flag (c_flags c) EVP_CIPH_FLAG_CUSTOM_CIPHER"
      using Cons.prems(1) by (rule mode_baseE)
    then have "EVP_DecryptUpdate ctx 0 x (int (length x)) = Inr (1, 0, [], ctx)"
      using True by (simp add: EVP_DecryptUpdate_def)
    moreover have "map_option ((@) []) z = z" for z :: "u8 list option" by (cases z) simp_all
    ultimately show ?thesis using Cons.IH [OF Cons.prems(1-6)] Cons.prems(7) True by simp
  next
    case False
    let ?y = "p @ x" and ?f = "full (length p + length x)"
    let ?T = "?y @ concat xs"
    have n: "0 < length x" "length x < 2 ^ 30" using False Cons.prems(7) by auto
    obtain ctx' w em hb' where u: "EVP_DecryptUpdate ctx 0 x (int (length x)) = Inr (1, int (length em), w, ctx')"
      "take (length em) w = em" "em @ hb' = hb @ out d e (iv ctx) (take ?f ?y)"
      "mode_base crypt bs d e ctx'" "iv ctx' = nxt d e (iv ctx) (take ?f ?y)"
      "pending bs ctx' (drop ?f ?y)" "held bs ctx' hb'" "hb' = [] \<longleftrightarrow> drop ?f ?y \<noteq> []"
      using DecryptUpdate_ok [OF Cons.prems(1-5) n(1) _ n(2), of x 0] by auto
    have f: "?f \<le> length ?y" "bs dvd ?f" using full_props(1,2) [of "length p + length x"] by simp_all
    have tk: "take ?f ?T = take ?f ?y" "drop ?f ?T = drop ?f ?y @ concat xs" using f(1) by simp_all
    have "length (take ?f ?y) = ?f" using f(1) by (simp only: length_take min_absorb2)
    then have "iv_ok (iv ctx')" using nxt_ok [OF Cons.prems(2,3), of "take ?f ?y"] u(5) f(2) by metis
    then have IH: "decrypt_chunks ctx' xs = Inr (if bs dvd length (drop ?f ?y @ concat xs)
        then unpad_block bs (hb' @ out d e (iv ctx') (drop ?f ?y @ concat xs)) else None)"
      using Cons.IH [OF u(4) Cons.prems(2) _ u(6,7)] u(8) Cons.prems(7) by auto
    have step: "decrypt_chunks ctx (x # xs) = Inr (map_option (\<lambda>rest. em @ rest)
        (if bs dvd length (drop ?f ?y @ concat xs)
         then unpad_block bs (hb' @ out d e (iv ctx') (drop ?f ?y @ concat xs)) else None))"
      using u(1,2) IH by simp
    have dv: "bs dvd length ?T \<longleftrightarrow> bs dvd length (drop ?f ?T)"
    proof -
      have "length ?T = ?f + length (drop ?f ?T)" using f(1) by simp
      then show ?thesis using f(2) by (metis dvd_add_right_iff)
    qed
    have T: "p @ concat (x # xs) = ?T" by simp
    show ?thesis
    proof (cases "bs dvd length ?T")
      case False
      then have "\<not> bs dvd length (drop ?f ?y @ concat xs)" using dv unfolding tk(2) by blast
      then show ?thesis unfolding T step using False by (simp only: if_False option.map)
    next
      case True
      have "hb @ out d e (iv ctx) ?T = em @ hb' @ out d e (iv ctx') (drop ?f ?y @ concat xs)"
        using out_append_drop [OF Cons.prems(2,3) f(2) True] f(1) u(3,5) tk by (metis append.assoc length_append trans_le_add1)
      moreover have "bs \<le> length (hb' @ out d e (iv ctx') (drop ?f ?y @ concat xs))"
      proof (cases "drop ?f ?y = []")
        case True
        then have "length hb' = bs" using u(7,8) by (auto simp: held_def split: if_splits)
        then show ?thesis by simp
      next
        case False
        have "bs dvd length (drop ?f ?y @ concat xs)" using \<open>bs dvd length ?T\<close> dv unfolding tk(2) by blast
        moreover have "drop ?f ?y @ concat xs \<noteq> []" using False by (metis append_is_Nil_conv)
        ultimately have "bs \<le> length (drop ?f ?y @ concat xs)" by (metis dvd_imp_le length_greater_0_conv)
        then show ?thesis
          using length_out [OF Cons.prems(2) \<open>iv_ok (iv ctx')\<close> \<open>bs dvd length (drop ?f ?y @ concat xs)\<close>] by simp
      qed
      moreover have "bs dvd length (drop ?f ?y @ concat xs)" using True dv unfolding tk(2) by blast
      ultimately show ?thesis unfolding T step using True bs_pos(1)
        by (simp only: if_True unpad_block_append)
    qed
  qed
qed

end

text \<open>
  Decrypting what was encrypted, with matching data and the same chaining value, gives the message
  back, however both sides cut their input.
\<close>

context invertible_mode
begin

lemma chunks_roundtrip:
  assumes "matching de dd" "iv_ok v"
    and "mode_base crypt bs de 1 ce" "iv ce = v" "buf_len ce = 0"
    and "mode_base crypt bs dd 0 cd" "iv cd = v" "buf_len cd = 0" "final_used cd = 0"
    and "\<forall>x \<in> set ps. length x < 2 ^ 30" "\<forall>x \<in> set cs. length x < 2 ^ 30"
  shows "\<exists>c. encrypt_chunks ce ps = Inr (Some c) \<and> length c = length (pad_block bs (concat ps)) \<and>
    (concat cs = c \<longrightarrow> decrypt_chunks cd cs = Inr (Some (concat ps)))"
proof -
  have g: "good de 1" "good dd 0" using matching_good [OF assms(1)] by auto
  let ?P = "pad_block bs (concat ps)"
  have dv: "bs dvd length ?P" by (simp add: dvd_length_pad_block)
  have e: "encrypt_chunks ce ps = Inr (Some (out de 1 v ?P))"
    using encrypt_chunks_ok [of de 1 ce "[]" ps] assms g by (simp add: pending_Nil)
  have l: "length (out de 1 v ?P) = length ?P" using length_out [OF g(1) assms(2) dv] .
  have b: "bs < 256" using block_size by auto
  have "decrypt_chunks cd cs = Inr (Some (concat ps))" if "concat cs = out de 1 v ?P"
    using decrypt_chunks_ok [of dd 0 cd "[]" "[]" cs] assms g that dv l inverse [OF assms(1,2) dv] b
    by (simp add: pending_Nil held_def unpad_pad_block)
  then show ?thesis using e l by blast
qed

end

end
