(* ===== verification/AesEvp.thy ===== *)
theory AesEvp
  imports AesAsm Cbc EvpMode
begin

text \<open>
  AES in CBC mode behind the cipher interface: \<open>crypto/aes/aes_misc.c\<close>, \<open>crypto/aes/aes_cbc.c\<close> and
  the CBC part of \<open>crypto/evp/e_aes.c\<close>, in a build without assembler modules; the interpretations
  of \<open>block_cipher\<close> on the block functions and of \<open>invertible_mode\<close> on the cipher.
\<close>

section \<open>The key setters and the mode\<close>

definition AES_set_encrypt_key ::
    "u8 list option \<Rightarrow> int \<Rightarrow> AES_KEY option \<Rightarrow> (int \<times> AES_KEY option) exec" where
  "AES_set_encrypt_key userKey bits key = private_AES_set_encrypt_key userKey bits key"

definition AES_set_decrypt_key ::
    "u8 list option \<Rightarrow> int \<Rightarrow> AES_KEY option \<Rightarrow> (int \<times> AES_KEY option) exec" where
  "AES_set_decrypt_key userKey bits key = private_AES_set_decrypt_key userKey bits key"

definition AES_cbc_encrypt ::
    "u8 list \<Rightarrow> nat \<Rightarrow> AES_KEY \<Rightarrow> u8 list \<Rightarrow> int \<Rightarrow> (u8 list \<times> u8 list) exec" where
  "AES_cbc_encrypt inp len key ivec enc =
     (if enc \<noteq> 0 then CRYPTO_cbc128_encrypt inp len key ivec AES_encrypt
      else CRYPTO_cbc128_decrypt inp len key ivec AES_decrypt)"

interpretation aes: block_cipher AES_encrypt AES_decrypt key_pair
proof unfold_locales
  fix ke kd and p :: "u8 list" assume "key_pair ke kd" "length p = 16"
  then show "\<exists>c. AES_encrypt p ke = Inr c \<and> length c = 16 \<and> AES_decrypt c kd = Inr p"
    by (rule key_pair_blocks)
next
  fix ke kd and c :: "u8 list" assume "key_pair ke kd" "length c = 16"
  then show "\<exists>p. AES_decrypt c kd = Inr p \<and> length p = 16"
    by (simp add: key_pair_def AES_decrypt_ok)
qed

section \<open>The cipher\<close>

type_synonym cbc128_f = "u8 list \<Rightarrow> nat \<Rightarrow> AES_KEY \<Rightarrow> u8 list \<Rightarrow> int \<Rightarrow> (u8 list \<times> u8 list) exec"

text \<open>The struct \<open>EVP_AES_KEY\<close>; of the union \<open>stream\<close> only the CBC function is used here.\<close>

record EVP_AES_KEY =
  ks :: AES_KEY
  ek_block :: "AES_KEY block128_f option"
  ek_cbc :: "cbc128_f option"

definition aes_init_key ::
    "EVP_AES_KEY option \<Rightarrow> ulong \<Rightarrow> int \<Rightarrow> u8 list option \<Rightarrow> int \<Rightarrow> (int \<times> EVP_AES_KEY option) exec" where
  "aes_init_key dat fl keylen key enc =
     ebind (deref dat) (\<lambda>d.
     let mode = fl AND EVP_CIPH_MODE in
     ebind
       (if (mode = EVP_CIPH_ECB_MODE \<or> mode = EVP_CIPH_CBC_MODE) \<and> enc = 0
        then ebind (AES_set_decrypt_key key (keylen * 8) (Some (ks d))) (\<lambda>r. Inr (r, AES_decrypt))
        else ebind (AES_set_encrypt_key key (keylen * 8) (Some (ks d))) (\<lambda>r. Inr (r, AES_encrypt)))
       (\<lambda>((ret, k), block).
     ebind (deref k) (\<lambda>k'.
     Inr (if ret < 0 then 0 else 1,
          Some (d\<lparr>ks := k', ek_block := Some block,
                 ek_cbc := (if mode = EVP_CIPH_CBC_MODE then Some AES_cbc_encrypt else None)\<rparr>)))))"

definition aes_cbc_cipher ::
    "EVP_AES_KEY option \<Rightarrow> u8 list \<Rightarrow> int \<Rightarrow> u8 list \<Rightarrow> int \<Rightarrow> (int \<times> u8 list \<times> u8 list) exec" where
  "aes_cbc_cipher dat ivec enc inp len =
     ebind (deref dat) (\<lambda>d.
     ebind
       (case ek_cbc d of
          Some f \<Rightarrow> f inp (nat (to_size_t len)) (ks d) ivec enc
        | None \<Rightarrow>
            ebind (deref (ek_block d)) (\<lambda>block.
            if enc \<noteq> 0 then CRYPTO_cbc128_encrypt inp (nat (to_size_t len)) (ks d) ivec block
            else CRYPTO_cbc128_decrypt inp (nat (to_size_t len)) (ks d) ivec block))
       (\<lambda>(w, ivec'). Inr (1, w, ivec')))"

text \<open>
  The descriptor the macro \<open>BLOCK_CIPHER_generic\<close> makes for a key length and CBC mode, and the
  three it is used for. \<open>EVP_CIPH_FLAG_FIPS\<close> is 0. \<open>junk\<close> is what a fresh block of cipher data holds.
\<close>

definition aes_cbc_desc :: "int \<Rightarrow> int \<Rightarrow> EVP_AES_KEY \<Rightarrow> EVP_AES_KEY EVP_CIPHER" where
  "aes_cbc_desc n keylen junk =
     \<lparr>nid = n, block_size = 16, c_key_len = keylen div 8, iv_len = 16,
      c_flags = EVP_CIPH_FLAG_DEFAULT_ASN1 OR EVP_CIPH_CBC_MODE,
      init = aes_init_key, do_cipher = aes_cbc_cipher, cleanup = None,
      ctx_size = 264, ctrl = None, blank = junk\<rparr>"

definition EVP_aes_128_cbc :: "EVP_AES_KEY \<Rightarrow> EVP_AES_KEY EVP_CIPHER" where
  "EVP_aes_128_cbc = aes_cbc_desc 419 128"

definition EVP_aes_192_cbc :: "EVP_AES_KEY \<Rightarrow> EVP_AES_KEY EVP_CIPHER" where
  "EVP_aes_192_cbc = aes_cbc_desc 423 192"

definition EVP_aes_256_cbc :: "EVP_AES_KEY \<Rightarrow> EVP_AES_KEY EVP_CIPHER" where
  "EVP_aes_256_cbc = aes_cbc_desc 427 256"

section \<open>The cipher satisfies the contract\<close>

definition aes_good :: "EVP_AES_KEY \<Rightarrow> int \<Rightarrow> bool" where
  "aes_good d e \<longleftrightarrow> ek_cbc d = Some AES_cbc_encrypt \<and>
     (e = 1 \<and> (\<exists>kd. key_pair (ks d) kd) \<or> e = 0 \<and> (\<exists>ke. key_pair ke (ks d)))"

definition aes_matching :: "EVP_AES_KEY \<Rightarrow> EVP_AES_KEY \<Rightarrow> bool" where
  "aes_matching de dd \<longleftrightarrow> key_pair (ks de) (ks dd) \<and>
     ek_cbc de = Some AES_cbc_encrypt \<and> ek_cbc dd = Some AES_cbc_encrypt"

definition aes_out :: "EVP_AES_KEY \<Rightarrow> int \<Rightarrow> u8 list \<Rightarrow> u8 list \<Rightarrow> u8 list" where
  "aes_out d e v x = (if e = 1 then cbc_bytes (total_block AES_encrypt (ks d)) v x
     else cbc_inv_bytes (total_block AES_decrypt (ks d)) v x)"

definition aes_nxt :: "EVP_AES_KEY \<Rightarrow> int \<Rightarrow> u8 list \<Rightarrow> u8 list \<Rightarrow> u8 list" where
  "aes_nxt d e v x = last_block v (if e = 1 then aes_out d e v x else x)"

definition iv16 :: "u8 list \<Rightarrow> bool" where "iv16 v \<longleftrightarrow> length v = 16"

lemma last_block_append_dvd:
  assumes "length v = 16" "16 dvd length x"
  shows "last_block v (x @ y) = last_block (last_block v x) y"
proof (cases "x = []")
  case False
  then have "16 \<le> length x" using assms(2) by (auto intro: dvd_imp_le)
  then show ?thesis using assms(1) by (simp add: last_block_def add.commute)
qed simp

lemma aes_cbc_cipher_ok:
  assumes "aes_good d e" "iv16 v" "16 dvd n" "n \<le> length x" "n < 2 ^ 31"
  shows "aes_cbc_cipher (Some d) v e x (int n) = Inr (1, aes_out d e v (take n x), aes_nxt d e v (take n x))"
proof -
  have n: "nat (to_size_t (int n)) = n" using assms(5) by simp
  have v: "length v = 16" using assms(2) by (simp add: iv16_def)
  from assms(1) show ?thesis unfolding aes_good_def
  proof (elim conjE disjE exE)
    fix kd assume k: "ek_cbc d = Some AES_cbc_encrypt" "e = 1" "key_pair (ks d) kd"
    show ?thesis using k aes.encrypt_ok [OF k(3) v assms(3,4)]
      by (simp add: aes_cbc_cipher_def n AES_cbc_encrypt_def aes_out_def aes_nxt_def Let_def)
  next
    fix ke assume k: "ek_cbc d = Some AES_cbc_encrypt" "e = 0" "key_pair ke (ks d)"
    show ?thesis using k aes.decrypt_ok [OF k(3) v assms(3,4)]
      by (simp add: aes_cbc_cipher_def n AES_cbc_encrypt_def aes_out_def aes_nxt_def)
  qed
qed

lemma aes_good_cases:
  assumes "aes_good d e"
  obtains kd where "e = 1" "key_pair (ks d) kd" | ke where "e = 0" "key_pair ke (ks d)"
  using assms by (auto simp: aes_good_def)

lemma aes_out_append:
  assumes "aes_good d e" "iv16 v" "16 dvd length x" "16 dvd length y"
  shows "aes_out d e v (x @ y) = aes_out d e v x @ aes_out d e (aes_nxt d e v x) y"
proof -
  have v: "length v = 16" using assms(2) by (simp add: iv16_def)
  from assms(1) show ?thesis
    by (cases rule: aes_good_cases)
      (simp_all add: aes_out_def aes_nxt_def aes.cbc_bytes_append [OF _ v assms(3)]
        aes.cbc_inv_bytes_append [OF _ v assms(3)] Let_def)
qed

lemma length_aes_out:
  assumes "aes_good d e" "iv16 v" "16 dvd length x"
  shows "length (aes_out d e v x) = length x"
proof -
  have v: "length v = 16" using assms(2) by (simp add: iv16_def)
  from assms(1) show ?thesis
    by (cases rule: aes_good_cases)
      (simp_all add: aes_out_def aes.length_cbc_bytes [OF _ v] aes.length_cbc_inv_bytes [OF _ v] assms(3))
qed

lemma aes_nxt_append:
  assumes "aes_good d e" "iv16 v" "16 dvd length x" "16 dvd length y"
  shows "aes_nxt d e v (x @ y) = aes_nxt d e (aes_nxt d e v x) y"
proof -
  have v: "length v = 16" using assms(2) by (simp add: iv16_def)
  show ?thesis
  proof (cases "e = 1")
    case True
    then show ?thesis
      using aes_out_append [OF assms] last_block_append_dvd [OF v, of "aes_out d e v x"]
        length_aes_out [OF assms(1-3)] assms(3) by (simp add: aes_nxt_def)
  next
    case False
    then show ?thesis using last_block_append_dvd [OF v assms(3)] by (simp add: aes_nxt_def)
  qed
qed

interpretation aes_mode: invertible_mode aes_cbc_cipher 16 aes_good iv16 aes_out aes_nxt aes_matching
proof unfold_locales
  fix d e v and x :: "u8 list" and n assume "aes_good d e" "iv16 v" "16 dvd n" "n \<le> length x" "n < 2 ^ 31"
  then show "aes_cbc_cipher (Some d) v e x (int n) = Inr (1, aes_out d e v (take n x), aes_nxt d e v (take n x))"
    by (rule aes_cbc_cipher_ok)
next
  fix d e v and x :: "u8 list" assume "aes_good d e" "iv16 v" "16 dvd length x"
  then show "length (aes_out d e v x) = length x" by (rule length_aes_out)
next
  fix d e v and x :: "u8 list" assume "iv16 v"
  then show "iv16 (aes_nxt d e v x)" by (simp add: iv16_def aes_nxt_def)
next
  fix d e v show "aes_nxt d e v [] = v"
    by (simp add: aes_nxt_def aes_out_def)
next
  fix d e v and x y :: "u8 list" assume "aes_good d e" "iv16 v" "16 dvd length x" "16 dvd length y"
  then show "aes_out d e v (x @ y) = aes_out d e v x @ aes_out d e (aes_nxt d e v x) y"
    and "aes_nxt d e v (x @ y) = aes_nxt d e (aes_nxt d e v x) y"
    by (rule aes_out_append, rule aes_nxt_append)
next
  fix de dd assume "aes_matching de dd"
  then show "aes_good de 1 \<and> aes_good dd 0" by (auto simp: aes_matching_def aes_good_def)
next
  fix de dd v and x :: "u8 list" assume "aes_matching de dd" "iv16 v" "16 dvd length x"
  then show "aes_out dd 0 v (aes_out de 1 v x) = x"
    by (simp add: aes_matching_def aes_out_def iv16_def aes.cbc_inv_cbc)
qed simp

section \<open>Initialisation\<close>

lemma cbc_flag_facts:
  "\<not> has_flag (EVP_CIPH_FLAG_DEFAULT_ASN1 OR EVP_CIPH_CBC_MODE) EVP_CIPH_FLAG_CUSTOM_CIPHER"
  "\<not> has_flag (EVP_CIPH_FLAG_DEFAULT_ASN1 OR EVP_CIPH_CBC_MODE) EVP_CIPH_CTRL_INIT"
  "\<not> has_flag (EVP_CIPH_FLAG_DEFAULT_ASN1 OR EVP_CIPH_CBC_MODE) EVP_CIPH_CUSTOM_IV"
  "(EVP_CIPH_FLAG_DEFAULT_ASN1 OR EVP_CIPH_CBC_MODE) AND EVP_CIPH_MODE = EVP_CIPH_CBC_MODE"
  "EVP_CIPH_CBC_MODE \<noteq> EVP_CIPH_WRAP_MODE" "EVP_CIPH_CBC_MODE \<noteq> EVP_CIPH_ECB_MODE" "EVP_CIPH_CBC_MODE \<noteq> 0"
  "\<not> has_flag 0 m"
  by (simp_all add: evp_flags has_flag_def)

lemma aes_init_key_ok:
  assumes "bits \<in> {128, 192, 256}" "bits div 8 \<le> int (length key)" "length (rd_key (ks junk)) = 60"
    and "e = 0 \<or> e = 1"
  shows "\<exists>d. aes_init_key (Some junk) (EVP_CIPH_FLAG_DEFAULT_ASN1 OR EVP_CIPH_CBC_MODE) (bits div 8) (Some key) e =
      Inr (1, Some d) \<and> ek_cbc d = Some AES_cbc_encrypt \<and>
    (if e = 1 then private_AES_set_encrypt_key (Some key) bits (Some (ks junk)) = Inr (0, Some (ks d))
     else private_AES_set_decrypt_key (Some key) bits (Some (ks junk)) = Inr (0, Some (ks d)))"
proof -
  obtain ke kd where k: "private_AES_set_encrypt_key (Some key) bits (Some (ks junk)) = Inr (0, Some ke)"
    "private_AES_set_decrypt_key (Some key) bits (Some (ks junk)) = Inr (0, Some kd)"
    using set_keys_pair [OF assms(1-3,3)] by blast
  have b: "bits div 8 * 8 = bits" using assms(1) by auto
  show ?thesis
    using assms(4) k b
    by (auto simp: aes_init_key_def AES_set_encrypt_key_def AES_set_decrypt_key_def cbc_flag_facts Let_def)
qed

text \<open>A context after a successful \<open>EVP_CipherInit_ex\<close>, with the key structure that was set up.\<close>

definition ready :: "u8 list \<Rightarrow> int \<Rightarrow> AES_KEY \<Rightarrow> u8 list \<Rightarrow> int \<Rightarrow> EVP_AES_KEY \<Rightarrow> EVP_AES_KEY EVP_CIPHER_CTX \<Rightarrow> bool" where
  "ready key bits k0 v e d ctx \<longleftrightarrow> mode_base aes_cbc_cipher 16 d e ctx \<and> iv ctx = v \<and> buf_len ctx = 0 \<and>
     final_used ctx = 0 \<and> ek_cbc d = Some AES_cbc_encrypt \<and>
     (if e = 1 then private_AES_set_encrypt_key (Some key) bits (Some k0) = Inr (0, Some (ks d))
      else private_AES_set_decrypt_key (Some key) bits (Some k0) = Inr (0, Some (ks d)))"

lemma install_cbc:
  assumes "\<not> hp_oom h (hp_next h)" "cipher ctx = None"
  shows "install_cipher h ctx (Some (aes_cbc_desc n bits junk)) e =
    Inr (True, ctx\<lparr>cipher := Some (aes_cbc_desc n bits junk), cipher_data := Some junk, key_len := bits div 8,
           flags := flags ctx AND EVP_CIPHER_CTX_FLAG_WRAP_ALLOW\<rparr>, h\<lparr>hp_next := Suc (hp_next h)\<rparr>)"
  using assms by (simp add: install_cipher_def malloc_obj_def aes_cbc_desc_def cbc_flag_facts Let_def)

lemma set_iv_cbc:
  assumes "16 \<le> length v" "length (oiv ctx) = 16" "length (iv ctx) = 16"
  shows "set_iv ctx (aes_cbc_desc n bits junk) (Some v) = Inr (Some (ctx\<lparr>oiv := take 16 v, iv := take 16 v\<rparr>))"
  using assms
  by (simp add: set_iv_def EVP_CIPHER_CTX_mode_def aes_cbc_desc_def cbc_flag_facts Let_def EVP_MAX_IV_LENGTH_def
      read_src_ok write_at_ok)

lemma CipherInit_cbc:
  assumes "bits \<in> {128, 192, 256}" "bits div 8 \<le> int (length key)" "16 \<le> length v"
    and "length (rd_key (ks junk)) = 60" "\<not> hp_oom h (hp_next h)" "e = 0 \<or> e = 1"
  shows "\<exists>d ctx. EVP_CipherInit_ex h EVP_CIPHER_CTX_init (Some (aes_cbc_desc n bits junk)) (Some key) (Some v) e =
      Inr (1, ctx, h\<lparr>hp_next := Suc (hp_next h)\<rparr>) \<and> ready key bits (ks junk) (take 16 v) e d ctx"
proof -
  let ?c = "aes_cbc_desc n bits junk"
  let ?fresh = "(EVP_CIPHER_CTX_init :: EVP_AES_KEY EVP_CIPHER_CTX)\<lparr>encrypt := e\<rparr>"
  let ?inst = "?fresh\<lparr>cipher := Some ?c, cipher_data := Some junk, key_len := bits div 8,
           flags := flags ?fresh AND EVP_CIPHER_CTX_FLAG_WRAP_ALLOW\<rparr>"
  obtain d where d: "aes_init_key (Some junk) (EVP_CIPH_FLAG_DEFAULT_ASN1 OR EVP_CIPH_CBC_MODE) (bits div 8) (Some key) e =
      Inr (1, Some d)" "ek_cbc d = Some AES_cbc_encrypt"
    "if e = 1 then private_AES_set_encrypt_key (Some key) bits (Some (ks junk)) = Inr (0, Some (ks d))
     else private_AES_set_decrypt_key (Some key) bits (Some (ks junk)) = Inr (0, Some (ks d))"
    using aes_init_key_ok [OF assms(1,2,4,6)] by blast
  let ?done = "?inst\<lparr>oiv := take 16 v, iv := take 16 v, cipher_data := Some d, buf_len := 0, final_used := 0,
      block_mask := 15\<rparr>"
  have i: "install_cipher h ?fresh (Some ?c) e = Inr (True, ?inst, h\<lparr>hp_next := Suc (hp_next h)\<rparr>)"
    using assms(5) by (intro install_cbc) (simp_all add: EVP_CIPHER_CTX_init_def)
  have s: "set_iv ?inst ?c (Some v) = Inr (Some (?inst\<lparr>oiv := take 16 v, iv := take 16 v\<rparr>))"
    using assms(3) by (intro set_iv_cbc) (simp_all add: EVP_CIPHER_CTX_init_def)
  have e: "e \<noteq> -1" "(if e \<noteq> 0 then 1 else 0) = e" using assms(6) by auto
  have c: "block_size ?c = 16" "c_flags ?c = EVP_CIPH_FLAG_DEFAULT_ASN1 OR EVP_CIPH_CBC_MODE" "init ?c = aes_init_key"
    by (simp_all add: aes_cbc_desc_def)
  have "EVP_CipherInit_ex h EVP_CIPHER_CTX_init (Some ?c) (Some key) (Some v) e =
      Inr (1, ?done, h\<lparr>hp_next := Suc (hp_next h)\<rparr>)"
    unfolding EVP_CipherInit_ex_def Let_def e(2)
    using e(1) i s d(1) by (simp add: c cbc_flag_facts EVP_CIPHER_CTX_mode_def)
  moreover have "ready key bits (ks junk) (take 16 v) e d ?done"
    using d(2,3) by (simp add: ready_def mode_base_def aes_cbc_desc_def cbc_flag_facts EVP_CIPHER_CTX_init_def)
  ultimately show ?thesis by blast
qed

lemma ready_matching:
  assumes "ready key bits k1 v 1 de ce" "ready key bits k2 v 0 dd cd"
    and "bits \<in> {128, 192, 256}" "bits div 8 \<le> int (length key)" "length (rd_key k1) = 60" "length (rd_key k2) = 60"
  shows "aes_matching de dd"
proof -
  obtain ke kd where "private_AES_set_encrypt_key (Some key) bits (Some k1) = Inr (0, Some ke)"
    "private_AES_set_decrypt_key (Some key) bits (Some k2) = Inr (0, Some kd)" "key_pair ke kd"
    using set_keys_pair [OF assms(3-6)] by blast
  then show ?thesis using assms(1,2) by (auto simp: ready_def aes_matching_def)
qed

lemma ready_good:
  assumes "ready key bits k v e d ctx" "bits \<in> {128, 192, 256}" "bits div 8 \<le> int (length key)"
    and "length (rd_key k) = 60" "e = 0 \<or> e = 1"
  shows "aes_good d e"
proof -
  obtain ke kd where "private_AES_set_encrypt_key (Some key) bits (Some k) = Inr (0, Some ke)"
    "private_AES_set_decrypt_key (Some key) bits (Some k) = Inr (0, Some kd)" "key_pair ke kd"
    using set_keys_pair [OF assms(2-4,4)] by blast
  then show ?thesis using assms(1,5) by (auto simp: ready_def aes_good_def)
qed

end
