(* ===== verification/DemoAes.thy ===== *)
theory DemoAes
  imports AesEvp
begin

text \<open>
  The AES demos, \<open>demo/openssl_aes.c\<close> and its twin \<open>demo/openssl_demo/openssl.c\<close>: one-shot
  encryption and decryption of a buffer with AES-256 in CBC mode, and the program around them.
  \<open>handleErrors\<close> ends in \<open>abort\<close>. The output buffers are arguments; \<open>junk\<close> is what a fresh block of
  cipher data holds and \<open>len0\<close> what the uninitialised \<open>len\<close> holds.
\<close>

section \<open>Encryption and decryption of a buffer\<close>

definition handleErrors :: "'a exec" where
  "handleErrors = Inl Abort"

definition demo_encrypt ::
    "EVP_AES_KEY \<Rightarrow> int \<Rightarrow> heap \<Rightarrow> u8 list \<Rightarrow> int \<Rightarrow> u8 list \<Rightarrow> u8 list \<Rightarrow> u8 list
     \<Rightarrow> (int \<times> u8 list \<times> heap) exec" where
  "demo_encrypt junk len0 h plaintext plaintext_len key ivec ciphertext =
     (case EVP_CIPHER_CTX_new h of
        (None, _) \<Rightarrow> handleErrors
      | (Some ctx, h1) \<Rightarrow>
          ebind (EVP_EncryptInit_ex h1 ctx (Some (EVP_aes_256_cbc junk)) (Some key) (Some ivec))
            (\<lambda>(r, ctx1, h2).
          if r \<noteq> 1 then handleErrors
          else ebind (EVP_EncryptUpdate ctx1 len0 plaintext plaintext_len) (\<lambda>(r, len, w, ctx2).
          ebind (write_at ciphertext 0 w) (\<lambda>ciphertext1.
          if r \<noteq> 1 then handleErrors
          else ebind (EVP_EncryptFinal_ex ctx2 len) (\<lambda>(r, len', w', ctx3).
          ebind (write_at ciphertext1 (nat len) w') (\<lambda>ciphertext2.
          if r \<noteq> 1 then handleErrors
          else ebind (int_arith (len + len')) (\<lambda>ciphertext_len.
          Inr (ciphertext_len, ciphertext2, h2))))))))"

definition demo_decrypt ::
    "EVP_AES_KEY \<Rightarrow> int \<Rightarrow> heap \<Rightarrow> u8 list \<Rightarrow> int \<Rightarrow> u8 list \<Rightarrow> u8 list \<Rightarrow> u8 list
     \<Rightarrow> (int \<times> u8 list \<times> heap) exec" where
  "demo_decrypt junk len0 h ciphertext ciphertext_len key ivec plaintext =
     (case EVP_CIPHER_CTX_new h of
        (None, _) \<Rightarrow> handleErrors
      | (Some ctx, h1) \<Rightarrow>
          ebind (EVP_DecryptInit_ex h1 ctx (Some (EVP_aes_256_cbc junk)) (Some key) (Some ivec))
            (\<lambda>(r, ctx1, h2).
          if r \<noteq> 1 then handleErrors
          else ebind (EVP_DecryptUpdate ctx1 len0 ciphertext ciphertext_len) (\<lambda>(r, len, w, ctx2).
          ebind (write_at plaintext 0 w) (\<lambda>plaintext1.
          if r \<noteq> 1 then handleErrors
          else ebind (EVP_DecryptFinal_ex ctx2) (\<lambda>(r, len', w', ctx3).
          ebind (write_at plaintext1 (nat len) w') (\<lambda>plaintext2.
          if r \<noteq> 1 then handleErrors
          else ebind (int_arith (len + len')) (\<lambda>plaintext_len.
          Inr (plaintext_len, plaintext2, h2))))))))"

section \<open>The program\<close>

text \<open>A string literal, and the length and the text up to the terminating NUL.\<close>

definition c_string :: "string \<Rightarrow> u8 list" where
  "c_string s = map of_char s @ [0]"

definition c_text :: "u8 list \<Rightarrow> u8 list exec" where
  "c_text s = (if 0 \<in> set s then Inr (takeWhile (\<lambda>c. c \<noteq> 0) s) else Inl OutOfBounds)"

definition strlen :: "u8 list \<Rightarrow> int exec" where
  "strlen s = ebind (c_text s) (\<lambda>t. Inr (int (length t)))"

text \<open>
  \<open>main\<close>, with the plaintext as a parameter because the twins differ in it, and the contents of the
  two buffers of 128 bytes; the result is the ciphertext that is dumped and the text that is printed.
\<close>

definition demo_main ::
    "u8 list \<Rightarrow> EVP_AES_KEY \<Rightarrow> EVP_AES_KEY \<Rightarrow> int \<Rightarrow> heap \<Rightarrow> u8 list \<Rightarrow> u8 list \<Rightarrow> (u8 list \<times> u8 list) exec" where
  "demo_main plaintext junk1 junk2 len0 h ciphertext decryptedtext =
     (let key = c_string ''01234567890123456789012345678901'';
          ivec = c_string ''01234567890123456'' in
      ebind (strlen plaintext) (\<lambda>n.
      ebind (demo_encrypt junk1 len0 h plaintext (to_int n) key ivec ciphertext)
        (\<lambda>(ciphertext_len, ciphertext1, h1).
      ebind (demo_decrypt junk2 len0 h1 ciphertext1 ciphertext_len key ivec decryptedtext)
        (\<lambda>(decryptedtext_len, decryptedtext1, h2).
      ebind (write_at decryptedtext1 (nat decryptedtext_len) [0]) (\<lambda>decryptedtext2.
      ebind (c_text decryptedtext2) (\<lambda>t.
      Inr (take (nat ciphertext_len) ciphertext1, t)))))))"

definition fox_plaintext :: "u8 list" where
  "fox_plaintext = c_string ''The quick brown fox jumps over the lazy dog''"

definition digits_plaintext :: "u8 list" where
  "digits_plaintext = c_string ''1234567890123456''"

section \<open>What the functions compute\<close>

lemma CTX_new_ok:
  "\<not> hp_oom h (hp_next h) \<Longrightarrow>
   EVP_CIPHER_CTX_new h = (Some EVP_CIPHER_CTX_init, h\<lparr>hp_next := Suc (hp_next h)\<rparr>)"
  by (simp add: EVP_CIPHER_CTX_new_def malloc_obj_def)

lemma pad_block_split:
  assumes "16 dvd f" "f \<le> length x"
  shows "pad_block 16 x = take f x @ pad_block 16 (drop f x)"
  using aes_mode.pad_block_append [of "take f x" "drop f x"] assms by (simp add: min_absorb2)

lemma demo_encrypt_ok:
  assumes "0 \<le> n" "n \<le> int (length x)" "n < 2 ^ 30" "32 \<le> length key" "16 \<le> length v"
    and "length (rd_key (ks junk)) = 60" "\<forall>i. \<not> hp_oom h i"
    and "16 * (nat n div 16 + 1) \<le> length buffer"
  shows "\<exists>d ctx h' c. ready key 256 (ks junk) (take 16 v) 1 d ctx \<and>
    demo_encrypt junk len0 h x n key v buffer = Inr (int (length c), c @ drop (length c) buffer, h') \<and>
    c = aes_out d 1 (take 16 v) (pad_block 16 (take (nat n) x)) \<and>
    length c = 16 * (nat n div 16 + 1) \<and> (\<forall>i. \<not> hp_oom h' i)"
proof -
  define m where "m = nat n"
  have n: "n = int m" "m \<le> length x" "m < 2 ^ 30" using assms(1-3) by (auto simp: m_def)
  let ?h1 = "h\<lparr>hp_next := Suc (hp_next h)\<rparr>"
  let ?v = "take 16 v" and ?x = "take m x" and ?f = "aes_mode.full m"
  obtain d ctx where i: "EVP_CipherInit_ex ?h1 EVP_CIPHER_CTX_init (Some (EVP_aes_256_cbc junk)) (Some key) (Some v) 1 =
      Inr (1, ctx, ?h1\<lparr>hp_next := Suc (hp_next ?h1)\<rparr>)" "ready key 256 (ks junk) ?v 1 d ctx"
    using CipherInit_cbc [of 256 key v junk ?h1 1 427] assms(4-7) by (auto simp: EVP_aes_256_cbc_def)
  have g: "aes_good d 1" using ready_good [OF i(2)] assms(4,6) by simp
  have r: "mode_base aes_cbc_cipher 16 d 1 ctx" "iv ctx = ?v" "iv16 ?v" "pending 16 ctx []"
    using i(2) assms(5) by (simp_all add: ready_def iv16_def pending_Nil)
  have f: "16 dvd ?f" "?f \<le> m" "m - ?f < 16" using aes_mode.full_props [of m] by auto
  obtain ctx2 where u: "EVP_EncryptUpdate ctx len0 x (int m) = Inr (1, int ?f, aes_out d 1 ?v (take ?f ?x), ctx2)"
    "mode_base aes_cbc_cipher 16 d 1 ctx2" "iv ctx2 = aes_nxt d 1 ?v (take ?f ?x)" "pending 16 ctx2 (drop ?f ?x)"
    using aes_mode.EncryptUpdate_ok [OF r(1) g _ r(4) n(2,3), of len0] r(2,3) by (auto simp: Let_def)
  have l: "length (take ?f ?x) = ?f" using f n(2) by (simp add: min_absorb2)
  have iv2: "iv16 (iv ctx2)" unfolding u(3) using aes_mode.nxt_ok [OF g r(3), of "take ?f ?x"] f(1) l by simp
  obtain ctx3 where e: "EVP_EncryptFinal_ex ctx2 (int ?f) =
      Inr (1, 16, aes_out d 1 (iv ctx2) (pad_block 16 (drop ?f ?x)), ctx3)"
    using aes_mode.EncryptFinal_ok [OF u(2) g iv2 u(4), of "int ?f"] by auto
  let ?w = "aes_out d 1 ?v (take ?f ?x)" and ?w' = "aes_out d 1 (iv ctx2) (pad_block 16 (drop ?f ?x))"
  have lw: "length ?w = ?f" using length_aes_out [OF g r(3), of "take ?f ?x"] l f(1) by simp
  have lp: "length (pad_block 16 (drop ?f ?x)) = 16"
    using f n(2) by (simp add: pad_block_def Let_def)
  have lw': "length ?w' = 16" using length_aes_out [OF g iv2, of "pad_block 16 (drop ?f ?x)"] lp by simp
  have c: "?w @ ?w' = aes_out d 1 ?v (pad_block 16 ?x)"
    using aes_out_append [OF g r(3), of "take ?f ?x" "pad_block 16 (drop ?f ?x)"] pad_block_split [OF f(1), of ?x] lp l f n(2)
    by (simp add: u(3))
  have fm: "?f = 16 * (m div 16)" by (simp add: aes_mode.full_def minus_mod_eq_mult_div)
  have lb: "?f + 16 \<le> length buffer" using assms(8) fm by (simp flip: m_def)
  have w1: "write_at buffer 0 ?w = Inr (?w @ drop ?f buffer)" using lb lw by (simp add: write_at_ok)
  have w2: "write_at (?w @ drop ?f buffer) ?f ?w' = Inr ((?w @ ?w') @ drop (?f + 16) buffer)"
    using lb lw lw' by (simp add: write_at_ok add.commute)
  have "?f + 16 < 2 ^ 31" using f(2) n(3) by simp
  then have ia: "int_arith (int ?f + 16) = Inr (int ?f + 16)" by (intro int_arith_id) simp_all
  have L: "length (?w @ ?w') = ?f + 16" using lw lw' by simp
  have "demo_encrypt junk len0 h x n key v buffer =
      Inr (int (length (?w @ ?w')), (?w @ ?w') @ drop (length (?w @ ?w')) buffer, ?h1\<lparr>hp_next := Suc (hp_next ?h1)\<rparr>)"
    unfolding demo_encrypt_def n(1) CTX_new_ok [OF spec [OF assms(7)]] EVP_EncryptInit_ex_def i(1) u(1)
      prod.case option.case ebind_Inr L
    using w1 w2 e ia by simp
  then have st: "demo_encrypt junk len0 h x n key v buffer =
      Inr (int (length (aes_out d 1 ?v (pad_block 16 ?x))), aes_out d 1 ?v (pad_block 16 ?x) @
        drop (length (aes_out d 1 ?v (pad_block 16 ?x))) buffer, ?h1\<lparr>hp_next := Suc (hp_next ?h1)\<rparr>)"
    unfolding c .
  have "length (aes_out d 1 ?v (pad_block 16 ?x)) = 16 * (m div 16 + 1)"
    unfolding L [unfolded c] fm by simp
  moreover have "\<forall>i. \<not> hp_oom (?h1\<lparr>hp_next := Suc (hp_next ?h1)\<rparr>) i" using assms(7) by simp
  ultimately show ?thesis using i(2) st unfolding m_def by blast
qed

lemma unpad_tail:
  assumes "em @ hb = y" "held 16 ctx hb" "hb \<noteq> []"
  shows "unpad_block 16 y = map_option ((@) em) (unpad_block 16 hb)"
  using assms unpad_block_append [of 16 hb em] by (auto simp: held_def split: if_splits)

text \<open>
  One update and the final call on a fresh context: \<open>em\<close> is what the update hands out and \<open>t\<close> what
  the final call adds, when the bytes are whole blocks with valid padding.
\<close>

definition plain_of :: "EVP_AES_KEY \<Rightarrow> u8 list \<Rightarrow> u8 list \<Rightarrow> u8 list option" where
  "plain_of d v x = (if 16 dvd length x then unpad_block 16 (aes_out d 0 v x) else None)"

lemma decrypt_once:
  assumes "0 < m" "m \<le> length x" "m < 2 ^ 30" "32 \<le> length key" "16 \<le> length v"
    and "length (rd_key (ks junk)) = 60" "\<not> hp_oom h (hp_next h)"
  shows "\<exists>d ctx h' ctx2 w em. ready key 256 (ks junk) (take 16 v) 0 d ctx \<and>
    EVP_DecryptInit_ex h EVP_CIPHER_CTX_init (Some (EVP_aes_256_cbc junk)) (Some key) (Some v) = Inr (1, ctx, h') \<and>
    EVP_DecryptUpdate ctx len0 x (int m) = Inr (1, int (length em), w, ctx2) \<and>
    length w \<le> m \<and> length em \<le> length w \<and> take (length em) w = em \<and>
    (case plain_of d (take 16 v) (take m x) of
       None \<Rightarrow> EVP_DecryptFinal_ex ctx2 = Inr (0, 0, [], ctx2)
     | Some y \<Rightarrow> \<exists>t. y = em @ t \<and> length em + 16 = m \<and> length t < 16 \<and>
         EVP_DecryptFinal_ex ctx2 = Inr (1, int (length t), t, ctx2))"
proof -
  let ?v = "take 16 v" and ?x = "take m x" and ?f = "aes_mode.full m"
  obtain d ctx where i: "EVP_CipherInit_ex h EVP_CIPHER_CTX_init (Some (EVP_aes_256_cbc junk)) (Some key) (Some v) 0 =
      Inr (1, ctx, h\<lparr>hp_next := Suc (hp_next h)\<rparr>)" "ready key 256 (ks junk) ?v 0 d ctx"
    using CipherInit_cbc [of 256 key v junk h 0 427] assms(4-7) by (auto simp: EVP_aes_256_cbc_def)
  have g: "aes_good d 0" using ready_good [OF i(2)] assms(4,6) by simp
  have r: "mode_base aes_cbc_cipher 16 d 0 ctx" "iv ctx = ?v" "iv16 ?v" "pending 16 ctx []" "held 16 ctx []"
    using i(2) assms(5) by (simp_all add: ready_def iv16_def pending_Nil held_def)
  have f: "16 dvd ?f" "?f \<le> m" "m - ?f < 16" using aes_mode.full_props [of m] by auto
  obtain ctx2 w em hb where u: "EVP_DecryptUpdate ctx len0 x (int m) = Inr (1, int (length em), w, ctx2)"
    "length w = ?f" "take (length em) w = em" "em @ hb = aes_out d 0 ?v (take ?f ?x)"
    "mode_base aes_cbc_cipher 16 d 0 ctx2" "pending 16 ctx2 (drop ?f ?x)" "held 16 ctx2 hb"
    "hb = [] \<longleftrightarrow> drop ?f ?x \<noteq> []"
    using aes_mode.DecryptUpdate_ok [OF r(1) g _ r(4,5) assms(1-3), of len0] r(2,3) by auto
  have dx: "drop ?f ?x = [] \<longleftrightarrow> 16 dvd m"
  proof
    assume "drop ?f ?x = []" then have "?f = m" using assms(2) f(2) by simp
    then show "16 dvd m" using f(1) by metis
  next
    assume "16 dvd m" then show "drop ?f ?x = []" using aes_mode.full_dvd [of m] by simp
  qed
  have em: "length em \<le> ?f" using u(2,3) by (metis length_take min.cobounded1 min.commute)
  have po: "plain_of d ?v ?x = (if 16 dvd m then map_option ((@) em) (unpad_block 16 hb) else None)"
  proof (cases "16 dvd m")
    case True
    then have "?f = m" "take m ?x = ?x" "hb \<noteq> []" using u(8) dx by (simp_all add: aes_mode.full_dvd)
    then have "unpad_block 16 (aes_out d 0 ?v ?x) = map_option ((@) em) (unpad_block 16 hb)"
      using unpad_tail [OF u(4,7)] by simp
    then show ?thesis using True assms(2) by (simp add: plain_of_def min_absorb2)
  qed (use assms(2) in \<open>simp add: plain_of_def min_absorb2\<close>)
  have e: "EVP_DecryptFinal_ex ctx2 =
    (case (if 16 dvd m then unpad_block 16 hb else None) of
       None \<Rightarrow> Inr (0, 0, [], ctx2) | Some t \<Rightarrow> Inr (1, int (length t), t, ctx2))"
    using aes_mode.DecryptFinal_ok [OF u(5-7)] unfolding dx .
  have F: "case plain_of d ?v ?x of
       None \<Rightarrow> EVP_DecryptFinal_ex ctx2 = Inr (0, 0, [], ctx2)
     | Some y \<Rightarrow> \<exists>t. y = em @ t \<and> length em + 16 = m \<and> length t < 16 \<and>
         EVP_DecryptFinal_ex ctx2 = Inr (1, int (length t), t, ctx2)"
  proof (cases "if 16 dvd m then unpad_block 16 hb else None")
    case None
    then have "plain_of d ?v ?x = None" using po by (auto split: if_splits)
    then show ?thesis using e None by simp
  next
    case (Some t)
    then have d16: "16 dvd m" "unpad_block 16 hb = Some t" by (auto split: if_splits)
    have Fm: "?f = m" using d16(1) by (rule aes_mode.full_dvd)
    have hb: "length hb = 16" using u(7,8) dx d16(1) by (auto simp: held_def split: if_splits)
    have lt: "length t < 16" using d16(2) hb by (auto simp: unpad_block_def Let_def split: if_splits)
    have le: "length em + 16 = m"
      using arg_cong [OF u(4), of length] length_aes_out [OF g r(3), of "take ?f ?x"] f(1) Fm assms(2) hb by simp
    have "plain_of d ?v ?x = Some (em @ t)" unfolding po using d16 by simp
    moreover have "EVP_DecryptFinal_ex ctx2 = Inr (1, int (length t), t, ctx2)" using e Some by simp
    ultimately show ?thesis using le lt by simp
  qed
  show ?thesis
    using i u(1,2,3) f(2) em F by (auto simp: EVP_DecryptInit_ex_def)
qed

lemma demo_decrypt_ok:
  assumes "0 < n" "n \<le> int (length x)" "n < 2 ^ 30" "32 \<le> length key" "16 \<le> length v"
    and "length (rd_key (ks junk)) = 60" "\<forall>i. \<not> hp_oom h i" "n \<le> int (length buffer)"
  shows "\<exists>d ctx h'. ready key 256 (ks junk) (take 16 v) 0 d ctx \<and>
    (case plain_of d (take 16 v) (take (nat n) x) of
       None \<Rightarrow> demo_decrypt junk len0 h x n key v buffer = Inl Abort
     | Some m \<Rightarrow> \<exists>rest. demo_decrypt junk len0 h x n key v buffer = Inr (int (length m), m @ rest, h') \<and>
         length (m @ rest) = length buffer)"
proof -
  define m where "m = nat n"
  have n: "n = int m" "0 < m" "m \<le> length x" "m < 2 ^ 30" "m \<le> length buffer" using assms(1-3,8) by (auto simp: m_def)
  let ?h1 = "h\<lparr>hp_next := Suc (hp_next h)\<rparr>"
  let ?v = "take 16 v" and ?x = "take m x"
  obtain d ctx h' ctx2 w em where u: "ready key 256 (ks junk) ?v 0 d ctx"
    "EVP_DecryptInit_ex ?h1 EVP_CIPHER_CTX_init (Some (EVP_aes_256_cbc junk)) (Some key) (Some v) = Inr (1, ctx, h')"
    "EVP_DecryptUpdate ctx len0 x (int m) = Inr (1, int (length em), w, ctx2)"
    "length w \<le> m" "length em \<le> length w" "take (length em) w = em"
    and F: "case plain_of d ?v ?x of
       None \<Rightarrow> EVP_DecryptFinal_ex ctx2 = Inr (0, 0, [], ctx2)
     | Some y \<Rightarrow> \<exists>t. y = em @ t \<and> length em + 16 = m \<and> length t < 16 \<and>
         EVP_DecryptFinal_ex ctx2 = Inr (1, int (length t), t, ctx2)"
    using decrypt_once [OF n(2-4) assms(4-6), of ?h1 len0] assms(7) by auto
  let ?b = "w @ drop (length w) buffer"
  have w1: "write_at buffer 0 w = Inr ?b" using n(5) u(4) by (simp add: write_at_ok)
  have st: "demo_decrypt junk len0 h x n key v buffer =
      ebind (EVP_DecryptFinal_ex ctx2) (\<lambda>(r, len', w', ctx3).
          ebind (write_at ?b (length em) w') (\<lambda>plaintext2.
          if r \<noteq> 1 then handleErrors
          else ebind (int_arith (int (length em) + len')) (\<lambda>plaintext_len.
          Inr (plaintext_len, plaintext2, h'))))"
    unfolding demo_decrypt_def n(1) CTX_new_ok [OF spec [OF assms(7)]] u(2,3) prod.case option.case ebind_Inr
    using w1 by simp
  show ?thesis
  proof (cases "plain_of d ?v ?x")
    case None
    moreover have "write_at ?b (length em) [] = Inr ?b" using u(5) by (simp add: write_at_ok)
    ultimately have "demo_decrypt junk len0 h x n key v buffer = Inl Abort"
      unfolding st using F by (simp add: handleErrors_def)
    then show ?thesis using u(1) None unfolding m_def by (intro exI [of _ d] exI [of _ ctx]) simp
  next
    case (Some y)
    then obtain t where t: "y = em @ t" "length em + 16 = m" "length t < 16"
      "EVP_DecryptFinal_ex ctx2 = Inr (1, int (length t), t, ctx2)" using F by auto
    have w2: "write_at ?b (length em) t = Inr (em @ t @ drop (length em + length t) ?b)"
      using t(2,3) u(4-6) n(5) by (simp add: write_at_ok)
    have "length em + length t < 2 ^ 31" using t(2,3) n(4) by simp
    then have ia: "int_arith (int (length em) + int (length t)) = Inr (int (length em) + int (length t))"
      by (intro int_arith_id) simp_all
    have "demo_decrypt junk len0 h x n key v buffer = Inr (int (length y), y @ drop (length em + length t) ?b, h')"
      unfolding st t(1,4) using w2 ia by simp
    moreover have "length (y @ drop (length em + length t) ?b) = length buffer"
      using t(1-3) u(4) n(5) by simp
    ultimately show ?thesis using u(1) Some unfolding m_def by (intro exI [of _ d] exI [of _ ctx]) auto
  qed
qed

section \<open>The round trip\<close>

lemma ready_out_inverse:
  assumes "ready key 256 k1 v 1 de ce" "ready key 256 k2 v 0 dd cd" "32 \<le> length key" "length v = 16"
    and "length (rd_key k1) = 60" "length (rd_key k2) = 60" "16 dvd length x"
  shows "aes_out dd 0 v (aes_out de 1 v x) = x"
proof -
  have "aes_matching de dd" using ready_matching [OF assms(1,2) _ _ assms(5,6)] assms(3) by simp
  then show ?thesis using aes_mode.inverse assms(4,7) by (simp add: iv16_def)
qed

lemma demo_roundtrip:
  assumes "0 \<le> n" "n \<le> int (length x)" "n < 2 ^ 29" "32 \<le> length key" "16 \<le> length v"
    and "length (rd_key (ks j1)) = 60" "length (rd_key (ks j2)) = 60" "\<forall>i. \<not> hp_oom h i"
    and "16 * (nat n div 16 + 1) \<le> length cbuf" "16 * (nat n div 16 + 1) \<le> length pbuf"
  shows "\<exists>c h1 rest h2. demo_encrypt j1 l1 h x n key v cbuf = Inr (int (length c), c @ drop (length c) cbuf, h1) \<and>
    length c = 16 * (nat n div 16 + 1) \<and>
    demo_decrypt j2 l2 h1 (c @ drop (length c) cbuf) (int (length c)) key v pbuf =
      Inr (n, take (nat n) x @ rest, h2) \<and> length rest = length pbuf - nat n"
proof -
  let ?x = "take (nat n) x" and ?v = "take 16 v"
  have n: "n < 2 ^ 30" using assms(3) by simp
  obtain de ce h1 c where e: "ready key 256 (ks j1) ?v 1 de ce"
    "demo_encrypt j1 l1 h x n key v cbuf = Inr (int (length c), c @ drop (length c) cbuf, h1)"
    "c = aes_out de 1 ?v (pad_block 16 ?x)" "length c = 16 * (nat n div 16 + 1)" "\<forall>i. \<not> hp_oom h1 i"
    using demo_encrypt_ok [OF assms(1,2) n assms(4-6,8,9), of l1] by blast
  let ?y = "c @ drop (length c) cbuf" and ?k = "int (length c)"
  have "length c \<le> nat n + 16" using e(4) by simp
  moreover have "nat n < 2 ^ 29" using assms(1,3) by simp
  ultimately have "length c < 2 ^ 30" by simp
  then have k: "0 < ?k" "?k \<le> int (length ?y)" "?k < 2 ^ 30" "?k \<le> int (length pbuf)"
    using e(4) assms(10) by simp_all
  obtain dd cd h2 where d: "ready key 256 (ks j2) ?v 0 dd cd"
    "case plain_of dd ?v (take (nat ?k) ?y) of
       None \<Rightarrow> demo_decrypt j2 l2 h1 ?y ?k key v pbuf = Inl Abort
     | Some m \<Rightarrow> \<exists>rest. demo_decrypt j2 l2 h1 ?y ?k key v pbuf = Inr (int (length m), m @ rest, h2) \<and>
         length (m @ rest) = length pbuf"
    using demo_decrypt_ok [OF k(1-3) assms(4,5,7) e(5) k(4), of l2] by blast
  have "aes_out dd 0 ?v c = pad_block 16 ?x"
    unfolding e(3) using ready_out_inverse [OF e(1) d(1) assms(4) _ assms(6,7)] assms(5)
    by (simp add: dvd_length_pad_block)
  moreover have "take (nat ?k) ?y = c" by simp
  moreover have "16 dvd length c" unfolding e(4) by simp
  ultimately obtain rest where "demo_decrypt j2 l2 h1 ?y ?k key v pbuf = Inr (int (length ?x), ?x @ rest, h2)"
    "length (?x @ rest) = length pbuf"
    using d(2) by (auto simp: plain_of_def unpad_pad_block)
  moreover have "int (length ?x) = n" using assms(1,2) by simp
  moreover from this calculation(2) have "length rest = length pbuf - nat n" by auto
  ultimately have "demo_decrypt j2 l2 h1 ?y ?k key v pbuf = Inr (n, ?x @ rest, h2)" "length rest = length pbuf - nat n"
    by simp_all
  then show ?thesis using e(2,4) by blast
qed

text \<open>The programs print the text they encrypted.\<close>

lemma c_text_string:
  assumes "0 \<notin> set t"
  shows "c_text (t @ 0 # rest) = Inr t"
proof -
  have "takeWhile (\<lambda>c. c \<noteq> 0) (t @ 0 # rest) = t @ takeWhile (\<lambda>c. c \<noteq> 0) (0 # rest)"
    using assms by (intro takeWhile_append2) auto
  then show ?thesis by (simp add: c_text_def)
qed

lemma demo_main_prints:
  assumes t: "0 \<notin> set t" "length t \<le> 100"
    and j: "length (rd_key (ks j1)) = 60" "length (rd_key (ks j2)) = 60" "\<forall>i. \<not> hp_oom h i"
    and b: "length cbuf = 128" "length pbuf = 128"
  shows "\<exists>c. demo_main (t @ [0]) j1 j2 len0 h cbuf pbuf = Inr (c, t) \<and> length c = 16 * (length t div 16 + 1)"
proof -
  let ?key = "c_string ''01234567890123456789012345678901''" and ?v = "c_string ''01234567890123456''"
  let ?n = "int (length t)"
  have kv: "32 \<le> length ?key" "16 \<le> length ?v" by (simp_all add: c_string_def)
  have "16 * (length t div 16 + 1) \<le> length t + 16" by simp
  also have "\<dots> \<le> 128" using t(2) by simp
  finally have fit: "16 * (length t div 16 + 1) \<le> 128" .
  obtain c h1 rest h2 where r:
    "demo_encrypt j1 len0 h (t @ [0]) ?n ?key ?v cbuf = Inr (int (length c), c @ drop (length c) cbuf, h1)"
    "length c = 16 * (length t div 16 + 1)"
    "demo_decrypt j2 len0 h1 (c @ drop (length c) cbuf) (int (length c)) ?key ?v pbuf = Inr (?n, t @ rest, h2)"
    "length rest = 128 - length t"
    using demo_roundtrip [of ?n "t @ [0]" ?key ?v j1 j2 h cbuf pbuf len0 len0] kv j b fit t(2) by auto
  have s: "strlen (t @ [0]) = Inr ?n" using c_text_string [OF t(1), of "[]"] by (simp add: strlen_def)
  have i: "to_int ?n = ?n" using t(2) by simp
  have w: "write_at (t @ rest) (length t) [0] = Inr (t @ 0 # drop 1 rest)"
    using t(2) r(4) by (simp add: write_at_ok)
  have "demo_main (t @ [0]) j1 j2 len0 h cbuf pbuf = Inr (c, t)"
    unfolding demo_main_def Let_def s ebind_Inr i r(1,3) prod.case
    using w c_text_string [OF t(1)] by simp
  then show ?thesis using r(2) by blast
qed

end
