(* ===== verification/Crypt.thy ===== *)
theory Crypt
  imports DemoAes
begin

text \<open>
  The encryption module of the tunnel, \<open>src/crypt.c\<close>. The string type \<open>rts_str_t\<close> comes from
  \<open>rts_str.c\<close>, which the repository does not have: its operations are the argument \<open>ops\<close>. So is the
  macro \<open>CHECK_RES\<close>: \<open>check b\<close> says whether it makes the function return NULL when its condition is
  \<open>b\<close>. The module does not release what it holds in a way that can be observed here, so
  \<open>rts_str_free\<close> is left out. The \<open>plaintext\<close> that the update call of \<open>aes256cbc_decrypt\<close> writes to is not
  declared anywhere: it is an argument, a string of its own.
\<close>

section \<open>Strings\<close>

record 's str_ops =
  str_init :: "int \<Rightarrow> 's option"
  str_append :: "'s \<Rightarrow> u8 list \<Rightarrow> int \<Rightarrow> int \<times> 's"
  str_buf :: "'s \<Rightarrow> u8 list"
  str_write :: "'s \<Rightarrow> nat \<Rightarrow> u8 list \<Rightarrow> 's exec"
  str_size :: "'s \<Rightarrow> int"
  str_set_size :: "'s \<Rightarrow> int \<Rightarrow> 's"

section \<open>Contexts by address\<close>

text \<open>
  The contexts of the process, by their addresses. Address 0 is NULL; any other address without a
  context is a wild pointer.
\<close>

type_synonym ctx_store = "int \<Rightarrow> EVP_AES_KEY EVP_CIPHER_CTX option"

definition ctx_at :: "ctx_store \<Rightarrow> int \<Rightarrow> EVP_AES_KEY EVP_CIPHER_CTX exec" where
  "ctx_at cs p = (if p = 0 then Inl NullDeref else case cs p of None \<Rightarrow> Inl OutOfBounds | Some c \<Rightarrow> Inr c)"

text \<open>\<open>EVP_CIPHER_CTX_new\<close>: the address of the new context (\<open>a\<close> if there is memory), or NULL.\<close>

definition ctx_new :: "int \<Rightarrow> ctx_store \<Rightarrow> heap \<Rightarrow> int \<times> ctx_store \<times> heap" where
  "ctx_new a cs h = (case EVP_CIPHER_CTX_new h of (None, h1) \<Rightarrow> (0, cs, h1) | (Some c, h1) \<Rightarrow> (a, cs(a \<mapsto> c), h1))"

text \<open>\<open>EVP_CIPHER_CTX_free\<close> does nothing for NULL.\<close>

definition ctx_free :: "ctx_store \<Rightarrow> int \<Rightarrow> ctx_store exec" where
  "ctx_free cs p = (if p = 0 then Inr cs else ebind (ctx_at cs p) (\<lambda>_. Inr (cs(p := None))))"

section \<open>AES-256 in CBC mode\<close>

text \<open>
  The parentheses in \<open>if ((ctx = EVP_CIPHER_CTX_new() == NULL))\<close> make \<open>ctx\<close> the value of the
  comparison, 0 or 1, and not the new context.
\<close>

definition aes256cbc_encrypt ::
    "'s str_ops \<Rightarrow> (bool \<Rightarrow> bool) \<Rightarrow> EVP_AES_KEY \<Rightarrow> int \<Rightarrow> int \<Rightarrow> ctx_store \<Rightarrow> heap \<Rightarrow> u8 list \<Rightarrow> int \<Rightarrow> 's \<Rightarrow> 's
     \<Rightarrow> ('s option \<times> ctx_store \<times> heap) exec" where
  "aes256cbc_encrypt ops check junk len0 a cs h plaintext plaintext_len key ivec =
     ebind (int_arith (plaintext_len + 32)) (\<lambda>cap.
     let rts_ciphertext = str_init ops cap in
     if check (rts_ciphertext = None) then Inr (None, cs, h)
     else
       (case ctx_new a cs h of (p, cs1, h1) \<Rightarrow>
       (let ctx = (if p = 0 then 1 else 0) in
        if ctx \<noteq> 0 then ebind (ctx_free cs1 ctx) (\<lambda>cs2. Inr (None, cs2, h1))
        else
          ebind (ctx_at cs1 ctx) (\<lambda>c.
          ebind (EVP_EncryptInit_ex h1 c (Some (EVP_aes_256_cbc junk)) (Some (str_buf ops key)) (Some (str_buf ops ivec)))
            (\<lambda>(r, c1, h2).
          let fail = (\<lambda>c. ebind (ctx_free (cs1(ctx \<mapsto> c)) ctx) (\<lambda>cs2. Inr (None, cs2, h2))) in
          if r \<noteq> 1 then fail c1
          else
            ebind (deref rts_ciphertext) (\<lambda>s0.
            ebind (EVP_EncryptUpdate c1 len0 plaintext plaintext_len) (\<lambda>(r, len, w, c2).
            ebind (str_write ops s0 0 w) (\<lambda>s1.
            if r \<noteq> 1 then fail c2
            else ebind (EVP_EncryptFinal_ex c2 len) (\<lambda>(r, len', w', c3).
            ebind (str_write ops (str_set_size ops s1 len) (nat len) w') (\<lambda>s2.
            if r \<noteq> 1 then fail c3
            else
              (case str_append ops (str_set_size ops s2 (str_size ops s2 + len')) (str_buf ops ivec) (str_size ops ivec) of
                 (res, s3) \<Rightarrow>
                   if res \<noteq> 0 then fail c3
                   else ebind (ctx_free (cs1(ctx \<mapsto> c3)) ctx) (\<lambda>cs2. Inr (Some s3, cs2, h2))))))))))))) "

definition aes256cbc_decrypt ::
    "'s str_ops \<Rightarrow> EVP_AES_KEY \<Rightarrow> int \<Rightarrow> int \<Rightarrow> ctx_store \<Rightarrow> heap \<Rightarrow> 's \<Rightarrow> u8 list \<Rightarrow> int \<Rightarrow> 's
     \<Rightarrow> ('s option \<times> 's \<times> ctx_store \<times> heap) exec" where
  "aes256cbc_decrypt ops junk len0 a cs h plaintext ciphertext ciphertext_len key =
     (case (str_init ops ciphertext_len, str_init ops 17) of
        (Some rts_plaintext, Some ivec) \<Rightarrow>
          if ciphertext_len < 16 then Inl OutOfBounds
          else
            (case str_append ops ivec (drop (nat (ciphertext_len - 16)) ciphertext) 16 of (_, ivec1) \<Rightarrow>
            (case ctx_new a cs h of (ctx, cs1, h1) \<Rightarrow>
             if ctx = 0 then ebind (ctx_free cs1 ctx) (\<lambda>cs2. Inr (None, plaintext, cs2, h1))
             else
               ebind (ctx_at cs1 ctx) (\<lambda>c.
               ebind (EVP_DecryptInit_ex h1 c (Some (EVP_aes_256_cbc junk)) (Some (str_buf ops key)) (Some (str_buf ops ivec1)))
                 (\<lambda>(r, c1, h2).
               let leave = (\<lambda>res pt c. ebind (ctx_free (cs1(ctx \<mapsto> c)) ctx) (\<lambda>cs2. Inr (res, pt, cs2, h2))) in
               if r \<noteq> 1 then leave None plaintext c1
               else ebind (EVP_DecryptUpdate c1 len0 ciphertext ciphertext_len) (\<lambda>(r, len, w, c2).
               ebind (str_write ops plaintext 0 w) (\<lambda>pt1.
               if r \<noteq> 1 then leave None pt1 c2
               else ebind (EVP_DecryptFinal_ex c2) (\<lambda>(r, len', w', c3).
               ebind (str_write ops (str_set_size ops rts_plaintext len) (nat len) w') (\<lambda>s2.
               if r \<noteq> 1 then leave None pt1 c3
               else leave (Some (str_set_size ops s2 (str_size ops s2 + len'))) pt1 c3))))))))
      | _ \<Rightarrow> Inr (None, plaintext, cs, h))"

section \<open>Dispatch\<close>

text \<open>
  \<open>cryption_t\<close> and the entry points \<open>encrypt\<close> and \<open>decrypt\<close>: the calls through the function pointers
  pass three arguments where the pointer types have four. \<open>None\<close> is the NULL pointer.
\<close>

record 's cryption_t =
  secret_key :: 's
  cryption_method :: 's
  real_encrypt :: "(u8 list \<Rightarrow> int \<Rightarrow> 's \<Rightarrow> 's option) option"
  real_decrypt :: "(u8 list \<Rightarrow> int \<Rightarrow> 's \<Rightarrow> 's option) option"

definition crypt_encrypt :: "'s cryption_t option \<Rightarrow> u8 list option \<Rightarrow> int \<Rightarrow> 's option exec" where
  "crypt_encrypt crpt plaintext plaintext_len =
     (case (crpt, plaintext) of
        (Some c, Some p) \<Rightarrow> ebind (deref (real_encrypt c)) (\<lambda>f. Inr (f p plaintext_len (secret_key c)))
      | _ \<Rightarrow> Inr None)"

definition crypt_decrypt :: "'s cryption_t option \<Rightarrow> u8 list option \<Rightarrow> int \<Rightarrow> 's option exec" where
  "crypt_decrypt crpt ciphertext ciphertext_len =
     (case (crpt, ciphertext) of
        (Some c, Some p) \<Rightarrow> ebind (deref (real_decrypt c)) (\<lambda>f. Inr (f p ciphertext_len (secret_key c)))
      | _ \<Rightarrow> Inr None)"

end
