(* ===== verification/AesProps.thy ===== *)
theory AesProps
  imports AesAsm
begin

text \<open>
  What the AES code promises its callers: the key expansions and their errors, the cipher it
  computes, the agreement of its build variants, and that decryption inverts encryption.
\<close>

section \<open>A sample key\<close>

definition zero_key :: AES_KEY where
  "zero_key = \<lparr>rd_key = replicate 60 0, rounds = 0\<rparr>"

definition sample_key :: "nat \<Rightarrow> u8 list" where
  "sample_key n = map of_nat [0..<n]"

lemma zero_key_length [simp]: "length (rd_key zero_key) = 60"
  by (simp add: zero_key_def)

lemma length_sample_key [simp]: "length (sample_key n) = n"
  by (simp add: sample_key_def)

section \<open>Key expansion\<close>

text \<open>
  C9: \<open>private_AES_set_encrypt_key\<close> accepts the three key lengths, sets the number of rounds, keeps
  inside \<open>rd_key\<close>, stores the key in the first words and every later word of the schedule by the
  recurrence of the standard.
\<close>

theorem AES_set_encrypt_key_schedule:
  assumes "bits \<in> {128, 192, 256}" "bits div 8 \<le> int (length uk)" "length (rd_key k) = 60"
  shows "\<exists>k'. private_AES_set_encrypt_key (Some uk) bits (Some k) = Inr (0, Some k') \<and>
    length (rd_key k') = 60 \<and> rounds k' = bits div 32 + 6 \<and>
    (\<forall>i < nat (bits div 32). rd_key k' ! i = GETU32 (drop (4 * i) uk)) \<and>
    (\<forall>i. bits div 32 \<le> int i \<and> int i < 4 * (rounds k' + 1) \<longrightarrow>
       rd_key k' ! i = key_word (nat (bits div 32)) (rd_key k') i)"
proof -
  obtain k' where k': "private_AES_set_encrypt_key (Some uk) bits (Some k) = Inr (0, Some k')"
    "rounds k' = int (key_words bits) + 6"
    "expanding (key_words bits) (user_words uk (key_words bits)) (4 * (key_words bits + 7)) (rd_key k')"
    using set_encrypt_key_ok [OF assms] by blast
  have w: "int (key_words bits) = bits div 32" using assms(1) by (auto simp: key_words_def)
  have "rd_key k' ! i = GETU32 (drop (4 * i) uk)" if "i < key_words bits" for i
    using k'(3) that by (auto simp: expanding_def user_words_def dest!: arg_cong [where f = "\<lambda>xs. xs ! i"])
  moreover have "rd_key k' ! i = key_word (key_words bits) (rd_key k') i"
    if "bits div 32 \<le> int i" "int i < 4 * (rounds k' + 1)" for i
  proof -
    have "key_words bits \<le> i" using that(1) w by linarith
    moreover have "int i < int (4 * (key_words bits + 7))" using that(2) k'(2) by simp
    then have "i < 4 * (key_words bits + 7)" by (simp only: of_nat_less_iff)
    ultimately show ?thesis using k'(3) by (simp add: expanding_def)
  qed
  moreover have "length (rd_key k') = 60" "rounds k' = bits div 32 + 6" using k' w by (simp_all add: expanding_def)
  ultimately show ?thesis using k'(1) by (auto simp flip: key_words_def)
qed

theorem AES_set_encrypt_key_schedule_witness:
  "\<exists>k'. private_AES_set_encrypt_key (Some (sample_key 32)) 256 (Some zero_key) = Inr (0, Some k') \<and>
    rounds k' = 14 \<and> rd_key k' ! 8 = key_word 8 (rd_key k') 8"
  using AES_set_encrypt_key_schedule [of 256 "sample_key 32" zero_key] by auto

text \<open>
  The error returns of both key expansions: NULL pointers give -1, any other key length -2, and
  the key structure is untouched.
\<close>

theorem AES_set_key_errors:
  assumes "userKey = None \<or> key = None \<or> bits \<notin> {128, 192, 256}"
  shows "private_AES_set_encrypt_key userKey bits key = Inr (if userKey = None \<or> key = None then -1 else -2, key) \<and>
    private_AES_set_decrypt_key userKey bits key = Inr (if userKey = None \<or> key = None then -1 else -2, key)"
  using assms
  by (auto simp: private_AES_set_encrypt_key_def private_AES_set_decrypt_key_def
      set_decrypt_key_with_def set_encrypt_key_with_def split: option.split)

theorem AES_set_key_errors_witness:
  "private_AES_set_decrypt_key (Some (sample_key 7)) 56 (Some zero_key) = Inr (-2, Some zero_key)"
  using AES_set_key_errors [of "Some (sample_key 7)" "Some zero_key" 56] by simp

section \<open>Encryption and decryption\<close>

text \<open>
  C3: on an expanded key the table code computes the cipher of the standard and its inverse, for
  any 16 bytes and any of the three key lengths, and never leaves the key schedule.
\<close>

theorem AES_blocks_refine_cipher:
  assumes "length (rd_key key) = 60" "rounds key \<in> {10, 12, 14}" "16 \<le> length inp"
  shows "AES_encrypt inp key =
      Inr (put_block (cipher (round_key (rd_key key)) (nat (rounds key)) (block_of inp))) \<and>
    AES_decrypt inp key =
      Inr (put_block (inv_cipher (round_key (rd_key key)) (nat (rounds key)) (block_of inp)))"
  using assms by (simp add: AES_encrypt_ok AES_decrypt_ok aes_key_ok_def AES_MAXNR_def)

theorem AES_blocks_refine_cipher_witness:
  "AES_encrypt (sample_key 16) (zero_key\<lparr>rounds := 10\<rparr>) =
     Inr (put_block (cipher (\<lambda>_. (0, 0, 0, 0)) 10 (block_of (sample_key 16))))"
proof -
  have c: "round_state k i s = round_state k' i s" if "\<forall>j \<le> i. k j = k' j" for k k' i s
    using that by (induction i) auto
  have k: "round_key (rd_key zero_key) j = (0, 0, 0, 0)" if "j \<le> 10" for j
    using that by (simp add: round_key_def zero_key_def)
  show ?thesis
    using AES_blocks_refine_cipher [of "zero_key\<lparr>rounds := 10\<rparr>" "sample_key 16"]
      c [of 9 "round_key (rd_key zero_key)" "\<lambda>_. (0, 0, 0, 0)" "block_of (sample_key 16)"] k
    by (simp add: cipher_def)
qed

text \<open>
  C4: for every accepted key length, the two expansions of one key and the two block functions
  fit together: decrypting an encrypted block gives the block back.
\<close>

theorem AES_decrypt_encrypt:
  assumes "bits \<in> {128, 192, 256}" "bits div 8 \<le> int (length uk)"
    and "length (rd_key k) = 60" "length (rd_key k2) = 60" "length p = 16"
  shows "\<exists>ke kd c. private_AES_set_encrypt_key (Some uk) bits (Some k) = Inr (0, Some ke) \<and>
    private_AES_set_decrypt_key (Some uk) bits (Some k2) = Inr (0, Some kd) \<and>
    AES_encrypt p ke = Inr c \<and> AES_decrypt c kd = Inr p"
proof -
  obtain ke kd where k: "private_AES_set_encrypt_key (Some uk) bits (Some k) = Inr (0, Some ke)"
    "private_AES_set_decrypt_key (Some uk) bits (Some k2) = Inr (0, Some kd)" "key_pair ke kd"
    using set_keys_pair [OF assms(1-4)] by blast
  then show ?thesis using key_pair_blocks [OF k(3) assms(5)] by blast
qed

theorem AES_decrypt_encrypt_witness:
  "\<exists>ke kd c. private_AES_set_encrypt_key (Some (sample_key 24)) 192 (Some zero_key) = Inr (0, Some ke) \<and>
    private_AES_set_decrypt_key (Some (sample_key 24)) 192 (Some zero_key) = Inr (0, Some kd) \<and>
    AES_encrypt (sample_key 16) ke = Inr c \<and> AES_decrypt c kd = Inr (sample_key 16)"
  by (rule AES_decrypt_encrypt) simp_all

section \<open>Build variants\<close>

text \<open>
  C30: the \<open>FULL_UNROLL\<close> form and the looped form agree on every input and every key structure
  with one of the three numbers of rounds, faults included.
\<close>

theorem AES_unrolled_eq_looped:
  assumes "rounds key \<in> {10, 12, 14}"
  shows "AES_encrypt_unrolled inp key = AES_encrypt inp key \<and>
    AES_decrypt_unrolled inp key = AES_decrypt inp key"
  using unrolled_eq_loop [OF assms]
  by (simp add: AES_encrypt_unrolled_def AES_decrypt_unrolled_def AES_encrypt_def AES_decrypt_def)

theorem AES_unrolled_eq_looped_witness:
  "AES_encrypt_unrolled (sample_key 16) (zero_key\<lparr>rounds := 14\<rparr>) =
     AES_encrypt (sample_key 16) (zero_key\<lparr>rounds := 14\<rparr>)"
  using AES_unrolled_eq_looped [of "zero_key\<lparr>rounds := 14\<rparr>" "sample_key 16"] by simp

text \<open>
  The key expansions of the branch for the assembler builds, which use only \<open>Te4\<close> and mix the
  four bytes of a word at once, are the same functions as those of the table branch.
\<close>

theorem AES_asm_keys_eq:
  "asm_AES_set_encrypt_key uk bits key = private_AES_set_encrypt_key uk bits key \<and>
   asm_AES_set_decrypt_key uk bits key = private_AES_set_decrypt_key uk bits key"
  by (simp add: asm_keys_eq)

text \<open>
  The tables hold what the comment in front of them says: \<open>Te0\<close> to \<open>Te3\<close> are the S-box \<open>Te4\<close>
  times the columns of the mixing matrix, \<open>Td0\<close> to \<open>Td3\<close> the inverse S-box \<open>Td4\<close> times those of the
  inverse matrix, and \<open>Td4\<close> inverts \<open>Te4\<close>.
\<close>

theorem AES_tables_contents:
  "Te0 ! unat x = col 2 1 1 3 (Te4 ! unat x) \<and> Te1 ! unat x = col 3 2 1 1 (Te4 ! unat x) \<and>
   Te2 ! unat x = col 1 3 2 1 (Te4 ! unat x) \<and> Te3 ! unat x = col 1 1 3 2 (Te4 ! unat x) \<and>
   Td0 ! unat x = col 14 9 13 11 (Td4 ! unat x) \<and> Td1 ! unat x = col 11 14 9 13 (Td4 ! unat x) \<and>
   Td2 ! unat x = col 13 11 14 9 (Td4 ! unat x) \<and> Td3 ! unat x = col 9 13 11 14 (Td4 ! unat x) \<and>
   Td4 ! unat (Te4 ! unat (x :: u8)) = x"
  using inv_sbox_sbox [of x] by (simp add: T_nth)

end
