(* ===== verification/AesEvpProps.thy ===== *)
theory AesEvpProps
  imports AesEvp AesProps
begin

text \<open>
  What a program gets from AES in CBC mode: from the mode functions alone, and from a context that
  is initialised, fed in chunks and finished.
\<close>

section \<open>The mode functions\<close>

text \<open>
  C5: CBC encryption and decryption with the two key structures of one user key invert each other
  for a message of any length, whole blocks or not: encryption writes the blocks of the message
  filled up with zero bytes, decryption writes the message, and both leave the same chaining value.
\<close>

theorem AES_cbc_roundtrip:
  assumes "bits \<in> {128, 192, 256}" "bits div 8 \<le> int (length uk)"
    and "length (rd_key k) = 60" "length (rd_key k2) = 60" "length ivec = 16" "len \<le> length inp"
  shows "\<exists>ke kd out v.
    AES_set_encrypt_key (Some uk) bits (Some k) = Inr (0, Some ke) \<and>
    AES_set_decrypt_key (Some uk) bits (Some k2) = Inr (0, Some kd) \<and>
    AES_cbc_encrypt inp len ke ivec 1 = Inr (out, v) \<and> length out = 16 * ((len + 15) div 16) \<and>
    AES_cbc_encrypt out len kd ivec 0 = Inr (take len inp, v)"
proof -
  obtain ke kd where k: "private_AES_set_encrypt_key (Some uk) bits (Some k) = Inr (0, Some ke)"
    "private_AES_set_decrypt_key (Some uk) bits (Some k2) = Inr (0, Some kd)" "key_pair ke kd"
    using set_keys_pair [OF assms(1-4)] by blast
  show ?thesis
    using aes.cbc_roundtrip [OF k(3) assms(5,6)] k(1,2)
    by (auto simp: AES_cbc_encrypt_def AES_set_encrypt_key_def AES_set_decrypt_key_def)
qed

theorem AES_cbc_roundtrip_witness:
  "\<exists>ke kd out v.
    AES_set_encrypt_key (Some (sample_key 16)) 128 (Some zero_key) = Inr (0, Some ke) \<and>
    AES_set_decrypt_key (Some (sample_key 16)) 128 (Some zero_key) = Inr (0, Some kd) \<and>
    AES_cbc_encrypt (sample_key 21) 21 ke (sample_key 16) 1 = Inr (out, v) \<and> length out = 32 \<and>
    AES_cbc_encrypt out 21 kd (sample_key 16) 0 = Inr (sample_key 21, v)"
  using AES_cbc_roundtrip [of 128 "sample_key 16" zero_key zero_key "sample_key 16" 21 "sample_key 21"] by simp

text \<open>
  C29: the variants of the CBC functions agree with AES: with \<open>OPENSSL_SMALL_FOOTPRINT\<close> the same
  bytes and the same chaining value come out, and decryption of a buffer in place leaves in it
  what decryption into a second buffer writes there, with the bytes behind untouched.
\<close>

theorem AES_cbc_variants:
  assumes "bits \<in> {128, 192, 256}" "bits div 8 \<le> int (length uk)"
    and "length (rd_key k) = 60" "length (rd_key k2) = 60" "length ivec = 16"
    and "16 * ((len + 15) div 16) \<le> length bytes"
  shows "\<exists>ke kd.
    AES_set_encrypt_key (Some uk) bits (Some k) = Inr (0, Some ke) \<and>
    AES_set_decrypt_key (Some uk) bits (Some k2) = Inr (0, Some kd) \<and>
    small_cbc128_encrypt bytes len ke ivec AES_encrypt = CRYPTO_cbc128_encrypt bytes len ke ivec AES_encrypt \<and>
    small_cbc128_decrypt bytes len kd ivec AES_decrypt = CRYPTO_cbc128_decrypt bytes len kd ivec AES_decrypt \<and>
    inplace_cbc128_decrypt bytes len kd ivec AES_decrypt =
      ebind (CRYPTO_cbc128_decrypt bytes len kd ivec AES_decrypt) (\<lambda>(out, v). Inr (out @ drop len bytes, v))"
proof -
  obtain ke kd where k: "private_AES_set_encrypt_key (Some uk) bits (Some k) = Inr (0, Some ke)"
    "private_AES_set_decrypt_key (Some uk) bits (Some k2) = Inr (0, Some kd)" "key_pair ke kd"
    using set_keys_pair [OF assms(1-4)] by blast
  show ?thesis
    using aes.enc_tail_full [OF k(3) assms(5)] aes.inplace_eq_separate [OF k(3) assms(5,6)] k(1,2)
      aes.dec_tail_full [OF assms(5)]
    by (simp add: AES_set_encrypt_key_def AES_set_decrypt_key_def small_cbc128_encrypt_def small_cbc128_decrypt_def)
qed

theorem AES_cbc_variants_witness:
  "\<exists>ke kd.
    AES_set_encrypt_key (Some (sample_key 24)) 192 (Some zero_key) = Inr (0, Some ke) \<and>
    AES_set_decrypt_key (Some (sample_key 24)) 192 (Some zero_key) = Inr (0, Some kd) \<and>
    small_cbc128_encrypt (sample_key 40) 21 ke (sample_key 16) AES_encrypt =
      CRYPTO_cbc128_encrypt (sample_key 40) 21 ke (sample_key 16) AES_encrypt \<and>
    inplace_cbc128_decrypt (sample_key 40) 21 kd (sample_key 16) AES_decrypt =
      ebind (CRYPTO_cbc128_decrypt (sample_key 40) 21 kd (sample_key 16) AES_decrypt)
        (\<lambda>(out, v). Inr (out @ drop 21 (sample_key 40), v))"
  using AES_cbc_variants [of 192 "sample_key 24" zero_key zero_key "sample_key 16" 21 "sample_key 40"]
  by (simp add: fun_eq_iff) blast

section \<open>Contexts\<close>

text \<open>A heap that never runs out of memory, a fresh block of cipher data, and the three ciphers.\<close>

definition big_heap :: heap where
  "big_heap = \<lparr>hp_mem = (\<lambda>_. None), hp_next = 1, hp_oom = (\<lambda>_. False), hp_junk = 0\<rparr>"

definition zero_data :: EVP_AES_KEY where
  "zero_data = \<lparr>ks = zero_key, ek_block = None, ek_cbc = None\<rparr>"

definition aes_cbc_ciphers :: "((EVP_AES_KEY \<Rightarrow> EVP_AES_KEY EVP_CIPHER) \<times> int) set" where
  "aes_cbc_ciphers = {(EVP_aes_128_cbc, 128), (EVP_aes_192_cbc, 192), (EVP_aes_256_cbc, 256)}"

lemma aes_cbc_ciphersE:
  assumes "(C, bits) \<in> aes_cbc_ciphers"
  obtains n where "C = aes_cbc_desc n bits" "bits \<in> {128, 192, 256}"
  using assms by (auto simp: aes_cbc_ciphers_def EVP_aes_128_cbc_def EVP_aes_192_cbc_def EVP_aes_256_cbc_def)

lemma length_pad_block_16: "length (pad_block 16 m) = 16 * (length m div 16 + 1)"
proof -
  obtain q r where "length m = 16 * q + r" "r < 16" by (rule that [of "length m div 16" "length m mod 16"]) simp_all
  then show ?thesis by (simp add: pad_block_def Let_def)
qed

text \<open>
  C6: for each of the three AES ciphers in CBC mode, encryption with a context initialised with a
  key and an initialisation vector always succeeds and gives the whole blocks of the padded
  message, and decryption with a context initialised with the same key and vector gives the
  message back, for every way of cutting message and ciphertext into update calls.
\<close>

theorem EVP_aes_cbc_roundtrip:
  assumes "(C, bits) \<in> aes_cbc_ciphers" "bits div 8 \<le> int (length key)" "16 \<le> length v"
    and "length (rd_key (ks j1)) = 60" "length (rd_key (ks j2)) = 60"
    and "\<not> hp_oom h1 (hp_next h1)" "\<not> hp_oom h2 (hp_next h2)" "\<forall>x \<in> set ps. length x < 2 ^ 30"
  shows "\<exists>ce h1' cd h2' c.
    EVP_EncryptInit_ex h1 EVP_CIPHER_CTX_init (Some (C j1)) (Some key) (Some v) = Inr (1, ce, h1') \<and>
    EVP_DecryptInit_ex h2 EVP_CIPHER_CTX_init (Some (C j2)) (Some key) (Some v) = Inr (1, cd, h2') \<and>
    encrypt_chunks ce ps = Inr (Some c) \<and> length c = 16 * (length (concat ps) div 16 + 1) \<and>
    (\<forall>cs. concat cs = c \<and> (\<forall>x \<in> set cs. length x < 2 ^ 30) \<longrightarrow> decrypt_chunks cd cs = Inr (Some (concat ps)))"
proof -
  obtain n where C: "C = aes_cbc_desc n bits" "bits \<in> {128, 192, 256}" using assms(1) by (rule aes_cbc_ciphersE)
  obtain de ce h1' where e: "EVP_CipherInit_ex h1 EVP_CIPHER_CTX_init (Some (C j1)) (Some key) (Some v) 1 = Inr (1, ce, h1')"
    "ready key bits (ks j1) (take 16 v) 1 de ce"
    using CipherInit_cbc [OF C(2) assms(2,3,4,6), of 1 n] C(1) by blast
  obtain dd cd h2' where d: "EVP_CipherInit_ex h2 EVP_CIPHER_CTX_init (Some (C j2)) (Some key) (Some v) 0 = Inr (1, cd, h2')"
    "ready key bits (ks j2) (take 16 v) 0 dd cd"
    using CipherInit_cbc [OF C(2) assms(2,3,5,7), of 0 n] C(1) by blast
  have m: "aes_matching de dd" using ready_matching [OF e(2) d(2) C(2) assms(2,4,5)] .
  have iv: "iv16 (take 16 v)" using assms(3) by (simp add: iv16_def)
  have rt: "\<exists>c. encrypt_chunks ce ps = Inr (Some c) \<and> length c = length (pad_block 16 (concat ps)) \<and>
      (concat cs = c \<longrightarrow> decrypt_chunks cd cs = Inr (Some (concat ps)))"
    if "\<forall>x \<in> set cs. length x < 2 ^ 30" for cs
    using e(2) d(2) by (intro aes_mode.chunks_roundtrip [OF m iv _ _ _ _ _ _ _ assms(8) that]) (auto simp: ready_def)
  obtain c where c: "encrypt_chunks ce ps = Inr (Some c)" "length c = length (pad_block 16 (concat ps))"
    using rt [of "[]"] by auto
  have "decrypt_chunks cd cs = Inr (Some (concat ps))" if "concat cs = c" "\<forall>x \<in> set cs. length x < 2 ^ 30" for cs
    using rt [OF that(2)] c(1) that(1) by auto
  moreover have "length (pad_block 16 (concat ps)) = 16 * (length (concat ps) div 16 + 1)" by (rule length_pad_block_16)
  ultimately show ?thesis using e(1) d(1) c by (auto simp: EVP_EncryptInit_ex_def EVP_DecryptInit_ex_def)
qed

theorem EVP_aes_cbc_roundtrip_witness:
  "\<exists>ce h1' cd h2' c.
    EVP_EncryptInit_ex big_heap EVP_CIPHER_CTX_init (Some (EVP_aes_256_cbc zero_data)) (Some (sample_key 32))
      (Some (sample_key 16)) = Inr (1, ce, h1') \<and>
    EVP_DecryptInit_ex big_heap EVP_CIPHER_CTX_init (Some (EVP_aes_256_cbc zero_data)) (Some (sample_key 32))
      (Some (sample_key 16)) = Inr (1, cd, h2') \<and>
    encrypt_chunks ce [sample_key 3, sample_key 18] = Inr (Some c) \<and> length c = 32 \<and>
    decrypt_chunks cd [take 7 c, drop 7 c] = Inr (Some (sample_key 3 @ sample_key 18))"
proof -
  obtain ce h1' cd h2' c where r:
    "EVP_EncryptInit_ex big_heap EVP_CIPHER_CTX_init (Some (EVP_aes_256_cbc zero_data)) (Some (sample_key 32))
      (Some (sample_key 16)) = Inr (1, ce, h1')"
    "EVP_DecryptInit_ex big_heap EVP_CIPHER_CTX_init (Some (EVP_aes_256_cbc zero_data)) (Some (sample_key 32))
      (Some (sample_key 16)) = Inr (1, cd, h2')"
    "encrypt_chunks ce [sample_key 3, sample_key 18] = Inr (Some c)" "length c = 32"
    "\<And>cs. concat cs = c \<and> (\<forall>x \<in> set cs. length x < 2 ^ 30) \<Longrightarrow>
       decrypt_chunks cd cs = Inr (Some (sample_key 3 @ sample_key 18))"
    using EVP_aes_cbc_roundtrip [of EVP_aes_256_cbc 256 "sample_key 32" "sample_key 16" zero_data zero_data
        big_heap big_heap "[sample_key 3, sample_key 18]"]
    by (auto simp: aes_cbc_ciphers_def zero_data_def big_heap_def)
  then show ?thesis using r(5) [of "[take 7 c, drop 7 c]"] by auto
qed

text \<open>
  C7: decryption of arbitrary bytes never faults: it returns the message only when the bytes are
  whole blocks whose CBC decryption ends in valid padding, and fails in every other case.
\<close>

theorem EVP_aes_cbc_decrypt_total:
  assumes "(C, bits) \<in> aes_cbc_ciphers" "bits div 8 \<le> int (length key)" "16 \<le> length v"
    and "length (rd_key (ks j)) = 60" "\<not> hp_oom h (hp_next h)"
  shows "\<exists>cd h' kd. EVP_DecryptInit_ex h EVP_CIPHER_CTX_init (Some (C j)) (Some key) (Some v) = Inr (1, cd, h') \<and>
    AES_set_decrypt_key (Some key) bits (Some (ks j)) = Inr (0, Some kd) \<and>
    (\<forall>cs. (\<forall>x \<in> set cs. length x < 2 ^ 30) \<longrightarrow>
       decrypt_chunks cd cs = Inr (if 16 dvd length (concat cs)
         then unpad_block 16 (cbc_inv_bytes (total_block AES_decrypt kd) (take 16 v) (concat cs)) else None))"
proof -
  obtain n where C: "C = aes_cbc_desc n bits" "bits \<in> {128, 192, 256}" using assms(1) by (rule aes_cbc_ciphersE)
  obtain dd cd h' where d: "EVP_CipherInit_ex h EVP_CIPHER_CTX_init (Some (C j)) (Some key) (Some v) 0 = Inr (1, cd, h')"
    "ready key bits (ks j) (take 16 v) 0 dd cd"
    using CipherInit_cbc [OF C(2) assms(2-5), of 0 n] C(1) by blast
  have g: "aes_good dd 0" "iv16 (take 16 v)" using ready_good [OF d(2) C(2) assms(2,4)] assms(3) by (simp_all add: iv16_def)
  have "decrypt_chunks cd cs = Inr (if 16 dvd length (concat cs)
      then unpad_block 16 (cbc_inv_bytes (total_block AES_decrypt (ks dd)) (take 16 v) (concat cs)) else None)"
    if "\<forall>x \<in> set cs. length x < 2 ^ 30" for cs
    using aes_mode.decrypt_chunks_ok [of dd 0 cd "[]" "[]" cs] d(2) g that
    by (simp add: ready_def pending_Nil held_def aes_out_def)
  then show ?thesis using d by (auto simp: EVP_DecryptInit_ex_def AES_set_decrypt_key_def ready_def)
qed

theorem EVP_aes_cbc_decrypt_total_witness:
  "\<exists>cd h'. EVP_DecryptInit_ex big_heap EVP_CIPHER_CTX_init (Some (EVP_aes_128_cbc zero_data)) (Some (sample_key 16))
      (Some (sample_key 16)) = Inr (1, cd, h') \<and>
    decrypt_chunks cd [sample_key 3, sample_key 18] = Inr None"
  using EVP_aes_cbc_decrypt_total [of EVP_aes_128_cbc 128 "sample_key 16" "sample_key 16" zero_data big_heap]
  by (force simp: aes_cbc_ciphers_def zero_data_def big_heap_def dest: spec [where x = "[sample_key 3, sample_key 18]"])

text \<open>
  What holds of a decrypting context between calls: \<open>p\<close> are the bytes that wait for their block, \<open>hb\<close>
  is the decrypted block that is kept back, and never both wait.
\<close>

definition decrypting :: "EVP_AES_KEY EVP_CIPHER_CTX \<Rightarrow> EVP_AES_KEY \<Rightarrow> u8 list \<Rightarrow> u8 list \<Rightarrow> bool" where
  "decrypting ctx d p hb \<longleftrightarrow> mode_base aes_cbc_cipher 16 d 0 ctx \<and> aes_good d 0 \<and> iv16 (iv ctx) \<and>
     pending 16 ctx p \<and> held 16 ctx hb \<and> (p = [] \<or> hb = [])"

text \<open>
  C8: \<open>EVP_DecryptUpdate\<close> keeps the decrypting context well-formed, accounts for every byte (what
  was held back and what is decrypted now is what it hands out and what it holds back), and writes
  at most one block more than its input is long, also beyond the count it reports.
\<close>

theorem EVP_DecryptUpdate_invariant:
  assumes "decrypting ctx d p hb" "0 < n" "n \<le> length x" "n < 2 ^ 30"
  shows "\<exists>ctx' w p' hb' em. EVP_DecryptUpdate ctx outl x (int n) = Inr (1, int (length em), w, ctx') \<and>
    decrypting ctx' d p' hb' \<and> length w \<le> n + 16 \<and> take (length em) w = em \<and> length p' + length hb' \<le> 16 \<and>
    (\<exists>z. p @ take n x = z @ p' \<and> 16 dvd length z \<and> em @ hb' = hb @ aes_out d 0 (iv ctx) z \<and>
         iv ctx' = aes_nxt d 0 (iv ctx) z)"
proof -
  have D: "mode_base aes_cbc_cipher 16 d 0 ctx" "aes_good d 0" "iv16 (iv ctx)" "pending 16 ctx p" "held 16 ctx hb"
    "p = [] \<or> hb = []" using assms(1) by (auto simp: decrypting_def)
  let ?y = "p @ take n x" and ?f = "aes_mode.full (length p + n)"
  obtain ctx' w em hb' where u: "EVP_DecryptUpdate ctx outl x (int n) = Inr (1, int (length em), w, ctx')"
    "length w = length hb + ?f" "take (length em) w = em" "em @ hb' = hb @ aes_out d 0 (iv ctx) (take ?f ?y)"
    "mode_base aes_cbc_cipher 16 d 0 ctx'" "iv ctx' = aes_nxt d 0 (iv ctx) (take ?f ?y)"
    "pending 16 ctx' (drop ?f ?y)" "held 16 ctx' hb'" "hb' = [] \<longleftrightarrow> drop ?f ?y \<noteq> []"
    using aes_mode.DecryptUpdate_ok [OF D(1-5) assms(2-4)] by blast
  have f: "?f \<le> length p + n" "16 dvd ?f" using aes_mode.full_props(1,2) by auto
  have l: "length p < 16" "length hb \<le> 16" "length hb' \<le> 16" "length (drop ?f ?y) < 16"
    using D(4,5) u(7,8) by (auto simp: pending_def held_def split: if_splits)
  have z: "16 dvd length (take ?f ?y)" "?y = take ?f ?y @ drop ?f ?y"
    using f assms(3) by (simp_all add: min_absorb2 del: take_append drop_append)
  have i: "iv16 (iv ctx')" unfolding u(6) using aes_mode.nxt_ok [OF D(2,3) z(1)] .
  have "decrypting ctx' d (drop ?f ?y) hb'"
    unfolding decrypting_def using u(5,7,8,9) D(2) i by blast
  moreover have "length w \<le> n + 16" using u(2) f(1) l(1,2) D(6) by auto
  moreover have "length (drop ?f ?y) + length hb' \<le> 16"
    using l(3,4) u(9) by (cases "hb' = []") (simp_all del: drop_append)
  ultimately show ?thesis using u(1,3,4,6) z by blast
qed

theorem EVP_DecryptUpdate_invariant_witness:
  "\<exists>ctx h' d ctx' w k p' hb'.
    EVP_DecryptInit_ex big_heap EVP_CIPHER_CTX_init (Some (EVP_aes_128_cbc zero_data)) (Some (sample_key 16))
      (Some (sample_key 16)) = Inr (1, ctx, h') \<and>
    EVP_DecryptUpdate ctx 0 (sample_key 40) 40 = Inr (1, k, w, ctx') \<and>
    decrypting ctx' d p' hb' \<and> length w \<le> 56"
proof -
  obtain dd cd h' where d: "EVP_CipherInit_ex big_heap EVP_CIPHER_CTX_init (Some (EVP_aes_128_cbc zero_data))
      (Some (sample_key 16)) (Some (sample_key 16)) 0 = Inr (1, cd, h')"
    "ready (sample_key 16) 128 (ks zero_data) (take 16 (sample_key 16)) 0 dd cd"
    using CipherInit_cbc [of 128 "sample_key 16" "sample_key 16" zero_data big_heap 0 419]
    by (auto simp: zero_data_def big_heap_def EVP_aes_128_cbc_def)
  have "aes_good dd 0" using ready_good [OF d(2)] by (simp add: zero_data_def)
  then have "decrypting cd dd [] []"
    using d(2) by (simp add: decrypting_def ready_def iv16_def pending_Nil held_def)
  from EVP_DecryptUpdate_invariant [OF this, of 40 "sample_key 40" 0]
  show ?thesis using d(1) by (simp add: EVP_DecryptInit_ex_def) blast
qed

end
