(* ===== verification/CryptProps.thy ===== *)
theory CryptProps
  imports Crypt AesEvpProps
begin

text \<open>What the AES demos and the encryption module of the tunnel do.\<close>

section \<open>The demos\<close>

text \<open>
  C28: the demo's \<open>encrypt\<close> and \<open>decrypt\<close> invert each other on buffers with room for the padded
  message: \<open>encrypt\<close> fills whole blocks, leaves the rest of its buffer alone and returns their
  length, and \<open>decrypt\<close> returns the length of the message and leaves the message in its buffer.
\<close>

theorem demo_encrypt_decrypt:
  assumes "0 \<le> n" "n \<le> int (length x)" "n < 2 ^ 29" "32 \<le> length key" "16 \<le> length v"
    and "length (rd_key (ks j1)) = 60" "length (rd_key (ks j2)) = 60" "\<forall>i. \<not> hp_oom h i"
    and "16 * (nat n div 16 + 1) \<le> length cbuf" "16 * (nat n div 16 + 1) \<le> length pbuf"
  shows "\<exists>c h1 rest h2. demo_encrypt j1 l1 h x n key v cbuf = Inr (int (length c), c @ drop (length c) cbuf, h1) \<and>
    length c = 16 * (nat n div 16 + 1) \<and>
    demo_decrypt j2 l2 h1 (c @ drop (length c) cbuf) (int (length c)) key v pbuf =
      Inr (n, take (nat n) x @ rest, h2) \<and> length rest = length pbuf - nat n"
  by (rule demo_roundtrip [OF assms])

theorem demo_encrypt_decrypt_witness:
  "\<exists>c h1 rest h2. demo_encrypt zero_data 7 big_heap (sample_key 43) 43 (sample_key 33) (sample_key 18) (sample_key 128) =
      Inr (int (length c), c @ drop (length c) (sample_key 128), h1) \<and> length c = 48 \<and>
    demo_decrypt zero_data 7 h1 (c @ drop (length c) (sample_key 128)) (int (length c)) (sample_key 33) (sample_key 18)
      (sample_key 128) = Inr (43, sample_key 43 @ rest, h2) \<and> length rest = 85"
  using demo_encrypt_decrypt [of 43 "sample_key 43" "sample_key 33" "sample_key 18" zero_data zero_data big_heap
      "sample_key 128" "sample_key 128" 7 7]
  by (simp add: zero_data_def big_heap_def)

text \<open>
  The demo programs print the text they encrypted, whatever text of at most 100 bytes is
  compiled in, and their buffers of 128 bytes are never overrun.
\<close>

theorem demo_main_prints_plaintext:
  assumes "0 \<notin> set t" "length t \<le> 100"
    and "length (rd_key (ks j1)) = 60" "length (rd_key (ks j2)) = 60" "\<forall>i. \<not> hp_oom h i"
    and "length cbuf = 128" "length pbuf = 128"
  shows "\<exists>c. demo_main (t @ [0]) j1 j2 len0 h cbuf pbuf = Inr (c, t) \<and> length c = 16 * (length t div 16 + 1)"
  by (rule demo_main_prints [OF assms])

theorem demo_main_prints_plaintext_witness:
  "(\<exists>c. demo_main fox_plaintext zero_data zero_data 0 big_heap (sample_key 128) (sample_key 128) =
      Inr (c, butlast fox_plaintext) \<and> length c = 48) \<and>
   (\<exists>c. demo_main digits_plaintext zero_data zero_data 0 big_heap (sample_key 128) (sample_key 128) =
      Inr (c, butlast digits_plaintext) \<and> length c = 32)"
  using demo_main_prints_plaintext [of "butlast fox_plaintext" zero_data zero_data big_heap "sample_key 128" "sample_key 128" 0]
    demo_main_prints_plaintext [of "butlast digits_plaintext" zero_data zero_data big_heap "sample_key 128" "sample_key 128" 0]
  by (simp add: fox_plaintext_def digits_plaintext_def c_string_def zero_data_def big_heap_def)

section \<open>The encryption module\<close>

text \<open>
  How \<open>aes256cbc_encrypt\<close> ends, for any string type and any \<open>CHECK_RES\<close>: unless it returns before it asks for
  a context, it dereferences NULL if it gets one (\<open>a\<close> is its address), and otherwise takes 1 for the address of a context.
\<close>

lemma aes256cbc_encrypt_result:
  assumes "- (2 ^ 31) \<le> plaintext_len" "plaintext_len + 32 < 2 ^ 31" "a \<noteq> 0" "cs 1 = None"
  shows "aes256cbc_encrypt ops check junk len0 a cs h plaintext plaintext_len key ivec =
    (if check (str_init ops (plaintext_len + 32) = None) then Inr (None, cs, h)
     else if hp_oom h (hp_next h) then Inl OutOfBounds else Inl NullDeref)"
  using assms
  by (simp add: aes256cbc_encrypt_def int_arith_def ctx_new_def EVP_CIPHER_CTX_new_def malloc_obj_def ctx_at_def ctx_free_def)

end
