(* ===== verification/EchoClient.thy ===== *)
theory EchoClient
  imports RtsBuf
begin

text \<open>
  The echo client, \<open>demo/echo_server/client.c\<close>: its own growable buffer, with \<open>size_t\<close> fields and
  \<open>strncpy\<close> for copying, and the read callback of a connection. \<open>grow_buffer\<close> is the contract both
  growable buffers of the repository keep; what it gives for a sequence of appends is proved once.
\<close>

section \<open>Strings\<close>

text \<open>
  \<open>strncpy (dst, src, n)\<close> stores \<open>n\<close> bytes: those of the string up to its NUL or up to \<open>n\<close>, then
  zeros. It reads \<open>src\<close> no further than that.
\<close>

definition strncpy :: "u8 list \<Rightarrow> nat \<Rightarrow> u8 list exec" where
  "strncpy src n =
     (let t = takeWhile (\<lambda>c. c \<noteq> 0) (take n src) in
      if length t = n \<or> length t < length src then Inr (t @ replicate (n - length t) 0)
      else Inl OutOfBounds)"

lemma strncpy_text: "0 \<notin> set (take n src) \<Longrightarrow> n \<le> length src \<Longrightarrow> strncpy src n = Inr (take n src)"
proof -
  assume a: "0 \<notin> set (take n src)" "n \<le> length src"
  then have t: "takeWhile (\<lambda>c. c \<noteq> 0) (take n src) = take n src" by (intro takeWhile_eq_all_conv [THEN iffD2]) auto
  show ?thesis unfolding strncpy_def Let_def t using a(2) by simp
qed

section \<open>The buffer\<close>

record echo_buf =
  eb_buf :: addr
  eb_size :: int
  eb_capacity :: int

definition echo_buf_init :: "heap \<Rightarrow> int \<Rightarrow> (echo_buf option \<times> heap) exec" where
  "echo_buf_init h capacity =
     (case malloc h capacity of
        (None, h1) \<Rightarrow> Inr (None, h1)
      | (Some buf, h1) \<Rightarrow>
          (case malloc_obj h1 of
             (False, h2) \<Rightarrow> Inl NullDeref
           | (True, h2) \<Rightarrow> Inr (Some \<lparr>eb_buf = buf, eb_size = 0, eb_capacity = capacity\<rparr>, h2)))"

definition echo_buf_free :: "heap \<Rightarrow> echo_buf option \<Rightarrow> heap exec" where
  "echo_buf_free h p = (case p of None \<Rightarrow> Inr h | Some b \<Rightarrow> free_block h (eb_buf b))"

text \<open>
  All lengths are \<open>size_t\<close>, so sums and differences are modulo \<open>2 ^ 64\<close>; \<open>new_cap\<close> is an \<open>int\<close> and is
  converted back for \<open>malloc\<close> and for the field.
\<close>

definition echo_buf_append ::
    "heap \<Rightarrow> echo_buf \<Rightarrow> u8 list option \<Rightarrow> int \<Rightarrow> (int \<times> echo_buf \<times> heap) exec" where
  "echo_buf_append h b content content_len =
     (case content of
        None \<Rightarrow> Inr (-1, b, h)
      | Some src \<Rightarrow>
          (let alloc_len = to_size_t (content_len + 1) in
           ebind
             (if to_size_t (eb_capacity b - eb_size b) < alloc_len then
                (let new_cap = to_int (if to_size_t (eb_size b + alloc_len - eb_capacity b) \<ge> eb_capacity b
                               then to_size_t (eb_size b + alloc_len) else to_size_t (eb_capacity b * 2)) in
                 case malloc h (to_size_t new_cap) of
                   (None, h1) \<Rightarrow> Inr (None, h1)
                 | (Some new_buf, h1) \<Rightarrow>
                     ebind (heap_read h1 (eb_buf b) 0 (eb_size b)) (\<lambda>old.
                     ebind (strncpy old (nat (eb_size b))) (\<lambda>old'.
                     ebind (heap_write h1 new_buf 0 old') (\<lambda>h2.
                     ebind (free_block h2 (eb_buf b)) (\<lambda>h3.
                     Inr (Some (b\<lparr>eb_capacity := to_size_t new_cap, eb_buf := new_buf\<rparr>), h3))))))
              else Inr (Some b, h))
             (\<lambda>(grown, h4). case grown of
                None \<Rightarrow> Inr (-2, b, h4)
              | Some b1 \<Rightarrow>
                  ebind (strncpy src (nat content_len)) (\<lambda>bytes.
                  ebind (heap_write h4 (eb_buf b1) (eb_size b1) bytes) (\<lambda>h5.
                  Inr (0, b1\<lparr>eb_size := to_size_t (eb_size b1 + content_len)\<rparr>, h5))))))"

section \<open>The contract of a growable buffer\<close>

text \<open>
  \<open>block b\<close> is where the buffer keeps its bytes, and \<open>data_ok\<close> are the bytes it can carry: any byte
  for a buffer that copies memory, any but NUL for one that copies strings. The total is bounded by
  1 GiB, so that doubling stays in \<open>int\<close>. An append may fail only when an allocation does.
\<close>

definition same_elsewhere :: "heap \<Rightarrow> addr \<Rightarrow> heap \<Rightarrow> bool" where
  "same_elsewhere h a h' \<longleftrightarrow> heap_ok h' \<and> hp_oom h' = hp_oom h \<and> hp_next h \<le> hp_next h' \<and>
     (\<forall>a'. a' < hp_next h \<and> a' \<noteq> a \<longrightarrow> hp_mem h' a' = hp_mem h a')"

locale grow_buffer =
  fixes append :: "heap \<Rightarrow> 'b \<Rightarrow> u8 list option \<Rightarrow> int \<Rightarrow> (int \<times> 'b \<times> heap) exec"
    and ok :: "heap \<Rightarrow> 'b \<Rightarrow> bool"
    and contents :: "heap \<Rightarrow> 'b \<Rightarrow> u8 list"
    and block :: "'b \<Rightarrow> addr"
    and data_ok :: "u8 \<Rightarrow> bool"
  assumes append_null: "append h b None k = Inr (-1, b, h)"
    and ok_frame: "hp_mem h' (block b) = hp_mem h (block b) \<Longrightarrow> ok h' b = ok h b \<and> contents h' b = contents h b"
    and ok_live: "ok h b \<Longrightarrow> hp_mem h (block b) \<noteq> None"
    and append_ok: "ok h b \<Longrightarrow> heap_ok h \<Longrightarrow> n \<le> length src \<Longrightarrow> \<forall>x \<in> set (contents h b @ take n src). data_ok x \<Longrightarrow>
      length (contents h b) + n < 2 ^ 30 \<Longrightarrow>
      \<exists>r b' h'. append h b (Some src) (int n) = Inr (r, b', h') \<and> ok h' b' \<and> same_elsewhere h (block b) h' \<and>
        (block b' = block b \<or> hp_next h \<le> block b') \<and>
        contents h' b' = contents h b @ (if r = 0 then take n src else []) \<and> (r = 0 \<or> hp_oom h (hp_next h))"

text \<open>
  What a program does with the data it reads: libuv gets a block of 64 KiB from the allocation
  callback and stores the bytes there, the read callback appends them and frees the block.
\<close>

definition receive_one ::
    "(heap \<Rightarrow> 'b \<Rightarrow> u8 list option \<Rightarrow> int \<Rightarrow> (int \<times> 'b \<times> heap) exec) \<Rightarrow> heap \<Rightarrow> 'b \<Rightarrow> u8 list \<Rightarrow> (int \<times> 'b \<times> heap) exec" where
  "receive_one app h b x =
     (case malloc h 65536 of
        (None, _) \<Rightarrow> Inl NullDeref
      | (Some base, h1) \<Rightarrow>
          ebind (heap_write h1 base 0 x) (\<lambda>h2.
          ebind (heap_read h2 base 0 65536) (\<lambda>src.
          ebind (app h2 b (Some src) (int (length x))) (\<lambda>(r, b', h3).
          ebind (free_block h3 base) (\<lambda>h4. Inr (r, b', h4))))))"

primrec receive ::
    "(heap \<Rightarrow> 'b \<Rightarrow> u8 list option \<Rightarrow> int \<Rightarrow> (int \<times> 'b \<times> heap) exec) \<Rightarrow> heap \<Rightarrow> 'b \<Rightarrow> u8 list list \<Rightarrow> ('b \<times> heap) exec" where
  "receive app h b [] = Inr (b, h)"
| "receive app h b (x # xs) = ebind (receive_one app h b x) (\<lambda>(_, b', h'). receive app h' b' xs)"

context grow_buffer
begin

lemma receive_one_ok:
  assumes b: "ok h b" "heap_ok h" and x: "\<forall>y \<in> set (contents h b @ x). data_ok y" "length x \<le> 65536"
    and l: "length (contents h b) + length x < 2 ^ 30" and m: "\<forall>k. \<not> hp_oom h k"
  shows "\<exists>b' h'. receive_one append h b x = Inr (0, b', h') \<and> ok h' b' \<and> heap_ok h' \<and> hp_oom h' = hp_oom h \<and>
    contents h' b' = contents h b @ x"
proof -
  let ?base = "hp_next h"
  let ?h1 = "h\<lparr>hp_next := Suc ?base, hp_mem := (hp_mem h)(?base \<mapsto> replicate 65536 (hp_junk h))\<rparr>"
  let ?src = "x @ drop (length x) (replicate 65536 (hp_junk h))"
  let ?h2 = "?h1\<lparr>hp_mem := (hp_mem ?h1)(?base \<mapsto> ?src)\<rparr>"
  have ma: "malloc h 65536 = (Some ?base, ?h1)" using m by (simp add: malloc_def Let_def)
  have wr: "heap_write ?h1 ?base 0 x = Inr ?h2" using x(2) by (simp add: heap_write_def)
  have ls: "length ?src = 65536" using x(2) by simp
  have rd: "heap_read ?h2 ?base 0 65536 = Inr ?src" using ls by (simp add: heap_read_def del: drop_replicate)
  have ne: "block b < ?base" using ok_live [OF b(1)] b(2) by (auto simp: heap_ok_def)
  have h2: "ok ?h2 b" "contents ?h2 b = contents h b"
    using ok_frame [of ?h2 b h] b(1) ne by auto
  have hk: "heap_ok ?h2" using b(2) by (auto simp: heap_ok_def less_Suc_eq)
  have tk: "take (length x) ?src = x" by simp
  obtain r b' h3 where a: "append ?h2 b (Some ?src) (int (length x)) = Inr (r, b', h3)" "ok h3 b'"
    "same_elsewhere ?h2 (block b) h3" "block b' = block b \<or> hp_next ?h2 \<le> block b'"
    "contents h3 b' = contents ?h2 b @ (if r = 0 then take (length x) ?src else [])"
    "r = 0 \<or> hp_oom ?h2 (hp_next ?h2)"
    using append_ok [OF h2(1) hk, of "length x" ?src] x l ls unfolding h2(2) tk by auto
  have r: "r = 0" "contents h3 b' = contents h b @ x" using a(5,6) m h2(2) tk by auto
  let ?h4 = "h3\<lparr>hp_mem := (hp_mem h3)(?base := None)\<rparr>"
  have "hp_mem h3 ?base = hp_mem ?h2 ?base" using a(3) ne by (auto simp: same_elsewhere_def)
  then have fr: "free_block h3 ?base = Inr ?h4" by (simp add: free_block_def)
  have "block b' \<noteq> ?base" using a(4) ne by auto
  then have h4: "ok ?h4 b'" "contents ?h4 b' = contents h b @ x"
    using ok_frame [of ?h4 b' h3] a(2) r(2) by auto
  have "heap_ok ?h4" "hp_oom ?h4 = hp_oom h" using a(3) by (auto simp: same_elsewhere_def heap_ok_def)
  then show ?thesis using h4 unfolding receive_one_def ma prod.case option.case wr ebind_Inr rd a(1) fr r(1) by simp
qed

text \<open>Without failing allocations the buffer collects every piece, in order.\<close>

lemma receive_ok:
  assumes "ok h b" "heap_ok h" "\<forall>x \<in> set (contents h b @ concat xs). data_ok x" "\<forall>x \<in> set xs. length x \<le> 65536"
    and "length (contents h b) + length (concat xs) < 2 ^ 30" "\<forall>k. \<not> hp_oom h k"
  shows "\<exists>b' h'. receive append h b xs = Inr (b', h') \<and> ok h' b' \<and> heap_ok h' \<and> hp_oom h' = hp_oom h \<and>
    contents h' b' = contents h b @ concat xs"
  using assms
proof (induction xs arbitrary: h b)
  case (Cons x xs)
  have l: "\<forall>y \<in> set (contents h b @ x). data_ok y" "length x \<le> 65536" "length (contents h b) + length x < 2 ^ 30"
    using Cons.prems(3-5) by auto
  obtain b1 h1 where a: "receive_one append h b x = Inr (0, b1, h1)" "ok h1 b1" "heap_ok h1"
    "hp_oom h1 = hp_oom h" "contents h1 b1 = contents h b @ x"
    using receive_one_ok [OF Cons.prems(1,2) l Cons.prems(6)] by blast
  then show ?case using Cons.IH [OF a(2,3)] Cons.prems(3-6) by auto
qed simp

end

section \<open>Both buffers keep it\<close>

interpretation proxy_buf: grow_buffer rts_buf_append rts_buf_ok rts_buf_contents rb_buf "\<lambda>_. True"
proof unfold_locales
  fix h b n show "rts_buf_append h b None n = Inr (-1, b, h)" by (rule rts_buf_append_null)
next
  fix h h' :: heap and b :: rts_buf_t assume "hp_mem h' (rb_buf b) = hp_mem h (rb_buf b)"
  then show "rts_buf_ok h' b = rts_buf_ok h b \<and> rts_buf_contents h' b = rts_buf_contents h b"
    by (simp add: rts_buf_ok_def rts_buf_contents_def)
next
  fix h b assume "rts_buf_ok h b"
  then show "hp_mem h (rb_buf b) \<noteq> None" by (rule rts_buf_ok_live)
next
  fix h b n and src :: "u8 list"
  assume b: "rts_buf_ok h b" "heap_ok h" and n: "n \<le> length src" and l: "length (rts_buf_contents h b) + n < 2 ^ 30"
  have f: "rts_buf_fits b (int n)" "int n \<le> int (length src)"
    using length_rts_buf_contents [OF b(1)] l n by (simp_all add: rts_buf_fits_def)
  have h: "rts_buf_ok (h\<lparr>hp_next := Suc (hp_next h)\<rparr>) b"
    "rts_buf_contents (h\<lparr>hp_next := Suc (hp_next h)\<rparr>) b = rts_buf_contents h b"
    "same_elsewhere h (rb_buf b) (h\<lparr>hp_next := Suc (hp_next h)\<rparr>)"
    using b heap_ok_Suc_next by (auto simp: rts_buf_ok_def rts_buf_contents_def same_elsewhere_def)
  from rts_buf_append_cases [OF b f]
  show "\<exists>r b' h'. rts_buf_append h b (Some src) (int n) = Inr (r, b', h') \<and> rts_buf_ok h' b' \<and>
      same_elsewhere h (rb_buf b) h' \<and> (rb_buf b' = rb_buf b \<or> hp_next h \<le> rb_buf b') \<and>
      rts_buf_contents h' b' = rts_buf_contents h b @ (if r = 0 then take n src else []) \<and> (r = 0 \<or> hp_oom h (hp_next h))"
  proof (elim disjE exE conjE)
    fix b' h' assume "rts_buf_append h b (Some src) (int n) = Inr (0, b', h')" "rts_buf_appended h b (take (nat (int n)) src) b' h'"
    then show ?thesis
      by (intro exI [of _ 0] exI [of _ b'] exI [of _ h']) (auto simp: rts_buf_appended_def same_elsewhere_def)
  next
    assume "hp_oom h (hp_next h)" "rts_buf_append h b (Some src) (int n) = Inr (-3, b, h\<lparr>hp_next := Suc (hp_next h)\<rparr>)"
    then show ?thesis using h by simp
  qed
qed

definition echo_buf_ok :: "heap \<Rightarrow> echo_buf \<Rightarrow> bool" where
  "echo_buf_ok h b \<longleftrightarrow>
     (case hp_mem h (eb_buf b) of None \<Rightarrow> False | Some blk \<Rightarrow> int (length blk) = eb_capacity b) \<and>
     0 \<le> eb_size b \<and> eb_size b < eb_capacity b \<and> 0 < eb_capacity b \<and> eb_capacity b < 2 ^ 31"

definition echo_buf_contents :: "heap \<Rightarrow> echo_buf \<Rightarrow> u8 list" where
  "echo_buf_contents h b =
     (case hp_mem h (eb_buf b) of None \<Rightarrow> [] | Some blk \<Rightarrow> take (nat (eb_size b)) blk)"

lemma echo_buf_okE:
  assumes "echo_buf_ok h b"
  obtains blk where "hp_mem h (eb_buf b) = Some blk" "int (length blk) = eb_capacity b"
    "0 \<le> eb_size b" "eb_size b < eb_capacity b" "0 < eb_capacity b" "eb_capacity b < 2 ^ 31"
  using assms by (auto simp: echo_buf_ok_def split: option.splits)

lemma echo_new_cap:
  assumes "0 \<le> sz" "sz \<le> cap" "0 < cap" "0 < alloc" "sz + alloc \<le> 2 ^ 30" "cap - sz < alloc"
  shows "to_int (if to_size_t (sz + alloc - cap) \<ge> cap then to_size_t (sz + alloc) else to_size_t (cap * 2)) =
    max (sz + alloc) (cap * 2)"
  using assms by (auto simp: max_def)

text \<open>The step from a buffer with room to the result, which both branches end with.\<close>

lemma echo_buf_store:
  assumes blk: "hp_mem h (eb_buf b) = Some blk" "int (length blk) = eb_capacity b"
    and s: "0 \<le> eb_size b" "eb_size b + int n < eb_capacity b" "0 < eb_capacity b" "eb_capacity b < 2 ^ 31"
    and h: "heap_ok h" and t: "0 \<notin> set (take n src)" "n \<le> length src"
  shows "\<exists>h'. ebind (strncpy src n) (\<lambda>bytes.
      ebind (heap_write h (eb_buf b) (eb_size b) bytes) (\<lambda>h5.
      Inr (0, b\<lparr>eb_size := to_size_t (eb_size b + int n)\<rparr>, h5))) =
      Inr (0, b\<lparr>eb_size := eb_size b + int n\<rparr>, h') \<and>
    echo_buf_ok h' (b\<lparr>eb_size := eb_size b + int n\<rparr>) \<and> same_elsewhere h (eb_buf b) h' \<and>
    echo_buf_contents h' (b\<lparr>eb_size := eb_size b + int n\<rparr>) = take (nat (eb_size b)) blk @ take n src"
proof -
  let ?bs = "take n src"
  have lb: "length ?bs = n" using t(2) by simp
  let ?new = "take (nat (eb_size b)) blk @ ?bs @ drop (nat (eb_size b) + n) blk"
  let ?h = "h\<lparr>hp_mem := (hp_mem h)(eb_buf b \<mapsto> ?new)\<rparr>"
  have w: "heap_write h (eb_buf b) (eb_size b) ?bs = Inr ?h" using blk s lb by (simp add: heap_write_def)
  have z: "to_size_t (eb_size b + int n) = eb_size b + int n" using s by simp
  have k: "nat (eb_size b + int n) = nat (eb_size b) + n" using s by (simp add: nat_add_distrib)
  have l: "int (length ?new) = eb_capacity b" using blk(2) s lb by auto
  have "same_elsewhere h (eb_buf b) ?h" using h blk(1) by (auto simp: heap_ok_def same_elsewhere_def)
  then show ?thesis
    using w z k l s blk lb strncpy_text [OF t] by (simp add: echo_buf_ok_def echo_buf_contents_def)
qed

interpretation echo_buf: grow_buffer echo_buf_append echo_buf_ok echo_buf_contents eb_buf "\<lambda>x. x \<noteq> 0"
proof unfold_locales
  fix h b n show "echo_buf_append h b None n = Inr (-1, b, h)" by (simp add: echo_buf_append_def)
next
  fix h h' :: heap and b :: echo_buf assume "hp_mem h' (eb_buf b) = hp_mem h (eb_buf b)"
  then show "echo_buf_ok h' b = echo_buf_ok h b \<and> echo_buf_contents h' b = echo_buf_contents h b"
    by (simp add: echo_buf_ok_def echo_buf_contents_def)
next
  fix h b assume "echo_buf_ok h b"
  then show "hp_mem h (eb_buf b) \<noteq> None" by (auto elim: echo_buf_okE)
next
  fix h b n and src :: "u8 list"
  assume b: "echo_buf_ok h b" "heap_ok h" and n: "n \<le> length src"
    and t: "\<forall>x \<in> set (echo_buf_contents h b @ take n src). x \<noteq> 0"
    and l: "length (echo_buf_contents h b) + n < 2 ^ 30"
  obtain blk where blk: "hp_mem h (eb_buf b) = Some blk" "int (length blk) = eb_capacity b"
    and s: "0 \<le> eb_size b" "eb_size b < eb_capacity b" "0 < eb_capacity b" "eb_capacity b < 2 ^ 31"
    using b(1) by (rule echo_buf_okE)
  let ?old = "take (nat (eb_size b)) blk"
  have c: "echo_buf_contents h b = ?old" "length ?old = nat (eb_size b)"
    using blk s by (simp_all add: echo_buf_contents_def)
  have sz: "eb_size b + (int n + 1) \<le> 2 ^ 30" using l c s(1) by simp
  have al: "to_size_t (int n + 1) = int n + 1" and rm: "to_size_t (eb_capacity b - eb_size b) = eb_capacity b - eb_size b"
    using sz s by simp_all
  have t': "0 \<notin> set (take n src)" "0 \<notin> set ?old" using t c(1) by auto
  show "\<exists>r b' h'. echo_buf_append h b (Some src) (int n) = Inr (r, b', h') \<and> echo_buf_ok h' b' \<and>
      same_elsewhere h (eb_buf b) h' \<and> (eb_buf b' = eb_buf b \<or> hp_next h \<le> eb_buf b') \<and>
      echo_buf_contents h' b' = echo_buf_contents h b @ (if r = 0 then take n src else []) \<and> (r = 0 \<or> hp_oom h (hp_next h))"
  proof (cases "eb_capacity b - eb_size b < int n + 1")
    case False
    then obtain h' where h': "echo_buf_append h b (Some src) (int n) = Inr (0, b\<lparr>eb_size := eb_size b + int n\<rparr>, h')"
      "echo_buf_ok h' (b\<lparr>eb_size := eb_size b + int n\<rparr>)" "same_elsewhere h (eb_buf b) h'"
      "echo_buf_contents h' (b\<lparr>eb_size := eb_size b + int n\<rparr>) = ?old @ take n src"
      using echo_buf_store [OF blk s(1) _ s(3,4) b(2) t'(1) n] by (auto simp: echo_buf_append_def Let_def al rm)
    then show ?thesis unfolding c(1)
      by (intro exI [of _ 0] exI [of _ "b\<lparr>eb_size := eb_size b + int n\<rparr>"] exI [of _ h']) simp
  next
    case grow: True
    let ?c = "max (eb_size b + (int n + 1)) (eb_capacity b * 2)"
    have nc: "to_int (if to_size_t (eb_size b + (int n + 1) - eb_capacity b) \<ge> eb_capacity b
        then to_size_t (eb_size b + (int n + 1)) else to_size_t (eb_capacity b * 2)) = ?c"
      using s sz grow by (intro echo_new_cap) auto
    have cb: "0 < ?c" "?c < 2 ^ 31" "eb_size b + int n < ?c" "to_size_t ?c = ?c"
      using s sz grow by (auto simp: max_def)
    show ?thesis
    proof (cases "hp_oom h (hp_next h)")
      case True
      then have "echo_buf_append h b (Some src) (int n) = Inr (-2, b, h\<lparr>hp_next := Suc (hp_next h)\<rparr>)"
        using grow by (simp add: echo_buf_append_def al rm nc malloc_def Let_def)
      moreover have "echo_buf_ok (h\<lparr>hp_next := Suc (hp_next h)\<rparr>) b" using b(1) by (simp add: echo_buf_ok_def)
      moreover have "same_elsewhere h (eb_buf b) (h\<lparr>hp_next := Suc (hp_next h)\<rparr>)"
        using heap_ok_Suc_next [OF b(2)] by (simp add: same_elsewhere_def)
      ultimately show ?thesis using True by (simp add: echo_buf_contents_def)
    next
      case no_oom: False
      let ?a = "hp_next h"
      let ?new = "?old @ replicate (nat (?c - eb_size b)) (hp_junk h)"
      let ?h1 = "h\<lparr>hp_next := Suc ?a, hp_mem := (hp_mem h)(?a \<mapsto> replicate (nat ?c) (hp_junk h))\<rparr>"
      let ?h2 = "h\<lparr>hp_next := Suc ?a, hp_mem := (hp_mem h)(?a \<mapsto> ?new)\<rparr>"
      let ?h3 = "h\<lparr>hp_next := Suc ?a, hp_mem := (hp_mem h)(?a \<mapsto> ?new, eb_buf b := None)\<rparr>"
      let ?b1 = "b\<lparr>eb_capacity := ?c, eb_buf := ?a\<rparr>"
      have ne: "eb_buf b \<noteq> ?a" using b(2) blk(1) by (auto simp: heap_ok_def)
      have rd: "heap_read ?h1 (eb_buf b) 0 (eb_size b) = Inr ?old"
        using ne blk s by (simp add: heap_read_def)
      have sc: "strncpy ?old (nat (eb_size b)) = Inr ?old"
        using strncpy_text [of "nat (eb_size b)" ?old] t'(2) c(2) by simp
      have wr: "heap_write ?h1 ?a 0 ?old = Inr ?h2"
        using cb s c(2) by (simp add: heap_write_def nat_diff_distrib)
      have fr: "free_block ?h2 (eb_buf b) = Inr ?h3" using ne blk by (simp add: free_block_def)
      have m3: "hp_mem ?h3 (eb_buf ?b1) = Some ?new" using ne by simp
      have l3: "int (length ?new) = eb_capacity ?b1" using cb s c(2) by simp
      have h3: "heap_ok ?h3" using b(2) by (auto simp: heap_ok_def less_Suc_eq)
      have ap: "echo_buf_append h b (Some src) (int n) =
          ebind (strncpy src n) (\<lambda>bytes.
          ebind (heap_write ?h3 (eb_buf ?b1) (eb_size ?b1) bytes) (\<lambda>h5.
          Inr (0, ?b1\<lparr>eb_size := to_size_t (eb_size ?b1 + int n)\<rparr>, h5)))"
        unfolding echo_buf_append_def option.case Let_def al rm nc
        using grow no_oom cb(4) by (simp add: malloc_def Let_def rd sc wr fr)
      have tk: "take (nat (eb_size ?b1)) ?new = ?old" using c(2) by simp
      obtain h' where h': "echo_buf_append h b (Some src) (int n) = Inr (0, ?b1\<lparr>eb_size := eb_size ?b1 + int n\<rparr>, h')"
        "echo_buf_ok h' (?b1\<lparr>eb_size := eb_size ?b1 + int n\<rparr>)" "same_elsewhere ?h3 (eb_buf ?b1) h'"
        "echo_buf_contents h' (?b1\<lparr>eb_size := eb_size ?b1 + int n\<rparr>) = take (nat (eb_size ?b1)) ?new @ take n src"
        using echo_buf_store [OF m3 l3 _ _ _ _ h3 t'(1) n] s cb ap by auto
      have "same_elsewhere h (eb_buf b) h'" using h'(3) by (auto simp: same_elsewhere_def)
      then show ?thesis using h' unfolding tk c(1)
        by (intro exI [of _ 0] exI [of _ "?b1\<lparr>eb_size := eb_size ?b1 + int n\<rparr>"] exI [of _ h']) simp
    qed
  qed
qed

section \<open>The callbacks\<close>

text \<open>
  A connection of the client: \<open>data\<close> of the stream, whether it is being read and closed, the requests
  it was asked to send and the texts the client printed behind \<open>recv:\<close>.
\<close>

definition UV_EOF :: int where "UV_EOF = -4095"

record echo_conn =
  ec_data :: "echo_buf option"
  ec_reading :: bool
  ec_closing :: bool
  ec_sent :: "u8 list list"
  ec_printed :: "u8 list list"

definition hello_wall :: "u8 list" where
  "hello_wall = map of_char ''Hello Wall!''"

definition client_alloc_buffer :: "heap \<Rightarrow> int \<Rightarrow> addr option \<times> heap" where
  "client_alloc_buffer h suggested_size = malloc h suggested_size"

definition on_connect :: "heap \<Rightarrow> echo_conn \<Rightarrow> int \<Rightarrow> (echo_conn \<times> heap) exec" where
  "on_connect h c status =
     (if status < 0 then Inr (c, h)
      else
        (case malloc_obj h of
           (False, _) \<Rightarrow> Inl NullDeref
         | (True, h1) \<Rightarrow> Inr (c\<lparr>ec_reading := True, ec_sent := ec_sent c @ [hello_wall]\<rparr>, h1)))"

text \<open>The write callback only logs and frees its request.\<close>

definition client_after_write :: "echo_conn \<Rightarrow> int \<Rightarrow> echo_conn" where
  "client_after_write c status = c"

text \<open>The loop of \<open>main\<close>: \<open>n\<close> connections, each with a fresh buffer; a buffer that is NULL is not noticed.\<close>

primrec client_connections :: "heap \<Rightarrow> nat \<Rightarrow> (echo_conn list \<times> heap) exec" where
  "client_connections h 0 = Inr ([], h)"
| "client_connections h (Suc n) =
     ebind (echo_buf_init h 16) (\<lambda>(p, h1).
     ebind (client_connections h1 n) (\<lambda>(cs, h2).
     Inr (\<lparr>ec_data = p, ec_reading = False, ec_closing = False, ec_sent = [], ec_printed = []\<rparr> # cs, h2)))"

definition client_main :: "heap \<Rightarrow> (echo_conn list \<times> heap) exec" where
  "client_main h = client_connections h 100"

text \<open>\<open>buf[size] = 0\<close>, the \<open>printf\<close> of the text up to the NUL, and \<open>size = 0\<close>.\<close>

definition print_received :: "heap \<Rightarrow> echo_conn \<Rightarrow> (echo_conn \<times> heap) exec" where
  "print_received h c =
     ebind (deref (ec_data c)) (\<lambda>b.
     ebind (heap_write h (eb_buf b) (eb_size b) [0]) (\<lambda>h1.
     ebind (heap_read h1 (eb_buf b) 0 (eb_size b + 1)) (\<lambda>bytes.
     Inr (c\<lparr>ec_data := Some (b\<lparr>eb_size := 0\<rparr>),
            ec_printed := ec_printed c @ [takeWhile (\<lambda>x. x \<noteq> 0) bytes]\<rparr>, h1))))"

definition after_read :: "heap \<Rightarrow> echo_conn \<Rightarrow> int \<Rightarrow> addr option \<Rightarrow> (echo_conn \<times> heap) exec" where
  "after_read h c nread base =
     ebind
       (if nread < 0 then
          ebind (if nread \<noteq> UV_EOF then Inr (c, h) else print_received h c) (\<lambda>(c1, h1).
          Inr (c1\<lparr>ec_closing := True, ec_reading := False\<rparr>, h1))
        else if nread > 0 then
          ebind (case base of None \<Rightarrow> Inr None | Some a \<Rightarrow> ebind (heap_read h a 0 65536) (\<lambda>src. Inr (Some src))) (\<lambda>src.
          ebind (deref (ec_data c)) (\<lambda>b.
          ebind (echo_buf_append h b src nread) (\<lambda>(r, b', h').
          Inr (c\<lparr>ec_data := Some b'\<rparr>, h'))))
        else print_received h c)
       (\<lambda>(c2, h2).
     case base of
       None \<Rightarrow> Inr (c2, h2)
     | Some a \<Rightarrow> ebind (free_block h2 a) (\<lambda>h3. Inr (c2, h3)))"

text \<open>
  libuv delivers the result of a read: it asks for a block of 64 KiB, stores the bytes in it and calls
  the read callback.
\<close>

definition client_readable :: "heap \<Rightarrow> echo_conn \<Rightarrow> int \<Rightarrow> u8 list \<Rightarrow> (echo_conn \<times> heap) exec" where
  "client_readable h c nread bytes =
     (if \<not> ec_reading c then Inr (c, h)
      else
        (case client_alloc_buffer h 65536 of
           (None, _) \<Rightarrow> Inl NullDeref
         | (Some base, h1) \<Rightarrow>
             ebind (heap_write h1 base 0 (take (nat nread) bytes)) (\<lambda>h2. after_read h2 c nread (Some base))))"

fun client_reads :: "heap \<Rightarrow> echo_conn \<Rightarrow> (int \<times> u8 list) list \<Rightarrow> (echo_conn \<times> heap) exec" where
  "client_reads h c [] = Inr (c, h)"
| "client_reads h c ((n, bytes) # es) =
     ebind (client_readable h c n bytes) (\<lambda>(c1, h1). client_reads h1 c1 es)"

section \<open>What the client prints\<close>

lemma client_reads_append:
  "client_reads h c (xs @ ys) = ebind (client_reads h c xs) (\<lambda>(c1, h1). client_reads h1 c1 ys)"
  by (induction h c xs rule: client_reads.induct) (auto simp: ebind_assoc split: prod.splits intro!: arg_cong2 [where f = ebind])

text \<open>Reading data is receiving it in the buffer.\<close>

lemma client_readable_data:
  assumes "ec_reading c" "ec_data c = Some b" "0 < length x"
  shows "client_readable h c (int (length x)) x =
    ebind (receive_one echo_buf_append h b x) (\<lambda>(_, b', h'). Inr (c\<lparr>ec_data := Some b'\<rparr>, h'))"
  using assms
  by (simp add: client_readable_def client_alloc_buffer_def receive_one_def after_read_def ebind_assoc split_def
      split: option.split)

lemma client_reads_data:
  assumes "ec_reading c" "ec_data c = Some b" "[] \<notin> set xs"
  shows "client_reads h c (map (\<lambda>x. (int (length x), x)) xs) =
    ebind (receive echo_buf_append h b xs) (\<lambda>(b', h'). Inr (c\<lparr>ec_data := Some b'\<rparr>, h'))"
  using assms
proof (induction xs arbitrary: h b c)
  case Nil
  then show ?case by simp
next
  case (Cons x xs)
  have x: "0 < length x" "[] \<notin> set xs" using Cons.prems(3) by auto
  have "client_reads h1 (c\<lparr>ec_data := Some b1\<rparr>) (map (\<lambda>x. (int (length x), x)) xs) =
      ebind (receive echo_buf_append h1 b1 xs) (\<lambda>(b', h'). Inr (c\<lparr>ec_data := Some b'\<rparr>, h'))" for h1 b1
    using Cons.IH [of "c\<lparr>ec_data := Some b1\<rparr>" b1 h1] Cons.prems(1) x(2) by simp
  then show ?case
    using client_readable_data [OF Cons.prems(1,2) x(1), of h]
    by (auto simp: ebind_assoc split: prod.splits intro!: arg_cong2 [where f = ebind])
qed

lemma print_received_ok:
  assumes "echo_buf_ok h b" "heap_ok h" "ec_data c = Some b" "0 \<notin> set (echo_buf_contents h b)"
  shows "\<exists>h'. print_received h c = Inr (c\<lparr>ec_data := Some (b\<lparr>eb_size := 0\<rparr>),
      ec_printed := ec_printed c @ [echo_buf_contents h b]\<rparr>, h') \<and>
    echo_buf_ok h' (b\<lparr>eb_size := 0\<rparr>) \<and> heap_ok h' \<and> hp_next h' = hp_next h \<and> hp_oom h' = hp_oom h \<and>
    (\<forall>a. hp_mem h' a = None \<longleftrightarrow> hp_mem h a = None)"
proof -
  obtain blk where blk: "hp_mem h (eb_buf b) = Some blk" "int (length blk) = eb_capacity b"
    and s: "0 \<le> eb_size b" "eb_size b < eb_capacity b" "0 < eb_capacity b" "eb_capacity b < 2 ^ 31"
    using assms(1) by (rule echo_buf_okE)
  let ?old = "take (nat (eb_size b)) blk"
  let ?new = "?old @ [0] @ drop (nat (eb_size b) + 1) blk"
  let ?h = "h\<lparr>hp_mem := (hp_mem h)(eb_buf b \<mapsto> ?new)\<rparr>"
  have c: "echo_buf_contents h b = ?old" "length ?old = nat (eb_size b)"
    using blk s by (simp_all add: echo_buf_contents_def)
  have w: "heap_write h (eb_buf b) (eb_size b) [0] = Inr ?h" using blk s by (simp add: heap_write_def)
  have l: "int (length ?new) = eb_capacity b" using blk(2) s by auto
  have n: "nat (eb_size b + 1) = nat (eb_size b) + 1" using s(1) by simp
  have "take (nat (eb_size b + 1)) ?new = ?old @ [0]" unfolding n using c(2) by simp
  then have r: "heap_read ?h (eb_buf b) 0 (eb_size b + 1) = Inr (?old @ [0])"
    using l s by (simp add: heap_read_def)
  have t: "takeWhile (\<lambda>x. x \<noteq> 0) (?old @ [0]) = ?old"
    using assms(4) c(1) by (subst takeWhile_append2) auto
  have "heap_ok ?h" "echo_buf_ok ?h (b\<lparr>eb_size := 0\<rparr>)"
    using assms(2) blk(1) l s by (auto simp: heap_ok_def echo_buf_ok_def)
  then show ?thesis using blk(1) unfolding print_received_def assms(3) deref_Some ebind_Inr w r t c(1) by simp
qed

end
