(* ===== verification/EchoServer.thy ===== *)
theory EchoServer
  imports EchoClient
begin

text \<open>
  The echo server, \<open>demo/echo_server/server.c\<close>: the callbacks of a worker process on its connections
  and the event loop that calls them, and an abstract echo service that healthy runs implement.
\<close>

section \<open>State\<close>

text \<open>A queued write request is the address, the offset and the number of the bytes still to be written.\<close>

record srv_conn =
  sv_reading :: bool
  sv_closing :: bool
  sv_writes :: "(addr \<times> int \<times> int) list"
  sv_sent :: "u8 list"

record echo_server =
  es_heap :: heap
  es_conns :: "nat \<Rightarrow> srv_conn option"
  es_next :: nat

definition fresh_conn :: srv_conn where
  "fresh_conn = \<lparr>sv_reading = False, sv_closing = False, sv_writes = [], sv_sent = []\<rparr>"

definition get_conn :: "echo_server \<Rightarrow> nat \<Rightarrow> srv_conn exec" where
  "get_conn s c = (case es_conns s c of None \<Rightarrow> Inl UseAfterFree | Some x \<Rightarrow> Inr x)"

definition put_conn :: "echo_server \<Rightarrow> nat \<Rightarrow> srv_conn \<Rightarrow> echo_server" where
  "put_conn s c x = s\<lparr>es_conns := (es_conns s)(c \<mapsto> x)\<rparr>"

section \<open>Callbacks\<close>

text \<open>A failing \<open>malloc\<close> of the handle or of the request is not checked before it is used.\<close>

definition on_new_connection :: "echo_server \<Rightarrow> int \<Rightarrow> int \<Rightarrow> echo_server exec" where
  "on_new_connection s status accept_res =
     (if status < 0 then Inr s
      else
        (case malloc_obj (es_heap s) of
           (False, _) \<Rightarrow> Inl NullDeref
         | (True, h) \<Rightarrow>
             (let x = (if accept_res = 0 then fresh_conn\<lparr>sv_reading := True\<rparr> else fresh_conn\<lparr>sv_closing := True\<rparr>) in
              Inr (put_conn (s\<lparr>es_heap := h, es_next := Suc (es_next s)\<rparr>) (es_next s) x))))"

definition srv_alloc_buffer :: "heap \<Rightarrow> int \<Rightarrow> addr option \<times> int \<times> heap" where
  "srv_alloc_buffer h suggested_size =
     (let n = to_size_t (suggested_size + 1) in case malloc h n of (p, h1) \<Rightarrow> (p, n, h1))"

text \<open>
  \<open>uv_write\<close>: with an empty queue libuv writes at once as much as the kernel takes, here \<open>k\<close> bytes,
  and queues the rest; the bytes of a queued request are read when the kernel takes them.
\<close>

definition srv_uv_write :: "echo_server \<Rightarrow> nat \<Rightarrow> addr \<Rightarrow> int \<Rightarrow> nat \<Rightarrow> echo_server exec" where
  "srv_uv_write s c base len k =
     ebind (get_conn s c) (\<lambda>x.
     if sv_closing x then Inr s
     else if sv_writes x \<noteq> [] then Inr (put_conn s c (x\<lparr>sv_writes := sv_writes x @ [(base, 0, len)]\<rparr>))
     else
       (let m = min (int k) len in
        ebind (heap_read (es_heap s) base 0 m) (\<lambda>bytes.
        Inr (put_conn s c
          (x\<lparr>sv_sent := sv_sent x @ bytes, sv_writes := (if m = len then [] else [(base, m, len - m)])\<rparr>)))))"

definition echo_read :: "echo_server \<Rightarrow> nat \<Rightarrow> int \<Rightarrow> addr option \<Rightarrow> nat \<Rightarrow> echo_server exec" where
  "echo_read s c nread base k =
     ebind
       (if nread < 0 then
          ebind (get_conn s c) (\<lambda>x. Inr (put_conn s c (x\<lparr>sv_closing := True, sv_reading := False\<rparr>)))
        else if nread > 0 then
          (case malloc_obj (es_heap s) of
             (False, _) \<Rightarrow> Inl NullDeref
           | (True, h) \<Rightarrow>
               ebind (deref base) (\<lambda>a.
               ebind (srv_uv_write (s\<lparr>es_heap := h\<rparr>) c a nread k) (\<lambda>s1.
               ebind (heap_write (es_heap s1) a nread [0]) (\<lambda>h2. Inr (s1\<lparr>es_heap := h2\<rparr>)))))
        else Inr s)
       (\<lambda>s2.
     case base of
       None \<Rightarrow> Inr s2
     | Some a \<Rightarrow> ebind (free_block (es_heap s2) a) (\<lambda>h3. Inr (s2\<lparr>es_heap := h3\<rparr>)))"

text \<open>\<open>echo_write\<close> only logs and frees its request.\<close>

definition echo_write :: "echo_server \<Rightarrow> int \<Rightarrow> echo_server" where
  "echo_write s status = s"

section \<open>The event loop\<close>

text \<open>
  A connection attempt with the result of \<open>uv_accept\<close>; the result \<open>n\<close> of a read on connection \<open>c\<close> with
  its bytes, and how many bytes the kernel takes of an answer written at once; up to \<open>k\<close> bytes taken
  from the queue; a write error.
\<close>

datatype echo_event =
    EchoConnection int int
  | EchoReadable nat int "u8 list" nat
  | EchoFlush nat nat
  | EchoWriteError nat int

fun echo_step :: "echo_server \<Rightarrow> echo_event \<Rightarrow> echo_server exec" where
  "echo_step s (EchoConnection status accept_res) = on_new_connection s status accept_res"
| "echo_step s (EchoReadable c nread bytes k) =
     ebind (get_conn s c) (\<lambda>x.
     if \<not> sv_reading x then Inr s
     else
       (case srv_alloc_buffer (es_heap s) 65536 of
          (None, _) \<Rightarrow> Inl NullDeref
        | (Some base, _, h) \<Rightarrow>
            ebind (heap_write h base 0 (take (nat nread) bytes)) (\<lambda>h1.
            echo_read (s\<lparr>es_heap := h1\<rparr>) c nread (Some base) k)))"
| "echo_step s (EchoFlush c k) =
     ebind (get_conn s c) (\<lambda>x.
     case sv_writes x of
       [] \<Rightarrow> Inr s
     | (base, off, len) # rs \<Rightarrow>
         if sv_closing x then Inr s
         else
           (let m = min (int k) len in
            ebind (heap_read (es_heap s) base off m) (\<lambda>bytes.
            (let s1 = put_conn s c (x\<lparr>sv_sent := sv_sent x @ bytes,
                sv_writes := (if m = len then rs else (base, off + m, len - m) # rs)\<rparr>)
             in Inr (if m = len then echo_write s1 0 else s1)))))"
| "echo_step s (EchoWriteError c status) =
     ebind (get_conn s c) (\<lambda>x. Inr (echo_write (put_conn s c (x\<lparr>sv_writes := tl (sv_writes x)\<rparr>)) status))"

fun echo_run :: "echo_server \<Rightarrow> echo_event list \<Rightarrow> echo_server exec" where
  "echo_run s [] = Inr s"
| "echo_run s (e # es) = ebind (echo_step s e) (\<lambda>s1. echo_run s1 es)"

definition echo_init :: "heap \<Rightarrow> echo_server" where
  "echo_init h = \<lparr>es_heap = h, es_conns = (\<lambda>_. None), es_next = 0\<rparr>"

section \<open>The abstract service\<close>

text \<open>A connection is open or not and has been sent some bytes; data of an open connection is sent back.\<close>

record echo_spec =
  sp_conns :: "nat \<Rightarrow> (bool \<times> u8 list) option"
  sp_next :: nat

fun spec_step :: "echo_spec \<Rightarrow> echo_event \<Rightarrow> echo_spec" where
  "spec_step a (EchoConnection status accept_res) =
     (if status < 0 then a
      else a\<lparr>sp_conns := (sp_conns a)(sp_next a \<mapsto> (accept_res = 0, [])), sp_next := Suc (sp_next a)\<rparr>)"
| "spec_step a (EchoReadable c nread bytes k) =
     (case sp_conns a c of
        Some (True, sent) \<Rightarrow>
          if nread < 0 then a\<lparr>sp_conns := (sp_conns a)(c \<mapsto> (False, sent))\<rparr>
          else a\<lparr>sp_conns := (sp_conns a)(c \<mapsto> (True, sent @ take (nat nread) bytes))\<rparr>
      | _ \<Rightarrow> a)"
| "spec_step a (EchoFlush c k) = a"
| "spec_step a (EchoWriteError c status) = a"

definition echo_abs :: "echo_server \<Rightarrow> echo_spec" where
  "echo_abs s = \<lparr>sp_conns = (\<lambda>c. map_option (\<lambda>x. (sv_reading x, sv_sent x)) (es_conns s c)), sp_next = es_next s\<rparr>"

text \<open>
  A healthy event: it is for an existing connection, a read delivers at most 64 KiB, and the kernel
  takes the whole answer at once.
\<close>

definition healthy_event :: "echo_spec \<Rightarrow> echo_event \<Rightarrow> bool" where
  "healthy_event a e =
     (case e of
        EchoConnection _ _ \<Rightarrow> True
      | EchoReadable c n bytes k \<Rightarrow> sp_conns a c \<noteq> None \<and> n \<le> int (length bytes) \<and> n \<le> 65536 \<and> n \<le> int k
      | EchoFlush c _ \<Rightarrow> sp_conns a c \<noteq> None
      | EchoWriteError c _ \<Rightarrow> sp_conns a c \<noteq> None)"

text \<open>The invariant of healthy runs: nothing is queued, an open connection is not being closed.\<close>

definition echo_inv :: "echo_server \<Rightarrow> bool" where
  "echo_inv s \<longleftrightarrow> heap_ok (es_heap s) \<and> (\<forall>k. \<not> hp_oom (es_heap s) k) \<and>
     (\<forall>c x. es_conns s c = Some x \<longrightarrow> sv_writes x = [] \<and> (sv_reading x \<longrightarrow> \<not> sv_closing x) \<and> c < es_next s)"

text \<open>A read puts the bytes at the start of a fresh block of 64 KiB and one byte and calls \<open>echo_read\<close>.\<close>

definition read_heap :: "heap \<Rightarrow> u8 list \<Rightarrow> heap" where
  "read_heap h bs = h\<lparr>hp_next := Suc (hp_next h),
     hp_mem := (hp_mem h)(hp_next h \<mapsto> bs @ replicate (65537 - length bs) (hp_junk h))\<rparr>"

lemma echo_step_readable:
  assumes i: "echo_inv s" and x: "es_conns s c = Some x" "sv_reading x" and n: "length (take (nat n) bytes) \<le> 65537"
  shows "echo_step s (EchoReadable c n bytes k) =
    echo_read (s\<lparr>es_heap := read_heap (es_heap s) (take (nat n) bytes)\<rparr>) c n (Some (hp_next (es_heap s))) k"
proof -
  let ?bs = "take (nat n) bytes" and ?h = "es_heap s"
  let ?hm = "?h\<lparr>hp_next := Suc (hp_next ?h), hp_mem := (hp_mem ?h)(hp_next ?h \<mapsto> replicate 65537 (hp_junk ?h))\<rparr>"
  have "\<not> hp_oom ?h (hp_next ?h)" using i by (auto simp: echo_inv_def)
  then have "srv_alloc_buffer ?h 65536 = (Some (hp_next ?h), 65537, ?hm)"
    by (simp add: srv_alloc_buffer_def malloc_def Let_def)
  moreover have "\<not> 65537 < length ?bs" using n by linarith
  then have "heap_write ?hm (hp_next ?h) 0 ?bs = Inr (read_heap ?h ?bs)"
    by (simp add: heap_write_def read_heap_def del: length_take)
  ultimately show ?thesis using x by (simp add: get_conn_def)
qed

text \<open>The answer: \<open>uv_write\<close> with \<open>m\<close> of the \<open>n\<close> bytes taken at once, the NUL behind the bytes, \<open>free\<close>.\<close>

lemma echo_read_data:
  fixes k n :: nat
  assumes i: "echo_inv s" and x: "es_conns s c = Some x" "sv_reading x"
    and n: "length bs = n" "0 < n" "n \<le> 65537"
  defines "a \<equiv> hp_next (es_heap s)" and "m \<equiv> min k n"
  defines "h \<equiv> es_heap s\<lparr>hp_next := Suc (Suc a)\<rparr>"
  defines "y \<equiv> x\<lparr>sv_sent := sv_sent x @ take m bs,
    sv_writes := (if m = n then [] else [(a, int m, int n - int m)])\<rparr>"
  shows "echo_read (s\<lparr>es_heap := read_heap (es_heap s) bs\<rparr>) c (int n) (Some a) k =
    (if n = 65537 then Inl OutOfBounds else Inr (put_conn (s\<lparr>es_heap := h\<lparr>hp_mem := (hp_mem h)(a := None)\<rparr>\<rparr>) c y))"
proof -
  have nm: "\<And>k. \<not> hp_oom (es_heap s) k" and xs: "sv_writes x = []" "\<not> sv_closing x"
    using i x by (auto simp: echo_inv_def)
  let ?blk = "bs @ replicate (65537 - n) (hp_junk (es_heap s))"
  let ?h = "h\<lparr>hp_mem := (hp_mem h)(a \<mapsto> ?blk)\<rparr>"
  have mo: "malloc_obj (read_heap (es_heap s) bs) = (True, ?h)"
    using nm n(1) by (simp add: malloc_obj_def read_heap_def h_def a_def)
  have lb: "length ?blk = 65537" using n by simp
  have mn: "min (int k) (int n) = int m" "m \<le> n" by (auto simp: m_def)
  have rd: "heap_read ?h a 0 (int m) = Inr (take m bs)" using mn(2) n lb by (simp add: heap_read_def)
  have uw: "srv_uv_write (s\<lparr>es_heap := ?h\<rparr>) c a (int n) k = Inr (put_conn (s\<lparr>es_heap := ?h\<rparr>) c y)"
    using x xs rd by (simp add: srv_uv_write_def get_conn_def mn(1) y_def put_conn_def Let_def)
  have w: "heap_write ?h a (int n) [0] =
      (if n = 65537 then Inl OutOfBounds else Inr (?h\<lparr>hp_mem := (hp_mem ?h)(a \<mapsto> take n ?blk @ [0] @ drop (n + 1) ?blk)\<rparr>))"
    using n lb by (simp add: heap_write_def)
  show ?thesis
    using n(2) mo uw w by (simp add: echo_read_def put_conn_def free_block_def)
qed

lemma echo_readable_ok:
  assumes i: "echo_inv s" and x: "es_conns s c = Some x" "sv_reading x"
    and n: "n \<le> int (length bytes)" "n \<le> 65536" "n \<le> int k"
  shows "\<exists>s'. echo_step s (EchoReadable c n bytes k) = Inr s' \<and> echo_inv s' \<and>
    echo_abs s' = spec_step (echo_abs s) (EchoReadable c n bytes k)"
proof -
  let ?a = "hp_next (es_heap s)" and ?h = "es_heap s"
  let ?bs = "take (nat n) bytes"
  have xs: "sv_writes x = []" "\<not> sv_closing x" using i x by (auto simp: echo_inv_def)
  have lb: "length ?bs \<le> 65537" using n by simp
  have st: "echo_step s (EchoReadable c n bytes k) = echo_read (s\<lparr>es_heap := read_heap ?h ?bs\<rparr>) c n (Some ?a) k"
    using echo_step_readable [OF i x lb] .
  show ?thesis
  proof (cases "n > 0")
    case False
    let ?h1 = "?h\<lparr>hp_next := Suc ?a, hp_mem := (hp_mem ?h)(?a := None)\<rparr>"
    have "echo_step s (EchoReadable c n bytes k) =
        Inr ((if n < 0 then put_conn s c (x\<lparr>sv_closing := True, sv_reading := False\<rparr>) else s)\<lparr>es_heap := ?h1\<rparr>)"
      unfolding st using x False by (simp add: echo_read_def get_conn_def put_conn_def free_block_def read_heap_def)
    then show ?thesis
      using i x xs False by (auto simp: echo_inv_def echo_abs_def put_conn_def heap_ok_def fun_eq_iff less_Suc_eq)
  next
    case True
    define m where "m = nat n"
    have m: "n = int m" "length ?bs = m" "0 < m" "m \<le> 65537" "m \<noteq> 65537" "min k m = m" using True n by (auto simp: m_def)
    let ?x = "x\<lparr>sv_sent := sv_sent x @ ?bs, sv_writes := []\<rparr>"
    let ?s' = "put_conn (s\<lparr>es_heap := ?h\<lparr>hp_next := Suc (Suc ?a), hp_mem := (hp_mem ?h)(?a := None)\<rparr>\<rparr>) c ?x"
    have "echo_step s (EchoReadable c n bytes k) = Inr ?s'"
      unfolding st using echo_read_data [OF i x m(2-4), of k] m by simp
    moreover have "echo_inv ?s'" using i x xs by (auto simp: echo_inv_def put_conn_def heap_ok_def less_Suc_eq)
    moreover have "echo_abs ?s' = spec_step (echo_abs s) (EchoReadable c n bytes k)"
      using x True by (auto simp: echo_abs_def put_conn_def fun_eq_iff)
    ultimately show ?thesis by blast
  qed
qed

lemma echo_step_ok:
  assumes i: "echo_inv s" and e: "healthy_event (echo_abs s) e"
  shows "\<exists>s'. echo_step s e = Inr s' \<and> echo_inv s' \<and> echo_abs s' = spec_step (echo_abs s) e"
proof (cases e)
  case (EchoConnection status res)
  have "\<And>k. \<not> hp_oom (es_heap s) k" using i by (auto simp: echo_inv_def)
  then show ?thesis using i EchoConnection
    by (auto simp: on_new_connection_def malloc_obj_def echo_inv_def put_conn_def fresh_conn_def echo_abs_def
        fun_eq_iff Let_def less_Suc_eq heap_ok_def)
next
  case (EchoReadable c n bytes k)
  then obtain x where x: "es_conns s c = Some x" "n \<le> int (length bytes)" "n \<le> 65536" "n \<le> int k"
    using e by (auto simp: healthy_event_def echo_abs_def)
  show ?thesis
  proof (cases "sv_reading x")
    case True
    then show ?thesis using echo_readable_ok [OF i x(1) _ x(2-4)] EchoReadable by simp
  next
    case False
    then show ?thesis using x i EchoReadable by (simp add: get_conn_def echo_abs_def)
  qed
next
  case (EchoFlush c k)
  then obtain x where x: "es_conns s c = Some x" "sv_writes x = []" using e i by (auto simp: healthy_event_def echo_inv_def echo_abs_def)
  then show ?thesis using i EchoFlush by (simp add: get_conn_def)
next
  case (EchoWriteError c st)
  then obtain x where x: "es_conns s c = Some x" "sv_writes x = []" using e i by (auto simp: healthy_event_def echo_inv_def echo_abs_def)
  then show ?thesis using i EchoWriteError
    by (auto simp: get_conn_def echo_write_def put_conn_def echo_inv_def echo_abs_def fun_eq_iff)
qed

text \<open>A sequence of events each of which is healthy where it happens.\<close>

fun healthy_events :: "echo_spec \<Rightarrow> echo_event list \<Rightarrow> bool" where
  "healthy_events a [] = True"
| "healthy_events a (e # es) = (healthy_event a e \<and> healthy_events (spec_step a e) es)"

lemma echo_run_ok:
  assumes "echo_inv s" "healthy_events (echo_abs s) es"
  shows "\<exists>s'. echo_run s es = Inr s' \<and> echo_inv s' \<and> echo_abs s' = foldl spec_step (echo_abs s) es"
  using assms
proof (induction es arbitrary: s)
  case (Cons e es)
  obtain s1 where s1: "echo_step s e = Inr s1" "echo_inv s1" "echo_abs s1 = spec_step (echo_abs s) e"
    using echo_step_ok [OF Cons.prems(1)] Cons.prems(2) by auto
  then show ?case using Cons.IH [OF s1(2)] Cons.prems(2) by simp
qed simp

end
