(* ===== verification/EchoProps.thy ===== *)
theory EchoProps
  imports EchoServer
begin

text \<open>What the growable buffers, the echo client and the echo server do.\<close>

section \<open>Sample values\<close>

definition echo_heap :: heap where
  "echo_heap = \<lparr>hp_mem = (\<lambda>_. None), hp_next = 1, hp_oom = (\<lambda>_. False), hp_junk = 7\<rparr>"

lemma echo_heap_ok [simp]: "heap_ok echo_heap" "\<not> hp_oom echo_heap k"
  by (simp_all add: echo_heap_def heap_ok_def)

section \<open>The buffers\<close>

text \<open>
  The proxy's buffer collects what is read, byte for byte and in order, through any number of
  growing steps: from a fresh buffer, pieces of up to 64 KiB and less than 1 GiB in all, no append
  fails, no memory fault happens and the buffer holds their concatenation.
\<close>

theorem rts_buf_collects:
  assumes "heap_ok h" "\<forall>k. \<not> hp_oom h k" "0 < cap" "cap < 2 ^ 30"
    and "\<forall>x \<in> set xs. length x \<le> 65536" "length (concat xs) < 2 ^ 30"
  shows "\<exists>b h1 b' h'. rts_buf_init h cap = Inr (Some b, h1) \<and> receive rts_buf_append h1 b xs = Inr (b', h') \<and>
    rts_buf_ok h' b' \<and> rts_buf_contents h' b' = concat xs"
proof -
  obtain b h1 where b: "rts_buf_init h cap = Inr (Some b, h1)" "hp_oom h1 = hp_oom h"
    using assms(2-4) by (auto simp: rts_buf_init_def malloc_def malloc_obj_def Let_def)
  have o: "heap_ok h1" "rts_buf_ok h1 b" "rts_buf_contents h1 b = []" using rts_buf_init_ok [OF assms(1,3,4) b(1)] by auto
  show ?thesis using proxy_buf.receive_ok [OF o(2,1) _ assms(5)] b o(3) assms(2,6) by auto
qed

theorem rts_buf_collects_witness:
  "\<exists>b h1 b' h'. rts_buf_init echo_heap 4 = Inr (Some b, h1) \<and> receive rts_buf_append h1 b [[1, 2, 3], [], [4, 0, 5, 6]] = Inr (b', h') \<and>
    rts_buf_ok h' b' \<and> rts_buf_contents h' b' = [1, 2, 3, 4, 0, 5, 6]"
  using rts_buf_collects [of echo_heap 4 "[[1, 2, 3], [], [4, 0, 5, 6]]"] by simp

section \<open>The client\<close>

text \<open>
  The echo client prints what it received: for any non-empty pieces of text without NUL bytes,
  read one after the other and followed by the end of the stream, the line it prints is their
  concatenation, the connection is closed and nothing is accessed out of bounds.
\<close>

theorem echo_client_prints_received:
  assumes "ec_reading c" "ec_data c = Some b" "echo_buf_ok h b" "echo_buf_contents h b = []" "heap_ok h" "\<forall>k. \<not> hp_oom h k"
    and "\<forall>x \<in> set xs. x \<noteq> [] \<and> length x \<le> 65536 \<and> 0 \<notin> set x" "length (concat xs) < 2 ^ 30"
  shows "\<exists>c' h'. client_reads h c (map (\<lambda>x. (int (length x), x)) xs @ [(UV_EOF, [])]) = Inr (c', h') \<and>
    ec_printed c' = ec_printed c @ [concat xs] \<and> ec_closing c' \<and> \<not> ec_reading c'"
proof -
  have z: "[] \<notin> set xs" "\<forall>x \<in> set xs. length x \<le> 65536" "\<forall>x \<in> set (echo_buf_contents h b @ concat xs). x \<noteq> 0"
    using assms(4,7) by auto
  obtain b1 h1 where r: "receive echo_buf_append h b xs = Inr (b1, h1)" "echo_buf_ok h1 b1" "heap_ok h1"
    "hp_oom h1 = hp_oom h" "echo_buf_contents h1 b1 = concat xs"
    using echo_buf.receive_ok [OF assms(3,5) z(3,2)] assms(4,6,8) by auto
  let ?c1 = "c\<lparr>ec_data := Some b1\<rparr>" and ?a = "hp_next h1"
  let ?h2 = "h1\<lparr>hp_next := Suc ?a, hp_mem := (hp_mem h1)(?a \<mapsto> replicate 65536 (hp_junk h1))\<rparr>"
  have al: "client_alloc_buffer h1 65536 = (Some ?a, ?h2)"
    using assms(6) r(4) by (simp add: client_alloc_buffer_def malloc_def Let_def)
  have ne: "eb_buf b1 \<noteq> ?a" using echo_buf.ok_live [OF r(2)] r(3) by (auto simp: heap_ok_def)
  have o: "echo_buf_ok ?h2 b1" "echo_buf_contents ?h2 b1 = concat xs" "heap_ok ?h2"
    using echo_buf.ok_frame [of ?h2 b1 h1] ne r(2,3,5) by (auto simp: heap_ok_def less_Suc_eq)
  have z0: "0 \<notin> set (echo_buf_contents ?h2 b1)" unfolding o(2) using assms(7) by auto
  obtain h3 where p: "print_received ?h2 ?c1 = Inr (?c1\<lparr>ec_data := Some (b1\<lparr>eb_size := 0\<rparr>),
      ec_printed := ec_printed ?c1 @ [echo_buf_contents ?h2 b1]\<rparr>, h3)" "\<forall>a. hp_mem h3 a = None \<longleftrightarrow> hp_mem ?h2 a = None"
    using print_received_ok [OF o(1,3) _ z0, of ?c1] by auto
  have w: "heap_write ?h2 ?a 0 [] = Inr ?h2" by (simp add: heap_write_def)
  have fr: "free_block h3 ?a = Inr (h3\<lparr>hp_mem := (hp_mem h3)(?a := None)\<rparr>)" using p(2) by (simp add: free_block_def)
  have "client_readable h1 ?c1 UV_EOF [] = Inr (?c1\<lparr>ec_data := Some (b1\<lparr>eb_size := 0\<rparr>),
      ec_printed := ec_printed c @ [concat xs], ec_closing := True, ec_reading := False\<rparr>,
      h3\<lparr>hp_mem := (hp_mem h3)(?a := None)\<rparr>)"
    unfolding client_readable_def al prod.case option.case using assms(1) w p(1) o(2) fr
    by (simp add: after_read_def UV_EOF_def)
  then show ?thesis
    unfolding client_reads_append client_reads_data [OF assms(1,2) z(1)] r(1) by simp
qed

theorem echo_client_prints_received_witness:
  "\<exists>b h1 c' h'. echo_buf_init echo_heap 16 = Inr (Some b, h1) \<and>
    client_reads h1 \<lparr>ec_data = Some b, ec_reading = True, ec_closing = False, ec_sent = [], ec_printed = []\<rparr>
      [(5, [72, 101, 108, 108, 111]), (6, [32, 87, 97, 108, 108, 33]), (UV_EOF, [])] = Inr (c', h') \<and>
    ec_printed c' = [[72, 101, 108, 108, 111, 32, 87, 97, 108, 108, 33]]"
proof -
  obtain b h1 where b: "echo_buf_init echo_heap 16 = Inr (Some b, h1)" "echo_buf_ok h1 b" "echo_buf_contents h1 b = []"
    "heap_ok h1" "\<forall>k. \<not> hp_oom h1 k"
    by (simp add: echo_buf_init_def malloc_def malloc_obj_def echo_heap_def Let_def echo_buf_ok_def echo_buf_contents_def heap_ok_def)
  show ?thesis
    using b(1) echo_client_prints_received [of "\<lparr>ec_data = Some b, ec_reading = True, ec_closing = False, ec_sent = [], ec_printed = []\<rparr>"
        b h1 "[[72, 101, 108, 108, 111], [32, 87, 97, 108, 108, 33]]"] b(2-5) by auto
qed

section \<open>The server\<close>

text \<open>
  C11: healthy runs of the echo server implement the abstract echo service: while reads deliver at
  most 64 KiB and the kernel takes every answer at once, no run faults, and what each connection is
  sent is what was read from it, in order, until its end of file.
\<close>

theorem echo_server_refines_spec:
  assumes "heap_ok h" "\<forall>k. \<not> hp_oom h k" "healthy_events \<lparr>sp_conns = (\<lambda>_. None), sp_next = 0\<rparr> es"
  shows "\<exists>s. echo_run (echo_init h) es = Inr s \<and>
    echo_abs s = foldl spec_step \<lparr>sp_conns = (\<lambda>_. None), sp_next = 0\<rparr> es"
  using echo_run_ok [of "echo_init h" es] assms by (auto simp: echo_inv_def echo_init_def echo_abs_def)

theorem echo_server_refines_spec_witness:
  "\<exists>s. echo_run (echo_init echo_heap) [EchoConnection 0 0, EchoReadable 0 2 [104, 105] 5, EchoReadable 0 UV_EOF [] 0] = Inr s \<and>
    sp_conns (echo_abs s) 0 = Some (False, [104, 105])"
  using echo_server_refines_spec [of echo_heap "[EchoConnection 0 0, EchoReadable 0 2 [104, 105] 5, EchoReadable 0 UV_EOF [] 0]"]
  by (auto simp: UV_EOF_def healthy_event_def)

text \<open>
  A partial write leaves a dangling pointer: when the kernel takes only a part of an answer, the
  queued request keeps pointing into the block that \<open>echo_read\<close> frees, and taking the next byte
  of it is a use after free.
\<close>

theorem echo_partial_write_dangles:
  assumes "echo_inv s" "es_conns s c = Some x" "sv_reading x" "length bytes = n" "k < n" "n \<le> 65536"
  shows "\<exists>s'. echo_step s (EchoReadable c (int n) bytes k) = Inr s' \<and>
    (\<forall>j. echo_step s' (EchoFlush c j) = Inl UseAfterFree)"
proof -
  have n: "length bytes = n" "0 < n" "n \<le> 65537" "n \<noteq> 65537" "min k n = k" "k \<noteq> n" using assms(4-6) by auto
  have "\<not> sv_closing x" using assms(1-3) by (auto simp: echo_inv_def)
  then show ?thesis
    using echo_step_readable [OF assms(1-3), of "int n" bytes k] echo_read_data [OF assms(1-3) n(1-3), of k] n
    by (simp add: put_conn_def get_conn_def heap_read_def Let_def)
qed

theorem echo_partial_write_dangles_witness:
  "\<exists>s s'. echo_run (echo_init echo_heap) [EchoConnection 0 0] = Inr s \<and>
    echo_step s (EchoReadable 0 3 [97, 98, 99] 1) = Inr s' \<and> echo_step s' (EchoFlush 0 2) = Inl UseAfterFree"
proof -
  obtain s x where s: "echo_run (echo_init echo_heap) [EchoConnection 0 0] = Inr s" "echo_inv s"
    "es_conns s 0 = Some x" "sv_reading x"
    by (auto simp: echo_init_def on_new_connection_def malloc_obj_def put_conn_def fresh_conn_def echo_inv_def Let_def
        heap_ok_def less_Suc_eq echo_heap_def)
  show ?thesis using echo_partial_write_dangles [OF s(2-4), of "[97, 98, 99]" 3 1] s(1) by auto
qed

text \<open>
  \<open>alloc_buffer\<close> adds a byte for the NUL but also tells libuv about it: a read that fills the
  whole buffer of 65537 bytes makes \<open>echo_read\<close> store the NUL behind the block.
\<close>

theorem echo_full_read_overflows:
  assumes "echo_inv s" "es_conns s c = Some x" "sv_reading x" "length bytes = 65537"
  shows "echo_step s (EchoReadable c 65537 bytes k) = Inl OutOfBounds"
  using echo_step_readable [OF assms(1-3), of 65537 bytes k] echo_read_data [OF assms(1-4), of k] assms(4) by simp

theorem echo_full_read_overflows_witness:
  "\<exists>s. echo_run (echo_init echo_heap) [EchoConnection 0 0] = Inr s \<and>
    echo_step s (EchoReadable 0 65537 (replicate 65537 1) 65537) = Inl OutOfBounds"
proof -
  obtain s x where s: "echo_run (echo_init echo_heap) [EchoConnection 0 0] = Inr s" "echo_inv s"
    "es_conns s 0 = Some x" "sv_reading x"
    by (auto simp: echo_init_def on_new_connection_def malloc_obj_def put_conn_def fresh_conn_def echo_inv_def Let_def
        heap_ok_def less_Suc_eq echo_heap_def)
  show ?thesis using echo_full_read_overflows [OF s(2-4), of "replicate 65537 1" 65537] s(1) by auto
qed

end
