(* ===== verification/Workers.thy ===== *)
theory Workers
  imports Prelude "HOL-Library.Multiset"
begin

text \<open>
  The processes of the servers: \<open>spawn_processes\<close> and \<open>main\<close> of \<open>demo/echo_server/server.c\<close>, the same
  functions of \<open>demo/proxy_demo/proxy.c\<close>, and the wait loop that they share with \<open>src/main.c\<close>.

  A process is the values of its globals; a fork makes a second process that goes on from the same
  place with a copy of them. \<open>fk me i\<close> is the id of the child that the process with the id \<open>me\<close> gets
  from \<open>fork\<close> in round \<open>i\<close> of the loop, or -1 if it gets none; in the child itself \<open>fork\<close> returns 0.
\<close>

section \<open>Forking\<close>

record proc =
  pr_parent :: int
  pr_cur :: int
  pr_pids :: "int list"

text \<open>
  All processes that come out of the loop of \<open>spawn_processes\<close> when the process \<open>me\<close>, a child of
  \<open>parent\<close>, enters round \<open>i\<close> with the globals \<open>p\<close>: each with its id, the id of its parent, and what
  \<open>spawn_processes\<close> returns in it. A child is one of them like any other and forks on if the code lets it.
\<close>

function spawn_loop :: "(int \<Rightarrow> nat \<Rightarrow> int) \<Rightarrow> nat \<Rightarrow> int \<Rightarrow> int \<Rightarrow> nat \<Rightarrow> proc \<Rightarrow> (int \<times> int \<times> (int \<times> proc) exec) list" where
  "spawn_loop fk nworkers me parent i p =
     (if nworkers \<le> i then [(me, parent, Inr (0, p))]
      else
        (let returned = (\<lambda>m par r.
           if length (pr_pids p) \<le> i then [(m, par, Inl OutOfBounds)]
           else
             (let p1 = p\<lparr>pr_pids := (pr_pids p)[i := r]\<rparr> in
              if r = -1 then [(m, par, Inr (-1, p1))]
              else
                (let p2 = (if r = 0 then p1\<lparr>pr_cur := m\<rparr> else p1) in
                 if pr_cur p2 \<noteq> pr_parent p2 then [(m, par, Inr (0, p2))]
                 else spawn_loop fk nworkers m par (Suc i) p2))) in
         if fk me i = -1 then returned me parent (-1)
         else returned (fk me i) me 0 @ returned me parent (fk me i)))"
  by auto
termination by (relation "measure (\<lambda>(_, n, _, _, i, _). n - i)") auto

declare spawn_loop.simps [simp del]

definition spawn_processes :: "(int \<Rightarrow> nat \<Rightarrow> int) \<Rightarrow> int \<Rightarrow> int \<Rightarrow> int \<Rightarrow> proc \<Rightarrow> (int \<times> int \<times> (int \<times> proc) exec) list" where
  "spawn_processes fk me parent nworkers p = spawn_loop fk (nat nworkers) me parent 0 p"

definition proxy_spawn_processes :: "(int \<Rightarrow> nat \<Rightarrow> int) \<Rightarrow> int \<Rightarrow> int \<Rightarrow> int \<Rightarrow> proc \<Rightarrow> (int \<times> int \<times> (int \<times> proc) exec) list" where
  "proxy_spawn_processes fk me parent nworkers p = spawn_loop fk (nat nworkers) me parent 0 p"

text \<open>The rounds in which a process gets children, if \<open>f i\<close> is what it gets in round \<open>i\<close>.\<close>

definition forked :: "(nat \<Rightarrow> int) \<Rightarrow> nat \<Rightarrow> nat list" where
  "forked f n = takeWhile (\<lambda>i. f i \<noteq> -1) [0..<n]"

section \<open>Waiting\<close>

text \<open>
  \<open>waitpid\<close> on the children that are not reaped yet, in the order in which they end: a positive
  argument is one child, -1 and 0 any of them (all are in the group of the caller).
\<close>

definition waitpid :: "int list \<Rightarrow> int \<Rightarrow> int \<times> int list" where
  "waitpid cs p =
     (if p > 0 then (if p \<in> set cs then (p, remove1 p cs) else (-1, cs))
      else if p = 0 \<or> p = -1 then (case cs of [] \<Rightarrow> (-1, []) | c # cs1 \<Rightarrow> (c, cs1))
      else (-1, cs))"

datatype join_msg = WaitFailed int | ChildFinished int

text \<open>The loop of the echo server over \<open>g_pids\<close>; a \<open>waitpid\<close> that returns another process says nothing.\<close>

fun join_loop :: "int list \<Rightarrow> int list \<Rightarrow> join_msg list \<times> int list" where
  "join_loop cs [] = ([], cs)"
| "join_loop cs (p # ps) =
     (case waitpid cs p of (ret, cs1) \<Rightarrow>
      case join_loop cs1 ps of (msgs, cs2) \<Rightarrow>
        ((if ret = -1 then [WaitFailed p] else if ret = p then [ChildFinished p] else []) @ msgs, cs2))"

text \<open>The loop of the tunnel's \<open>main\<close>, which skips the entries that are not process ids.\<close>

fun tunnel_join_loop :: "int list \<Rightarrow> int list \<Rightarrow> join_msg list \<times> int list" where
  "tunnel_join_loop cs [] = ([], cs)"
| "tunnel_join_loop cs (p # ps) =
     (if p \<le> 0 then tunnel_join_loop cs ps
      else
        (case waitpid cs p of (ret, cs1) \<Rightarrow>
         case tunnel_join_loop cs1 ps of (msgs, cs2) \<Rightarrow>
           ((if ret = -1 then [WaitFailed p] else [ChildFinished p]) @ msgs, cs2)))"

section \<open>The main functions\<close>

text \<open>
  What becomes of a process: it leaves \<open>main\<close> with a code and the messages it printed, with children
  still running, or it enters the event loop.
\<close>

datatype main_end = MainReturns int "join_msg list" "int list" | RunsEventLoop

text \<open>The code behind the call of \<open>spawn_processes\<close>, in the process \<open>p\<close> with the children \<open>cs\<close>.\<close>

definition server_continue :: "int list \<Rightarrow> proc \<Rightarrow> main_end" where
  "server_continue cs p =
     (if pr_cur p = pr_parent p then (case join_loop cs (pr_pids p) of (msgs, cs1) \<Rightarrow> MainReturns 0 msgs cs1)
      else RunsEventLoop)"

text \<open>
  \<open>main\<close>: all processes and their ends; \<open>ends me\<close> is the order in which the children of the process
  \<open>me\<close> end.
\<close>

definition server_main ::
    "(int \<Rightarrow> nat \<Rightarrow> int) \<Rightarrow> (int \<Rightarrow> int list) \<Rightarrow> int \<Rightarrow> int \<Rightarrow> int \<Rightarrow> (int \<times> int \<times> main_end exec) list" where
  "server_main fk ends pid parent listen_res =
     (let p = \<lparr>pr_parent = pid, pr_cur = pid, pr_pids = replicate 5 0\<rparr> in
      if listen_res \<noteq> 0 then [(pid, parent, Inr (MainReturns 1 [] []))]
      else map (\<lambda>(me, par, r). (me, par, ebind r (\<lambda>(_, p1). Inr (server_continue (ends me) p1))))
        (spawn_processes fk pid parent 5 p))"

definition proxy_main :: "int \<Rightarrow> main_end" where
  "proxy_main listen_res = (if listen_res \<noteq> 0 then MainReturns 1 [] [] else RunsEventLoop)"

section \<open>Lemmas on the processes\<close>

text \<open>
  Rounds without a failing \<open>fork\<close> in the process that is not a child: it notes the ids, and each
  child leaves the loop at once.
\<close>

definition child_of :: "(nat \<Rightarrow> int) \<Rightarrow> int \<Rightarrow> proc \<Rightarrow> nat \<Rightarrow> int \<times> int \<times> (int \<times> proc) exec" where
  "child_of f me p k = (f k, me, Inr (0, p\<lparr>pr_cur := f k, pr_pids := map f [0..<k] @ 0 # drop (Suc k) (pr_pids p)\<rparr>))"

lemma spawn_loop_rounds:
  assumes "i \<le> m" "m \<le> n" "n \<le> length (pr_pids p)" "pr_cur p = pr_parent p" "take i (pr_pids p) = map (fk me) [0..<i]"
    and "\<forall>k \<in> {i..<m}. fk me k \<notin> {-1, 0, pr_parent p}"
  shows "spawn_loop fk n me par i p = map (child_of (fk me) me p) [i..<m] @
    spawn_loop fk n me par m (p\<lparr>pr_pids := map (fk me) [0..<m] @ drop m (pr_pids p)\<rparr>)"
  using assms
proof (induction "m - i" arbitrary: i p)
  case 0
  then have "i = m" by simp
  moreover have "p\<lparr>pr_pids := map (fk me) [0..<m] @ drop m (pr_pids p)\<rparr> = p"
    using 0 \<open>i = m\<close> append_take_drop_id [of m "pr_pids p"] by simp
  ultimately show ?case by simp
next
  case (Suc d)
  let ?c = "fk me i"
  let ?p = "p\<lparr>pr_pids := (pr_pids p)[i := ?c]\<rparr>"
  have i: "i < m" "i < length (pr_pids p)" "?c \<notin> {-1, 0, pr_parent p}" using Suc.hyps(2) Suc.prems by auto
  have z: "(pr_pids p)[i := x] = map (fk me) [0..<i] @ x # drop (Suc i) (pr_pids p)" for x
    using i(2) Suc.prems(5) by (metis upd_conv_take_nth_drop)
  have "spawn_loop fk n me par i p = child_of (fk me) me p i # spawn_loop fk n me par (Suc i) ?p"
    using i Suc.prems(2,4) by (subst spawn_loop.simps) (simp add: Let_def child_of_def z)
  also have "spawn_loop fk n me par (Suc i) ?p = map (child_of (fk me) me ?p) [Suc i..<m] @
      spawn_loop fk n me par m (?p\<lparr>pr_pids := map (fk me) [0..<m] @ drop m (pr_pids ?p)\<rparr>)"
    by (rule Suc.hyps(1)) (use Suc.hyps(2) Suc.prems i z in auto)
  also have "map (child_of (fk me) me ?p) [Suc i..<m] = map (child_of (fk me) me p) [Suc i..<m]"
    by (auto simp: child_of_def)
  also have "?p\<lparr>pr_pids := map (fk me) [0..<m] @ drop m (pr_pids ?p)\<rparr> = p\<lparr>pr_pids := map (fk me) [0..<m] @ drop m (pr_pids p)\<rparr>"
    using i(1) by simp
  finally show ?case using i(1) by (simp add: upt_conv_Cons)
qed

text \<open>How many forks succeed; only the first failure is seen.\<close>

lemma length_forked: "length (forked f n) \<le> n"
  unfolding forked_def using length_takeWhile_le [of _ "[0..<n]"] by simp

lemma forked_eq: "forked f n = [0..<length (forked f n)]"
proof -
  have "forked f n = take (length (forked f n)) [0..<n]" unfolding forked_def by (rule takeWhile_eq_take)
  then show ?thesis using length_forked [of f n] by (metis add_0 take_upt)
qed

lemma forked_ok: "k < length (forked f n) \<Longrightarrow> f k \<noteq> -1"
  using set_takeWhileD [of k "\<lambda>i. f i \<noteq> -1" "[0..<n]"] forked_eq [of f n] unfolding forked_def
  by (metis atLeast_upt lessThan_iff)

lemma forked_fails: "length (forked f n) < n \<Longrightarrow> f (length (forked f n)) = -1"
  using nth_length_takeWhile [of "\<lambda>i. f i \<noteq> -1" "[0..<n]"] unfolding forked_def by simp

text \<open>All processes: the children in the order of their rounds, and the one that forked them.\<close>

lemma spawn_processes_eq:
  assumes "nat nw \<le> length (pr_pids p)" "pr_cur p = pr_parent p" "\<forall>k. fk me k = -1 \<or> fk me k \<notin> {0, pr_parent p}"
  defines "m \<equiv> length (forked (fk me) (nat nw))"
  shows "spawn_processes fk me par nw p = map (child_of (fk me) me p) [0..<m] @
    [(me, par, if m = nat nw then Inr (0, p\<lparr>pr_pids := map (fk me) [0..<m] @ drop m (pr_pids p)\<rparr>)
       else Inr (-1, p\<lparr>pr_pids := map (fk me) [0..<m] @ -1 # drop (Suc m) (pr_pids p)\<rparr>))]"
proof -
  let ?p = "p\<lparr>pr_pids := map (fk me) [0..<m] @ drop m (pr_pids p)\<rparr>"
  have m: "m \<le> nat nw" "\<forall>k \<in> {0..<m}. fk me k \<notin> {-1, 0, pr_parent p}" "m < nat nw \<Longrightarrow> fk me m = -1"
    unfolding m_def using length_forked forked_fails apply blast
    using forked_ok [of _ "fk me" "nat nw"] assms(3) apply (metis atLeastLessThan_iff insert_iff)
    using forked_fails by blast
  have "spawn_processes fk me par nw p = map (child_of (fk me) me p) [0..<m] @ spawn_loop fk (nat nw) me par m ?p"
    unfolding spawn_processes_def using spawn_loop_rounds [of 0 m "nat nw" p fk me par] m(1,2) assms(1,2) by simp
  also have "spawn_loop fk (nat nw) me par m ?p =
      [(me, par, if m = nat nw then Inr (0, ?p) else Inr (-1, p\<lparr>pr_pids := map (fk me) [0..<m] @ -1 # drop (Suc m) (pr_pids p)\<rparr>))]"
  proof (cases "m = nat nw")
    case False
    then have "m < nat nw" using m(1) by simp
    then show ?thesis using m(3) assms(1) False
      by (subst spawn_loop.simps) (simp add: Let_def list_update_append Cons_nth_drop_Suc [symmetric])
  qed (simp add: spawn_loop.simps)
  finally show ?thesis .
qed

section \<open>Lemmas on waiting\<close>

text \<open>Entries that are the children's ids, each once, in any order of their ends.\<close>

lemma join_loop_children:
  assumes "distinct ps" "\<forall>p \<in> set ps. p > 0" "set ps \<subseteq> set cs" "distinct cs"
  shows "join_loop cs (ps @ rs) =
    (map ChildFinished ps @ fst (join_loop (filter (\<lambda>c. c \<notin> set ps) cs) rs), snd (join_loop (filter (\<lambda>c. c \<notin> set ps) cs) rs))"
  using assms
proof (induction ps arbitrary: cs)
  case (Cons p ps)
  have w: "waitpid cs p = (p, remove1 p cs)" using Cons.prems by (simp add: waitpid_def)
  have f: "filter (\<lambda>c. c \<notin> set ps) (remove1 p cs) = filter (\<lambda>c. c \<notin> set (p # ps)) cs"
    using Cons.prems(4) by (auto simp: distinct_remove1_removeAll removeAll_filter_not_eq intro: filter_cong)
  have "set ps \<subseteq> set (remove1 p cs)" "distinct (remove1 p cs)"
    using Cons.prems by (auto simp: distinct_remove1_removeAll distinct_removeAll)
  then show ?case
    using Cons.IH [of "remove1 p cs"] Cons.prems f w by (simp add: split_def)
qed (simp add: split_def)

text \<open>With no child left, every further call fails.\<close>

lemma join_loop_none: "\<forall>p \<in> set ps. p \<ge> -1 \<Longrightarrow> join_loop [] ps = (map WaitFailed ps, [])"
  by (induction ps) (auto simp: waitpid_def)

lemma tunnel_join_loop_eq: "tunnel_join_loop cs ps = join_loop cs (filter (\<lambda>p. p > 0) ps)"
proof (induction ps arbitrary: cs)
  case (Cons p ps)
  then show ?case by (auto simp: waitpid_def split: prod.split)
qed simp

section \<open>What the processes of the echo server do\<close>

text \<open>The ids of the children, and the entries of \<open>g_pids\<close> behind them.\<close>

definition child_ids :: "(nat \<Rightarrow> int) \<Rightarrow> int list" where
  "child_ids f = map f (forked f 5)"

definition other_entries :: "(nat \<Rightarrow> int) \<Rightarrow> int list" where
  "other_entries f = (if length (forked f 5) = 5 then [] else -1 # replicate (4 - length (forked f 5)) 0)"

lemma server_main_eq:
  assumes "\<forall>k. fk pid k = -1 \<or> fk pid k > 0 \<and> fk pid k \<noteq> pid" "distinct (child_ids (fk pid))"
    and "mset (ends pid) = mset (child_ids (fk pid))"
  shows "server_main fk ends pid parent 0 =
    map (\<lambda>c. (c, pid, Inr RunsEventLoop)) (child_ids (fk pid)) @
    [(pid, parent, Inr (MainReturns 0 (map ChildFinished (child_ids (fk pid)) @ map WaitFailed (other_entries (fk pid))) []))]"
proof -
  let ?f = "fk pid"
  let ?p = "\<lparr>pr_parent = pid, pr_cur = pid, pr_pids = replicate 5 0\<rparr>" and ?m = "length (forked ?f 5)"
  have ids: "map ?f [0..<?m] = child_ids ?f" unfolding child_ids_def by (metis forked_eq)
  have m: "?m \<le> 5" by (rule length_forked)
  have ends: "set (ends pid) = set (child_ids ?f)" "distinct (ends pid)"
    using assms(2,3) by (metis mset_eq_setD, metis mset_eq_imp_distinct_iff)
  have pos: "\<forall>c \<in> set (child_ids ?f). c > 0 \<and> c \<noteq> pid"
    unfolding child_ids_def using assms(1) by (auto simp: forked_def dest!: set_takeWhileD)
  have join: "join_loop (ends pid) (child_ids ?f @ rs) = (map ChildFinished (child_ids ?f) @ map WaitFailed rs, [])"
    if "\<forall>r \<in> set rs. r \<ge> -1" for rs
    using join_loop_children [OF assms(2) _ _ ends(2), of rs] pos join_loop_none [OF that] ends(1) by simp
  have nz: "\<forall>k. fk pid k = -1 \<or> fk pid k \<notin> {0, pr_parent ?p}" using assms(1) by force
  note sp = spawn_processes_eq [of 5 ?p fk pid parent, OF _ _ nz]
  have five: "nat 5 = 5" by simp
  have "spawn_processes fk pid parent 5 ?p = map (child_of ?f pid ?p) [0..<?m] @
     [(pid, parent, Inr (if ?m = 5 then 0 else -1, ?p\<lparr>pr_pids := child_ids ?f @ other_entries ?f\<rparr>))]"
    using sp m ids unfolding five by (cases "?m = 5") (simp_all add: other_entries_def)
  moreover have "map (\<lambda>(me, par, r). (me, par, ebind r (\<lambda>(_, p1). Inr (server_continue (ends me) p1)))) (map (child_of ?f pid ?p) [0..<?m]) =
     map (\<lambda>c. (c, pid, Inr RunsEventLoop)) (child_ids ?f)"
  proof -
    have "?f k \<noteq> pid" if "k < ?m" for k
      using pos that ids by (metis atLeast_upt image_eqI lessThan_iff set_map)
    then show ?thesis unfolding ids [symmetric] map_map by (auto simp: child_of_def server_continue_def)
  qed
  moreover have "server_continue (ends pid) (?p\<lparr>pr_pids := child_ids ?f @ other_entries ?f\<rparr>) =
      MainReturns 0 (map ChildFinished (child_ids ?f) @ map WaitFailed (other_entries ?f)) []"
    using join [of "other_entries ?f"] by (simp add: server_continue_def other_entries_def)
  ultimately show ?thesis by (simp add: server_main_def Let_def)
qed

end
