(* ===== verification/Cmd.thy ===== *)
theory Cmd
  imports Workers
begin

text \<open>
  The command line of the tunnel, \<open>src/cmd.c\<close>, and the search in a NULL-terminated array,
  \<open>demo/in_array.c\<close>. Strings are HOL strings, a pointer is an option, an array of string pointers a
  list of options; the NULL that ends an array is a \<open>None\<close>.
\<close>

section \<open>in_array\<close>

text \<open>The loop reads the array up to NULL: an array without one is read past its end. It prints what it visits.\<close>

fun in_array :: "string \<Rightarrow> string option list \<Rightarrow> (int \<times> string list) exec" where
  "in_array s [] = Inl OutOfBounds"
| "in_array s (None # needle) = Inr (0, [])"
| "in_array s (Some x # needle) =
     (if s = x then Inr (1, [x]) else ebind (in_array s needle) (\<lambda>(r, out). Inr (r, x # out)))"

definition in_array_main :: "(int \<times> string list) exec" where
  "in_array_main =
     ebind (in_array ''ccc'' [Some ''aaa'', Some ''bbb'', Some ''ccc'', None]) (\<lambda>(r, out).
     Inr (0, out @ (if r \<noteq> 0 then [''ccc in array''] else [])))"

lemma in_array_eq:
  "in_array s (map Some xs @ None # ys) =
     Inr (if s \<in> set xs then 1 else 0, takeWhile (\<lambda>x. x \<noteq> s) xs @ (if s \<in> set xs then [s] else []))"
  by (induction xs) auto

lemma in_array_no_null: "in_array s (map Some xs) =
    (if s \<in> set xs then Inr (1, takeWhile (\<lambda>x. x \<noteq> s) xs @ [s]) else Inl OutOfBounds)"
  by (induction xs) auto

section \<open>getopt_long\<close>

text \<open>
  The C library's \<open>getopt_long\<close> for the option string \<open>hc:t:\<close> and the table of \<open>parse_cmd_opt\<close>. A call
  returns the value of \<open>opt\<close>, \<open>option_index\<close> where it sets it, and \<open>optarg\<close>.
\<close>

record long_option =
  lo_name :: string
  lo_has_arg :: bool
  lo_flag :: bool
  lo_val :: int

definition long_options :: "long_option list" where
  "long_options =
     [\<lparr>lo_name = ''help'', lo_has_arg = False, lo_flag = False, lo_val = 104\<rparr>,
      \<lparr>lo_name = ''config'', lo_has_arg = True, lo_flag = False, lo_val = 99\<rparr>,
      \<lparr>lo_name = ''type'', lo_has_arg = True, lo_flag = False, lo_val = 116\<rparr>,
      \<lparr>lo_name = ''debug'', lo_has_arg = False, lo_flag = True, lo_val = 1\<rparr>,
      \<lparr>lo_name = ''listen_host'', lo_has_arg = True, lo_flag = False, lo_val = 0\<rparr>,
      \<lparr>lo_name = ''listen_port'', lo_has_arg = True, lo_flag = False, lo_val = 0\<rparr>,
      \<lparr>lo_name = ''target_host'', lo_has_arg = True, lo_flag = False, lo_val = 0\<rparr>,
      \<lparr>lo_name = ''target_port'', lo_has_arg = True, lo_flag = False, lo_val = 0\<rparr>,
      \<lparr>lo_name = ''worker_num'', lo_has_arg = True, lo_flag = False, lo_val = 0\<rparr>,
      \<lparr>lo_name = ''secret_key'', lo_has_arg = True, lo_flag = False, lo_val = 0\<rparr>,
      \<lparr>lo_name = ''cryption_method'', lo_has_arg = True, lo_flag = False, lo_val = 0\<rparr>,
      \<lparr>lo_name = ''max_connection_num'', lo_has_arg = True, lo_flag = False, lo_val = 0\<rparr>,
      \<lparr>lo_name = ''downstream_timeout'', lo_has_arg = True, lo_flag = False, lo_val = 0\<rparr>,
      \<lparr>lo_name = ''upstream_timeout'', lo_has_arg = True, lo_flag = False, lo_val = 0\<rparr>]"

record opt_event =
  ev_opt :: int
  ev_index :: "nat option"
  ev_optarg :: "string option"
  ev_set_flag :: bool

abbreviation bad_option :: opt_event where
  "bad_option \<equiv> \<lparr>ev_opt = 63, ev_index = None, ev_optarg = None, ev_set_flag = False\<rparr>"

text \<open>
  An exact name wins; otherwise a prefix counts if all options it is a prefix of behave alike, and
  the first of them is taken.
\<close>

definition is_prefix :: "string \<Rightarrow> string \<Rightarrow> bool" where
  "is_prefix s x = (take (length s) x = s)"

definition find_long :: "string \<Rightarrow> nat option" where
  "find_long s =
     (case filter (\<lambda>i. lo_name (long_options ! i) = s) [0..<length long_options] of
        i # _ \<Rightarrow> Some i
      | [] \<Rightarrow>
          (case filter (\<lambda>i. is_prefix s (lo_name (long_options ! i))) [0..<length long_options] of
             [] \<Rightarrow> None
           | i # is \<Rightarrow>
               if \<forall>j \<in> set is. long_options ! j = (long_options ! i)\<lparr>lo_name := lo_name (long_options ! j)\<rparr>
               then Some i else None))"

text \<open>The event of option \<open>i\<close>: a flag is stored and 0 returned, otherwise the value is returned.\<close>

definition long_event :: "nat \<Rightarrow> string option \<Rightarrow> opt_event" where
  "long_event i arg =
     (let o1 = long_options ! i in
      \<lparr>ev_opt = (if lo_flag o1 then 0 else lo_val o1), ev_index = Some i, ev_optarg = arg, ev_set_flag = lo_flag o1\<rparr>)"

text \<open>A word \<open>--name\<close> or \<open>--name=value\<close> with the words behind it: its event and what is left.\<close>

definition long_word :: "string \<Rightarrow> string list \<Rightarrow> opt_event \<times> string list" where
  "long_word w rest =
     (let name = takeWhile (\<lambda>c. c \<noteq> CHR ''='') w; value = drop (Suc (length name)) w; given = (length name < length w) in
      case find_long name of
        None \<Rightarrow> (bad_option, rest)
      | Some i \<Rightarrow>
          if given then (if lo_has_arg (long_options ! i) then (long_event i (Some value), rest) else (bad_option, rest))
          else if lo_has_arg (long_options ! i) then
            (case rest of [] \<Rightarrow> (bad_option, []) | v # rest1 \<Rightarrow> (long_event i (Some v), rest1))
          else (long_event i None, rest))"

text \<open>A word \<open>-abc\<close> with the words behind it.\<close>

fun short_word :: "string \<Rightarrow> string list \<Rightarrow> opt_event list \<times> string list" where
  "short_word [] rest = ([], rest)"
| "short_word (c # cs) rest =
     (if c = CHR ''c'' \<or> c = CHR ''t'' then
        (if cs \<noteq> [] then ([\<lparr>ev_opt = of_char c, ev_index = None, ev_optarg = Some cs, ev_set_flag = False\<rparr>], rest)
         else
           (case rest of
              [] \<Rightarrow> ([bad_option], [])
            | v # rest1 \<Rightarrow> ([\<lparr>ev_opt = of_char c, ev_index = None, ev_optarg = Some v, ev_set_flag = False\<rparr>], rest1)))
      else
        (case short_word cs rest of (es, rest1) \<Rightarrow>
           ((if c = CHR ''h'' then \<lparr>ev_opt = of_char c, ev_index = None, ev_optarg = None, ev_set_flag = False\<rparr>
             else bad_option) # es, rest1)))"

lemma long_word_shorter: "length (snd (long_word w rest)) \<le> length rest"
  by (auto simp: long_word_def Let_def split: option.split list.split)

lemma short_word_shorter: "length (snd (short_word w rest)) \<le> length rest"
  by (induction w rest rule: short_word.induct) (auto split: prod.split list.split)

text \<open>All calls up to the one that returns -1; other words are skipped and \<open>--\<close> ends the options.\<close>

function getopt_long :: "string list \<Rightarrow> opt_event list" where
  "getopt_long [] = []"
| "getopt_long (w # ws) =
     (if w = ''--'' then []
      else if take 2 w = ''--'' then (case long_word (drop 2 w) ws of (e, rest) \<Rightarrow> e # getopt_long rest)
      else if take 1 w = ''-'' \<and> length w > 1 then (case short_word (drop 1 w) ws of (es, rest) \<Rightarrow> es @ getopt_long rest)
      else getopt_long ws)"
  by pat_completeness auto
termination
proof (relation "measure length")
  fix w :: string and ws e rest
  assume "(e, rest) = long_word (drop 2 w) ws"
  then show "(rest, w # ws) \<in> measure length"
    using long_word_shorter [of "drop 2 w" ws] by (metis in_measure le_imp_less_Suc length_Cons snd_conv)
next
  fix w :: string and ws es rest
  assume "(es, rest) = short_word (drop 1 w) ws"
  then show "(rest, w # ws) \<in> measure length"
    using short_word_shorter [of "drop 1 w" ws] by (metis in_measure le_imp_less_Suc length_Cons snd_conv)
qed simp_all

section \<open>The configuration\<close>

text \<open>
  The string type and the macros come from files the repository does not have (\<open>rts_str.c\<close>,
  \<open>define.h\<close>, \<open>log.h\<close>), and so does \<open>str_in_array\<close>: they are the argument \<open>env\<close>. \<open>ce_check c r\<close> is
  \<open>CHECK_RES\<close> with condition \<open>c\<close> and code \<open>r\<close>: what it makes the function return, if anything.
\<close>

record 's cmd_env =
  ce_init :: "int \<Rightarrow> 's option"
  ce_append :: "'s option \<Rightarrow> string \<Rightarrow> 's option exec"
  ce_buf :: "'s \<Rightarrow> string"
  ce_set_str :: "string \<Rightarrow> string \<Rightarrow> 's option \<Rightarrow> string option \<Rightarrow> 's option exec"
  ce_set_int :: "string \<Rightarrow> string \<Rightarrow> int \<Rightarrow> string option \<Rightarrow> int exec"
  ce_in_array :: "string \<Rightarrow> string option list \<Rightarrow> int exec"
  ce_check :: "int \<Rightarrow> int \<Rightarrow> int option"

record 's global_conf =
  gc_type :: "'s option"
  gc_listen_host :: "'s option"
  gc_listen_port :: "'s option"
  gc_target_host :: "'s option"
  gc_target_port :: "'s option"
  gc_secret_key :: "'s option"
  gc_cryption_method :: "'s option"
  gc_config_path :: "'s option"
  gc_worker_num :: int
  gc_max_connection_num :: int
  gc_downstream_timeout :: int
  gc_upstream_timeout :: int
  gc_debug :: int

text \<open>Storing into a signed bit field of \<open>w\<close> bits.\<close>

definition bitfield :: "nat \<Rightarrow> int \<Rightarrow> int" where
  "bitfield w x = (x + 2 ^ (w - 1)) mod 2 ^ w - 2 ^ (w - 1)"

definition init_global_conf :: "'s cmd_env \<Rightarrow> (int \<times> 's global_conf) exec" where
  "init_global_conf env =
     (let g = \<lparr>gc_type = ce_init env 16, gc_listen_host = ce_init env 16, gc_listen_port = ce_init env 8,
        gc_target_host = ce_init env 16, gc_target_port = ce_init env 8, gc_secret_key = ce_init env 32,
        gc_cryption_method = ce_init env 16, gc_config_path = ce_init env 32,
        gc_worker_num = bitfield 16 1, gc_max_connection_num = bitfield 16 1000,
        gc_downstream_timeout = bitfield 16 20, gc_upstream_timeout = bitfield 16 20, gc_debug = bitfield 1 0\<rparr> in
      ebind (deref (gc_listen_host g)) (\<lambda>_.
      ebind (ce_append env (gc_listen_host g) ''0.0.0.0'') (\<lambda>lh.
      ebind (deref (gc_listen_port g)) (\<lambda>_.
      ebind (ce_append env (gc_listen_port g) ''8888'') (\<lambda>lp.
      ebind (deref (gc_cryption_method g)) (\<lambda>_.
      ebind (ce_append env (gc_cryption_method g) ''aes256cbc'') (\<lambda>cm.
      Inr (0, g\<lparr>gc_listen_host := lh, gc_listen_port := lp, gc_cryption_method := cm\<rparr>))))))))"

text \<open>The checks, each with its code.\<close>

definition check_res :: "'s cmd_env \<Rightarrow> int \<Rightarrow> int \<Rightarrow> int exec \<Rightarrow> int exec" where
  "check_res env c r rest = (case ce_check env c r of Some x \<Rightarrow> Inr x | None \<Rightarrow> rest)"

definition check_global_conf :: "'s cmd_env \<Rightarrow> 's global_conf \<Rightarrow> int exec" where
  "check_global_conf env g =
     ebind (deref (gc_type g)) (\<lambda>ty.
     ebind (ce_in_array env (ce_buf env ty) [Some ''client'', Some ''server'', None]) (\<lambda>c1.
     check_res env c1 (-1) (
     ebind (deref (gc_cryption_method g)) (\<lambda>cm.
     ebind (ce_in_array env (ce_buf env cm) [Some ''aes256cbc'', Some ''rc4'']) (\<lambda>c2.
     check_res env c2 (-2) (
     check_res env (of_bool (gc_worker_num g \<le> 0 \<or> gc_worker_num g > 128)) (-3) (
     check_res env (of_bool (gc_max_connection_num g \<le> 0)) (-4) (
     check_res env (of_bool (gc_downstream_timeout g \<le> 0)) (-5) (
     check_res env (of_bool (gc_upstream_timeout g \<le> 0)) (-6) (
     Inr 0)))))))))) "

text \<open>The long options that are not flags and have no letter.\<close>

definition set_options :: "'s cmd_env \<Rightarrow> string \<Rightarrow> string option \<Rightarrow> 's global_conf \<Rightarrow> 's global_conf exec" where
  "set_options env name arg g =
     ebind (ce_set_str env name ''listen_host'' (gc_listen_host g) arg) (\<lambda>a1.
     ebind (ce_set_str env name ''listen_port'' (gc_listen_port g) arg) (\<lambda>a2.
     ebind (ce_set_str env name ''target_host'' (gc_target_host g) arg) (\<lambda>a3.
     ebind (ce_set_str env name ''target_port'' (gc_target_port g) arg) (\<lambda>a4.
     ebind (ce_set_str env name ''secret_key'' (gc_secret_key g) arg) (\<lambda>a5.
     ebind (ce_set_str env name ''cryption_method'' (gc_cryption_method g) arg) (\<lambda>a6.
     ebind (ce_set_int env name ''worker_num'' (gc_worker_num g) arg) (\<lambda>a7.
     ebind (ce_set_int env name ''max_connection_num'' (gc_max_connection_num g) arg) (\<lambda>a8.
     ebind (ce_set_int env name ''downstream_timeout'' (gc_downstream_timeout g) arg) (\<lambda>a9.
     ebind (ce_set_int env name ''upstream_timeout'' (gc_upstream_timeout g) arg) (\<lambda>a10.
     Inr (g\<lparr>gc_listen_host := a1, gc_listen_port := a2, gc_target_host := a3, gc_target_port := a4,
       gc_secret_key := a5, gc_cryption_method := a6, gc_worker_num := bitfield 16 a7,
       gc_max_connection_num := bitfield 16 a8, gc_downstream_timeout := bitfield 16 a9,
       gc_upstream_timeout := bitfield 16 a10\<rparr>)))))))))))"

text \<open>One round of the loop over the options, with the index the last long option left.\<close>

definition opt_step :: "'s cmd_env \<Rightarrow> opt_event \<Rightarrow> nat option \<times> 's global_conf \<Rightarrow> (nat option \<times> 's global_conf) exec" where
  "opt_step env ev st =
     (case st of (idx0, g0) \<Rightarrow>
      let g = (if ev_set_flag ev then g0\<lparr>gc_debug := bitfield 1 1\<rparr> else g0);
          idx = (case ev_index ev of None \<Rightarrow> idx0 | Some i \<Rightarrow> Some i) in
      if ev_opt ev = 99 then
        ebind (deref (ev_optarg ev)) (\<lambda>a. ebind (ce_append env (gc_config_path g) a) (\<lambda>s. Inr (idx, g\<lparr>gc_config_path := s\<rparr>)))
      else if ev_opt ev = 116 then
        ebind (deref (ev_optarg ev)) (\<lambda>a. ebind (ce_append env (gc_type g) a) (\<lambda>s. Inr (idx, g\<lparr>gc_type := s\<rparr>)))
      else if ev_opt ev = 0 then
        (case idx of
           None \<Rightarrow> Inl OutOfBounds
         | Some i \<Rightarrow> ebind (set_options env (lo_name (long_options ! i)) (ev_optarg ev) g) (\<lambda>g1. Inr (idx, g1)))
      else Inr (idx, g))"

fun opt_steps :: "'s cmd_env \<Rightarrow> opt_event list \<Rightarrow> nat option \<times> 's global_conf \<Rightarrow> (nat option \<times> 's global_conf) exec" where
  "opt_steps env [] st = Inr st"
| "opt_steps env (ev # evs) st = ebind (opt_step env ev st) (opt_steps env evs)"

text \<open>\<open>parse_cmd_opt\<close> on the words behind the program name; it ignores what \<open>init_global_conf\<close> returns.\<close>

definition parse_cmd_opt :: "'s cmd_env \<Rightarrow> string list \<Rightarrow> (int \<times> 's global_conf) exec" where
  "parse_cmd_opt env args =
     ebind (init_global_conf env) (\<lambda>(_, g).
     ebind (opt_steps env (getopt_long args) (None, g)) (\<lambda>(_, g1).
     ebind (check_global_conf env g1) (\<lambda>res. Inr (res, g1))))"

end
