(* ===== verification/Tunnel.thy ===== *)
theory Tunnel
  imports Cmd
begin

text \<open>
  \<open>main\<close> of the tunnel, \<open>src/main.c\<close>, over the command line of \<open>Cmd\<close> and the processes of \<open>Workers\<close>.
  \<open>init_cryption\<close> and \<open>spawn_workers\<close> are not in the repository and are arguments. The loop bound
  \<open>worker_num\<close>, which is not declared, is read as the field of \<open>g_conf\<close>. The results of the calls that
  bind and listen are not looked at.
\<close>

section \<open>The program\<close>

definition tunnel_continue :: "int list \<Rightarrow> int \<Rightarrow> proc \<Rightarrow> main_end exec" where
  "tunnel_continue ends worker_num p =
     (if pr_cur p = pr_parent p then
        (if length (pr_pids p) < nat worker_num then Inl OutOfBounds
         else (case tunnel_join_loop ends (take (nat worker_num) (pr_pids p)) of (msgs, cs) \<Rightarrow> Inr (MainReturns 0 msgs cs)))
      else Inr RunsEventLoop)"

definition tunnel_main ::
    "'s cmd_env \<Rightarrow> ('s option \<Rightarrow> bool) \<Rightarrow> (int \<Rightarrow> proc \<Rightarrow> (int \<times> proc) exec) \<Rightarrow> heap \<Rightarrow> int \<Rightarrow> int list \<Rightarrow> string list \<Rightarrow> main_end exec" where
  "tunnel_main env init_cryption spawn_workers h pid ends args =
     ebind (parse_cmd_opt env args) (\<lambda>(res, g).
     let fail = (\<lambda>cs c r rest. case ce_check env c r of Some x \<Rightarrow> Inr (MainReturns x [] cs) | None \<Rightarrow> rest) in
     fail [] res (-1) (
     fail [] (of_bool (\<not> init_cryption (gc_cryption_method g))) (-2) (
     case malloc_obj h of (ok, h1) \<Rightarrow>
     fail [] (of_bool (\<not> ok)) (-3) (
     let p = \<lparr>pr_parent = pid, pr_cur = pid, pr_pids = replicate (nat (gc_worker_num g)) (-1)\<rparr> in
     ebind (spawn_workers (gc_worker_num g) p) (\<lambda>(res, p1).
     fail ends res (-4) (tunnel_continue ends (gc_worker_num g) p1))))))"

lemma bitfield1_1 [simp]: "bitfield 1 1 = -1"
  by (simp add: bitfield_def)

section \<open>Options\<close>

text \<open>
  What a user of the program writes: a setting of one of its keys, as a long option in one word or
  in two, or with the letter that \<open>type\<close> and \<open>config\<close> have, with the value behind it or in the next
  word; the flag \<open>debug\<close>; or a word that is no option.
\<close>

datatype conf_key = Type | Config | ListenHost | ListenPort | TargetHost | TargetPort | SecretKey | CryptionMethod |
  WorkerNum | MaxConnectionNum | DownstreamTimeout | UpstreamTimeout

datatype setting = Long conf_key bool string | Letter conf_key bool string | Debug | Operand string

primrec key_name :: "conf_key \<Rightarrow> string" where
  "key_name Type = ''type''"
| "key_name Config = ''config''"
| "key_name ListenHost = ''listen_host''"
| "key_name ListenPort = ''listen_port''"
| "key_name TargetHost = ''target_host''"
| "key_name TargetPort = ''target_port''"
| "key_name SecretKey = ''secret_key''"
| "key_name CryptionMethod = ''cryption_method''"
| "key_name WorkerNum = ''worker_num''"
| "key_name MaxConnectionNum = ''max_connection_num''"
| "key_name DownstreamTimeout = ''downstream_timeout''"
| "key_name UpstreamTimeout = ''upstream_timeout''"

fun setting_words :: "setting \<Rightarrow> string list" where
  "setting_words (Long k one_word v) = (if one_word then [''--'' @ key_name k @ ''='' @ v] else [''--'' @ key_name k, v])"
| "setting_words (Letter k one_word v) =
     (let l = (if k = Type then ''-t'' else ''-c'') in if one_word then [l @ v] else [l, v])"
| "setting_words Debug = [''--debug'']"
| "setting_words (Operand w) = [w]"

fun setting_ok :: "setting \<Rightarrow> bool" where
  "setting_ok (Long k one_word v) = True"
| "setting_ok (Letter k one_word v) = (k \<in> {Type, Config} \<and> (one_word \<longrightarrow> v \<noteq> []))"
| "setting_ok Debug = True"
| "setting_ok (Operand w) = (take 1 w \<noteq> ''-'')"

text \<open>The values given to a key, in order; and the options that the macros see, with their values.\<close>

fun values_of :: "conf_key \<Rightarrow> setting list \<Rightarrow> string list" where
  "values_of k [] = []"
| "values_of k (Long k' _ v # ss) = (if k' = k then v # values_of k ss else values_of k ss)"
| "values_of k (Letter k' _ v # ss) = (if k' = k then v # values_of k ss else values_of k ss)"
| "values_of k (_ # ss) = values_of k ss"

fun macro_options :: "setting list \<Rightarrow> (string \<times> string option) list" where
  "macro_options [] = []"
| "macro_options (Long k _ v # ss) = (if k \<in> {Type, Config} then macro_options ss else (key_name k, Some v) # macro_options ss)"
| "macro_options (Debug # ss) = (''debug'', None) # macro_options ss"
| "macro_options (_ # ss) = macro_options ss"

definition valued_option :: "nat \<Rightarrow> bool" where
  "valued_option i \<longleftrightarrow> i < length long_options \<and> lo_has_arg (long_options ! i)"

text \<open>Every name is found, none is empty and none has a \<open>=\<close>.\<close>

lemma length_long_options: "length long_options = 14"
  by (simp add: long_options_def)

lemma filter_nth_eq:
  assumes "distinct (map f xs)" "i < length xs"
  shows "filter (\<lambda>j. f (xs ! j) = f (xs ! i)) [0..<length xs] = [i]"
proof -
  have "f (xs ! j) = f (xs ! i) \<longleftrightarrow> j = i" if "j < length xs" for j
    using assms that nth_eq_iff_index_eq [OF assms(1), of j i] by simp
  then have "filter (\<lambda>j. f (xs ! j) = f (xs ! i)) [0..<length xs] = filter (\<lambda>j. j = i) [0..<length xs]"
    by (intro filter_cong) auto
  moreover have "[0..<length xs] = [0..<i] @ i # [Suc i..<length xs]"
    using assms(2) upt_add_eq_append [of 0 i "length xs - i"] by (simp add: upt_conv_Cons)
  then have "filter (\<lambda>j. j = i) [0..<length xs] = [i]" by (simp add: filter_empty_conv)
  ultimately show ?thesis by simp
qed

lemma long_names_distinct: "distinct (map lo_name long_options)"
  by (simp add: long_options_def)

lemma find_long_name: "i < 14 \<Longrightarrow> find_long (lo_name (long_options ! i)) = Some i"
  unfolding find_long_def using filter_nth_eq [OF long_names_distinct, of i] by (simp add: length_long_options)

lemma long_options_names: "i < 14 \<Longrightarrow> lo_name (long_options ! i) \<noteq> [] \<and> CHR ''='' \<notin> set (lo_name (long_options ! i))"
proof -
  have "\<forall>x \<in> set (map lo_name long_options). x \<noteq> [] \<and> CHR ''='' \<notin> set x" by (simp add: long_options_def)
  then show "i < 14 \<Longrightarrow> ?thesis" by (simp add: length_long_options)
qed

lemma long_word_name:
  assumes "valued_option i"
  shows "long_word (lo_name (long_options ! i)) (v # ws) = (long_event i (Some v), ws)"
    and "long_word (lo_name (long_options ! i) @ CHR ''='' # v) ws = (long_event i (Some v), ws)"
proof -
  let ?n = "lo_name (long_options ! i)"
  have i: "find_long ?n = Some i" "CHR ''='' \<notin> set ?n" "lo_has_arg (long_options ! i)"
    using assms long_options_names [of i] find_long_name [of i] by (simp_all add: valued_option_def length_long_options)
  have tw: "takeWhile (\<lambda>c. c \<noteq> CHR ''='') ?n = ?n" using i(2) by (auto simp: takeWhile_eq_all_conv)
  have tw2: "takeWhile (\<lambda>c. c \<noteq> CHR ''='') (?n @ CHR ''='' # v) = ?n"
    using i(2) by (subst takeWhile_append2) auto
  show "long_word ?n (v # ws) = (long_event i (Some v), ws)"
    "long_word (?n @ CHR ''='' # v) ws = (long_event i (Some v), ws)"
    using i by (simp_all add: long_word_def Let_def tw tw2)
qed

text \<open>The place of each key in the table of the program, and the events of a setting.\<close>

primrec key_index :: "conf_key \<Rightarrow> nat" where
  "key_index Type = 2"
| "key_index Config = 1"
| "key_index ListenHost = 4"
| "key_index ListenPort = 5"
| "key_index TargetHost = 6"
| "key_index TargetPort = 7"
| "key_index SecretKey = 9"
| "key_index CryptionMethod = 10"
| "key_index WorkerNum = 8"
| "key_index MaxConnectionNum = 11"
| "key_index DownstreamTimeout = 12"
| "key_index UpstreamTimeout = 13"

lemma key_index_facts: "valued_option (key_index k)" "lo_name (long_options ! key_index k) = key_name k"
  "\<not> lo_flag (long_options ! key_index k)"
  "lo_val (long_options ! key_index k) = (if k = Type then 116 else if k = Config then 99 else 0)"
  by (cases k; simp add: valued_option_def long_options_def)+

fun setting_events :: "setting \<Rightarrow> opt_event list" where
  "setting_events (Long k _ v) = [long_event (key_index k) (Some v)]"
| "setting_events (Letter k _ v) =
     [\<lparr>ev_opt = (if k = Type then 116 else 99), ev_index = None, ev_optarg = Some v, ev_set_flag = False\<rparr>]"
| "setting_events Debug = [long_event 3 None]"
| "setting_events (Operand w) = []"

lemma getopt_long_long:
  "getopt_long (setting_words (Long k b v) @ ws) = setting_events (Long k b v) @ getopt_long ws"
proof -
  have "key_name k \<noteq> []" by (cases k) simp_all
  then show ?thesis using long_word_name [OF key_index_facts(1) [of k]] by (simp add: key_index_facts(2))
qed

lemma getopt_long_letter:
  assumes "setting_ok (Letter k b v)"
  shows "getopt_long (setting_words (Letter k b v) @ ws) = setting_events (Letter k b v) @ getopt_long ws"
  using assms by (cases v) (auto simp: Let_def)

lemma getopt_long_debug: "getopt_long (''--debug'' # ws) = long_event 3 None # getopt_long ws"
proof -
  have n: "lo_name (long_options ! 3) = ''debug''" "\<not> lo_has_arg (long_options ! 3)" by (simp_all add: long_options_def)
  have "find_long ''debug'' = Some 3" using find_long_name [of 3] n(1) by simp
  then have "long_word ''debug'' ws = (long_event 3 None, ws)" using n(2) by (simp add: long_word_def)
  then show ?thesis by simp
qed

lemma getopt_long_setting:
  assumes "setting_ok s"
  shows "getopt_long (setting_words s @ ws) = setting_events s @ getopt_long ws"
proof (cases s)
  case (Long k b v)
  then show ?thesis using getopt_long_long by (simp del: setting_words.simps setting_events.simps getopt_long.simps)
next
  case (Letter k b v)
  then show ?thesis using assms getopt_long_letter by (simp del: setting_words.simps setting_events.simps getopt_long.simps)
next
  case Debug
  then show ?thesis using getopt_long_debug by (simp del: getopt_long.simps)
next
  case (Operand w)
  then show ?thesis using assms by (cases w) auto
qed

lemma getopt_long_settings:
  "\<forall>s \<in> set ss. setting_ok s \<Longrightarrow> getopt_long (concat (map setting_words ss)) = concat (map setting_events ss)"
  by (induction ss) (simp_all add: getopt_long_setting del: getopt_long.simps(2))

section \<open>What the settings do\<close>

text \<open>
  The configuration after settings, if \<open>A\<close>, \<open>S\<close> and \<open>I\<close> are what \<open>rts_str_append\<close> and the two macros
  make of a field. Each field is written with its own name only; a number is cut to 16 bits.
\<close>

definition conf_after ::
    "('s option \<Rightarrow> string \<Rightarrow> 's option) \<Rightarrow> (string \<Rightarrow> string \<Rightarrow> 's option \<Rightarrow> string option \<Rightarrow> 's option) \<Rightarrow>
     (string \<Rightarrow> string \<Rightarrow> int \<Rightarrow> string option \<Rightarrow> int) \<Rightarrow> setting list \<Rightarrow> 's global_conf \<Rightarrow> 's global_conf" where
  "conf_after A S I ss g =
     (let str = (\<lambda>f p. foldl (\<lambda>p (n, a). S n f p a) p (macro_options ss));
          num = (\<lambda>f x. foldl (\<lambda>x (n, a). bitfield 16 (I n f x a)) x (macro_options ss)) in
      \<lparr>gc_type = foldl A (gc_type g) (values_of Type ss),
       gc_listen_host = str ''listen_host'' (gc_listen_host g), gc_listen_port = str ''listen_port'' (gc_listen_port g),
       gc_target_host = str ''target_host'' (gc_target_host g), gc_target_port = str ''target_port'' (gc_target_port g),
       gc_secret_key = str ''secret_key'' (gc_secret_key g), gc_cryption_method = str ''cryption_method'' (gc_cryption_method g),
       gc_config_path = foldl A (gc_config_path g) (values_of Config ss),
       gc_worker_num = num ''worker_num'' (gc_worker_num g), gc_max_connection_num = num ''max_connection_num'' (gc_max_connection_num g),
       gc_downstream_timeout = num ''downstream_timeout'' (gc_downstream_timeout g),
       gc_upstream_timeout = num ''upstream_timeout'' (gc_upstream_timeout g),
       gc_debug = (if Debug \<in> set ss then -1 else gc_debug g)\<rparr>)"

lemma opt_steps_append: "opt_steps env (es @ fs) st = ebind (opt_steps env es st) (opt_steps env fs)"
proof (induction es arbitrary: st)
  case (Cons e es)
  then show ?case by (cases "opt_step env e st") simp_all
qed simp

lemma setting_steps:
  assumes "\<forall>p a. ce_append env p a = Inr (A p a)" "\<forall>n f p a. ce_set_str env n f p a = Inr (S n f p a)"
    and "\<forall>n f x a. ce_set_int env n f x a = Inr (I n f x a)" "setting_ok s"
  shows "\<exists>j. opt_steps env (setting_events s) (i, g) = Inr (j, conf_after A S I [s] g)"
proof (cases s)
  case (Long k b v)
  then show ?thesis using assms(1-3) key_index_facts(2-4) [of k]
    by (cases k) (simp_all add: opt_step_def long_event_def Let_def set_options_def conf_after_def)
next
  case (Letter k b v)
  then show ?thesis using assms(1,4) by (auto simp: opt_step_def Let_def conf_after_def)
next
  case Debug
  have "lo_name (long_options ! 3) = ''debug''" "lo_flag (long_options ! 3)" by (simp_all add: long_options_def)
  then show ?thesis using Debug assms(1-3)
    by (simp add: opt_step_def long_event_def Let_def set_options_def conf_after_def bitfield_def)
qed (simp add: conf_after_def)

lemma conf_after_Cons: "conf_after A S I ss (conf_after A S I [s] g) = conf_after A S I (s # ss) g"
  by (cases s) (simp_all add: conf_after_def Let_def)

lemma settings_steps:
  assumes "\<forall>p a. ce_append env p a = Inr (A p a)" "\<forall>n f p a. ce_set_str env n f p a = Inr (S n f p a)"
    and "\<forall>n f x a. ce_set_int env n f x a = Inr (I n f x a)"
  shows "\<forall>s \<in> set ss. setting_ok s \<Longrightarrow>
    \<exists>j. opt_steps env (concat (map setting_events ss)) (i, g) = Inr (j, conf_after A S I ss g)"
proof (induction ss arbitrary: i g)
  case Nil
  then show ?case by (simp add: conf_after_def Let_def)
next
  case (Cons s ss)
  obtain k where k: "opt_steps env (setting_events s) (i, g) = Inr (k, conf_after A S I [s] g)"
    using setting_steps [OF assms, of s i g] Cons.prems by auto
  then show ?case using Cons.IH [of k "conf_after A S I [s] g"] Cons.prems
    by (simp add: opt_steps_append conf_after_Cons)
qed

text \<open>What the events of any command line look like.\<close>

definition event_ok :: "opt_event \<Rightarrow> bool" where
  "event_ok ev \<longleftrightarrow> (ev_opt ev \<in> {99, 116} \<longrightarrow> ev_optarg ev \<noteq> None) \<and>
     (ev_opt ev = 0 \<longrightarrow> (\<exists>i. ev_index ev = Some i \<and> i < 14 \<and> (ev_optarg ev = None \<longrightarrow> lo_name (long_options ! i) = ''debug'')))"

lemma long_event_ok:
  assumes "i < 14" "arg = None \<longrightarrow> \<not> lo_has_arg (long_options ! i)"
  shows "event_ok (long_event i arg)"
proof -
  have "\<forall>i \<in> set [0..<14]. event_ok (long_event i (Some v))" for v
    by (simp add: upt_rec event_ok_def long_event_def long_options_def)
  moreover have "\<forall>i \<in> set [0..<14]. \<not> lo_has_arg (long_options ! i) \<longrightarrow> event_ok (long_event i None)"
    by (simp add: upt_rec event_ok_def long_event_def long_options_def)
  ultimately show ?thesis using assms by (cases arg) auto
qed

lemma find_long_less: "find_long s = Some i \<Longrightarrow> i < 14"
  by (auto simp: find_long_def length_long_options dest!: arg_cong [of "filter _ _" _ set] split: list.splits if_splits)

lemma bad_option_ok: "event_ok bad_option"
  by (simp add: event_ok_def)

lemma long_word_ok: "event_ok (fst (long_word w rest))"
  by (auto simp: long_word_def Let_def intro!: long_event_ok bad_option_ok dest: find_long_less split: option.split list.split)

lemma short_word_ok: "\<forall>e \<in> set (fst (short_word w rest)). event_ok e"
  by (induction w rest rule: short_word.induct) (auto simp: event_ok_def split: prod.split list.split)

lemma getopt_long_ok: "\<forall>e \<in> set (getopt_long ws). event_ok e"
proof (induction ws rule: getopt_long.induct)
  case (2 w ws)
  obtain e r es rs where w: "long_word (drop 2 w) ws = (e, r)" "short_word (drop 1 w) ws = (es, rs)"
    by (metis surj_pair)
  then have "event_ok e" "\<forall>e \<in> set es. event_ok e"
    using long_word_ok [of "drop 2 w" ws] short_word_ok [of "drop 1 w" ws] by simp_all
  then show ?case using 2 w by auto
qed simp

section \<open>Runs of the option loop\<close>

text \<open>
  An environment that works: the string operations succeed on strings and the macros do when their
  option has a value or is not the one at hand.
\<close>

definition working_env :: "'s cmd_env \<Rightarrow> bool" where
  "working_env env \<longleftrightarrow> (\<forall>n. ce_init env n \<noteq> None) \<and> (\<forall>s a. \<exists>s'. ce_append env (Some s) a = Inr (Some s')) \<and>
     (\<forall>n f s a. a \<noteq> None \<or> n \<noteq> f \<longrightarrow> (\<exists>s'. ce_set_str env n f (Some s) a = Inr (Some s'))) \<and>
     (\<forall>n f x a. a \<noteq> None \<or> n \<noteq> f \<longrightarrow> (\<exists>y. ce_set_int env n f x a = Inr y))"

definition strings_ok :: "'s global_conf \<Rightarrow> bool" where
  "strings_ok g \<longleftrightarrow> gc_type g \<noteq> None \<and> gc_listen_host g \<noteq> None \<and> gc_listen_port g \<noteq> None \<and>
     gc_target_host g \<noteq> None \<and> gc_target_port g \<noteq> None \<and> gc_secret_key g \<noteq> None \<and>
     gc_cryption_method g \<noteq> None \<and> gc_config_path g \<noteq> None"

lemma working_append: "working_env env \<Longrightarrow> p \<noteq> None \<Longrightarrow> \<exists>s. ce_append env p a = Inr (Some s)"
  by (cases p) (simp_all add: working_env_def)

lemma working_set_str:
  "working_env env \<Longrightarrow> a \<noteq> None \<or> n \<noteq> f \<Longrightarrow> p \<noteq> None \<Longrightarrow> \<exists>s. ce_set_str env n f p a = Inr (Some s)"
  unfolding working_env_def by (metis option.exhaust)

lemma working_set_int: "working_env env \<Longrightarrow> a \<noteq> None \<or> n \<noteq> f \<Longrightarrow> \<exists>y. ce_set_int env n f x a = Inr y"
  unfolding working_env_def by metis

lemma init_global_conf_works:
  assumes "working_env env"
  shows "\<exists>g. init_global_conf env = Inr (0, g) \<and> strings_ok g"
proof -
  have "\<exists>s. ce_init env n = Some s" for n using assms by (simp add: working_env_def)
  then obtain s16 s8 s32 where s: "ce_init env 16 = Some s16" "ce_init env 8 = Some s8" "ce_init env 32 = Some s32" by metis
  obtain a b c where a: "ce_append env (Some s16) ''0.0.0.0'' = Inr (Some a)" "ce_append env (Some s8) ''8888'' = Inr (Some b)"
    "ce_append env (Some s16) ''aes256cbc'' = Inr (Some c)"
    using working_append [OF assms, of "Some s16" "''0.0.0.0''"] working_append [OF assms, of "Some s8" "''8888''"]
      working_append [OF assms, of "Some s16" "''aes256cbc''"] by auto
  then show ?thesis by (simp add: init_global_conf_def Let_def s strings_ok_def)
qed

lemma set_options_works:
  assumes "working_env env" "strings_ok g" "arg \<noteq> None \<or> name = ''debug''"
  shows "\<exists>g'. set_options env name arg g = Inr g' \<and> strings_ok g'"
proof -
  have n: "arg \<noteq> None \<or> name \<noteq> f" if "f \<noteq> ''debug''" for f using assms(3) that by auto
  note s = working_set_str [OF assms(1) n] and i = working_set_int [OF assms(1) n]
  have p: "gc_listen_host g \<noteq> None" "gc_listen_port g \<noteq> None" "gc_target_host g \<noteq> None" "gc_target_port g \<noteq> None"
    "gc_secret_key g \<noteq> None" "gc_cryption_method g \<noteq> None" using assms(2) by (simp_all add: strings_ok_def)
  obtain a1 a2 a3 where 1: "ce_set_str env name ''listen_host'' (gc_listen_host g) arg = Inr (Some a1)"
    "ce_set_str env name ''listen_port'' (gc_listen_port g) arg = Inr (Some a2)"
    "ce_set_str env name ''target_host'' (gc_target_host g) arg = Inr (Some a3)"
    using s [OF _ p(1), of "''listen_host''"] s [OF _ p(2), of "''listen_port''"] s [OF _ p(3), of "''target_host''"] by auto
  obtain a4 a5 a6 where 2: "ce_set_str env name ''target_port'' (gc_target_port g) arg = Inr (Some a4)"
    "ce_set_str env name ''secret_key'' (gc_secret_key g) arg = Inr (Some a5)"
    "ce_set_str env name ''cryption_method'' (gc_cryption_method g) arg = Inr (Some a6)"
    using s [OF _ p(4), of "''target_port''"] s [OF _ p(5), of "''secret_key''"] s [OF _ p(6), of "''cryption_method''"] by auto
  obtain a7 a8 where 3: "ce_set_int env name ''worker_num'' (gc_worker_num g) arg = Inr a7"
    "ce_set_int env name ''max_connection_num'' (gc_max_connection_num g) arg = Inr a8"
    using i [of "''worker_num''" "gc_worker_num g"] i [of "''max_connection_num''" "gc_max_connection_num g"] by auto
  obtain a9 a10 where 4: "ce_set_int env name ''downstream_timeout'' (gc_downstream_timeout g) arg = Inr a9"
    "ce_set_int env name ''upstream_timeout'' (gc_upstream_timeout g) arg = Inr a10"
    using i [of "''downstream_timeout''" "gc_downstream_timeout g"] i [of "''upstream_timeout''" "gc_upstream_timeout g"] by auto
  show ?thesis unfolding set_options_def 1 2 3 4 ebind_Inr using assms(2) by (simp add: strings_ok_def)
qed

lemma strings_ok_update [simp]:
  "strings_ok (g\<lparr>gc_debug := x\<rparr>) = strings_ok g"
  "strings_ok g \<Longrightarrow> strings_ok (g\<lparr>gc_type := Some s\<rparr>)" "strings_ok g \<Longrightarrow> strings_ok (g\<lparr>gc_config_path := Some s\<rparr>)"
  by (simp_all add: strings_ok_def)

lemma opt_step_works:
  assumes "working_env env" "event_ok ev" "strings_ok g"
  shows "\<exists>j g'. opt_step env ev (i, g) = Inr (j, g') \<and> strings_ok g'"
proof -
  define g1 where "g1 = (if ev_set_flag ev then g\<lparr>gc_debug := -1\<rparr> else g)"
  have g1: "strings_ok g1" "gc_config_path g1 \<noteq> None" "gc_type g1 \<noteq> None"
    using assms(3) by (auto simp: g1_def strings_ok_def)
  consider "ev_opt ev = 99" | "ev_opt ev = 116" | "ev_opt ev = 0" | "ev_opt ev \<notin> {99, 116, 0}" by auto
  then show ?thesis
  proof cases
    case 1
    then obtain a where "ev_optarg ev = Some a" using assms(2) by (auto simp: event_ok_def)
    then show ?thesis using 1 working_append [OF assms(1) g1(2), of a] g1(1)
      unfolding opt_step_def bitfield1_1 prod.case g1_def [symmetric] Let_def by auto
  next
    case 2
    then obtain a where "ev_optarg ev = Some a" using assms(2) by (auto simp: event_ok_def)
    then show ?thesis using 2 working_append [OF assms(1) g1(3), of a] g1(1)
      unfolding opt_step_def bitfield1_1 prod.case g1_def [symmetric] Let_def by auto
  next
    case 3
    then obtain k where k: "ev_index ev = Some k" "ev_optarg ev \<noteq> None \<or> lo_name (long_options ! k) = ''debug''"
      using assms(2) by (auto simp: event_ok_def)
    then show ?thesis using 3 set_options_works [OF assms(1) g1(1) k(2)]
      unfolding opt_step_def bitfield1_1 prod.case g1_def [symmetric] Let_def by auto
  next
    case 4
    then show ?thesis using g1(1) unfolding opt_step_def bitfield1_1 prod.case g1_def [symmetric] Let_def by auto
  qed
qed

lemma opt_steps_works:
  "working_env env \<Longrightarrow> \<forall>ev \<in> set evs. event_ok ev \<Longrightarrow> strings_ok g \<Longrightarrow>
   \<exists>j g'. opt_steps env evs (i, g) = Inr (j, g') \<and> strings_ok g'"
proof (induction evs arbitrary: i g)
  case (Cons ev evs)
  obtain j g1 where "opt_step env ev (i, g) = Inr (j, g1)" "strings_ok g1"
    using opt_step_works Cons.prems by (metis list.set_intros(1))
  then show ?case using Cons.IH [of g1 j] Cons.prems by simp
qed simp

end
