(* ===== verification/TunnelProps.thy ===== *)
theory TunnelProps
  imports Tunnel
begin

text \<open>What the processes of the servers, the command line and \<open>main\<close> of the tunnel do.\<close>

section \<open>Sample values\<close>

text \<open>
  A string type, macros and an \<open>str_in_array\<close>, one of many that the missing files may define: strings
  are HOL strings, options replace the old value, numbers are decimal; \<open>ia\<close> is \<open>str_in_array\<close>.
\<close>

definition decimal :: "string \<Rightarrow> int" where
  "decimal s = foldl (\<lambda>n c. 10 * n + (of_char c - 48)) 0 s"

definition sample_env :: "(string \<Rightarrow> string option list \<Rightarrow> int exec) \<Rightarrow> string cmd_env" where
  "sample_env ia = \<lparr>ce_init = (\<lambda>_. Some []), ce_append = (\<lambda>p a. Inr (map_option (\<lambda>s. s @ a) p)), ce_buf = (\<lambda>s. s),
     ce_set_str = (\<lambda>n f p a. Inr (if n = f then a else p)),
     ce_set_int = (\<lambda>n f x a. Inr (if n = f then (case a of None \<Rightarrow> x | Some v \<Rightarrow> decimal v) else x)),
     ce_in_array = ia, ce_check = (\<lambda>c r. if c = 0 then None else Some r)\<rparr>"

abbreviation found_is_zero :: "string \<Rightarrow> string option list \<Rightarrow> int exec" where
  "found_is_zero s a \<equiv> Inr (if Some s \<in> set a then 0 else 1)"

lemma sample_env_ok [simp]: "working_env (sample_env ia)"
  by (auto simp: sample_env_def working_env_def)

lemma sample_env_simps [simp]:
  "ce_init (sample_env ia) n = Some []" "ce_append (sample_env ia) (Some s) a = Inr (Some (s @ a))" "ce_buf (sample_env ia) s = s"
  "ce_set_str (sample_env ia) x f p arg = Inr (if x = f then arg else p)"
  "ce_set_int (sample_env ia) x f y (Some v) = Inr (if x = f then decimal v else y)"
  "ce_in_array (sample_env ia) = ia" "ce_check (sample_env ia) c r = (if c = 0 then None else Some r)"
  by (simp_all add: sample_env_def)

lemmas parse_defs = parse_cmd_opt_def init_global_conf_def check_global_conf_def check_res_def opt_step_def set_options_def
  long_options_def Let_def bitfield_def

abbreviation sample_heap :: heap where
  "sample_heap \<equiv> \<lparr>hp_mem = (\<lambda>_. None), hp_next = 0, hp_oom = (\<lambda>_. False), hp_junk = 0\<rparr>"

section \<open>The processes of the echo server\<close>

text \<open>
  C12: with the port bound, the process that is started forks until a \<open>fork\<close> fails or there are five
  children, and returns 0 after it has reaped every one of them, in the order of \<open>g_pids\<close> whatever
  the order in which they end. Its children run the event loop, and there are no other processes: no
  child forks, whatever \<open>fork\<close> would give it.
\<close>

theorem server_main_processes:
  assumes "\<forall>k. fk pid k = -1 \<or> fk pid k > 0 \<and> fk pid k \<noteq> pid" "distinct (child_ids (fk pid))"
    and "mset (ends pid) = mset (child_ids (fk pid))"
  shows "server_main fk ends pid parent 0 =
    map (\<lambda>c. (c, pid, Inr RunsEventLoop)) (child_ids (fk pid)) @
    [(pid, parent, Inr (MainReturns 0 (map ChildFinished (child_ids (fk pid)) @ map WaitFailed (other_entries (fk pid))) []))]"
  using assms by (rule server_main_eq)

theorem server_main_processes_witness:
  "server_main (\<lambda>me k. if k < 2 then me + 1 + int k else -1) (\<lambda>_. [102, 101]) 100 1 0 =
    [(101, 100, Inr RunsEventLoop), (102, 100, Inr RunsEventLoop),
     (100, 1, Inr (MainReturns 0 [ChildFinished 101, ChildFinished 102, WaitFailed (-1), WaitFailed 0, WaitFailed 0] []))]"
proof -
  let ?f = "\<lambda>(me::int) (k::nat). if k < 2 then me + 1 + int k else -1"
  have f: "forked (?f 100) 5 = [0, 1]" by (simp add: forked_def upt_rec)
  then show ?thesis using server_main_processes [of ?f 100 "\<lambda>_. [102, 101]" 1]
    by (simp add: child_ids_def other_entries_def numeral_2_eq_2)
qed

section \<open>The command line\<close>

text \<open>
  \<open>in_array\<close> answers whether the string is among those before NULL and prints what it visits; it
  reads past an array without NULL exactly when the string is not in it.
\<close>

theorem in_array_spec:
  "in_array s (map Some xs @ None # ys) =
     Inr (if s \<in> set xs then 1 else 0, takeWhile (\<lambda>x. x \<noteq> s) xs @ (if s \<in> set xs then [s] else [])) \<and>
   (in_array s (map Some xs) = Inl OutOfBounds \<longleftrightarrow> s \<notin> set xs)"
  by (simp add: in_array_eq in_array_no_null)

text \<open>
  C33: what the settings on a command line do to the configuration. The words of any settings, each
  a long option in one or two words, \<open>-t\<close> or \<open>-c\<close> with its value behind it or next, \<open>--debug\<close> or a word
  that is no option, bring \<open>parse_cmd_opt\<close> to \<open>check_global_conf\<close> with this configuration: \<open>type\<close> and
  \<open>config_path\<close> have had their own values appended, and no others; every other string, and every number,
  has been through its macro with its own name once for each other option given, with that option's name and value
  (NULL for \<open>--debug\<close>), in order, a number being cut to 16 signed bits each time; and \<open>debug\<close> is set
  exactly if \<open>--debug\<close> is there. \<open>A\<close>, \<open>S\<close> and \<open>I\<close> are what \<open>rts_str_append\<close> and the two macros
  compute, which the repository does not contain; nothing is assumed of them but that they return.
\<close>

theorem parse_cmd_opt_settings:
  assumes "\<forall>p a. ce_append env p a = Inr (A p a)" "\<forall>n f p a. ce_set_str env n f p a = Inr (S n f p a)"
    and "\<forall>n f x a. ce_set_int env n f x a = Inr (I n f x a)"
    and "\<forall>s \<in> set ss. setting_ok s" "init_global_conf env = Inr (r0, g0)"
  shows "parse_cmd_opt env (concat (map setting_words ss)) =
    ebind (check_global_conf env (conf_after A S I ss g0)) (\<lambda>r. Inr (r, conf_after A S I ss g0))"
proof -
  obtain j where "opt_steps env (concat (map setting_events ss)) (None, g0) = Inr (j, conf_after A S I ss g0)"
    using settings_steps [OF assms(1-4), of None g0] by blast
  then show ?thesis using getopt_long_settings [OF assms(4)] assms(5) by (simp add: parse_cmd_opt_def)
qed

theorem parse_cmd_opt_settings_witness:
  "\<exists>g. parse_cmd_opt (sample_env found_is_zero)
       [''--worker_num=65537'', ''-t'', ''server'', ''x'', ''--debug'', ''--target_host'', ''h''] = Inr (0, g) \<and>
     gc_worker_num g = 1 \<and> gc_type g = Some ''server'' \<and> gc_target_host g = Some ''h'' \<and> gc_target_port g = Some [] \<and> gc_debug g = -1"
proof -
  let ?env = "sample_env found_is_zero"
  let ?ss = "[Long WorkerNum True ''65537'', Letter Type False ''server'', Operand ''x'', Debug, Long TargetHost False ''h'']"
  let ?A = "\<lambda>p a. map_option (\<lambda>s. s @ a) p" and ?S = "\<lambda>n f p a. if n = f then a else p"
    and ?I = "\<lambda>n f (x::int) a. if n = f then (case a of None \<Rightarrow> x | Some v \<Rightarrow> decimal v) else x"
  obtain r0 g0 where g0: "init_global_conf ?env = Inr (r0, g0)" "gc_cryption_method g0 = Some ''aes256cbc''" "gc_type g0 = Some []"
    "gc_target_port g0 = Some []" "gc_max_connection_num g0 = 1000" "gc_downstream_timeout g0 = 20" "gc_upstream_timeout g0 = 20"
    by (simp add: init_global_conf_def Let_def bitfield_def)
  let ?g = "conf_after ?A ?S ?I ?ss g0"
  have words: "concat (map setting_words ?ss) = [''--worker_num=65537'', ''-t'', ''server'', ''x'', ''--debug'', ''--target_host'', ''h'']"
    by (simp add: Let_def)
  have "parse_cmd_opt ?env (concat (map setting_words ?ss)) = ebind (check_global_conf ?env ?g) (\<lambda>r. Inr (r, ?g))"
    by (rule parse_cmd_opt_settings [OF _ _ _ _ g0(1)]) (simp_all add: sample_env_def)
  moreover have d: "decimal ''65537'' = 65537" by (simp add: decimal_def)
  have f: "gc_worker_num ?g = 1" "gc_type ?g = Some ''server''" "gc_target_host ?g = Some ''h''" "gc_target_port ?g = Some []" "gc_debug ?g = -1"
    "gc_cryption_method ?g = Some ''aes256cbc''" "gc_max_connection_num ?g = 1000" "gc_downstream_timeout ?g = 20" "gc_upstream_timeout ?g = 20"
    using g0(2-7) d by (simp_all add: conf_after_def Let_def bitfield_def)
  moreover have "check_global_conf ?env ?g = Inr 0" using f by (simp add: check_global_conf_def check_res_def)
  ultimately show ?thesis unfolding words by auto
qed

text \<open>
  No command line makes the option loop fault: when the string operations and the macros work,
  all that can fault are the checks, which run on a configuration whose strings are all there.
\<close>

theorem parse_cmd_opt_reaches_checks:
  assumes "working_env env"
  shows "\<exists>g. parse_cmd_opt env args = ebind (check_global_conf env g) (\<lambda>r. Inr (r, g)) \<and> strings_ok g"
proof -
  obtain g where g: "init_global_conf env = Inr (0, g)" "strings_ok g" using init_global_conf_works [OF assms] by blast
  obtain j g1 where "opt_steps env (getopt_long args) (None, g) = Inr (j, g1)" "strings_ok g1"
    using opt_steps_works [OF assms getopt_long_ok g(2)] by blast
  then show ?thesis using g by (auto simp: parse_cmd_opt_def)
qed

theorem parse_cmd_opt_reaches_checks_witness:
  "\<exists>g. parse_cmd_opt (sample_env found_is_zero) [''--debug'', ''-xh'', ''-t''] =
    ebind (check_global_conf (sample_env found_is_zero) g) (\<lambda>r. Inr (r, g)) \<and> strings_ok g"
  using parse_cmd_opt_reaches_checks [of "sample_env found_is_zero"] by fastforce

section \<open>The tunnel\<close>

text \<open>
  C13: \<open>main\<close> waits for its workers. Once no \<open>CHECK_RES\<close> has made it return and \<open>spawn_workers\<close> has left
  the process ids it wants waited for in \<open>g_pids\<close>, between any entries that are not positive, the master reaps
  every worker, in the order of \<open>g_pids\<close> whatever the order in which they end, and no process twice,
  and returns 0; a process whose \<open>cur_pid\<close> is not the master's runs the event loop. What \<open>spawn_workers\<close>,
  \<open>init_cryption\<close> and the macros do otherwise is open: the repository does not contain them.
\<close>

theorem tunnel_main_waits:
  assumes "parse_cmd_opt env args = Inr (r, g)" "ce_check env r (-1) = None"
    and "ce_check env (of_bool (\<not> init_cryption (gc_cryption_method g))) (-2) = None"
    and "malloc_obj h = (ok, h1)" "ce_check env (of_bool (\<not> ok)) (-3) = None"
    and "spawn_workers (gc_worker_num g) \<lparr>pr_parent = pid, pr_cur = pid, pr_pids = replicate (nat (gc_worker_num g)) (-1)\<rparr> = Inr (res, p)"
    and "ce_check env res (-4) = None" "length (pr_pids p) = nat (gc_worker_num g)"
  defines "ids \<equiv> filter (\<lambda>c. c > 0) (pr_pids p)"
  assumes "distinct ids" "mset ends = mset ids"
  shows "tunnel_main env init_cryption spawn_workers h pid ends args =
    Inr (if pr_cur p = pr_parent p then MainReturns 0 (map ChildFinished ids) [] else RunsEventLoop)"
proof -
  have ends: "set ends = set ids" "distinct ends"
    using assms(10,11) by (metis mset_eq_setD, metis mset_eq_imp_distinct_iff)
  have "join_loop ends (ids @ []) = (map ChildFinished ids, [])"
    using join_loop_children [OF assms(10) _ _ ends(2), of "[]"] ends(1) by (simp add: ids_def)
  then have "tunnel_join_loop ends (pr_pids p) = (map ChildFinished ids, [])"
    by (simp add: tunnel_join_loop_eq ids_def)
  then show ?thesis using assms(1-8) by (simp add: tunnel_main_def tunnel_continue_def Let_def)
qed

text \<open>Two workers that end in the other order, between entries that are not ids.\<close>

theorem tunnel_main_waits_witness:
  "tunnel_main (sample_env found_is_zero) (\<lambda>_. True) (\<lambda>_ p. Inr (0, p\<lparr>pr_pids := [-1, 77, 0, 78]\<rparr>)) sample_heap 1 [78, 77]
     [''-tserver'', ''--worker_num=4''] = Inr (MainReturns 0 [ChildFinished 77, ChildFinished 78] [])"
proof -
  have d: "decimal ''4'' = 4" by (simp add: decimal_def)
  obtain g where g: "parse_cmd_opt (sample_env found_is_zero) [''-tserver'', ''--worker_num=4''] = Inr (0, g)" "gc_worker_num g = 4"
    by (simp add: parse_defs d find_long_def is_prefix_def long_word_def long_event_def upt_rec)
  have m: "malloc_obj sample_heap = (True, sample_heap\<lparr>hp_next := 1\<rparr>)" by (simp add: malloc_obj_def)
  show ?thesis
    using tunnel_main_waits [OF g(1) _ _ m, of "\<lambda>_. True" "\<lambda>_ p. Inr (0, p\<lparr>pr_pids := [-1, 77, 0, 78]\<rparr>)" 1 0
        "\<lparr>pr_parent = 1, pr_cur = 1, pr_pids = [-1, 77, 0, 78]\<rparr>" "[78, 77]"] g(2)
    by simp
qed

end
