(* ===== verification/Rc4.thy ===== *)
theory Rc4
  imports Prelude "HOL-Library.Multiset"
begin

text \<open>
  RC4, the second cipher the tunnel's configuration names: \<open>crypto/rc4/rc4_skey.c\<close> and
  \<open>crypto/rc4/rc4_enc.c\<close>, both the bytewise code and the word-wise code that \<open>RC4_CHUNK\<close> selects,
  for little-endian and big-endian machines. \<open>RC4_INT\<close> is \<open>unsigned int\<close> and \<open>RC4_CHUNK\<close> is
  \<open>unsigned long\<close> of 64 bits.
\<close>


section \<open>Key setup\<close>

record RC4_KEY =
  rc_x :: u32
  rc_y :: u32
  rc_data :: "u32 list"

text \<open>\<open>SK_LOOP\<close>, on \<open>id1\<close>, \<open>id2\<close> and the table.\<close>

definition sk_loop :: "u8 list \<Rightarrow> int \<Rightarrow> nat \<Rightarrow> nat \<times> u32 \<times> u32 list \<Rightarrow> (nat \<times> u32 \<times> u32 list) exec" where
  "sk_loop dat len n st =
     (case st of (id1, id2, d) \<Rightarrow>
      if length dat \<le> id1 then Inl OutOfBounds
      else
        (let tmp = d ! n;
             id2' = (ucast (dat ! id1) + tmp + id2) AND 0xff;
             id1' = (if int (Suc id1) = len then 0 else Suc id1)
         in Inr (id1', id2', d[n := d ! unat id2', unat id2' := tmp])))"

function set_key_loop :: "u8 list \<Rightarrow> int \<Rightarrow> nat \<Rightarrow> nat \<times> u32 \<times> u32 list \<Rightarrow> (nat \<times> u32 \<times> u32 list) exec" where
  "set_key_loop dat len i st =
     (if i < 256 then
        ebind (sk_loop dat len i st) (\<lambda>st0.
        ebind (sk_loop dat len (i + 1) st0) (\<lambda>st1.
        ebind (sk_loop dat len (i + 2) st1) (\<lambda>st2.
        ebind (sk_loop dat len (i + 3) st2) (\<lambda>st3.
        set_key_loop dat len (i + 4) st3))))
      else Inr st)"
  by auto
termination by (relation "measure (\<lambda>(_, _, i, _). 256 - i)") auto

declare set_key_loop.simps [simp del]

definition private_RC4_set_key :: "int \<Rightarrow> u8 list \<Rightarrow> RC4_KEY exec" where
  "private_RC4_set_key len dat =
     ebind (set_key_loop dat len 0 (0, 0, map of_nat [0..<256])) (\<lambda>(_, _, d).
     Inr \<lparr>rc_x = 0, rc_y = 0, rc_data = d\<rparr>)"

section \<open>The bytewise code\<close>

text \<open>\<open>LOOP\<close>: the next byte of the stream is combined with a byte of the input.\<close>

definition rc4_loop :: "RC4_KEY \<Rightarrow> u8 \<Rightarrow> u8 \<times> RC4_KEY" where
  "rc4_loop k b =
     (let x = (rc_x k + 1) AND 0xff;
          tx = rc_data k ! unat x;
          y = (tx + rc_y k) AND 0xff;
          ty = rc_data k ! unat y;
          d = (rc_data k)[unat x := ty, unat y := tx]
      in (ucast (d ! unat ((tx + ty) AND 0xff) XOR ucast b), \<lparr>rc_x = x, rc_y = y, rc_data = d\<rparr>))"

text \<open>The loop over groups of eight bytes, and the last loop over fewer.\<close>

fun rc4_groups :: "nat \<Rightarrow> RC4_KEY \<Rightarrow> u8 list \<Rightarrow> (u8 list \<times> RC4_KEY \<times> u8 list) exec" where
  "rc4_groups 0 k inp = Inr ([], k, inp)"
| "rc4_groups (Suc i) k (b0 # b1 # b2 # b3 # b4 # b5 # b6 # b7 # inp) =
     (let (c0, k0) = rc4_loop k b0; (c1, k1) = rc4_loop k0 b1; (c2, k2) = rc4_loop k1 b2; (c3, k3) = rc4_loop k2 b3;
          (c4, k4) = rc4_loop k3 b4; (c5, k5) = rc4_loop k4 b5; (c6, k6) = rc4_loop k5 b6; (c7, k7) = rc4_loop k6 b7
      in ebind (rc4_groups i k7 inp) (\<lambda>(out, r). Inr (c0 # c1 # c2 # c3 # c4 # c5 # c6 # c7 # out, r)))"
| "rc4_groups (Suc i) k inp = Inl OutOfBounds"

fun rc4_tail :: "nat \<Rightarrow> RC4_KEY \<Rightarrow> u8 list \<Rightarrow> (u8 list \<times> RC4_KEY) exec" where
  "rc4_tail 0 k inp = Inr ([], k)"
| "rc4_tail (Suc i) k [] = Inl OutOfBounds"
| "rc4_tail (Suc i) k (b # inp) =
     (let (c, k1) = rc4_loop k b in ebind (rc4_tail i k1 inp) (\<lambda>(out, k2). Inr (c # out, k2)))"

text \<open>\<open>RC4\<close> without \<open>RC4_CHUNK\<close>, or with a pointer that is not aligned: what it writes, and the key.\<close>

definition RC4 :: "RC4_KEY \<Rightarrow> nat \<Rightarrow> u8 list \<Rightarrow> (u8 list \<times> RC4_KEY) exec" where
  "RC4 k len inp =
     ebind (rc4_groups (len div 8) k inp) (\<lambda>(out1, k1, inp1).
     ebind (rc4_tail (len mod 8) k1 inp1) (\<lambda>(out2, k2). Inr (out1 @ out2, k2)))"

section \<open>The word-wise code\<close>

text \<open>A word in memory, the least significant byte first or last.\<close>

definition load_le :: "u8 list \<Rightarrow> u64" where
  "load_le bs = foldr (\<lambda>b w. ucast b OR push_bit 8 w) bs 0"

definition store_le :: "u64 \<Rightarrow> u8 list" where
  "store_le w = map (\<lambda>i. ucast (drop_bit (8 * i) w)) [0..<8]"

definition load_be :: "u8 list \<Rightarrow> u64" where
  "load_be bs = load_le (rev bs)"

definition store_be :: "u64 \<Rightarrow> u8 list" where
  "store_be w = rev (store_le w)"

text \<open>\<open>RC4_STEP\<close>.\<close>

definition rc4_step :: "RC4_KEY \<Rightarrow> u64 \<times> RC4_KEY" where
  "rc4_step k =
     (let x = (rc_x k + 1) AND 0xff;
          tx = rc_data k ! unat x;
          y = (tx + rc_y k) AND 0xff;
          ty = rc_data k ! unat y;
          d = (rc_data k)[unat y := tx, unat x := ty]
      in (ucast (d ! unat ((tx + ty) AND 0xff)), \<lparr>rc_x = x, rc_y = y, rc_data = d\<rparr>))"

text \<open>
  The eight steps of a full word with the shifts of each byte order; \<open>LESHFT (c)\<close> is \<open>8 c\<close> and
  \<open>BESHFT (c)\<close> is \<open>56 - 8 c\<close>.
\<close>

definition rc4_word_le :: "RC4_KEY \<Rightarrow> u64 \<times> RC4_KEY" where
  "rc4_word_le k =
     (let (s0, k0) = rc4_step k; (s1, k1) = rc4_step k0; (s2, k2) = rc4_step k1; (s3, k3) = rc4_step k2;
          (s4, k4) = rc4_step k3; (s5, k5) = rc4_step k4; (s6, k6) = rc4_step k5; (s7, k7) = rc4_step k6
      in (s0 OR push_bit 8 s1 OR push_bit 16 s2 OR push_bit 24 s3 OR push_bit 32 s4 OR push_bit 40 s5
            OR push_bit 48 s6 OR push_bit 56 s7, k7))"

definition rc4_word_be :: "RC4_KEY \<Rightarrow> u64 \<times> RC4_KEY" where
  "rc4_word_be k =
     (let (s0, k0) = rc4_step k; (s1, k1) = rc4_step k0; (s2, k2) = rc4_step k1; (s3, k3) = rc4_step k2;
          (s4, k4) = rc4_step k3; (s5, k5) = rc4_step k4; (s6, k6) = rc4_step k5; (s7, k7) = rc4_step k6
      in (push_bit 56 s0 OR push_bit 48 s1 OR push_bit 40 s2 OR push_bit 32 s3 OR push_bit 24 s4
            OR push_bit 16 s5 OR push_bit 8 s6 OR s7, k7))"

text \<open>The fall-through of the \<open>switch\<close>: \<open>n\<close> steps from shift \<open>i\<close> on.\<close>

fun rc4_switch_le :: "nat \<Rightarrow> nat \<Rightarrow> u64 \<Rightarrow> RC4_KEY \<Rightarrow> u64 \<times> RC4_KEY" where
  "rc4_switch_le 0 i otp k = (otp, k)"
| "rc4_switch_le (Suc n) i otp k =
     (case rc4_step k of (s, k1) \<Rightarrow> rc4_switch_le n (i + 8) (otp OR push_bit i s) k1)"

fun rc4_switch_be :: "nat \<Rightarrow> nat \<Rightarrow> u64 \<Rightarrow> RC4_KEY \<Rightarrow> u64 \<times> RC4_KEY" where
  "rc4_switch_be 0 i otp k = (otp, k)"
| "rc4_switch_be (Suc n) i otp k =
     (case rc4_step k of (s, k1) \<Rightarrow> rc4_switch_be n (i - 8) (otp OR push_bit i s) k1)"

text \<open>
  The loops over full words and the last, partial word, which reads and writes all of its eight bytes.
  \<open>out\<close> is what the output buffer holds before and the result is what it holds afterwards.
\<close>

function rc4_le :: "nat \<Rightarrow> RC4_KEY \<Rightarrow> u8 list \<Rightarrow> u8 list \<Rightarrow> (u8 list \<times> RC4_KEY) exec" where
  "rc4_le len k inp out =
     (if 8 \<le> len then
        ebind (read_src inp 8) (\<lambda>ib.
        ebind (read_src out 8) (\<lambda>_.
        case rc4_word_le k of (otp, k1) \<Rightarrow>
        ebind (rc4_le (len - 8) k1 (drop 8 inp) (drop 8 out)) (\<lambda>(rest, k2).
        Inr (store_le (otp XOR load_le ib) @ rest, k2))))
      else if len \<noteq> 0 then
        ebind (read_src inp 8) (\<lambda>ib.
        ebind (read_src out 8) (\<lambda>ob.
        case rc4_switch_le len 0 0 k of (otp, k1) \<Rightarrow>
        let mask = drop_bit (8 * (8 - len)) (-1);
            ochunk = (load_le ob AND NOT mask) OR ((otp XOR load_le ib) AND mask)
        in Inr (store_le ochunk @ drop 8 out, k1)))
      else Inr (out, k))"
  by auto
termination by (relation "measure (\<lambda>(len, _). len)") auto

function rc4_be :: "nat \<Rightarrow> RC4_KEY \<Rightarrow> u8 list \<Rightarrow> u8 list \<Rightarrow> (u8 list \<times> RC4_KEY) exec" where
  "rc4_be len k inp out =
     (if 8 \<le> len then
        ebind (read_src inp 8) (\<lambda>ib.
        ebind (read_src out 8) (\<lambda>_.
        case rc4_word_be k of (otp, k1) \<Rightarrow>
        ebind (rc4_be (len - 8) k1 (drop 8 inp) (drop 8 out)) (\<lambda>(rest, k2).
        Inr (store_be (otp XOR load_be ib) @ rest, k2))))
      else if len \<noteq> 0 then
        ebind (read_src inp 8) (\<lambda>ib.
        ebind (read_src out 8) (\<lambda>ob.
        case rc4_switch_be len 56 0 k of (otp, k1) \<Rightarrow>
        let mask = push_bit (8 * (8 - len)) (-1);
            ochunk = (load_be ob AND NOT mask) OR ((otp XOR load_be ib) AND mask)
        in Inr (store_be ochunk @ drop 8 out, k1)))
      else Inr (out, k))"
  by auto
termination by (relation "measure (\<lambda>(len, _). len)") auto

declare rc4_le.simps [simp del] rc4_be.simps [simp del]

definition RC4_chunked :: "bool \<Rightarrow> RC4_KEY \<Rightarrow> nat \<Rightarrow> u8 list \<Rightarrow> u8 list \<Rightarrow> (u8 list \<times> RC4_KEY) exec" where
  "RC4_chunked little k len inp out = (if little then rc4_le len k inp out else rc4_be len k inp out)"

end
