(* ===== verification/Rc4Lemmas.thy ===== *)
theory Rc4Lemmas
  imports Rc4
begin

text \<open>
  The table of RC4 stays a permutation; the loops are one pass over the bytes; the word-wise code
  computes the same.
\<close>

section \<open>The invariant\<close>

definition rc4_ok :: "RC4_KEY \<Rightarrow> bool" where
  "rc4_ok k \<longleftrightarrow> mset (rc_data k) = mset (map of_nat [0..<256]) \<and> rc_x k < 256 \<and> rc_y k < 256"

lemma and_0xff [simp]: "unat (x AND 0xff :: u32) < 256" "(x AND 0xff :: u32) < 256"
proof -
  show "(x AND 0xff :: u32) < 256" by (rule le_less_trans [OF word_and_le1]) simp
  then show "unat (x AND 0xff :: u32) < 256" by (simp add: word_less_nat_alt)
qed

lemma rc4_ok_length: "rc4_ok k \<Longrightarrow> length (rc_data k) = 256"
  unfolding rc4_ok_def by (metis length_map length_upt mset_eq_length diff_zero)

lemma rc4_ok_less: "rc4_ok k \<Longrightarrow> i < 256 \<Longrightarrow> rc_data k ! i < 256"
proof -
  assume a: "rc4_ok k" "i < 256"
  then have "rc_data k ! i \<in> set (rc_data k)" by (simp add: rc4_ok_length)
  also have "set (rc_data k) = of_nat ` {0..<256}"
    using a(1) unfolding rc4_ok_def by (metis mset_eq_setD set_map set_upt)
  finally show ?thesis by (auto simp: word_less_nat_alt unat_of_nat)
qed

lemma swap_same: "d[i := d ! j, j := d ! i] = d[j := d ! i, i := d ! j]"
  by (cases "i = j") (simp_all add: list_update_swap)

lemma mset_swap_data: "i < length d \<Longrightarrow> j < length d \<Longrightarrow> mset (d[i := d ! j, j := d ! i]) = mset d"
  using mset_swap [of j d i] by (simp add: swap_same)

section \<open>Key setup\<close>

lemma sk_loop_ok:
  assumes "0 < len" "len \<le> int (length dat)" "id1 < nat len" "n < 256"
    "mset d = mset (map of_nat [0..<256])"
  shows "\<exists>id1' id2' d'. sk_loop dat len n (id1, id2, d) = Inr (id1', id2', d') \<and> id1' < nat len \<and>
    mset d' = mset (map of_nat [0..<256])"
proof -
  have l: "length d = 256" using assms(5) by (metis length_map length_upt mset_eq_length diff_zero)
  have i: "id1 < length dat" using assms by linarith
  show ?thesis using assms i mset_swap_data [of n d] l by (auto simp: sk_loop_def Let_def)
qed

lemma set_key_loop_ok:
  assumes "0 < len" "len \<le> int (length dat)" "id1 < nat len" "4 dvd i" "mset d = mset (map of_nat [0..<256])"
  shows "\<exists>id1' id2' d'. set_key_loop dat len i (id1, id2, d) = Inr (id1', id2', d') \<and> mset d' = mset (map of_nat [0..<256])"
  using assms(3-5)
proof (induction "256 - i" arbitrary: i id1 id2 d rule: less_induct)
  case less
  show ?case
  proof (cases "i < 256")
    case True
    then have n: "i + 1 < 256" "i + 2 < 256" "i + 3 < 256" "4 dvd i + 4" using less.prems(2) by presburger+
    obtain a0 b0 d0 where 0: "sk_loop dat len i (id1, id2, d) = Inr (a0, b0, d0)" "a0 < nat len" "mset d0 = mset (map of_nat [0..<256])"
      using sk_loop_ok [OF assms(1,2) less.prems(1) True less.prems(3)] by blast
    obtain a1 b1 d1 where 1: "sk_loop dat len (i + 1) (a0, b0, d0) = Inr (a1, b1, d1)" "a1 < nat len" "mset d1 = mset (map of_nat [0..<256])"
      using sk_loop_ok [OF assms(1,2) 0(2) n(1) 0(3)] by blast
    obtain a2 b2 d2 where 2: "sk_loop dat len (i + 2) (a1, b1, d1) = Inr (a2, b2, d2)" "a2 < nat len" "mset d2 = mset (map of_nat [0..<256])"
      using sk_loop_ok [OF assms(1,2) 1(2) n(2) 1(3)] by blast
    obtain a3 b3 d3 where 3: "sk_loop dat len (i + 3) (a2, b2, d2) = Inr (a3, b3, d3)" "a3 < nat len" "mset d3 = mset (map of_nat [0..<256])"
      using sk_loop_ok [OF assms(1,2) 2(2) n(3) 2(3)] by blast
    have "set_key_loop dat len i (id1, id2, d) = set_key_loop dat len (i + 4) (a3, b3, d3)"
      using True by (subst set_key_loop.simps) (simp only: 0 1 2 3 ebind_Inr if_True)
    then show ?thesis using less.hyps [of "i + 4" a3 d3 b3] True n(4) 3(2,3) by auto
  next
    case False
    then show ?thesis using less.prems(3) by (simp add: set_key_loop.simps)
  qed
qed

lemma RC4_set_key_ok:
  assumes "0 < len" "len \<le> int (length dat)"
  shows "\<exists>k. private_RC4_set_key len dat = Inr k \<and> rc4_ok k"
  using set_key_loop_ok [OF assms, of 0 0 "map of_nat [0..<256]" 0] assms(1)
  by (auto simp: private_RC4_set_key_def rc4_ok_def)

section \<open>One pass over the bytes\<close>

primrec rc4_bytes :: "RC4_KEY \<Rightarrow> u8 list \<Rightarrow> u8 list \<times> RC4_KEY" where
  "rc4_bytes k [] = ([], k)"
| "rc4_bytes k (b # bs) = (let (c, k1) = rc4_loop k b; (cs, k2) = rc4_bytes k1 bs in (c # cs, k2))"

lemma rc4_bytes_append:
  "rc4_bytes k (xs @ ys) = (case rc4_bytes k xs of (a, k1) \<Rightarrow> case rc4_bytes k1 ys of (b, k2) \<Rightarrow> (a @ b, k2))"
  by (induction xs arbitrary: k) (auto simp: split_def Let_def)

lemma length_rc4_bytes [simp]: "length (fst (rc4_bytes k xs)) = length xs"
  by (induction xs arbitrary: k) (auto simp: split_def Let_def)

text \<open>The key afterwards does not depend on the input, and the output is input combined with a stream.\<close>

lemma rc4_loop_key: "snd (rc4_loop k b) = snd (rc4_loop k 0)"
  by (simp add: rc4_loop_def Let_def)

lemma rc4_loop_xor: "fst (rc4_loop k b) = fst (rc4_loop k 0) XOR b"
proof -
  have "ucast (w XOR ucast b :: u32) = (ucast w XOR b :: u8)" for w
    by (rule bit_word_eqI) (auto simp: bit_simps)
  then show ?thesis by (simp add: rc4_loop_def Let_def)
qed

lemma rc4_bytes_key: "snd (rc4_bytes k xs) = snd (rc4_bytes k (replicate (length xs) 0))"
proof (induction xs arbitrary: k)
  case (Cons x xs)
  have "snd (rc4_loop k x) = snd (rc4_loop k 0)" by (rule rc4_loop_key)
  then show ?case using Cons.IH [of "snd (rc4_loop k 0)"] by (simp add: split_def Let_def)
qed simp

lemma rc4_bytes_twice: "fst (rc4_bytes k (fst (rc4_bytes k xs))) = xs"
proof (induction xs arbitrary: k)
  case (Cons x xs)
  have e: "snd (rc4_loop k b) = snd (rc4_loop k 0)" for b by (rule rc4_loop_key)
  have "fst (rc4_loop k (fst (rc4_loop k x))) = x"
    unfolding rc4_loop_xor [of k x] rc4_loop_xor [of k "fst (rc4_loop k 0) XOR x"]
    by (rule bit_word_eqI) (auto simp: bit_simps)
  then show ?case using Cons.IH [of "snd (rc4_loop k 0)"]
    by (simp add: split_def Let_def e [of x] e [of "fst (rc4_loop k x)"])
qed simp

lemma rc4_loop_ok: "rc4_ok k \<Longrightarrow> rc4_ok (snd (rc4_loop k b))"
  using mset_swap_data [of "unat ((rc_x k + 1) AND 0xff)" "rc_data k"]
  by (auto simp: rc4_ok_def rc4_loop_def Let_def rc4_ok_length [unfolded rc4_ok_def])

lemma rc4_bytes_ok: "rc4_ok k \<Longrightarrow> rc4_ok (snd (rc4_bytes k xs))"
  by (induction xs arbitrary: k) (auto simp: split_def Let_def rc4_loop_ok)

lemma rc4_groups_eq:
  "8 * i \<le> length inp \<Longrightarrow> rc4_groups i k inp =
     Inr (fst (rc4_bytes k (take (8 * i) inp)), snd (rc4_bytes k (take (8 * i) inp)), drop (8 * i) inp)"
proof (induction i arbitrary: k inp)
  case (Suc i)
  from Suc.prems have "Suc (Suc (Suc (Suc (Suc (Suc (Suc (Suc (8 * i)))))))) \<le> length inp" by simp
  then obtain b0 b1 b2 b3 b4 b5 b6 b7 r where "inp = b0 # b1 # b2 # b3 # b4 # b5 # b6 # b7 # r" "8 * i \<le> length r"
    by (auto simp: Suc_le_length_iff)
  moreover from this have "take (8 * Suc i) inp = b0 # b1 # b2 # b3 # b4 # b5 # b6 # b7 # take (8 * i) r"
    "drop (8 * Suc i) inp = drop (8 * i) r"
    using drop_drop [of "8 * i" 8 inp] by (simp_all add: take_add add.commute)
  ultimately show ?case using Suc.IH [of r] by (simp add: split_def Let_def)
qed simp

lemma rc4_tail_eq: "i \<le> length inp \<Longrightarrow> rc4_tail i k inp = Inr (rc4_bytes k (take i inp))"
proof (induction i arbitrary: k inp)
  case (Suc i)
  then obtain b r where "inp = b # r" "i \<le> length r" by (auto simp: Suc_le_length_iff)
  then show ?case using Suc.IH [of r] by (simp add: split_def Let_def)
qed simp

lemma RC4_eq:
  assumes "len \<le> length inp"
  shows "RC4 k len inp = Inr (rc4_bytes k (take len inp))"
proof -
  have l: "8 * (len div 8) \<le> length inp" "len mod 8 \<le> length (drop (8 * (len div 8)) inp)"
    using assms by (simp_all add: minus_div_mult_eq_mod [symmetric] minus_mod_eq_mult_div)
  have "take len inp = take (8 * (len div 8)) inp @ take (len mod 8) (drop (8 * (len div 8)) inp)"
    by (metis take_add mult_div_mod_eq)
  then show ?thesis unfolding RC4_def rc4_groups_eq [OF l(1)] ebind_Inr prod.case rc4_tail_eq [OF l(2)]
    by (simp add: rc4_bytes_append split_def)
qed

section \<open>Words in memory\<close>

lemma bit_load_le: "bit (load_le bs) n \<longleftrightarrow> n < 64 \<and> n div 8 < length bs \<and> bit (bs ! (n div 8)) (n mod 8)"
proof (induction bs arbitrary: n)
  case (Cons b bs)
  show ?case
  proof (cases "n < 8")
    case True
    then show ?thesis by (auto simp: load_le_def bit_simps)
  next
    case False
    then have "n div 8 = Suc ((n - 8) div 8)" "n mod 8 = (n - 8) mod 8" "\<not> bit b n"
      by (auto simp: div_if mod_if dest: bit_imp_le_length)
    then show ?thesis using Cons.IH [of "n - 8"] False by (auto simp: load_le_def bit_simps)
  qed
qed (simp add: load_le_def)

lemma length_store_le [simp]: "length (store_le w) = 8"
  by (simp add: store_le_def)

lemma bit_store_le: "i < 8 \<Longrightarrow> bit (store_le w ! i) m \<longleftrightarrow> m < 8 \<and> bit w (8 * i + m)"
  by (auto simp: store_le_def bit_simps add.commute)

lemma byte_index [simp]: "m < 8 \<Longrightarrow> (8 * i + m) div 8 = i" "m < 8 \<Longrightarrow> (8 * i + m) mod 8 = m" for m :: nat
  by simp_all

lemma store_load_xor:
  assumes "length xs = 8" "length ys = 8"
  shows "store_le (load_le xs XOR load_le ys) = map2 (XOR) xs ys"
proof (rule nth_equalityI)
  fix i assume "i < length (store_le (load_le xs XOR load_le ys))"
  then have i: "i < 8" by simp
  show "store_le (load_le xs XOR load_le ys) ! i = map2 (XOR) xs ys ! i"
    using i assms by (intro bit_word_eqI) (auto simp: bit_store_le bit_load_le bit_xor_iff)
qed (use assms in simp)

text \<open>The step of the word-wise code and the loop of the bytewise code.\<close>

lemma rc4_step_eq:
  assumes "rc4_ok k"
  shows "rc4_step k = (ucast (fst (rc4_loop k 0)), snd (rc4_loop k 0))"
proof -
  let ?x = "(rc_x k + 1) AND 0xff" let ?tx = "rc_data k ! unat ?x"
  let ?y = "(?tx + rc_y k) AND 0xff" let ?ty = "rc_data k ! unat ?y"
  let ?d = "(rc_data k)[unat ?x := ?ty, unat ?y := ?tx]"
  have d: "(rc_data k)[unat ?y := ?tx, unat ?x := ?ty] = ?d" by (rule swap_same)
  have "rc4_ok \<lparr>rc_x = ?x, rc_y = ?y, rc_data = ?d\<rparr>" using rc4_loop_ok [OF assms, of 0] by (simp add: rc4_loop_def Let_def)
  from rc4_ok_less [OF this, of "unat ((?tx + ?ty) AND 0xff)"]
  have l: "?d ! unat ((?tx + ?ty) AND 0xff) < 256" by simp
  have "ucast w = (ucast (ucast w :: u8) :: u64)" if "w < 256" for w :: u32
    using that by (simp add: word_unat_eq_iff unsigned_ucast_eq unsigned_take_bit_eq word_less_nat_alt take_bit_nat_eq_self)
  from this [OF l] show ?thesis by (simp add: rc4_step_def rc4_loop_def Let_def d)
qed

text \<open>The next bytes of the stream.\<close>

definition stream :: "RC4_KEY \<Rightarrow> nat \<Rightarrow> u8 list" where
  "stream k n = fst (rc4_bytes k (replicate n 0))"

definition after :: "RC4_KEY \<Rightarrow> nat \<Rightarrow> RC4_KEY" where
  "after k n = snd (rc4_bytes k (replicate n 0))"

lemma stream_simps [simp]:
  "stream k 0 = []" "stream k (Suc n) = fst (rc4_loop k 0) # stream (snd (rc4_loop k 0)) n"
  "after k 0 = k" "after k (Suc n) = after (snd (rc4_loop k 0)) n" "length (stream k n) = n"
  by (simp_all add: stream_def after_def split_def Let_def)

lemma after_ok: "rc4_ok k \<Longrightarrow> rc4_ok (after k n)"
  by (simp add: after_def rc4_bytes_ok)

lemma rc4_bytes_stream: "rc4_bytes k xs = (map2 (XOR) (stream k (length xs)) xs, after k (length xs))"
proof (induction xs arbitrary: k)
  case (Cons x xs)
  have "rc4_loop k x = (fst (rc4_loop k 0) XOR x, snd (rc4_loop k 0))"
    using rc4_loop_key [of k x] rc4_loop_xor [of k x] by (metis prod.collapse)
  then show ?case using Cons.IH by (simp add: Let_def)
qed simp

lemma load_le_simps [simp]: "load_le [] = 0" "load_le (b # bs) = ucast b OR push_bit 8 (load_le bs)"
  by (simp_all add: load_le_def)

lemma rc4_word_le_eq:
  assumes "rc4_ok k"
  shows "rc4_word_le k = (load_le (stream k 8), after k 8)"
proof -
  have 8: "stream k 8 = stream k (Suc (Suc (Suc (Suc (Suc (Suc (Suc (Suc 0))))))))"
    "after k 8 = after k (Suc (Suc (Suc (Suc (Suc (Suc (Suc (Suc 0))))))))" by (simp_all add: numeral_eq_Suc)
  show ?thesis unfolding 8
    by (simp add: rc4_word_le_def Let_def rc4_step_eq rc4_loop_ok assms push_bit_or or.assoc)
qed

lemma rc4_switch_le_eq: "rc4_ok k \<Longrightarrow> rc4_switch_le n i otp k = (otp OR push_bit i (load_le (stream k n)), after k n)"
proof (induction n arbitrary: i otp k)
  case (Suc n)
  have "push_bit (i + 8) w = push_bit i (push_bit 8 w)" for w :: u64 by (simp add: add.commute)
  then show ?case using Suc.IH [OF rc4_loop_ok [OF Suc.prems, of 0]] Suc.prems
    by (simp add: rc4_step_eq push_bit_or or.assoc)
qed simp

lemma stream_add: "stream k (m + n) = stream k m @ stream (after k m) n"
  and after_add: "after k (m + n) = after (after k m) n"
  by (induction m arbitrary: k) simp_all

lemma load_le_append: "load_le (xs @ ys) = load_le xs OR push_bit (8 * length xs) (load_le ys)"
  by (induction xs) (simp_all add: push_bit_or or.assoc)

lemma rc4_word_be_eq:
  assumes "rc4_ok k"
  shows "rc4_word_be k = (load_be (stream k 8), after k 8)"
proof -
  have 8: "stream k 8 = stream k (Suc (Suc (Suc (Suc (Suc (Suc (Suc (Suc 0))))))))"
    "after k 8 = after k (Suc (Suc (Suc (Suc (Suc (Suc (Suc (Suc 0))))))))" by (simp_all add: numeral_eq_Suc)
  show ?thesis unfolding 8
    by (simp add: rc4_word_be_def load_be_def Let_def rc4_step_eq rc4_loop_ok assms push_bit_or or.assoc or.commute or.left_commute)
qed

lemma rc4_switch_be_eq:
  "rc4_ok k \<Longrightarrow> 8 * n \<le> i + 8 \<Longrightarrow>
   rc4_switch_be n i otp k = (otp OR push_bit (i + 8 - 8 * n) (load_le (rev (stream k n))), after k n)"
proof (induction n arbitrary: i otp k)
  case (Suc n)
  have i: "i - 8 + 8 - 8 * n = i + 8 - 8 * Suc n" if "n \<noteq> 0" using that Suc.prems(2) by simp
  have s: "push_bit (i + 8 - 8 * Suc n) (push_bit (8 * n) w) = push_bit i w" for w :: u64 using Suc.prems(2) by simp
  have "push_bit (i - 8 + 8 - 8 * n) (load_le (rev (stream k1 n))) = push_bit (i + 8 - 8 * Suc n) (load_le (rev (stream k1 n)))" for k1
    using i by (cases "n = 0") simp_all
  then show ?case using Suc.IH [OF rc4_loop_ok [OF Suc.prems(1), of 0], of "i - 8"] Suc.prems
    by (simp add: rc4_step_eq load_le_append push_bit_or s [simplified] or.assoc or.commute or.left_commute)
qed simp

text \<open>A partial word: the bytes of the mask are new, the others stay.\<close>

lemma partial_le:
  assumes "length ss = n" "n < 8" "length ib = 8" "length ob = 8"
  defines "m \<equiv> drop_bit (8 * (8 - n)) (-1) :: u64"
  shows "store_le ((load_le ob AND NOT m) OR ((load_le ss XOR load_le ib) AND m)) =
    map2 (XOR) ss (take n ib) @ drop n ob"
proof (rule nth_equalityI)
  have m: "bit m j \<longleftrightarrow> j < 8 * n" for j using assms(2) by (auto simp: m_def bit_simps)
  fix i assume "i < length (store_le ((load_le ob AND NOT m) OR ((load_le ss XOR load_le ib) AND m)))"
  then have i: "i < 8" by simp
  show "store_le ((load_le ob AND NOT m) OR ((load_le ss XOR load_le ib) AND m)) ! i =
      (map2 (XOR) ss (take n ib) @ drop n ob) ! i"
    using i assms(1-4)
    by (intro bit_word_eqI) (auto simp: bit_store_le bit_load_le bit_simps m nth_append)
qed (use assms in simp)

lemma partial_be:
  assumes "length ss = 8 - r" "r \<le> 8" "length ib = 8" "length ob = 8"
  defines "m \<equiv> push_bit (8 * r) (-1) :: u64"
  shows "store_le ((load_le ob AND NOT m) OR ((push_bit (8 * r) (load_le ss) XOR load_le ib) AND m)) =
    take r ob @ map2 (XOR) ss (drop r ib)"
proof (rule nth_equalityI)
  have m: "bit m j \<longleftrightarrow> 8 * r \<le> j \<and> j < 64" for j by (auto simp: m_def bit_simps)
  fix i assume "i < length (store_le ((load_le ob AND NOT m) OR ((push_bit (8 * r) (load_le ss) XOR load_le ib) AND m)))"
  then have i: "i < 8" by simp
  have b: "8 * r \<le> 8 * i + j \<longleftrightarrow> r \<le> i" if "j < 8" for j using that by presburger
  have e: "8 * i + j - 8 * r = 8 * (i - r) + j" if "r \<le> i" for j using that by (simp add: diff_mult_distrib2)
  show "store_le ((load_le ob AND NOT m) OR ((push_bit (8 * r) (load_le ss) XOR load_le ib) AND m)) ! i =
      (take r ob @ map2 (XOR) ss (drop r ib)) ! i"
    using i assms(1-4)
    by (intro bit_word_eqI) (auto simp: bit_store_le bit_load_le bit_simps m nth_append b e)
qed (use assms in simp)

section \<open>The word-wise code\<close>

text \<open>How many bytes of the buffers are touched: full words.\<close>

definition full_words :: "nat \<Rightarrow> nat" where
  "full_words len = 8 * ((len + 7) div 8)"

lemma full_words_ge8: "8 \<le> len \<Longrightarrow> full_words len = 8 + full_words (len - 8)"
  by (simp add: full_words_def div_if)

lemma full_words_less8: "len < 8 \<Longrightarrow> full_words len = (if len = 0 then 0 else 8)"
  by (cases len) (auto simp: full_words_def div_if)

lemma rc4_le_eq:
  "rc4_ok k \<Longrightarrow> full_words len \<le> length inp \<Longrightarrow> full_words len \<le> length out \<Longrightarrow>
   rc4_le len k inp out = Inr (map2 (XOR) (stream k len) (take len inp) @ drop len out, after k len)"
proof (induction len arbitrary: k inp out rule: less_induct)
  case (less len)
  show ?case
  proof (cases "8 \<le> len")
    case True
    have l: "8 \<le> length inp" "8 \<le> length out" "full_words (len - 8) \<le> length (drop 8 inp)" "full_words (len - 8) \<le> length (drop 8 out)"
      using less.prems(2,3) full_words_ge8 [OF True] by simp_all
    have s: "stream k len = stream k 8 @ stream (after k 8) (len - 8)" "after k len = after (after k 8) (len - 8)"
      using stream_add [of k 8 "len - 8"] after_add [of k 8 "len - 8"] True by simp_all
    have t: "take len inp = take 8 inp @ take (len - 8) (drop 8 inp)" "drop len out = drop (len - 8) (drop 8 out)"
      using True by (metis le_add_diff_inverse take_add, simp)
    show ?thesis unfolding s t
      using True less.IH [OF _ after_ok [OF less.prems(1), of 8] l(3,4)] l(1,2)
      by (subst rc4_le.simps) (simp add: read_src_ok rc4_word_le_eq less.prems(1) store_load_xor)
  next
    case False
    then show ?thesis
    proof (cases "len = 0")
      case False
      have l: "8 \<le> length inp" "8 \<le> length out" using less.prems(2,3) full_words_less8 [of len] False \<open>\<not> 8 \<le> len\<close> by simp_all
      have t: "take len (take 8 inp) = take len inp" "drop len (take 8 out) @ drop 8 out = drop len out"
        using \<open>\<not> 8 \<le> len\<close> by (simp, metis append_take_drop_id drop_append drop_take le_add_diff_inverse2 l(2) length_take min.absorb2 diff_is_0_eq drop0 linorder_le_cases)
      show ?thesis using False \<open>\<not> 8 \<le> len\<close> l partial_le [of "stream k len" len "take 8 inp" "take 8 out"] t
        by (subst rc4_le.simps) (simp add: read_src_ok rc4_switch_le_eq less.prems(1) Let_def)
    qed (simp add: rc4_le.simps)
  qed
qed

lemma rc4_be_eq:
  "rc4_ok k \<Longrightarrow> full_words len \<le> length inp \<Longrightarrow> full_words len \<le> length out \<Longrightarrow>
   rc4_be len k inp out = Inr (map2 (XOR) (stream k len) (take len inp) @ drop len out, after k len)"
proof (induction len arbitrary: k inp out rule: less_induct)
  case (less len)
  have rev2: "rev (map2 (XOR) (rev xs) (rev ys)) = map2 (XOR) xs ys" if "length xs = length ys" for xs ys :: "u8 list"
    using that by (simp add: rev_map zip_rev)
  show ?case
  proof (cases "8 \<le> len")
    case True
    have l: "8 \<le> length inp" "8 \<le> length out" "full_words (len - 8) \<le> length (drop 8 inp)" "full_words (len - 8) \<le> length (drop 8 out)"
      using less.prems(2,3) full_words_ge8 [OF True] by simp_all
    have s: "stream k len = stream k 8 @ stream (after k 8) (len - 8)" "after k len = after (after k 8) (len - 8)"
      using stream_add [of k 8 "len - 8"] after_add [of k 8 "len - 8"] True by simp_all
    have t: "take len inp = take 8 inp @ take (len - 8) (drop 8 inp)" "drop len out = drop (len - 8) (drop 8 out)"
      using True by (metis le_add_diff_inverse take_add, simp)
    have w: "store_be (load_be (stream k 8) XOR load_be (take 8 inp)) = map2 (XOR) (stream k 8) (take 8 inp)"
      using l(1) rev2 [of "stream k 8" "take 8 inp"] by (simp add: store_be_def load_be_def store_load_xor)
    show ?thesis unfolding s t
      using True less.IH [OF _ after_ok [OF less.prems(1), of 8] l(3,4)] l(1,2)
      by (subst rc4_be.simps) (simp add: read_src_ok rc4_word_be_eq less.prems(1) w)
  next
    case False
    then show ?thesis
    proof (cases "len = 0")
      case False
      have l: "8 \<le> length inp" "8 \<le> length out" using less.prems(2,3) full_words_less8 [of len] False \<open>\<not> 8 \<le> len\<close> by simp_all
      let ?r = "8 - len" and ?ss = "stream k len"
      have n: "len < 8" "8 - ?r = len" using \<open>\<not> 8 \<le> len\<close> by simp_all
      have e: "64 - 8 * len = 8 * ?r" by simp
      have "drop ?r (rev (take 8 inp)) = rev (take len inp)"
        using n l(1) by (simp add: drop_rev min_absorb2)
      moreover have "rev (take ?r (rev (take 8 out))) = drop len (take 8 out)" using n l(2) by (simp add: take_rev min_absorb2)
      moreover have "drop len (take 8 out) @ drop 8 out = drop len out"
        using n(1) by (metis append_take_drop_id drop_append drop_take le_add_diff_inverse2 l(2) length_take min.absorb2 diff_is_0_eq drop0 less_imp_le)
      ultimately show ?thesis using False n l partial_be [of "rev ?ss" ?r "rev (take 8 inp)" "rev (take 8 out)"]
          rev2 [of ?ss "take len inp"]
        by (subst rc4_be.simps) (simp add: read_src_ok rc4_switch_be_eq less.prems(1) Let_def store_be_def load_be_def min_absorb2 e)
    qed (simp add: rc4_be.simps)
  qed
qed

lemma RC4_chunked_eq:
  "rc4_ok k \<Longrightarrow> full_words len \<le> length inp \<Longrightarrow> full_words len \<le> length out \<Longrightarrow>
   RC4_chunked little k len inp out = Inr (map2 (XOR) (stream k len) (take len inp) @ drop len out, after k len)"
  by (simp add: RC4_chunked_def rc4_le_eq rc4_be_eq)

end
