(* ===== verification/Rc4Props.thy ===== *)
theory Rc4Props
  imports Rc4Lemmas
begin

text \<open>What RC4 guarantees: streams that do not depend on how the data is cut, and equal variants.\<close>

section \<open>Sequences of calls\<close>

text \<open>One call of \<open>RC4\<close> per piece, with the key structure passed on.\<close>

fun rc4_calls :: "RC4_KEY \<Rightarrow> u8 list list \<Rightarrow> (u8 list \<times> RC4_KEY) exec" where
  "rc4_calls k [] = Inr ([], k)"
| "rc4_calls k (x # xs) =
     ebind (RC4 k (length x) x) (\<lambda>(out, k1). ebind (rc4_calls k1 xs) (\<lambda>(rest, k2). Inr (out @ rest, k2)))"

lemma rc4_calls_eq: "rc4_calls k xs = Inr (rc4_bytes k (concat xs))"
  by (induction xs arbitrary: k) (auto simp: RC4_eq rc4_bytes_append split_def)

text \<open>Buffers that end before the last full word.\<close>

lemma short_input: "8 \<le> len \<Longrightarrow> length inp < full_words len \<Longrightarrow> length inp < 8 \<or> length (drop 8 inp) < full_words (len - 8)"
  using full_words_ge8 [of len] by auto

lemma rc4_le_short: "length inp < full_words len \<Longrightarrow> rc4_le len k inp out = Inl OutOfBounds"
proof (induction len arbitrary: k inp out rule: less_induct)
  case (less len)
  show ?case
  proof (cases "8 \<le> len")
    case True
    then show ?thesis using short_input [OF True less.prems] less.IH [of "len - 8" "drop 8 inp"]
      by (subst rc4_le.simps) (auto simp: read_src_def split: prod.split)
  next
    case False
    then show ?thesis using less.prems full_words_less8 [of len]
      by (subst rc4_le.simps) (auto simp: read_src_def split: if_splits)
  qed
qed

lemma rc4_be_short: "length inp < full_words len \<Longrightarrow> rc4_be len k inp out = Inl OutOfBounds"
proof (induction len arbitrary: k inp out rule: less_induct)
  case (less len)
  show ?case
  proof (cases "8 \<le> len")
    case True
    then show ?thesis using short_input [OF True less.prems] less.IH [of "len - 8" "drop 8 inp"]
      by (subst rc4_be.simps) (auto simp: read_src_def split: prod.split)
  next
    case False
    then show ?thesis using less.prems full_words_less8 [of len]
      by (subst rc4_be.simps) (auto simp: read_src_def split: if_splits)
  qed
qed

section \<open>Properties\<close>

text \<open>
  C31: RC4 inverts itself: after setting up the same key of at least one byte, what one side encrypts
  in pieces of any sizes the other side decrypts in pieces of any other sizes; the table of 256
  entries is a permutation of the bytes before and after, so no access leaves it.
\<close>

theorem RC4_roundtrip:
  assumes "0 < len" "len \<le> int (length dat)"
  shows "\<exists>k c k'. private_RC4_set_key len dat = Inr k \<and> rc4_calls k ms = Inr (c, k') \<and> length c = length (concat ms) \<and>
    (\<forall>cs. concat cs = c \<longrightarrow> rc4_calls k cs = Inr (concat ms, k')) \<and>
    mset (rc_data k) = mset (map of_nat [0..<256]) \<and> mset (rc_data k') = mset (map of_nat [0..<256])"
proof -
  obtain k where k: "private_RC4_set_key len dat = Inr k" "rc4_ok k" using RC4_set_key_ok [OF assms] by blast
  let ?c = "fst (rc4_bytes k (concat ms))" and ?k = "snd (rc4_bytes k (concat ms))"
  have "rc4_bytes k ?c = (concat ms, ?k)"
    using rc4_bytes_twice [of k "concat ms"] rc4_bytes_key [of k ?c] rc4_bytes_key [of k "concat ms"]
    by (metis length_rc4_bytes prod.collapse)
  then have "\<forall>cs. concat cs = ?c \<longrightarrow> rc4_calls k cs = Inr (concat ms, ?k)" by (simp add: rc4_calls_eq)
  moreover have "rc4_calls k ms = Inr (?c, ?k)" by (simp add: rc4_calls_eq)
  moreover have "mset (rc_data k) = mset (map of_nat [0..<256])" "mset (rc_data ?k) = mset (map of_nat [0..<256])"
    using k(2) rc4_bytes_ok [OF k(2), of "concat ms"] unfolding rc4_ok_def by blast+
  ultimately show ?thesis using k(1) length_rc4_bytes by blast
qed

theorem RC4_roundtrip_witness:
  "\<exists>k c k'. private_RC4_set_key 3 [75, 101, 121] = Inr k \<and> rc4_calls k [[80, 108], [97, 105, 110]] = Inr (c, k') \<and>
    rc4_calls k [c] = Inr ([80, 108, 97, 105, 110], k')"
proof -
  obtain k c k' where k: "private_RC4_set_key 3 [75, 101, 121] = Inr k" "rc4_calls k [[80, 108], [97, 105, 110]] = Inr (c, k')"
    "\<forall>cs. concat cs = c \<longrightarrow> rc4_calls k cs = Inr (concat [[80, 108], [97, 105, 110]], k')"
    using RC4_roundtrip [of 3 "[75, 101, 121]" "[[80, 108], [97, 105, 110]]"] by (auto simp del: rc4_calls.simps)
  from k(3) [THEN spec, of "[c]"] have "rc4_calls k [c] = Inr ([80, 108, 97, 105, 110], k')" by (simp del: rc4_calls.simps)
  then show ?thesis using k(1,2) by blast
qed

text \<open>
  C32: the word-wise code of \<open>RC4_CHUNK\<close> computes what the bytewise code does, on machines of either
  byte order, and leaves the output bytes behind \<open>len\<close> as they were; but it reads and writes full
  words, so with an input that ends before the last full word does it reads out of bounds.
\<close>

theorem RC4_chunked_eq_bytewise:
  assumes "rc4_ok k" "len \<le> length inp" "full_words len \<le> length out"
  shows "RC4_chunked little k len inp out =
    (if full_words len \<le> length inp then ebind (RC4 k len inp) (\<lambda>(w, k'). Inr (w @ drop len out, k')) else Inl OutOfBounds)"
proof (cases "full_words len \<le> length inp")
  case True
  then show ?thesis
    using RC4_chunked_eq [OF assms(1) True assms(3)] RC4_eq [OF assms(2)] rc4_bytes_stream [of k "take len inp"] assms(2)
    by (simp add: min_absorb2)
next
  case False
  then show ?thesis using rc4_le_short [of inp len] rc4_be_short [of inp len] by (simp add: RC4_chunked_def)
qed

theorem RC4_chunked_eq_bytewise_witness:
  "\<exists>k w k'. private_RC4_set_key 1 [9] = Inr k \<and> RC4 k 3 [1, 2, 3, 0, 0, 0, 0, 0] = Inr (w, k') \<and>
    RC4_chunked True k 3 [1, 2, 3, 0, 0, 0, 0, 0] (replicate 9 5) = Inr (w @ replicate 6 5, k') \<and>
    RC4_chunked False k 3 [1, 2, 3] (replicate 9 5) = Inl OutOfBounds"
proof -
  obtain k where k: "private_RC4_set_key 1 [9] = Inr k" "rc4_ok k" using RC4_set_key_ok [of 1 "[9]"] by auto
  have f: "full_words 3 = 8" by (simp add: full_words_def)
  have "RC4 k 3 [1, 2, 3, 0, 0, 0, 0, 0] = Inr (rc4_bytes k [1, 2, 3])"
    using RC4_eq [of 3 "[1, 2, 3, 0, 0, 0, 0, 0]" k] by (simp add: numeral_3_eq_3)
  moreover have "drop 3 (replicate 9 5) = replicate 6 (5 :: u8)" by simp
  ultimately show ?thesis using k f
      RC4_chunked_eq_bytewise [of k 3 "[1, 2, 3, 0, 0, 0, 0, 0]" "replicate 9 5" True]
      RC4_chunked_eq_bytewise [of k 3 "[1, 2, 3]" "replicate 9 5" False]
    by (cases "rc4_bytes k [1, 2, 3]") simp
qed

end
