(* ===== verification/UvStream.thy ===== *)
theory UvStream
  imports Prelude
begin

text \<open>
  The streams of libuv on Unix, \<open>third/libuv/src/unix/stream.c\<close>: the write queue, the read loop,
  shutdown, connecting, closing, for a TCP handle. The programs' sockets are not blocking, so
  \<open>UV_STREAM_BLOCKING\<close> is not set, and no descriptors are passed. A kernel call that is interrupted
  is repeated by the code; what is given here is its last result.

  Callbacks are recorded in the order in which they are made. The calls that the read callback makes
  are given by the argument \<open>rcb\<close>; those of the other callbacks come as later events. An \<open>assert\<close>
  that fails is \<open>Abort\<close>.
\<close>

section \<open>State\<close>

text \<open>
  \<open>uv_write_t\<close>: \<open>rq_bufs\<close> are the bytes the buffers stand for, which \<open>uv_write\<close> wants to stay valid
  until the callback; those before \<open>rq_index\<close> are written. \<open>rq_live\<close> says that \<open>bufs\<close> is not NULL.
\<close>

record uv_write_req =
  rq_id :: nat
  rq_bufs :: "u8 list list"
  rq_index :: nat
  rq_error :: int
  rq_live :: bool

text \<open>
  The last fields of a stream are a history: the bytes the kernel took, the writes that were accepted with
  their bytes, the callbacks made.
\<close>

datatype uv_call = WriteCb nat int | ReadCb int "u8 list" | ShutdownCb nat int | ConnectCb nat int

record uv_stream =
  us_fd :: int
  us_closing :: bool
  us_closed :: bool
  us_reading :: bool
  us_shutting :: bool
  us_shut :: bool
  us_writable :: bool
  us_read_partial :: bool
  us_read_eof :: bool
  us_read_cb :: bool
  us_pollin :: bool
  us_pollout :: bool
  us_fed :: bool
  us_active :: bool
  us_connect_req :: "nat option"
  us_shutdown_req :: "nat option"
  us_delayed_error :: int
  us_queue :: "uv_write_req list"
  us_completed :: "uv_write_req list"
  us_size :: int
  us_reqs :: nat
  us_sent :: "u8 list"
  us_writes :: "(nat \<times> u8 list) list"
  us_calls :: "uv_call list"

definition uv_stream_init :: uv_stream where
  "uv_stream_init = \<lparr>us_fd = -1, us_closing = False, us_closed = False, us_reading = False, us_shutting = False,
     us_shut = False, us_writable = False, us_read_partial = False, us_read_eof = False, us_read_cb = False,
     us_pollin = False, us_pollout = False, us_fed = False, us_active = False, us_connect_req = None,
     us_shutdown_req = None, us_delayed_error = 0, us_queue = [], us_completed = [], us_size = 0, us_reqs = 0,
     us_sent = [], us_writes = [], us_calls = []\<rparr>"

definition uv_assert :: "bool \<Rightarrow> unit exec" where
  "uv_assert b = (if b then Inr () else Inl Abort)"

abbreviation call :: "uv_call \<Rightarrow> uv_stream \<Rightarrow> uv_stream" where
  "call c s \<equiv> s\<lparr>us_calls := us_calls s @ [c]\<rparr>"

text \<open>What the kernel does with a write: it has room for some bytes, or answers with an error number.\<close>

datatype sysres = Room nat | Errno int

definition EAGAIN :: int where "EAGAIN = 11"
definition UV_ECANCELED :: int where "UV_ECANCELED = -125"
definition UV_ENOTCONN :: int where "UV_ENOTCONN = -107"
definition UV_EBADF :: int where "UV_EBADF = -9"
definition UV_EINVAL :: int where "UV_EINVAL = -22"
definition UV_ENOMEM :: int where "UV_ENOMEM = -12"
definition UV_EBUSY :: int where "UV_EBUSY = -16"
definition UV_ENOBUFS :: int where "UV_ENOBUFS = -105"
definition UV_EALREADY :: int where "UV_EALREADY = -114"
definition UV__EOF :: int where "UV__EOF = -4095"
definition EINPROGRESS :: int where "EINPROGRESS = 115"
definition ECONNREFUSED :: int where "ECONNREFUSED = 111"

section \<open>The watcher and the requests\<close>

definition uv__io_start_out :: "uv_stream \<Rightarrow> uv_stream exec" where
  "uv__io_start_out s = ebind (uv_assert (us_fd s \<ge> 0)) (\<lambda>_. Inr (s\<lparr>us_pollout := True\<rparr>))"

definition uv__io_start_in :: "uv_stream \<Rightarrow> uv_stream exec" where
  "uv__io_start_in s = ebind (uv_assert (us_fd s \<ge> 0)) (\<lambda>_. Inr (s\<lparr>us_pollin := True\<rparr>))"

definition uv__io_stop_out :: "uv_stream \<Rightarrow> uv_stream" where
  "uv__io_stop_out s = (if us_fd s = -1 then s else s\<lparr>us_pollout := False\<rparr>)"

definition uv__io_stop_in :: "uv_stream \<Rightarrow> uv_stream" where
  "uv__io_stop_in s = (if us_fd s = -1 then s else s\<lparr>us_pollin := False\<rparr>)"

definition uv__io_feed :: "uv_stream \<Rightarrow> uv_stream" where
  "uv__io_feed s = s\<lparr>us_fed := True\<rparr>"

definition uv__io_close :: "uv_stream \<Rightarrow> uv_stream" where
  "uv__io_close s = (uv__io_stop_in (uv__io_stop_out s))\<lparr>us_fed := False\<rparr>"

definition uv__handle_stop :: "uv_stream \<Rightarrow> uv_stream" where
  "uv__handle_stop s = s\<lparr>us_active := False\<rparr>"

definition uv__req_init :: "uv_stream \<Rightarrow> uv_stream" where
  "uv__req_init s = s\<lparr>us_reqs := Suc (us_reqs s)\<rparr>"

definition uv__req_unregister :: "uv_stream \<Rightarrow> uv_stream exec" where
  "uv__req_unregister s = ebind (uv_assert (us_reqs s > 0)) (\<lambda>_. Inr (s\<lparr>us_reqs := us_reqs s - 1\<rparr>))"

section \<open>Writing\<close>

definition uv__count_bufs :: "u8 list list \<Rightarrow> int" where
  "uv__count_bufs bufs = int (length (concat bufs))"

definition uv__write_req_size :: "uv_stream \<Rightarrow> uv_write_req \<Rightarrow> int exec" where
  "uv__write_req_size s req =
     ebind (uv_assert (rq_live req)) (\<lambda>_.
     let sz = uv__count_bufs (drop (rq_index req) (rq_bufs req)) in
     ebind (uv_assert (us_size s \<ge> sz)) (\<lambda>_. Inr sz))"

definition uv__write_req_finish :: "uv_stream \<Rightarrow> uv_write_req \<Rightarrow> uv_stream" where
  "uv__write_req_finish s req =
     (let req1 = (if rq_error req = 0 then req\<lparr>rq_live := False\<rparr> else req) in
      uv__io_feed (s\<lparr>us_queue := tl (us_queue s), us_completed := us_completed s @ [req1]\<rparr>))"

text \<open>
  The loop that accounts for \<open>n\<close> written bytes; the result says whether the request is done.
\<close>

function write_loop :: "uv_write_req \<Rightarrow> int \<Rightarrow> nat \<Rightarrow> (uv_write_req \<times> int \<times> bool) exec" where
  "write_loop req sz n =
     (if length (rq_bufs req) \<le> rq_index req then Inl OutOfBounds
      else
        (let i = rq_index req; buf = rq_bufs req ! i; len = length buf in
         if n < len then
           Inr (req\<lparr>rq_bufs := (rq_bufs req)[i := drop n buf]\<rparr>, to_size_t (sz - int n), False)
         else
           ebind (uv_assert (sz \<ge> int len)) (\<lambda>_.
           (let req1 = req\<lparr>rq_index := Suc i\<rparr>; sz1 = sz - int len in
            if Suc i = length (rq_bufs req) then ebind (uv_assert (n - len = 0)) (\<lambda>_. Inr (req1, sz1, True))
            else write_loop req1 sz1 (n - len)))))"
  by auto
termination by (relation "measure (\<lambda>(req, _). length (rq_bufs req) - rq_index req)") auto

declare write_loop.simps [simp del]

text \<open>\<open>uv__write\<close> with the result \<open>r\<close> of \<open>write\<close> or \<open>writev\<close>; \<open>iovmax\<close> is the limit on buffers.\<close>

definition uv__write :: "nat \<Rightarrow> uv_stream \<Rightarrow> sysres \<Rightarrow> uv_stream exec" where
  "uv__write iovmax s r =
     ebind (uv_assert (us_fd s \<ge> 0)) (\<lambda>_.
     case us_queue s of
       [] \<Rightarrow> Inr s
     | req # reqs \<Rightarrow>
         (case r of
            Errno e \<Rightarrow>
              if e \<noteq> EAGAIN then
                (let s1 = uv__io_stop_out (uv__write_req_finish s (req\<lparr>rq_error := - e\<rparr>)) in
                 Inr (if us_pollin s1 then s1 else uv__handle_stop s1))
              else uv__io_start_out s
          | Room m \<Rightarrow>
              (let iov = take iovmax (drop (rq_index req) (rq_bufs req));
                   n = min m (length (concat iov));
                   s0 = s\<lparr>us_sent := us_sent s @ take n (concat iov)\<rparr> in
               ebind (write_loop req (us_size s0) n) (\<lambda>(req1, size1, fin).
               (let s1 = s0\<lparr>us_queue := req1 # reqs, us_size := size1\<rparr> in
                if fin then Inr (uv__write_req_finish s1 req1) else uv__io_start_out s1)))))"

text \<open>The loop over the completed requests: \<open>bufs\<close> of a failed one still counts.\<close>

fun write_callbacks_loop :: "uv_write_req list \<Rightarrow> uv_stream \<Rightarrow> uv_stream exec" where
  "write_callbacks_loop [] s = Inr s"
| "write_callbacks_loop (req # reqs) s =
     ebind (uv__req_unregister (s\<lparr>us_completed := reqs\<rparr>)) (\<lambda>s1.
     ebind (if rq_live req then ebind (uv__write_req_size s1 req) (\<lambda>n. Inr (s1\<lparr>us_size := us_size s1 - n\<rparr>)) else Inr s1) (\<lambda>s2.
     write_callbacks_loop reqs (call (WriteCb (rq_id req) (rq_error req)) s2)))"

definition uv__write_callbacks :: "uv_stream \<Rightarrow> uv_stream exec" where
  "uv__write_callbacks s = write_callbacks_loop (us_completed s) s"

text \<open>\<open>uv_write2\<close> without a handle to send; \<open>oom\<close> is a failing \<open>uv__malloc\<close> for more than four buffers.\<close>

definition uv_write2 :: "nat \<Rightarrow> uv_stream \<Rightarrow> nat \<Rightarrow> u8 list list \<Rightarrow> bool \<Rightarrow> sysres \<Rightarrow> (int \<times> uv_stream) exec" where
  "uv_write2 iovmax s rid bufs oom r =
     ebind (uv_assert (bufs \<noteq> [])) (\<lambda>_.
     if us_fd s < 0 then Inr (UV_EBADF, s)
     else
       (let empty_queue = (us_size s = 0);
            s1 = uv__req_init s in
        if length bufs > 4 \<and> oom then Inr (UV_ENOMEM, s1)
        else
          (let req = \<lparr>rq_id = rid, rq_bufs = bufs, rq_index = 0, rq_error = 0, rq_live = True\<rparr>;
               s2 = s1\<lparr>us_size := to_size_t (us_size s1 + uv__count_bufs bufs), us_queue := us_queue s1 @ [req],
                        us_writes := us_writes s1 @ [(rid, concat bufs)]\<rparr> in
           ebind (if us_connect_req s2 \<noteq> None then Inr s2
                  else if empty_queue then uv__write iovmax s2 r
                  else uv__io_start_out s2) (\<lambda>s3. Inr (0, s3)))))"

definition uv__stream_flush_write_queue :: "uv_stream \<Rightarrow> int \<Rightarrow> uv_stream" where
  "uv__stream_flush_write_queue s error =
     s\<lparr>us_queue := [], us_completed := us_completed s @ map (\<lambda>req. req\<lparr>rq_error := error\<rparr>) (us_queue s)\<rparr>"

text \<open>\<open>uv_try_write\<close>: the request is on the stack and leaves the queues again; its callback aborts.\<close>

definition uv_try_write :: "nat \<Rightarrow> uv_stream \<Rightarrow> nat \<Rightarrow> u8 list list \<Rightarrow> bool \<Rightarrow> sysres \<Rightarrow> (int \<times> uv_stream) exec" where
  "uv_try_write iovmax s rid bufs oom r =
     (if us_connect_req s \<noteq> None \<or> us_size s \<noteq> 0 then Inr (- EAGAIN, s)
      else
        (let has_pollout = us_pollout s in
         ebind (uv_write2 iovmax s rid bufs oom r) (\<lambda>(res, s1).
         if res \<noteq> 0 then Inr (res, s1)
         else
           ebind (case filter (\<lambda>q. rq_id q = rid) (us_queue s1 @ us_completed s1) of
                    [] \<Rightarrow> Inl UseAfterFree
                  | req # _ \<Rightarrow> if rq_live req then uv__write_req_size s1 req else Inr 0) (\<lambda>req_size.
           (let written = uv__count_bufs bufs - req_size;
                s2 = s1\<lparr>us_size := us_size s1 - req_size, us_queue := filter (\<lambda>q. rq_id q \<noteq> rid) (us_queue s1),
                       us_completed := filter (\<lambda>q. rq_id q \<noteq> rid) (us_completed s1), us_writes := us_writes s\<rparr> in
            ebind (uv__req_unregister s2) (\<lambda>s3.
            (let s4 = (if has_pollout then s3 else uv__io_stop_out s3) in
             Inr (if written = 0 then - EAGAIN else written, s4))))))))"

section \<open>Shutdown\<close>

text \<open>\<open>e\<close> is the error number of \<open>shutdown\<close>, or 0.\<close>

definition uv__drain :: "uv_stream \<Rightarrow> int \<Rightarrow> uv_stream exec" where
  "uv__drain s e =
     ebind (uv_assert (us_queue s = [])) (\<lambda>_.
     (let s1 = uv__io_stop_out s in
      if us_shutting s1 \<and> \<not> us_closing s1 \<and> \<not> us_shut s1 then
        (case us_shutdown_req s1 of
           None \<Rightarrow> Inl Abort
         | Some req \<Rightarrow>
             ebind (uv__req_unregister (s1\<lparr>us_shutdown_req := None, us_shutting := False\<rparr>)) (\<lambda>s2.
             Inr (call (ShutdownCb req (- e)) (if e = 0 then s2\<lparr>us_shut := True\<rparr> else s2))))
      else Inr s1))"

definition uv_shutdown :: "uv_stream \<Rightarrow> nat \<Rightarrow> (int \<times> uv_stream) exec" where
  "uv_shutdown s req =
     (if \<not> us_writable s \<or> us_shut s \<or> us_shutting s \<or> us_closed s \<or> us_closing s then Inr (UV_ENOTCONN, s)
      else
        ebind (uv_assert (us_fd s \<ge> 0)) (\<lambda>_.
        ebind (uv__io_start_out ((uv__req_init s)\<lparr>us_shutdown_req := Some req, us_shutting := True\<rparr>)) (\<lambda>s1. Inr (0, s1))))"

section \<open>Starting and stopping to read\<close>

definition uv_read_start :: "uv_stream \<Rightarrow> (int \<times> uv_stream) exec" where
  "uv_read_start s =
     (if us_closing s then Inr (UV_EINVAL, s)
      else
        ebind (uv_assert (us_fd s \<ge> 0)) (\<lambda>_.
        ebind (uv__io_start_in (s\<lparr>us_reading := True, us_read_cb := True\<rparr>)) (\<lambda>s1. Inr (0, s1\<lparr>us_active := True\<rparr>))))"

definition uv_read_stop :: "uv_stream \<Rightarrow> uv_stream" where
  "uv_read_stop s =
     (if \<not> us_reading s then s
      else
        (let s1 = uv__io_stop_in (s\<lparr>us_reading := False\<rparr>);
             s2 = (if us_pollout s1 then s1 else uv__handle_stop s1) in
         s2\<lparr>us_read_cb := False\<rparr>))"

section \<open>Opening and connecting\<close>

definition uv__stream_open :: "uv_stream \<Rightarrow> int \<Rightarrow> (int \<times> uv_stream) exec" where
  "uv__stream_open s fd =
     (if \<not> (us_fd s = -1 \<or> us_fd s = fd) then Inr (UV_EBUSY, s)
      else ebind (uv_assert (fd \<ge> 0)) (\<lambda>_. Inr (0, s\<lparr>us_writable := True, us_fd := fd\<rparr>)))"

text \<open>
  \<open>uv__tcp_connect\<close> on a handle that has the socket \<open>fd\<close> or gets it; \<open>e\<close> is the error number of
  \<open>connect\<close>, or 0.
\<close>

definition uv__tcp_connect :: "uv_stream \<Rightarrow> nat \<Rightarrow> int \<Rightarrow> int \<Rightarrow> (int \<times> uv_stream) exec" where
  "uv__tcp_connect s req fd e =
     (if us_connect_req s \<noteq> None then Inr (UV_EALREADY, s)
      else
        ebind (uv__stream_open s (if us_fd s = -1 then fd else us_fd s)) (\<lambda>(_, s1).
        let s2 = s1\<lparr>us_delayed_error := (if e = ECONNREFUSED then - e else 0)\<rparr> in
        if e \<noteq> 0 \<and> e \<noteq> EINPROGRESS \<and> e \<noteq> ECONNREFUSED then Inr (- e, s2)
        else
          ebind (uv__io_start_out ((uv__req_init s2)\<lparr>us_connect_req := Some req\<rparr>)) (\<lambda>s3.
          Inr (0, if us_delayed_error s3 \<noteq> 0 then uv__io_feed s3 else s3))))"

text \<open>\<open>uv__stream_connect\<close>; \<open>e\<close> is what the kernel says about the socket, an error number or 0.\<close>

definition uv__stream_connect :: "uv_stream \<Rightarrow> int \<Rightarrow> uv_stream exec" where
  "uv__stream_connect s e =
     (case us_connect_req s of
        None \<Rightarrow> Inl Abort
      | Some req \<Rightarrow>
          (let error = (if us_delayed_error s \<noteq> 0 then us_delayed_error s else - e);
               s1 = s\<lparr>us_delayed_error := 0\<rparr> in
           if error = - EINPROGRESS then Inr s1
           else
             ebind (uv__req_unregister (s1\<lparr>us_connect_req := None\<rparr>)) (\<lambda>s2.
             (let s3 = (if error < 0 \<or> us_queue s2 = [] then uv__io_stop_out s2 else s2);
                  s4 = call (ConnectCb req error) s3 in
              if us_fd s4 = -1 then Inr s4
              else if error < 0 then uv__write_callbacks (uv__stream_flush_write_queue s4 UV_ECANCELED)
              else Inr s4))))"

section \<open>Closing\<close>

text \<open>\<open>uv_close\<close> of a TCP handle, and what the loop does to it later.\<close>

definition uv__stream_close :: "uv_stream \<Rightarrow> uv_stream exec" where
  "uv__stream_close s =
     (let s1 = uv__handle_stop (uv_read_stop (uv__io_close s));
          s2 = s1\<lparr>us_fd := -1\<rparr> in
      ebind (uv_assert (\<not> us_pollin s2 \<and> \<not> us_pollout s2)) (\<lambda>_. Inr s2))"

definition uv_close :: "uv_stream \<Rightarrow> uv_stream exec" where
  "uv_close s =
     ebind (uv_assert (\<not> us_closing s \<and> \<not> us_closed s)) (\<lambda>_. uv__stream_close (s\<lparr>us_closing := True\<rparr>))"

definition uv__stream_destroy :: "uv_stream \<Rightarrow> uv_stream exec" where
  "uv__stream_destroy s =
     ebind (uv_assert (\<not> us_pollin s \<and> \<not> us_pollout s \<and> us_closed s)) (\<lambda>_.
     ebind (case us_connect_req s of
              None \<Rightarrow> Inr s
            | Some req \<Rightarrow>
                ebind (uv__req_unregister s) (\<lambda>s1. Inr ((call (ConnectCb req UV_ECANCELED) s1)\<lparr>us_connect_req := None\<rparr>))) (\<lambda>s1.
     ebind (uv__write_callbacks (uv__stream_flush_write_queue s1 UV_ECANCELED)) (\<lambda>s2.
     ebind (case us_shutdown_req s2 of
              None \<Rightarrow> Inr s2
            | Some req \<Rightarrow>
                ebind (uv__req_unregister s2) (\<lambda>s3. Inr ((call (ShutdownCb req UV_ECANCELED) s3)\<lparr>us_shutdown_req := None\<rparr>))) (\<lambda>s3.
     ebind (uv_assert (us_size s3 = 0)) (\<lambda>_. Inr s3)))))"

definition uv__finish_close :: "uv_stream \<Rightarrow> uv_stream exec" where
  "uv__finish_close s =
     ebind (uv_assert (us_closing s \<and> \<not> us_closed s)) (\<lambda>_. uv__stream_destroy (s\<lparr>us_closed := True\<rparr>))"

section \<open>The calls of a program\<close>

datatype uv_api =
    ApiOpen int
  | ApiConnect nat int int
  | ApiWrite nat "u8 list list" bool sysres
  | ApiShutdown nat
  | ApiReadStart
  | ApiReadStop
  | ApiClose

fun api_step :: "nat \<Rightarrow> uv_stream \<Rightarrow> uv_api \<Rightarrow> uv_stream exec" where
  "api_step iovmax s (ApiOpen fd) = ebind (uv__stream_open s fd) (\<lambda>(_, s1). Inr s1)"
| "api_step iovmax s (ApiConnect req fd e) = ebind (uv__tcp_connect s req fd e) (\<lambda>(_, s1). Inr s1)"
| "api_step iovmax s (ApiWrite rid bufs oom r) = ebind (uv_write2 iovmax s rid bufs oom r) (\<lambda>(_, s1). Inr s1)"
| "api_step iovmax s (ApiShutdown req) = ebind (uv_shutdown s req) (\<lambda>(_, s1). Inr s1)"
| "api_step iovmax s ApiReadStart = ebind (uv_read_start s) (\<lambda>(_, s1). Inr s1)"
| "api_step iovmax s ApiReadStop = Inr (uv_read_stop s)"
| "api_step iovmax s ApiClose = uv_close s"

fun api_run :: "nat \<Rightarrow> uv_stream \<Rightarrow> uv_api list \<Rightarrow> uv_stream exec" where
  "api_run iovmax s [] = Inr s"
| "api_run iovmax s (a # as) = ebind (api_step iovmax s a) (\<lambda>s1. api_run iovmax s1 as)"

section \<open>Reading\<close>

text \<open>The read callback: it is recorded, and the calls it makes are carried out.\<close>

definition read_cb ::
    "nat \<Rightarrow> (int \<Rightarrow> u8 list \<Rightarrow> uv_stream \<Rightarrow> uv_api list) \<Rightarrow> int \<Rightarrow> u8 list \<Rightarrow> uv_stream \<Rightarrow> uv_stream exec" where
  "read_cb iovmax rcb nread bytes s = (let s1 = call (ReadCb nread bytes) s in api_run iovmax s1 (rcb nread bytes s1))"

definition uv__stream_eof :: "nat \<Rightarrow> (int \<Rightarrow> u8 list \<Rightarrow> uv_stream \<Rightarrow> uv_api list) \<Rightarrow> uv_stream \<Rightarrow> uv_stream exec" where
  "uv__stream_eof iovmax rcb s =
     (let s1 = uv__io_stop_in (s\<lparr>us_read_eof := True\<rparr>);
          s2 = (if us_pollout s1 then s1 else uv__handle_stop s1) in
      ebind (read_cb iovmax rcb UV__EOF [] s2) (\<lambda>s3. Inr (s3\<lparr>us_reading := False\<rparr>)))"

text \<open>
  The loop of \<open>uv__read\<close>, at most \<open>count\<close> times: the kernel's answers \<open>ks\<close> are the bytes that are
  there, the end of the stream (no bytes) or an error; \<open>len\<close> is the length \<open>alloc_cb\<close> gives a buffer.
\<close>

fun uv__read_loop ::
    "nat \<Rightarrow> (int \<Rightarrow> u8 list \<Rightarrow> uv_stream \<Rightarrow> uv_api list) \<Rightarrow> nat \<Rightarrow> nat \<Rightarrow> (int + u8 list) list \<Rightarrow> uv_stream \<Rightarrow> uv_stream exec" where
  "uv__read_loop iovmax rcb len 0 ks s = Inr s"
| "uv__read_loop iovmax rcb len (Suc count) ks s =
     (if \<not> (us_read_cb s \<and> us_reading s) then Inr s
      else if len = 0 then read_cb iovmax rcb UV_ENOBUFS [] s
      else
        ebind (uv_assert (us_fd s \<ge> 0)) (\<lambda>_.
        case (case ks of [] \<Rightarrow> Inl EAGAIN | k # _ \<Rightarrow> k) of
          Inl e \<Rightarrow>
            if e = EAGAIN then
              ebind (if us_reading s then uv__io_start_in s else Inr s) (\<lambda>s1. read_cb iovmax rcb 0 [] s1)
            else
              ebind (read_cb iovmax rcb (- e) [] s) (\<lambda>s1.
              Inr (if us_reading s1 then
                     (let s2 = uv__io_stop_in (s1\<lparr>us_reading := False\<rparr>) in if us_pollout s2 then s2 else uv__handle_stop s2)
                   else s1))
        | Inr bytes \<Rightarrow>
            if bytes = [] then uv__stream_eof iovmax rcb s
            else
              (let data = take len bytes; nread = length data in
               ebind (read_cb iovmax rcb (int nread) data s) (\<lambda>s1.
               if nread < len then Inr (s1\<lparr>us_read_partial := True\<rparr>)
               else uv__read_loop iovmax rcb len count (tl ks) s1))))"

definition uv__read ::
    "nat \<Rightarrow> (int \<Rightarrow> u8 list \<Rightarrow> uv_stream \<Rightarrow> uv_api list) \<Rightarrow> nat \<Rightarrow> (int + u8 list) list \<Rightarrow> uv_stream \<Rightarrow> uv_stream exec" where
  "uv__read iovmax rcb len ks s = uv__read_loop iovmax rcb len 32 ks (s\<lparr>us_read_partial := False\<rparr>)"

section \<open>Events of the loop\<close>

text \<open>
  \<open>uv__stream_io\<close>: which of \<open>POLLIN\<close>, \<open>POLLOUT\<close>, \<open>POLLHUP\<close> and \<open>POLLERR\<close> the loop reports, what the
  kernel has to read, and its answers to the calls that may be made.
\<close>

record io_event =
  ev_in :: bool
  ev_out :: bool
  ev_hup :: bool
  ev_err :: bool
  ev_reads :: "(int + u8 list) list"
  ev_write :: sysres
  ev_shutdown :: int
  ev_connect :: int

definition uv__stream_io ::
    "nat \<Rightarrow> (int \<Rightarrow> u8 list \<Rightarrow> uv_stream \<Rightarrow> uv_api list) \<Rightarrow> nat \<Rightarrow> uv_stream \<Rightarrow> io_event \<Rightarrow> uv_stream exec" where
  "uv__stream_io iovmax rcb len s ev =
     ebind (uv_assert (\<not> us_closing s)) (\<lambda>_.
     if us_connect_req s \<noteq> None then uv__stream_connect s (ev_connect ev)
     else
       ebind (uv_assert (us_fd s \<ge> 0)) (\<lambda>_.
       ebind (if ev_in ev \<or> ev_err ev \<or> ev_hup ev then uv__read iovmax rcb len (ev_reads ev) s else Inr s) (\<lambda>s1.
       if us_fd s1 = -1 then Inr s1
       else
         ebind (if ev_hup ev \<and> us_reading s1 \<and> us_read_partial s1 \<and> \<not> us_read_eof s1 then uv__stream_eof iovmax rcb s1 else Inr s1) (\<lambda>s2.
         if us_fd s2 = -1 then Inr s2
         else if ev_out ev \<or> ev_err ev \<or> ev_hup ev then
           ebind (uv__write iovmax s2 (ev_write ev)) (\<lambda>s3.
           ebind (uv__write_callbacks s3) (\<lambda>s4.
           if us_queue s4 = [] then uv__drain s4 (ev_shutdown ev) else Inr s4))
         else Inr s2))))"

text \<open>
  \<open>uv__run_pending\<close> for this stream: a watcher that was fed leaves the queue and is reported with
  \<open>POLLOUT\<close> alone. A report of the poll leaves the queue as it is.
\<close>

definition uv__run_pending ::
    "nat \<Rightarrow> (int \<Rightarrow> u8 list \<Rightarrow> uv_stream \<Rightarrow> uv_api list) \<Rightarrow> nat \<Rightarrow> uv_stream \<Rightarrow> io_event \<Rightarrow> uv_stream exec" where
  "uv__run_pending iovmax rcb len s ev =
     (if us_fed s then
        uv__stream_io iovmax rcb len (s\<lparr>us_fed := False\<rparr>) (ev\<lparr>ev_in := False, ev_out := True, ev_hup := False, ev_err := False\<rparr>)
      else Inr s)"

text \<open>
  What happens to a stream: a call of the program, a report of the poll, the turn of the pending
  queue, the end of closing.
\<close>

datatype uv_event = UvApi uv_api | UvIo io_event | UvPending io_event | UvFinish

fun uv_step ::
    "nat \<Rightarrow> (int \<Rightarrow> u8 list \<Rightarrow> uv_stream \<Rightarrow> uv_api list) \<Rightarrow> nat \<Rightarrow> uv_stream \<Rightarrow> uv_event \<Rightarrow> uv_stream exec" where
  "uv_step iovmax rcb len s (UvApi a) = api_step iovmax s a"
| "uv_step iovmax rcb len s (UvIo ev) = uv__stream_io iovmax rcb len s ev"
| "uv_step iovmax rcb len s (UvPending ev) = uv__run_pending iovmax rcb len s ev"
| "uv_step iovmax rcb len s UvFinish = uv__finish_close s"

fun uv_run ::
    "nat \<Rightarrow> (int \<Rightarrow> u8 list \<Rightarrow> uv_stream \<Rightarrow> uv_api list) \<Rightarrow> nat \<Rightarrow> uv_stream \<Rightarrow> uv_event list \<Rightarrow> uv_stream exec" where
  "uv_run iovmax rcb len s [] = Inr s"
| "uv_run iovmax rcb len s (e # es) = ebind (uv_step iovmax rcb len s e) (\<lambda>s1. uv_run iovmax rcb len s1 es)"

end
