(* ===== verification/UvStreamInv.thy ===== *)
theory UvStreamInv
  imports UvStream "HOL-Library.Sublist"
begin

text \<open>
  The invariant of a stream that is used as the manual of libuv asks for, kept by every operation:
  the flags fit together (\<open>uv_flags\<close>), the counters count what is queued (\<open>uv_acc\<close>), the history is
  that of a queue (\<open>uv_hist\<close>), and whatever waits has a report coming (\<open>uv_live\<close>).
\<close>

lemma ends_in_assert [simp]: "ends_in (uv_assert b) (\<lambda>_. c) = (b \<and> c)"
  by (simp add: uv_assert_def)

section \<open>The invariant\<close>

definition req_pending :: "uv_write_req \<Rightarrow> u8 list" where
  "req_pending q = concat (drop (rq_index q) (rq_bufs q))"

definition live_count :: "uv_write_req \<Rightarrow> int" where
  "live_count q = (if rq_live q then int (length (req_pending q)) else 0)"

definition uv_flags :: "uv_stream \<Rightarrow> bool" where
  "uv_flags s \<longleftrightarrow> - 1 \<le> us_fd s \<and> (us_closing s \<longrightarrow> us_fd s = - 1) \<and> (us_fd s = - 1 \<longrightarrow> \<not> us_pollin s \<and> \<not> us_pollout s) \<and>
     (us_reading s \<longrightarrow> 0 \<le> us_fd s) \<and> (us_writable s \<and> \<not> us_closing s \<longrightarrow> 0 \<le> us_fd s) \<and>
     (us_connect_req s \<noteq> None \<and> \<not> us_closing s \<longrightarrow> us_pollout s \<and> us_completed s = []) \<and>
     (us_closed s \<longrightarrow> us_closing s \<and> us_queue s = [] \<and> us_completed s = [] \<and> us_connect_req s = None \<and> us_shutdown_req s = None) \<and>
     (\<not> us_closed s \<longrightarrow> (us_shutting s \<longleftrightarrow> us_shutdown_req s \<noteq> None)) \<and>
     (us_fd s = - 1 \<and> \<not> us_closing s \<longrightarrow> us_queue s = [] \<and> us_completed s = []) \<and>
     (us_shut s \<longrightarrow> us_shutdown_req s = None) \<and> us_delayed_error s \<le> 0 \<and> (us_fed s \<longrightarrow> 0 \<le> us_fd s)"

definition uv_acc :: "uv_stream \<Rightarrow> bool" where
  "uv_acc s \<longleftrightarrow>
     (\<forall>q\<in>set (us_queue s). rq_live q \<and> rq_error q = 0 \<and> rq_index q < length (rq_bufs q)) \<and>
     (\<forall>q\<in>set (us_completed s). rq_live q = (rq_error q \<noteq> 0)) \<and>
     us_size s = sum_list (map live_count (us_queue s)) + sum_list (map live_count (us_completed s)) \<and> us_size s < 2 ^ 64 \<and>
     length (us_queue s) + length (us_completed s) + (if us_connect_req s = None then 0 else 1) +
       (if us_shutdown_req s = None then 0 else 1) \<le> us_reqs s"

fun write_cb_of :: "uv_call \<Rightarrow> (nat \<times> int) option" where
  "write_cb_of (WriteCb i e) = Some (i, e)"
| "write_cb_of _ = None"

definition write_cbs :: "uv_stream \<Rightarrow> (nat \<times> int) list" where
  "write_cbs s = List.map_filter write_cb_of (us_calls s)"

text \<open>
  The writes that are done, each with its status and the bytes of it that were sent: all of them if
  the status is 0.
\<close>

definition served :: "(nat \<times> u8 list) list \<Rightarrow> (nat \<times> int) list \<Rightarrow> u8 list list \<Rightarrow> bool" where
  "served ws sts ps \<longleftrightarrow> list_all2 (\<lambda>(i, bs) ((j, st), p). i = j \<and> prefix p bs \<and> (st = 0 \<longrightarrow> p = bs)) ws (zip sts ps) \<and>
     length sts = length ps"

definition waiting :: "u8 list \<Rightarrow> uv_write_req list \<Rightarrow> (nat \<times> u8 list) list" where
  "waiting pre qs = (case qs of [] \<Rightarrow> [] | q # qs' \<Rightarrow> (rq_id q, pre @ req_pending q) # map (\<lambda>q. (rq_id q, req_pending q)) qs')"

definition uv_hist :: "uv_stream \<Rightarrow> bool" where
  "uv_hist s \<longleftrightarrow>
     (\<exists>ws ps pre. us_writes s = ws @ waiting pre (us_queue s) \<and> (us_queue s = [] \<longrightarrow> pre = []) \<and>
        served ws (write_cbs s @ map (\<lambda>q. (rq_id q, rq_error q)) (us_completed s)) ps \<and> us_sent s = concat ps @ pre)"

definition uv_safe :: "uv_stream \<Rightarrow> bool" where
  "uv_safe s \<longleftrightarrow> uv_flags s \<and> uv_acc s \<and> uv_hist s"

definition uv_live :: "uv_stream \<Rightarrow> bool" where
  "uv_live s \<longleftrightarrow> us_closing s \<or> (us_queue s \<noteq> [] \<longrightarrow> us_pollout s \<or> us_fed s) \<and> (us_completed s \<noteq> [] \<longrightarrow> us_fed s)"

section \<open>What counts as using a stream well\<close>

fun errno_ok :: "sysres \<Rightarrow> bool" where
  "errno_ok (Room n) = True"
| "errno_ok (Errno e) = (0 < e)"

fun api_ok :: "uv_stream \<Rightarrow> uv_api \<Rightarrow> bool" where
  "api_ok s (ApiOpen fd) = (0 \<le> fd \<and> \<not> us_closing s)"
| "api_ok s (ApiConnect req fd e) =
     (\<not> us_closing s \<and> 0 \<le> fd \<and> 0 \<le> e \<and> (us_connect_req s \<noteq> None \<or> us_queue s = [] \<and> us_completed s = []))"
| "api_ok s (ApiWrite rid bufs oom r) = (bufs \<noteq> [] \<and> us_size s + uv__count_bufs bufs < 2 ^ 64 \<and> errno_ok r)"
| "api_ok s (ApiShutdown req) = True"
| "api_ok s ApiReadStart = (0 \<le> us_fd s \<or> us_closing s)"
| "api_ok s ApiReadStop = True"
| "api_ok s ApiClose = (\<not> us_closing s)"

fun connects :: "uv_api \<Rightarrow> bool" where
  "connects (ApiConnect req fd e) = True"
| "connects a = False"

text \<open>A read callback may make any calls, but it does not connect the stream that it reads from.\<close>

fun apis_ok :: "nat \<Rightarrow> uv_stream \<Rightarrow> uv_api list \<Rightarrow> bool" where
  "apis_ok iovmax s [] = True"
| "apis_ok iovmax s (a # as) =
     (api_ok s a \<and> \<not> connects a \<and> (case api_step iovmax s a of Inl _ \<Rightarrow> True | Inr s1 \<Rightarrow> apis_ok iovmax s1 as))"

definition rcb_ok :: "nat \<Rightarrow> (int \<Rightarrow> u8 list \<Rightarrow> uv_stream \<Rightarrow> uv_api list) \<Rightarrow> bool" where
  "rcb_ok iovmax rcb \<longleftrightarrow> (\<forall>n bytes s. apis_ok iovmax s (rcb n bytes s))"

fun event_ok :: "uv_stream \<Rightarrow> uv_event \<Rightarrow> bool" where
  "event_ok s (UvApi a) = api_ok s a"
| "event_ok s (UvIo ev) =
     (0 \<le> us_fd s \<and> \<not> us_closing s \<and> errno_ok (ev_write ev) \<and> 0 \<le> ev_shutdown ev \<and> 0 \<le> ev_connect ev)"
| "event_ok s (UvPending ev) = (errno_ok (ev_write ev) \<and> 0 \<le> ev_shutdown ev \<and> 0 \<le> ev_connect ev)"
| "event_ok s UvFinish = (us_closing s \<and> \<not> us_closed s)"

fun events_ok :: "nat \<Rightarrow> (int \<Rightarrow> u8 list \<Rightarrow> uv_stream \<Rightarrow> uv_api list) \<Rightarrow> nat \<Rightarrow> uv_stream \<Rightarrow> uv_event list \<Rightarrow> bool" where
  "events_ok iovmax rcb len s [] = True"
| "events_ok iovmax rcb len s (e # es) =
     (event_ok s e \<and> (case uv_step iovmax rcb len s e of Inl _ \<Rightarrow> True | Inr s1 \<Rightarrow> events_ok iovmax rcb len s1 es))"

section \<open>Counting and history\<close>

lemma live_count_nonneg [simp]: "0 \<le> live_count q"
  by (simp add: live_count_def)

lemma sum_live_nonneg [simp]: "0 \<le> sum_list (map live_count qs)"
  by (induction qs) auto

lemma served_Nil [simp]: "served [] [] []"
  by (simp add: served_def)

lemma served_snoc:
  "served ws sts ps \<Longrightarrow> prefix p bs \<Longrightarrow> (st = 0 \<Longrightarrow> p = bs) \<Longrightarrow> served (ws @ [(i, bs)]) (sts @ [(i, st)]) (ps @ [p])"
  by (auto simp: served_def intro!: list_all2_appendI)

lemma served_cancelled:
  "served ws sts ps \<Longrightarrow> e \<noteq> 0 \<Longrightarrow>
    served (ws @ map (\<lambda>q. (rq_id q, req_pending q)) qs) (sts @ map (\<lambda>q. (rq_id q, e)) qs) (ps @ map (\<lambda>_. []) qs)"
proof (induction qs arbitrary: ws sts ps)
  case (Cons q qs)
  from Cons.IH [OF served_snoc [OF Cons.prems(1), of "[]" "req_pending q" e "rq_id q"]] Cons.prems(2)
  show ?case by simp
qed simp

lemma waiting_Nil [simp]: "waiting pre [] = []"
  by (simp add: waiting_def)

lemma waiting_Cons [simp]: "waiting pre (q # qs) = (rq_id q, pre @ req_pending q) # map (\<lambda>q. (rq_id q, req_pending q)) qs"
  by (simp add: waiting_def)

lemma waiting_empty: "waiting [] qs = map (\<lambda>q. (rq_id q, req_pending q)) qs"
  by (cases qs) auto

lemma waiting_snoc: "(qs = [] \<Longrightarrow> pre = []) \<Longrightarrow> waiting pre (qs @ [q]) = waiting pre qs @ [(rq_id q, req_pending q)]"
  by (cases qs) auto

section \<open>Writing\<close>

lemma take_concat_pending: "length (concat (take m (drop i bufs))) \<le> length (concat (drop i bufs))"
  by (metis append_take_drop_id concat_append length_append le_add1)

text \<open>The accounting loop takes \<open>n\<close> bytes off the front, and is done exactly when nothing remains of the last buffer.\<close>

lemma write_loop_ok:
  assumes "rq_index q < length (rq_bufs q)" "n \<le> length (req_pending q)" "int (length (req_pending q)) \<le> sz" "sz < 2 ^ 64"
  shows "ends_in (write_loop q sz n) (\<lambda>(q1, sz1, fin). sz1 = sz - int n \<and> rq_id q1 = rq_id q \<and> rq_error q1 = rq_error q \<and>
    rq_live q1 = rq_live q \<and> req_pending q1 = drop n (req_pending q) \<and>
    (if fin then n = length (req_pending q) else rq_index q1 < length (rq_bufs q1)))"
  using assms
proof (induction "length (rq_bufs q) - rq_index q" arbitrary: q sz n rule: less_induct)
  case less
  let ?i = "rq_index q" and ?bufs = "rq_bufs q"
  have pend: "req_pending q = ?bufs ! ?i @ concat (drop (Suc ?i) ?bufs)"
    using less.prems(1) by (simp add: req_pending_def Cons_nth_drop_Suc [symmetric])
  show ?case
  proof (cases "n < length (?bufs ! ?i)")
    case True
    then have "req_pending (q\<lparr>rq_bufs := ?bufs[?i := drop n (?bufs ! ?i)]\<rparr>) = drop n (req_pending q)"
      using less.prems(1) unfolding pend by (simp add: req_pending_def drop_update_swap Cons_nth_drop_Suc [symmetric])
    then show ?thesis using True less.prems by (subst write_loop.simps) (simp add: Let_def)
  next
    case False
    let ?q1 = "q\<lparr>rq_index := Suc ?i\<rparr>" and ?n = "n - length (?bufs ! ?i)"
    have p1: "req_pending ?q1 = concat (drop (Suc ?i) ?bufs)" by (simp add: req_pending_def)
    show ?thesis
    proof (cases "Suc ?i = length ?bufs")
      case True
      then show ?thesis using False less.prems unfolding pend
        by (subst write_loop.simps) (simp add: Let_def req_pending_def)
    next
      case more: False
      have "ends_in (write_loop ?q1 (sz - int (length (?bufs ! ?i))) ?n) (\<lambda>(q1, sz1, fin).
          sz1 = sz - int (length (?bufs ! ?i)) - int ?n \<and> rq_id q1 = rq_id q \<and> rq_error q1 = rq_error q \<and> rq_live q1 = rq_live q \<and>
          req_pending q1 = drop ?n (req_pending ?q1) \<and> (if fin then ?n = length (req_pending ?q1) else rq_index q1 < length (rq_bufs q1)))"
        using less.hyps [of ?q1 ?n "sz - int (length (?bufs ! ?i))"] more False less.prems unfolding p1 pend by simp
      then show ?thesis using False more less.prems unfolding pend p1
        by (subst write_loop.simps) (auto simp: Let_def elim!: ends_in_mono)
    qed
  qed
qed

lemma uv_histE:
  assumes "uv_hist s"
  obtains ws ps pre where "us_writes s = ws @ waiting pre (us_queue s)" "us_queue s = [] \<longrightarrow> pre = []"
    "served ws (write_cbs s @ map (\<lambda>q. (rq_id q, rq_error q)) (us_completed s)) ps" "us_sent s = concat ps @ pre"
  using assms unfolding uv_hist_def by blast

lemma uv_histI:
  "us_writes s = ws @ waiting pre (us_queue s) \<Longrightarrow> (us_queue s = [] \<Longrightarrow> pre = []) \<Longrightarrow>
    served ws (write_cbs s @ map (\<lambda>q. (rq_id q, rq_error q)) (us_completed s)) ps \<Longrightarrow> us_sent s = concat ps @ pre \<Longrightarrow> uv_hist s"
  unfolding uv_hist_def by blast

lemma write_loop_cases:
  assumes "rq_index q < length (rq_bufs q)" "n \<le> length (req_pending q)" "int (length (req_pending q)) \<le> sz" "sz < 2 ^ 64"
  obtains q1 fin where "write_loop q sz n = Inr (q1, sz - int n, fin)" "rq_id q1 = rq_id q" "rq_error q1 = rq_error q"
    "rq_live q1 = rq_live q" "req_pending q1 = drop n (req_pending q)"
    "if fin then n = length (req_pending q) else rq_index q1 < length (rq_bufs q1)"
  using write_loop_ok [OF assms] that by (auto simp: ends_in_iff)

text \<open>What an operation on the queue leaves alone.\<close>

definition same_conn :: "uv_stream \<Rightarrow> uv_stream \<Rightarrow> bool" where
  "same_conn s s1 \<longleftrightarrow> us_fd s1 = us_fd s \<and> us_closing s1 = us_closing s \<and> us_closed s1 = us_closed s \<and>
     us_connect_req s1 = us_connect_req s \<and> us_shutdown_req s1 = us_shutdown_req s \<and> us_shutting s1 = us_shutting s \<and>
     us_shut s1 = us_shut s \<and> us_reading s1 = us_reading s \<and> us_writable s1 = us_writable s"

lemmas io_defs = uv__io_start_out_def uv__io_start_in_def uv__io_stop_out_def uv__io_stop_in_def uv__io_feed_def
  uv__handle_stop_def uv__req_init_def uv__req_unregister_def

text \<open>A request leaves the queue: with an error, or with all of its bytes written.\<close>

lemma finish_error:
  assumes "uv_safe s" "us_queue s = q # qs" "us_connect_req s = None" "0 \<le> us_fd s" "e \<noteq> 0"
  shows "uv_safe (uv__write_req_finish s (q\<lparr>rq_error := e\<rparr>))"
proof -
  let ?s1 = "uv__write_req_finish s (q\<lparr>rq_error := e\<rparr>)"
  obtain ws ps pre where h: "us_writes s = ws @ waiting pre (us_queue s)" "us_sent s = concat ps @ pre"
    "served ws (write_cbs s @ map (\<lambda>q. (rq_id q, rq_error q)) (us_completed s)) ps"
    using assms(1) unfolding uv_safe_def by (blast elim: uv_histE)
  have "uv_flags ?s1" using assms by (simp add: uv_safe_def uv_flags_def uv__write_req_finish_def io_defs)
  moreover have "uv_acc ?s1" using assms
    by (auto simp: uv_safe_def uv_acc_def uv__write_req_finish_def io_defs live_count_def req_pending_def)
  moreover have "uv_hist ?s1"
    by (rule uv_histI [of _ "ws @ [(rq_id q, pre @ req_pending q)]" "[]" "ps @ [pre]"])
      (use h assms(2,5) in \<open>simp_all add: uv__write_req_finish_def io_defs waiting_empty write_cbs_def served_snoc flip: append_assoc\<close>)
  ultimately show ?thesis by (simp add: uv_safe_def)
qed

text \<open>Bytes taken from the first request.\<close>

definition sent_front :: "uv_stream \<Rightarrow> u8 list \<Rightarrow> uv_write_req \<Rightarrow> uv_write_req list \<Rightarrow> int \<Rightarrow> uv_stream" where
  "sent_front s bs q1 qs sz = s\<lparr>us_sent := us_sent s @ bs, us_queue := q1 # qs, us_size := sz\<rparr>"

lemma sent_front_hist:
  assumes "uv_hist s" "us_queue s = q # qs" "rq_id q1 = rq_id q" "req_pending q = bs @ req_pending q1"
  shows "uv_hist (sent_front s bs q1 qs sz)"
proof -
  obtain ws ps pre where h: "us_writes s = ws @ waiting pre (us_queue s)" "us_sent s = concat ps @ pre"
    "served ws (write_cbs s @ map (\<lambda>q. (rq_id q, rq_error q)) (us_completed s)) ps"
    using assms(1) by (blast elim: uv_histE)
  show ?thesis
    by (rule uv_histI [of _ ws "pre @ bs" ps]) (use h assms(2-4) in \<open>simp_all add: sent_front_def write_cbs_def\<close>)
qed

lemma finish_done:
  assumes "uv_hist s" "us_queue s = q # qs" "rq_error q = 0" "req_pending q = []"
  shows "uv_hist (uv__write_req_finish s q)"
proof -
  obtain ws ps pre where h: "us_writes s = ws @ waiting pre (us_queue s)" "us_sent s = concat ps @ pre"
    "served ws (write_cbs s @ map (\<lambda>q. (rq_id q, rq_error q)) (us_completed s)) ps"
    using assms(1) by (blast elim: uv_histE)
  show ?thesis
    by (rule uv_histI [of _ "ws @ [(rq_id q, pre)]" "[]" "ps @ [pre]"])
      (use h assms(2-4) in \<open>simp_all add: uv__write_req_finish_def io_defs waiting_empty write_cbs_def served_snoc flip: append_assoc\<close>)
qed

lemma uv__write_ok:
  assumes "uv_safe s" "0 \<le> us_fd s" "us_connect_req s = None" "errno_ok r"
  shows "ends_in (uv__write iovmax s r) (\<lambda>s1. uv_safe s1 \<and> same_conn s s1 \<and> us_writes s1 = us_writes s \<and> us_calls s1 = us_calls s \<and>
    (us_queue s \<noteq> [] \<longrightarrow> us_pollout s1 \<or> us_fed s1) \<and> (us_queue s = [] \<longrightarrow> us_queue s1 = []) \<and> (us_fed s \<longrightarrow> us_fed s1) \<and> (us_fed s1 \<or> us_completed s1 = us_completed s))"
    (is "ends_in _ ?Q")
proof (cases "us_queue s")
  case Nil
  then show ?thesis using assms by (simp add: uv__write_def same_conn_def)
next
  case (Cons q qs)
  have acc: "uv_acc s" using assms(1) by (simp add: uv_safe_def)
  have q: "rq_live q" "rq_error q = 0" "rq_index q < length (rq_bufs q)"
    "us_size s = int (length (req_pending q)) + sum_list (map live_count qs) + sum_list (map live_count (us_completed s))"
    "us_size s < 2 ^ 64"
    using acc Cons by (auto simp: uv_acc_def live_count_def)
  have arm: "uv_safe (s\<lparr>us_pollout := True\<rparr>)"
    using assms(1,2) by (auto simp: uv_safe_def uv_flags_def uv_acc_def uv_hist_def write_cbs_def)
  show ?thesis
  proof (cases r)
    case (Errno e)
    have "uv_safe (uv__write_req_finish s (q\<lparr>rq_error := - e\<rparr>))" if "e \<noteq> EAGAIN"
      using finish_error [OF assms(1) Cons assms(3,2), of "- e"] assms(4) Errno by simp
    then have "uv_safe ((uv__write_req_finish s (q\<lparr>rq_error := - e\<rparr>))\<lparr>us_pollout := False, us_active := a\<rparr>)"
      "uv_safe ((uv__write_req_finish s (q\<lparr>rq_error := - e\<rparr>))\<lparr>us_pollout := False\<rparr>)" if "e \<noteq> EAGAIN" for a
      using assms(3) that
      by (auto simp: uv_safe_def uv_flags_def uv_acc_def uv_hist_def write_cbs_def uv__write_req_finish_def io_defs)
    then show ?thesis using assms(2) Cons Errno arm
      by (auto simp: uv__write_def Let_def same_conn_def uv__write_req_finish_def io_defs)
  next
    case (Room m)
    let ?bs = "concat (take iovmax (drop (rq_index q) (rq_bufs q)))"
    let ?n = "min m (length ?bs)"
    have pre: "req_pending q = ?bs @ concat (drop iovmax (drop (rq_index q) (rq_bufs q)))"
      unfolding req_pending_def by (metis append_take_drop_id concat_append)
    have n: "?n \<le> length (req_pending q)" using pre by simp
    have sz: "int (length (req_pending q)) \<le> us_size s" using q(4) by simp
    obtain q1 fin where w: "write_loop q (us_size s) ?n = Inr (q1, us_size s - int ?n, fin)"
      and q1: "rq_id q1 = rq_id q" "rq_error q1 = rq_error q" "rq_live q1 = rq_live q" "req_pending q1 = drop ?n (req_pending q)"
      and fin: "if fin then ?n = length (req_pending q) else rq_index q1 < length (rq_bufs q1)"
      by (rule write_loop_cases [OF q(3) n sz q(5)])
    let ?s1 = "sent_front s (take ?n ?bs) q1 qs (us_size s - int ?n)"
    have len: "length (req_pending q1) = length (req_pending q) - ?n" "?n \<le> length (req_pending q)"
      using q1(4) n by auto
    have "take ?n (?bs @ rest) = take ?n ?bs" for rest by simp
    then have tk: "req_pending q = take ?n ?bs @ req_pending q1" unfolding q1(4)
      by (metis append_take_drop_id pre)
    have s1: "uv_hist ?s1"
      by (rule sent_front_hist [OF _ Cons q1(1) tk]) (use assms(1) in \<open>simp add: uv_safe_def\<close>)
    have "uv_safe (uv__write_req_finish ?s1 q1)" if "fin"
      using finish_done [OF s1, of q1 qs] assms(1-3) q q1 Cons fin that len
      by (auto simp: uv_safe_def uv_flags_def uv_acc_def uv__write_req_finish_def io_defs sent_front_def live_count_def)
    moreover have "uv_safe (?s1\<lparr>us_pollout := True\<rparr>)" if "\<not> fin"
      using s1 assms(1-3) q q1 Cons fin that len
      by (auto simp: uv_safe_def uv_flags_def uv_acc_def uv_hist_def write_cbs_def sent_front_def live_count_def)
    ultimately show ?thesis using assms(2) Cons Room w q1
      by (cases fin) (auto simp: uv__write_def Let_def same_conn_def uv__write_req_finish_def io_defs sent_front_def)
  qed
qed

section \<open>Write callbacks and flushing\<close>

abbreviation called_all :: "uv_stream \<Rightarrow> uv_call list" where
  "called_all s \<equiv> us_calls s @ map (\<lambda>q. WriteCb (rq_id q) (rq_error q)) (us_completed s)"

lemma write_callbacks_loop_ok:
  "uv_acc s \<Longrightarrow> uv_hist s \<Longrightarrow> us_completed s = qs \<Longrightarrow>
    ends_in (write_callbacks_loop qs s) (\<lambda>s1. uv_acc s1 \<and> uv_hist s1 \<and>
      (\<exists>n z. s1 = s\<lparr>us_completed := [], us_reqs := n, us_size := z, us_calls := called_all s\<rparr>))"
proof (induction qs arbitrary: s)
  case Nil
  then have "s = s\<lparr>us_completed := [], us_reqs := us_reqs s, us_size := us_size s, us_calls := called_all s\<rparr>" by simp
  then show ?case using Nil by (simp only: write_callbacks_loop.simps ends_in_simps) blast
next
  case (Cons q qs)
  let ?s1 = "call (WriteCb (rq_id q) (rq_error q)) (s\<lparr>us_completed := qs, us_reqs := us_reqs s - 1, us_size := us_size s - live_count q\<rparr>)"
  have acc: "uv_acc ?s1" "us_reqs s > 0" "live_count q \<le> us_size s"
    using Cons.prems live_count_nonneg [of q] by (auto simp: uv_acc_def simp del: live_count_nonneg)
  have "uv_hist ?s1"
    using Cons.prems(2,3) by (auto simp: uv_hist_def write_cbs_def List.map_filter_def)
  from Cons.IH [OF acc(1) this] have
    "ends_in (write_callbacks_loop qs ?s1) (\<lambda>s1. uv_acc s1 \<and> uv_hist s1 \<and>
      (\<exists>n z. s1 = s\<lparr>us_completed := [], us_reqs := n, us_size := z, us_calls := called_all s\<rparr>))"
    using Cons.prems(3) by simp
  then show ?case using acc(2,3)
    by (auto simp: uv__req_unregister_def uv__write_req_size_def uv__count_bufs_def Let_def live_count_def req_pending_def split: if_splits)
qed

lemma uv__write_callbacks_ok:
  assumes "uv_acc s" "uv_hist s"
  shows "ends_in (uv__write_callbacks s) (\<lambda>s1. uv_acc s1 \<and> uv_hist s1 \<and>
      (\<exists>n z. s1 = s\<lparr>us_completed := [], us_reqs := n, us_size := z, us_calls := called_all s\<rparr>))"
  unfolding uv__write_callbacks_def using write_callbacks_loop_ok [OF assms refl] .

lemma flush_acc: "uv_acc s \<Longrightarrow> e \<noteq> 0 \<Longrightarrow> uv_acc (uv__stream_flush_write_queue s e)"
  by (auto simp: uv_acc_def uv__stream_flush_write_queue_def live_count_def req_pending_def o_def intro!: arg_cong [where f = sum_list])

lemma flush_hist:
  assumes "uv_hist s" "e \<noteq> 0"
  shows "uv_hist (uv__stream_flush_write_queue s e)"
proof -
  obtain ws ps pre where h: "us_writes s = ws @ waiting pre (us_queue s)" "us_queue s = [] \<longrightarrow> pre = []"
    "served ws (write_cbs s @ map (\<lambda>q. (rq_id q, rq_error q)) (us_completed s)) ps" "us_sent s = concat ps @ pre"
    using assms(1) by (rule uv_histE)
  show ?thesis
  proof (cases "us_queue s")
    case Nil
    then show ?thesis using h
      by (intro uv_histI [of _ ws "[]" ps]) (auto simp: uv__stream_flush_write_queue_def write_cbs_def)
  next
    case (Cons q qs)
    from served_cancelled [OF served_snoc [OF h(3), of pre "pre @ req_pending q" e "rq_id q"] assms(2), of qs] assms(2)
    show ?thesis using Cons h(1,4)
      by (intro uv_histI [of _ "ws @ waiting pre (us_queue s)" "[]" "(ps @ [pre]) @ map (\<lambda>_. []) qs"])
        (auto simp: uv__stream_flush_write_queue_def write_cbs_def o_def)
  qed
qed

end
