(* ===== verification/UvStreamOps.thy ===== *)
theory UvStreamOps
  imports UvStreamInv
begin

text \<open>Every call, report and end of closing keeps the invariant of a stream and ends without a fault.\<close>

section \<open>The calls of the program\<close>

lemmas inv_defs = uv_safe_def uv_flags_def uv_acc_def uv_hist_def write_cbs_def uv_live_def

text \<open>What every call keeps.\<close>

definition kept :: "uv_stream \<Rightarrow> uv_stream \<Rightarrow> bool" where
  "kept s s1 \<longleftrightarrow> uv_safe s1 \<and> (uv_live s \<longrightarrow> uv_live s1) \<and> us_connect_req s1 = us_connect_req s"

lemma kept_refl [simp]: "kept s s = uv_safe s"
  by (simp add: kept_def)

definition enqueued :: "uv_stream \<Rightarrow> nat \<Rightarrow> u8 list list \<Rightarrow> uv_stream" where
  "enqueued s rid bufs =
     s\<lparr>us_reqs := Suc (us_reqs s), us_size := us_size s + uv__count_bufs bufs,
       us_queue := us_queue s @ [\<lparr>rq_id = rid, rq_bufs = bufs, rq_index = 0, rq_error = 0, rq_live = True\<rparr>],
       us_writes := us_writes s @ [(rid, concat bufs)]\<rparr>"

lemma enqueued_safe:
  assumes "uv_safe s" "0 \<le> us_fd s" "bufs \<noteq> []" "us_size s + uv__count_bufs bufs < 2 ^ 64"
  shows "uv_safe (enqueued s rid bufs)"
proof -
  obtain ws ps pre where h: "us_writes s = ws @ waiting pre (us_queue s)" "us_queue s = [] \<longrightarrow> pre = []"
    "served ws (write_cbs s @ map (\<lambda>q. (rq_id q, rq_error q)) (us_completed s)) ps" "us_sent s = concat ps @ pre"
    using assms(1) unfolding uv_safe_def by (blast elim: uv_histE)
  have "uv_hist (enqueued s rid bufs)"
    by (rule uv_histI [of _ ws pre ps])
      (use h in \<open>simp_all add: enqueued_def waiting_snoc write_cbs_def req_pending_def\<close>)
  moreover have "uv_flags (enqueued s rid bufs)" using assms(1,2) by (auto simp: uv_safe_def uv_flags_def enqueued_def)
  moreover have "uv_acc (enqueued s rid bufs)" using assms
    by (auto simp: uv_safe_def uv_acc_def enqueued_def live_count_def req_pending_def uv__count_bufs_def)
  ultimately show ?thesis by (simp add: uv_safe_def)
qed

lemma uv_write2_ok:
  assumes "uv_safe s" "api_ok s (ApiWrite rid bufs oom r)"
  shows "ends_in (uv_write2 iovmax s rid bufs oom r) (\<lambda>(res, s1). kept s s1 \<and>
    us_writes s1 = us_writes s @ (if res = 0 then [(rid, concat bufs)] else []))"
proof (cases "us_fd s < 0 \<or> length bufs > 4 \<and> oom")
  case True
  have "uv_safe (s\<lparr>us_reqs := Suc (us_reqs s)\<rparr>)" "uv_live s \<Longrightarrow> uv_live (s\<lparr>us_reqs := Suc (us_reqs s)\<rparr>)"
    using assms(1) by (auto simp: inv_defs)
  then show ?thesis using True assms by (auto simp: uv_write2_def Let_def io_defs kept_def UV_EBADF_def UV_ENOMEM_def)
next
  case False
  let ?s2 = "enqueued s rid bufs"
  have fd: "0 \<le> us_fd s" and b: "bufs \<noteq> []" and sz: "us_size s + uv__count_bufs bufs < 2 ^ 64" and r: "errno_ok r"
    using False assms(2) by auto
  note s2 = enqueued_safe [OF assms(1) fd b sz, of rid]
  have "0 \<le> us_size s + uv__count_bufs bufs" using assms(1) by (auto simp: uv_safe_def uv_acc_def uv__count_bufs_def)
  then have sz': "to_size_t (us_size s + uv__count_bufs bufs) = us_size s + uv__count_bufs bufs" using sz by simp
  have nc: "\<not> us_closing s" using assms(1) fd by (auto simp: uv_safe_def uv_flags_def)
  have arm: "kept s (?s2\<lparr>us_pollout := True\<rparr>)"
    using s2 fd by (auto simp: kept_def inv_defs enqueued_def)
  have conn: "kept s ?s2" if "us_connect_req s \<noteq> None"
    using s2 assms(1) that nc by (auto simp: kept_def uv_live_def uv_safe_def uv_flags_def enqueued_def)
  have wr: "ends_in (uv__write iovmax ?s2 r) (\<lambda>s1. kept s s1 \<and> us_writes s1 = us_writes ?s2)" if "us_connect_req s = None"
    by (rule ends_in_mono [OF uv__write_ok [OF s2 _ _ r, of iovmax]])
      (use fd that nc in \<open>auto simp: kept_def uv_live_def same_conn_def enqueued_def\<close>)
  show ?thesis using False b fd arm conn wr
    by (auto simp: uv_write2_def Let_def io_defs sz' enqueued_def elim!: ends_in_mono)
qed

lemma kept_trans: "kept s s1 \<Longrightarrow> kept s1 s2 \<Longrightarrow> kept s s2"
  by (simp add: kept_def)

lemma uv_shutdown_ok: "uv_safe s \<Longrightarrow> ends_in (uv_shutdown s req) (\<lambda>(_, s1). kept s s1 \<and> us_writes s1 = us_writes s)"
  by (auto simp: uv_shutdown_def io_defs kept_def inv_defs)

lemma reading_kept:
  assumes "uv_safe s" "r \<longrightarrow> 0 \<le> us_fd s" "us_fd s = - 1 \<longrightarrow> \<not> i"
  shows "kept s (s\<lparr>us_reading := r, us_read_cb := c, us_pollin := i, us_active := a\<rparr>)"
proof -
  let ?s1 = "s\<lparr>us_reading := r, us_read_cb := c, us_pollin := i, us_active := a\<rparr>"
  have "uv_flags ?s1" using assms by (simp add: uv_safe_def uv_flags_def)
  moreover have "uv_acc ?s1" "uv_hist ?s1" using assms(1) by (simp_all add: uv_safe_def uv_acc_def uv_hist_def write_cbs_def)
  ultimately show ?thesis by (simp add: kept_def uv_safe_def uv_live_def)
qed

lemma uv_read_start_ok:
  assumes "uv_safe s" "api_ok s ApiReadStart"
  shows "ends_in (uv_read_start s) (\<lambda>(_, s1). kept s s1 \<and> us_writes s1 = us_writes s)"
proof (cases "us_closing s")
  case True
  then show ?thesis using assms(1) by (simp add: uv_read_start_def kept_def)
next
  case False
  then have fd: "0 \<le> us_fd s" using assms(2) by simp
  then have "us_fd s \<noteq> - 1" by simp
  then show ?thesis using False fd reading_kept [OF assms(1), of True True True True] by (simp add: uv_read_start_def io_defs)
qed

lemma uv_read_stop_ok:
  assumes "uv_safe s"
  shows "kept s (uv_read_stop s) \<and> us_writes (uv_read_stop s) = us_writes s"
proof (cases "us_reading s")
  case False
  then show ?thesis using assms by (simp add: uv_read_stop_def kept_def)
next
  case True
  then have "us_fd s \<noteq> - 1" using assms by (auto simp: uv_safe_def uv_flags_def)
  then have "uv_read_stop s = s\<lparr>us_reading := False, us_read_cb := False, us_pollin := False,
      us_active := (if us_pollout s then us_active s else False)\<rparr>"
    using True by (simp add: uv_read_stop_def Let_def io_defs)
  then show ?thesis using reading_kept [OF assms, of False False] by simp
qed

lemma uv__stream_open_ok:
  assumes a: "uv_safe s" "api_ok s (ApiOpen fd)"
  shows "ends_in (uv__stream_open s fd) (\<lambda>(_, s1). kept s s1 \<and> us_writes s1 = us_writes s)"
proof -
  from a have "uv_acc (s\<lparr>us_writable := True, us_fd := fd\<rparr>)" "uv_hist (s\<lparr>us_writable := True, us_fd := fd\<rparr>)"
    by (simp_all add: inv_defs)
  moreover have "uv_flags (s\<lparr>us_writable := True, us_fd := fd\<rparr>)" if "us_fd s = - 1 \<or> us_fd s = fd"
    using a that by (auto simp: uv_safe_def uv_flags_def)
  ultimately show ?thesis using a by (simp add: uv__stream_open_def uv_assert_def kept_def uv_safe_def uv_live_def)
qed

lemma acc_frame:
  "us_queue s1 = us_queue s \<Longrightarrow> us_completed s1 = us_completed s \<Longrightarrow> us_size s1 = us_size s \<Longrightarrow> us_reqs s1 = us_reqs s \<Longrightarrow>
    us_connect_req s1 = us_connect_req s \<Longrightarrow> us_shutdown_req s1 = us_shutdown_req s \<Longrightarrow> uv_acc s \<Longrightarrow> uv_acc s1"
  by (simp add: uv_acc_def)

lemma hist_frame:
  "us_queue s1 = us_queue s \<Longrightarrow> us_completed s1 = us_completed s \<Longrightarrow> us_writes s1 = us_writes s \<Longrightarrow> us_sent s1 = us_sent s \<Longrightarrow>
    write_cbs s1 = write_cbs s \<Longrightarrow> uv_hist s \<Longrightarrow> uv_hist s1"
  by (simp add: uv_hist_def)

lemma uv__io_close_eq: "(us_fd s = - 1 \<Longrightarrow> \<not> us_pollin s \<and> \<not> us_pollout s) \<Longrightarrow> uv__io_close s = s\<lparr>us_pollin := False, us_pollout := False, us_fed := False\<rparr>"
  by (cases "us_fd s = - 1") (simp_all add: uv__io_close_def io_defs)

lemma uv_close_eq:
  assumes "uv_flags s" "\<not> us_closing s"
  shows "uv_close s = Inr (s\<lparr>us_closing := True, us_reading := False, us_read_cb := us_read_cb s \<and> \<not> us_reading s, us_fd := - 1,
    us_pollin := False, us_pollout := False, us_fed := False, us_active := False\<rparr>)"
proof -
  have c: "\<not> us_closed s" using assms by (simp add: uv_flags_def)
  let ?s0 = "s\<lparr>us_pollin := False, us_pollout := False, us_fed := False\<rparr>"
  have "uv__io_close (s\<lparr>us_closing := True\<rparr>) = ?s0\<lparr>us_closing := True\<rparr>"
    using uv__io_close_eq [of "s\<lparr>us_closing := True\<rparr>"] assms(1) by (simp add: uv_flags_def)
  then show ?thesis using assms(2) c
    by (cases "us_reading s") (simp_all add: uv_close_def uv_assert_def uv__stream_close_def uv_read_stop_def io_defs)
qed

lemma uv_close_ok:
  assumes "uv_safe s" "api_ok s ApiClose"
  shows "ends_in (uv_close s) (\<lambda>s1. kept s s1 \<and> us_writes s1 = us_writes s \<and> us_closing s1)"
proof -
  let ?s1 = "s\<lparr>us_closing := True, us_reading := False, us_read_cb := us_read_cb s \<and> \<not> us_reading s, us_fd := - 1,
    us_pollin := False, us_pollout := False, us_fed := False, us_active := False\<rparr>"
  have s: "uv_flags s" "uv_acc s" "uv_hist s" "\<not> us_closing s" using assms by (auto simp: uv_safe_def)
  have "uv_flags ?s1" using s(1,4) by (simp add: uv_flags_def)
  moreover have "uv_acc ?s1" by (rule acc_frame [OF _ _ _ _ _ _ s(2)]) simp_all
  moreover have "uv_hist ?s1" by (rule hist_frame [OF _ _ _ _ _ s(3)]) (simp_all add: write_cbs_def)
  ultimately show ?thesis using uv_close_eq [OF s(1,4)] by (simp add: kept_def uv_safe_def uv_live_def)
qed

lemma uv__tcp_connect_ok:
  assumes "uv_safe s" "api_ok s (ApiConnect req fd e)"
  shows "ends_in (uv__tcp_connect s req fd e) (\<lambda>(_, s1). uv_safe s1 \<and> (uv_live s \<longrightarrow> uv_live s1) \<and> us_writes s1 = us_writes s)"
proof (cases "us_connect_req s = None")
  case False
  then show ?thesis using assms(1) by (simp add: uv__tcp_connect_def)
next
  case True
  define f where "f = (if us_fd s = - 1 then fd else us_fd s)"
  define d where "d = (if e = ECONNREFUSED then - e else 0)"
  define o1 where "o1 = s\<lparr>us_writable := True, us_fd := f, us_delayed_error := d\<rparr>"
  define c1 where "c1 = o1\<lparr>us_reqs := Suc (us_reqs s), us_connect_req := Some req, us_pollout := True\<rparr>"
  have a: "\<not> us_closing s" "0 \<le> fd" "us_queue s = []" "us_completed s = []"
    and s: "uv_flags s" "uv_acc s" "uv_hist s"
    using assms True by (simp_all add: uv_safe_def)
  have f: "0 \<le> f" "us_fd s = - 1 \<or> us_fd s = f" using s(1) a(2) by (auto simp: uv_flags_def f_def)
  have d: "d \<le> 0" by (simp add: d_def ECONNREFUSED_def)
  have eq: "uv__tcp_connect s req fd e =
    Inr (if e \<noteq> 0 \<and> e \<noteq> EINPROGRESS \<and> e \<noteq> ECONNREFUSED then (- e, o1) else (0, if d \<noteq> 0 then c1\<lparr>us_fed := True\<rparr> else c1))"
    using True f unfolding uv__tcp_connect_def f_def [symmetric] d_def [symmetric]
    by (simp add: uv__stream_open_def uv_assert_def Let_def io_defs o1_def c1_def)
  have acc: "uv_acc o1" "uv_acc c1" using s(2) True by (simp_all add: uv_acc_def o1_def c1_def)
  have hist: "uv_hist o1" "uv_hist c1" using s(3) by (simp_all add: uv_hist_def write_cbs_def o1_def c1_def)
  have flags: "uv_flags o1" "uv_flags c1" using s(1) a f d by (simp_all add: uv_flags_def o1_def c1_def)
  have fed: "uv_flags (c1\<lparr>us_fed := True\<rparr>)" "uv_acc (c1\<lparr>us_fed := True\<rparr>)" "uv_hist (c1\<lparr>us_fed := True\<rparr>)"
    using flags(2) acc(2) hist(2) f(1) by (simp_all add: uv_flags_def uv_acc_def uv_hist_def write_cbs_def c1_def o1_def)
  have "uv_live o1" "uv_live c1" "uv_live (c1\<lparr>us_fed := True\<rparr>)" using a by (simp_all add: uv_live_def o1_def c1_def)
  moreover have "us_writes o1 = us_writes s" "us_writes c1 = us_writes s" by (simp_all add: o1_def c1_def)
  ultimately show ?thesis unfolding eq using flags acc hist fed by (simp add: uv_safe_def)
qed

lemma kept_snd: "ends_in m (\<lambda>(r, s1). kept s s1 \<and> Q r s1) \<Longrightarrow> ends_in (ebind m (\<lambda>(_, s1). Inr s1)) (kept s)"
  by (cases m) auto

lemma api_step_kept:
  assumes "uv_safe s" "api_ok s a" "\<not> connects a"
  shows "ends_in (api_step iovmax s a) (kept s)"
proof (cases a)
  case (ApiOpen fd)
  then show ?thesis using kept_snd [OF uv__stream_open_ok] assms by simp
next
  case (ApiWrite rid bufs oom r)
  then show ?thesis using kept_snd [OF uv_write2_ok] assms by simp
next
  case (ApiShutdown req)
  then show ?thesis using kept_snd [OF uv_shutdown_ok] assms by simp
next
  case ApiReadStart
  then show ?thesis using kept_snd [OF uv_read_start_ok] assms by simp
next
  case ApiReadStop
  then show ?thesis using uv_read_stop_ok [of s] assms by simp
next
  case ApiClose
  have "ends_in (uv_close s) (kept s)"
    by (rule ends_in_mono [OF uv_close_ok]) (use assms ApiClose in auto)
  then show ?thesis using ApiClose by simp
qed (use assms(3) in \<open>simp del: api_step.simps\<close>)

lemma api_step_ok:
  assumes "uv_safe s" "api_ok s a"
  shows "ends_in (api_step iovmax s a) (\<lambda>s1. uv_safe s1 \<and> (uv_live s \<longrightarrow> uv_live s1))"
proof (cases "connects a")
  case False
  show ?thesis by (rule ends_in_mono [OF api_step_kept [OF assms False]]) (simp add: kept_def)
next
  case True
  then obtain req fd e where a: "a = ApiConnect req fd e" by (cases a) auto
  have "ends_in (ebind (uv__tcp_connect s req fd e) (\<lambda>(_, s1). Inr s1)) (\<lambda>s1. uv_safe s1 \<and> (uv_live s \<longrightarrow> uv_live s1))"
    using uv__tcp_connect_ok [of s req fd e] assms unfolding a by (cases "uv__tcp_connect s req fd e") auto
  then show ?thesis by (simp add: a)
qed

end
