(* ===== verification/UvStreamIo.thy ===== *)
theory UvStreamIo
  imports UvStreamOps
begin

text \<open>The reports of the loop and the end of closing keep the invariant; runs of well-formed events.\<close>

section \<open>Reading\<close>

lemma api_run_ok: "uv_safe s \<Longrightarrow> apis_ok iovmax s as \<Longrightarrow> ends_in (api_run iovmax s as) (kept s)"
proof (induction as arbitrary: s)
  case (Cons a as)
  obtain s1 where s1: "api_step iovmax s a = Inr s1" "kept s s1"
    using api_step_kept [of s a iovmax] Cons.prems by (auto simp: ends_in_iff)
  have "uv_safe s1" using s1(2) by (simp add: kept_def)
  moreover have "apis_ok iovmax s1 as" using Cons.prems(2) s1(1) by simp
  ultimately have "ends_in (api_run iovmax s1 as) (kept s1)" by (rule Cons.IH)
  then have "ends_in (api_run iovmax s1 as) (kept s)" by (rule ends_in_mono) (rule kept_trans [OF s1(2)])
  then show ?case by (simp add: s1(1))
qed simp

lemma flag_frame:
  "us_queue s1 = us_queue s \<Longrightarrow> us_completed s1 = us_completed s \<Longrightarrow> us_size s1 = us_size s \<Longrightarrow> us_reqs s1 = us_reqs s \<Longrightarrow>
    us_connect_req s1 = us_connect_req s \<Longrightarrow> us_shutdown_req s1 = us_shutdown_req s \<Longrightarrow> us_writes s1 = us_writes s \<Longrightarrow>
    us_sent s1 = us_sent s \<Longrightarrow> write_cbs s1 = write_cbs s \<Longrightarrow> us_closing s1 = us_closing s \<Longrightarrow> us_pollout s1 = us_pollout s \<Longrightarrow>
    us_fed s1 = us_fed s \<Longrightarrow> uv_flags s1 \<Longrightarrow> uv_safe s \<Longrightarrow> kept s s1"
  using acc_frame [of s1 s] hist_frame [of s1 s] by (simp add: kept_def uv_safe_def uv_live_def)

lemma call_read_kept: "uv_safe s \<Longrightarrow> kept s (call (ReadCb n bytes) s)"
  by (rule flag_frame) (auto simp: write_cbs_def List.map_filter_def uv_safe_def uv_flags_def)

lemma read_cb_ok:
  assumes "rcb_ok iovmax rcb" "uv_safe s"
  shows "ends_in (read_cb iovmax rcb n bytes s) (kept s)"
proof -
  let ?s1 = "call (ReadCb n bytes) s"
  note k = call_read_kept [OF assms(2), of n bytes]
  have "ends_in (api_run iovmax ?s1 (rcb n bytes ?s1)) (kept ?s1)"
    using k assms(1) by (intro api_run_ok) (auto simp: kept_def rcb_ok_def)
  then show ?thesis unfolding read_cb_def Let_def by (rule ends_in_mono) (rule kept_trans [OF k])
qed

text \<open>What the reading code does to the flags.\<close>

lemma reading_flags_kept:
  assumes "uv_safe s"
  shows "kept s (s\<lparr>us_reading := False\<rparr>)" "kept s (s\<lparr>us_read_partial := b\<rparr>)"
    "kept s (s\<lparr>us_read_eof := b, us_pollin := False\<rparr>)" "kept s (s\<lparr>us_read_eof := b\<rparr>)"
    "kept s (s\<lparr>us_reading := False, us_pollin := False\<rparr>)" "kept s (s\<lparr>us_reading := False, us_pollin := False, us_active := a\<rparr>)"
    "kept s (s\<lparr>us_read_eof := b, us_pollin := False, us_active := a\<rparr>)" "kept s (s\<lparr>us_reading := False, us_active := a\<rparr>)"
    "kept s (s\<lparr>us_read_eof := b, us_active := a\<rparr>)" "0 \<le> us_fd s \<Longrightarrow> kept s (s\<lparr>us_pollin := True\<rparr>)"
  by (rule flag_frame; use assms in \<open>(simp add: write_cbs_def uv_safe_def uv_flags_def; blast)?\<close>)+

lemma uv__stream_eof_ok:
  assumes "rcb_ok iovmax rcb" "uv_safe s"
  shows "ends_in (uv__stream_eof iovmax rcb s) (kept s)"
proof -
  let ?s1 = "uv__io_stop_in (s\<lparr>us_read_eof := True\<rparr>)"
  let ?s2 = "if us_pollout ?s1 then ?s1 else uv__handle_stop ?s1"
  have k: "kept s ?s2" using reading_flags_kept [OF assms(2)] by (simp add: io_defs)
  have s2: "uv_safe ?s2" using k by (simp add: kept_def)
  have "ends_in (read_cb iovmax rcb UV__EOF [] ?s2) (\<lambda>s3. kept s (s3\<lparr>us_reading := False\<rparr>))"
  proof (rule ends_in_mono [OF read_cb_ok [OF assms(1) s2]])
    fix s3 assume "kept ?s2 s3"
    then have "kept s s3" "uv_safe s3" using kept_trans [OF k] by (auto simp: kept_def)
    then show "kept s (s3\<lparr>us_reading := False\<rparr>)" using reading_flags_kept(1) kept_trans by blast
  qed
  then show ?thesis by (simp add: uv__stream_eof_def Let_def)
qed

lemma uv__read_loop_ok:
  "rcb_ok iovmax rcb \<Longrightarrow> uv_safe s \<Longrightarrow> ends_in (uv__read_loop iovmax rcb len count ks s) (kept s)"
proof (induction count arbitrary: ks s)
  case (Suc count)
  note cb = read_cb_ok [OF Suc.prems(1)]
  show ?case
  proof (cases "us_read_cb s \<and> us_reading s \<and> len \<noteq> 0")
    case False
    then show ?thesis using Suc.prems cb [OF Suc.prems(2)] by auto
  next
    case True
    have fd: "0 \<le> us_fd s" using True Suc.prems(2) by (simp add: uv_safe_def uv_flags_def)
    let ?k = "case ks of [] \<Rightarrow> Inl EAGAIN | k # _ \<Rightarrow> k"
    show ?thesis
    proof (cases ?k)
      case (Inl e)
      show ?thesis
      proof (cases "e = EAGAIN")
        case eagain: True
        note k = reading_flags_kept(10) [OF Suc.prems(2) fd]
        have "ends_in (read_cb iovmax rcb 0 [] (s\<lparr>us_pollin := True\<rparr>)) (kept s)"
          by (rule ends_in_mono [OF cb]) (use k kept_trans [OF k] in \<open>simp_all add: kept_def\<close>)
        then show ?thesis using True fd Inl eagain by (simp add: io_defs)
      next
        case err: False
        let ?stop = "\<lambda>s1. if us_reading s1 then
          (let s2 = uv__io_stop_in (s1\<lparr>us_reading := False\<rparr>) in if us_pollout s2 then s2 else uv__handle_stop s2) else s1"
        have "kept s (?stop s1)" if "kept s s1" for s1
        proof -
          have "uv_safe s1" using that by (simp add: kept_def)
          from reading_flags_kept [OF this] have "kept s1 (?stop s1)" by (simp add: io_defs Let_def \<open>uv_safe s1\<close>)
          then show ?thesis using that kept_trans by blast
        qed
        then have "ends_in (read_cb iovmax rcb (- e) [] s) (\<lambda>s1. kept s (?stop s1))"
          by (rule ends_in_mono [OF cb [OF Suc.prems(2)]])
        then show ?thesis using True fd Inl err by simp
      qed
    next
      case (Inr bytes)
      show ?thesis
      proof (cases "bytes = []")
        case eof: True
        then show ?thesis using True fd Inr uv__stream_eof_ok [OF Suc.prems] by simp
      next
        case data: False
        let ?d = "take len bytes"
        have "ends_in (read_cb iovmax rcb (int (length ?d)) ?d s)
          (\<lambda>s1. kept s (s1\<lparr>us_read_partial := True\<rparr>) \<and> ends_in (uv__read_loop iovmax rcb len count (tl ks) s1) (kept s))"
        proof (rule ends_in_mono [OF cb [OF Suc.prems(2)]])
          fix s1 assume k: "kept s s1"
          then have s1: "uv_safe s1" by (simp add: kept_def)
          have "ends_in (uv__read_loop iovmax rcb len count (tl ks) s1) (kept s)"
            by (rule ends_in_mono [OF Suc.IH [OF Suc.prems(1) s1]]) (rule kept_trans [OF k])
          then show "kept s (s1\<lparr>us_read_partial := True\<rparr>) \<and> ends_in (uv__read_loop iovmax rcb len count (tl ks) s1) (kept s)"
            using kept_trans [OF k reading_flags_kept(2) [OF s1]] by blast
        qed
        then show ?thesis using True fd Inr data
          by (simp add: Let_def) (erule ends_in_mono, simp)
      qed
    qed
  qed
qed simp

lemma uv__read_ok:
  assumes "rcb_ok iovmax rcb" "uv_safe s"
  shows "ends_in (uv__read iovmax rcb len ks s) (kept s)"
proof -
  note k = reading_flags_kept(2) [OF assms(2), of False]
  show ?thesis unfolding uv__read_def
    by (rule ends_in_mono [OF uv__read_loop_ok [OF assms(1)]]) (use k kept_trans [OF k] in \<open>simp_all add: kept_def\<close>)
qed

section \<open>Callbacks, draining, connecting\<close>

lemma callbacks_safe:
  assumes "uv_flags s" "uv_acc s" "uv_hist s"
  shows "ends_in (uv__write_callbacks s) (\<lambda>s1. uv_safe s1 \<and> us_completed s1 = [] \<and>
    (\<exists>n z. s1 = s\<lparr>us_completed := [], us_reqs := n, us_size := z, us_calls := called_all s\<rparr>))"
proof (rule ends_in_mono [OF uv__write_callbacks_ok [OF assms(2,3)]])
  fix s1 assume a: "uv_acc s1 \<and> uv_hist s1 \<and> (\<exists>n z. s1 = s\<lparr>us_completed := [], us_reqs := n, us_size := z, us_calls := called_all s\<rparr>)"
  then obtain n z where s1: "s1 = s\<lparr>us_completed := [], us_reqs := n, us_size := z, us_calls := called_all s\<rparr>" by blast
  have "uv_flags s1" "us_completed s1 = []" using assms(1) unfolding s1 by (simp_all add: uv_flags_def)
  with a show "uv_safe s1 \<and> us_completed s1 = [] \<and>
    (\<exists>n z. s1 = s\<lparr>us_completed := [], us_reqs := n, us_size := z, us_calls := called_all s\<rparr>)"
    unfolding uv_safe_def by blast
qed

lemma uv__drain_ok:
  assumes "uv_safe s" "us_queue s = []" "us_completed s = []" "us_connect_req s = None" "0 \<le> us_fd s"
  shows "ends_in (uv__drain s e) (\<lambda>s1. uv_safe s1 \<and> us_queue s1 = [] \<and> us_completed s1 = [] \<and> us_fd s1 = us_fd s \<and>
    us_connect_req s1 = None \<and> us_shutdown_req s1 = None \<and> us_writes s1 = us_writes s \<and> us_sent s1 = us_sent s \<and> us_closing s1 = us_closing s)"
proof -
  define s1 where "s1 = s\<lparr>us_pollout := False\<rparr>"
  have io: "uv__io_stop_out s = s1" using assms(5) by (simp add: io_defs s1_def)
  have s: "uv_flags s" "uv_acc s" "uv_hist s" "\<not> us_closing s" using assms(1,5) by (auto simp: uv_safe_def uv_flags_def)
  have f1: "uv_flags s1" using s(1) assms(2-4) by (simp add: uv_flags_def s1_def)
  have a1: "uv_acc s1" "uv_hist s1" using s(2,3) by (simp_all add: uv_acc_def uv_hist_def write_cbs_def s1_def)
  show ?thesis
  proof (cases "us_shutting s \<and> \<not> us_shut s")
    case False
    then have "us_shutdown_req s = None" using s(1,4) by (auto simp: uv_flags_def)
    then show ?thesis using False f1 a1 assms(2-4) io by (auto simp: uv__drain_def uv_safe_def s1_def)
  next
    case True
    then obtain req where req: "us_shutdown_req s = Some req" using s(1,4) by (auto simp: uv_flags_def)
    have pos: "us_reqs s > 0" using s(2) req by (simp add: uv_acc_def)
    define s2 where "s2 = s1\<lparr>us_shutdown_req := None, us_shutting := False, us_reqs := us_reqs s - 1\<rparr>"
    have eq: "uv__drain s e = Inr (call (ShutdownCb req (- e)) (if e = 0 then s2\<lparr>us_shut := True\<rparr> else s2))"
      using True req pos io assms(2) s(4)
      by (simp add: uv__drain_def uv_assert_def uv__req_unregister_def s1_def s2_def)
    have sd: "us_shutdown_req s2 = None" by (simp add: s2_def)
    have f2: "uv_flags s2" using f1 s(4) by (simp add: uv_flags_def s2_def s1_def)
    have a2: "uv_acc s2" using s(2) req by (auto simp: uv_acc_def s2_def s1_def split: if_splits)
    have "uv_flags (call c (if b then s2\<lparr>us_shut := True\<rparr> else s2))" for c b
      using f2 sd by (simp add: uv_flags_def)
    moreover have "uv_acc (call c (if b then s2\<lparr>us_shut := True\<rparr> else s2))" for c b using a2 by (simp add: uv_acc_def)
    moreover have "uv_hist (call (ShutdownCb req x) (if b then s2\<lparr>us_shut := True\<rparr> else s2))" for b x
      using s(3) by (simp add: uv_hist_def write_cbs_def List.map_filter_def s2_def s1_def)
    ultimately show ?thesis unfolding eq using assms(2-4) by (simp add: uv_safe_def s2_def s1_def)
  qed
qed

lemma uv__stream_connect_ok:
  assumes "uv_safe s" "us_connect_req s = Some req" "0 \<le> us_fd s" "0 \<le> e"
  shows "ends_in (uv__stream_connect s e) (\<lambda>s1. uv_safe s1 \<and> uv_live s1)"
proof -
  define err where "err = (if us_delayed_error s \<noteq> 0 then us_delayed_error s else - e)"
  have s: "uv_flags s" "uv_acc s" "uv_hist s" "\<not> us_closing s" "us_completed s = []" "us_pollout s"
    using assms(1-3) by (auto simp: uv_safe_def uv_flags_def)
  have err: "err \<le> 0" using s(1) assms(4) by (simp add: err_def uv_flags_def)
  define s1 where "s1 = s\<lparr>us_delayed_error := 0\<rparr>"
  have i1: "uv_safe s1" "uv_live s1" using s
    by (simp_all add: uv_safe_def uv_flags_def uv_acc_def uv_hist_def write_cbs_def uv_live_def s1_def)
  have pos: "us_reqs s > 0" using s(2) assms(2) by (simp add: uv_acc_def)
  define s2 where "s2 = s1\<lparr>us_connect_req := None, us_reqs := us_reqs s - 1, us_pollout := \<not> (err < 0 \<or> us_queue s = []),
    us_calls := us_calls s @ [ConnectCb req err]\<rparr>"
  have f2: "uv_flags s2" using s(1,4,5) by (simp add: uv_flags_def s2_def s1_def)
  have a2: "uv_acc s2" using s(2) assms(2) by (auto simp: uv_acc_def s2_def s1_def split: if_splits)
  have h2: "uv_hist s2" using s(3) by (simp add: uv_hist_def write_cbs_def List.map_filter_def s2_def s1_def)
  have eq: "uv__stream_connect s e = (if err = - EINPROGRESS then Inr s1
    else if err < 0 then uv__write_callbacks (uv__stream_flush_write_queue s2 UV_ECANCELED) else Inr s2)"
    unfolding uv__stream_connect_def err_def [symmetric] using assms(2,3) pos s(6)
    by (simp add: uv__req_unregister_def uv_assert_def io_defs s1_def s2_def Let_def)
  let ?fl = "uv__stream_flush_write_queue s2 UV_ECANCELED"
  have c: "UV_ECANCELED \<noteq> 0" by (simp add: UV_ECANCELED_def)
  have "uv_flags ?fl" using f2 by (simp add: uv_flags_def uv__stream_flush_write_queue_def s2_def s1_def)
  from callbacks_safe [OF this flush_acc [OF a2 c] flush_hist [OF h2 c]]
  have "ends_in (uv__write_callbacks ?fl) (\<lambda>s3. uv_safe s3 \<and> uv_live s3)"
    by (rule ends_in_mono) (auto simp: uv_live_def uv__stream_flush_write_queue_def)
  moreover have "uv_live s2" if "\<not> err < 0" using that s(5) by (simp add: uv_live_def s2_def s1_def)
  ultimately show ?thesis unfolding eq using i1 f2 a2 h2 by (simp add: uv_safe_def)
qed

section \<open>Reports of the loop\<close>

definition uv_inv :: "uv_stream \<Rightarrow> bool" where
  "uv_inv s \<longleftrightarrow> uv_safe s \<and> uv_live s"

lemma write_phase_ok:
  assumes "uv_safe s" "0 \<le> us_fd s" "us_connect_req s = None" "errno_ok r"
  shows "ends_in (uv__write iovmax s r) (\<lambda>s3. ends_in (uv__write_callbacks s3) (\<lambda>s4.
    ends_in (if us_queue s4 = [] then uv__drain s4 e else Inr s4) uv_inv))"
proof (rule ends_in_mono [OF uv__write_ok [OF assms]])
  fix s3
  assume a: "uv_safe s3 \<and> same_conn s s3 \<and> us_writes s3 = us_writes s \<and> us_calls s3 = us_calls s \<and>
    (us_queue s \<noteq> [] \<longrightarrow> us_pollout s3 \<or> us_fed s3) \<and> (us_queue s = [] \<longrightarrow> us_queue s3 = []) \<and> (us_fed s \<longrightarrow> us_fed s3) \<and>
    (us_fed s3 \<or> us_completed s3 = us_completed s)"
  then have s3: "uv_flags s3" "uv_acc s3" "uv_hist s3" "0 \<le> us_fd s3" "us_connect_req s3 = None"
    "us_queue s3 \<noteq> [] \<longrightarrow> us_pollout s3 \<or> us_fed s3"
    using assms(2,3) by (auto simp: uv_safe_def same_conn_def)
  show "ends_in (uv__write_callbacks s3) (\<lambda>s4. ends_in (if us_queue s4 = [] then uv__drain s4 e else Inr s4) uv_inv)"
  proof (rule ends_in_mono [OF callbacks_safe [OF s3(1-3)]])
    fix s4
    assume b: "uv_safe s4 \<and> us_completed s4 = [] \<and>
      (\<exists>n z. s4 = s3\<lparr>us_completed := [], us_reqs := n, us_size := z, us_calls := called_all s3\<rparr>)"
    then have s4: "uv_safe s4" "us_completed s4 = []" by blast+
    obtain n z where eq: "s4 = s3\<lparr>us_completed := [], us_reqs := n, us_size := z, us_calls := called_all s3\<rparr>" using b by blast
    have fr: "0 \<le> us_fd s4" "us_connect_req s4 = None" "us_queue s4 \<noteq> [] \<longrightarrow> us_pollout s4 \<or> us_fed s4"
      using s3(4-6) unfolding eq by simp_all
    show "ends_in (if us_queue s4 = [] then uv__drain s4 e else Inr s4) uv_inv"
    proof (cases "us_queue s4 = []")
      case True
      have "ends_in (uv__drain s4 e) uv_inv"
        by (rule ends_in_mono [OF uv__drain_ok [OF s4(1) True s4(2) fr(2,1)]]) (simp add: uv_inv_def uv_live_def)
      then show ?thesis using True by simp
    next
      case False
      then show ?thesis using s4 fr(3) by (simp add: uv_inv_def uv_live_def)
    qed
  qed
qed

lemma fed_safe: "uv_safe s \<Longrightarrow> uv_safe (s\<lparr>us_fed := False\<rparr>)"
  by (simp add: uv_safe_def uv_flags_def uv_acc_def uv_hist_def write_cbs_def)

lemma no_fd_live: "uv_safe s \<Longrightarrow> us_fd s = - 1 \<Longrightarrow> uv_live s"
  by (auto simp: uv_safe_def uv_flags_def uv_live_def)

lemma uv__stream_io_ok:
  assumes "uv_safe s" "0 \<le> us_fd s" "\<not> us_closing s" "errno_ok (ev_write ev)" "0 \<le> ev_connect ev" "rcb_ok iovmax rcb"
    and live: "ev_out ev \<or> uv_live s"
  shows "ends_in (uv__stream_io iovmax rcb len s ev) uv_inv"
proof (cases "us_connect_req s")
  case (Some req)
  have "ends_in (uv__stream_connect s (ev_connect ev)) uv_inv"
    by (rule ends_in_mono [OF uv__stream_connect_ok [OF assms(1) Some assms(2)]]) (use assms(5) in \<open>simp_all add: uv_inv_def\<close>)
  then show ?thesis using Some assms(3) by (simp add: uv__stream_io_def)
next
  case None
  let ?rest = "\<lambda>s2. if us_fd s2 = - 1 then Inr s2
       else if ev_out ev \<or> ev_err ev \<or> ev_hup ev then
         ebind (uv__write iovmax s2 (ev_write ev)) (\<lambda>s3. ebind (uv__write_callbacks s3) (\<lambda>s4.
         if us_queue s4 = [] then uv__drain s4 (ev_shutdown ev) else Inr s4))
       else Inr s2"
  have rest: "ends_in (?rest s2) uv_inv" if k: "kept s s2" for s2
  proof -
    have s2: "uv_safe s2" "us_connect_req s2 = None" "- 1 \<le> us_fd s2" using k None by (auto simp: kept_def uv_safe_def uv_flags_def)
    show ?thesis
    proof (cases "us_fd s2 \<noteq> - 1 \<and> (ev_out ev \<or> ev_err ev \<or> ev_hup ev)")
      case True
      then have "0 \<le> us_fd s2" using s2(3) by simp
      from write_phase_ok [OF s2(1) this s2(2), of "ev_write ev" iovmax "ev_shutdown ev"] True assms(4) show ?thesis by simp
    next
      case False
      have "uv_live s2" if "us_fd s2 \<noteq> - 1" using False that live k by (auto simp: kept_def)
      then show ?thesis using False s2(1) no_fd_live [OF s2(1)] by (auto simp: uv_inv_def)
    qed
  qed
  let ?eof = "\<lambda>s1. if ev_hup ev \<and> us_reading s1 \<and> us_read_partial s1 \<and> \<not> us_read_eof s1 then uv__stream_eof iovmax rcb s1 else Inr s1"
  have eof: "ends_in (?eof s1) (kept s)" if k: "kept s s1" for s1
  proof -
    have "uv_safe s1" using k by (simp add: kept_def)
    from ends_in_mono [OF uv__stream_eof_ok [OF assms(6) this]] kept_trans [OF k] k show ?thesis by auto
  qed
  have "ends_in (if ev_in ev \<or> ev_err ev \<or> ev_hup ev then uv__read iovmax rcb len (ev_reads ev) s else Inr s) (kept s)"
    using uv__read_ok [OF assms(6) assms(1)] assms(1) by simp
  then have "ends_in (if ev_in ev \<or> ev_err ev \<or> ev_hup ev then uv__read iovmax rcb len (ev_reads ev) s else Inr s)
    (\<lambda>s1. ends_in (if us_fd s1 = - 1 then Inr s1 else ebind (?eof s1) ?rest) uv_inv)"
  proof (rule ends_in_mono)
    fix s1 assume k: "kept s s1"
    then have "us_fd s1 = - 1 \<Longrightarrow> uv_inv s1" using no_fd_live by (simp add: kept_def uv_inv_def)
    moreover have "ends_in (ebind (?eof s1) ?rest) uv_inv"
      using ends_in_mono [OF eof [OF k] rest] by simp
    ultimately show "ends_in (if us_fd s1 = - 1 then Inr s1 else ebind (?eof s1) ?rest) uv_inv" by simp
  qed
  then show ?thesis using None assms(2,3) by (simp add: uv__stream_io_def)
qed

section \<open>The end of closing\<close>

lemma reqs_drop:
  "uv_acc s \<Longrightarrow> us_connect_req s = Some req \<Longrightarrow> us_reqs s > 0 \<and> uv_acc (s\<lparr>us_connect_req := None, us_reqs := us_reqs s - 1\<rparr>)"
  "uv_acc s \<Longrightarrow> us_shutdown_req s = Some req \<Longrightarrow> us_reqs s > 0 \<and> uv_acc (s\<lparr>us_shutdown_req := None, us_reqs := us_reqs s - 1\<rparr>)"
  by (auto simp: uv_acc_def split: if_splits)

definition rest_same :: "uv_stream \<Rightarrow> uv_stream \<Rightarrow> bool" where
  "rest_same s s1 \<longleftrightarrow> us_fd s1 = us_fd s \<and> us_pollin s1 = us_pollin s \<and> us_pollout s1 = us_pollout s \<and>
     us_closing s1 = us_closing s \<and> us_closed s1 = us_closed s \<and> us_reading s1 = us_reading s \<and>
     us_delayed_error s1 = us_delayed_error s \<and> us_writes s1 = us_writes s \<and> us_fed s1 = us_fed s"

lemma destroy_connect_ok:
  assumes "uv_acc s" "uv_hist s"
  shows "ends_in (case us_connect_req s of None \<Rightarrow> Inr s
    | Some req \<Rightarrow> ebind (uv__req_unregister s) (\<lambda>s1. Inr ((call (ConnectCb req UV_ECANCELED) s1)\<lparr>us_connect_req := None\<rparr>)))
    (\<lambda>s1. uv_acc s1 \<and> uv_hist s1 \<and> us_connect_req s1 = None \<and> rest_same s s1)"
proof (cases "us_connect_req s")
  case (Some req)
  let ?s1 = "s\<lparr>us_reqs := us_reqs s - 1, us_calls := us_calls s @ [ConnectCb req UV_ECANCELED], us_connect_req := None\<rparr>"
  have "us_reqs s > 0" "uv_acc ?s1" using reqs_drop(1) [OF assms(1) Some] by (simp_all add: uv_acc_def)
  moreover have "uv_hist ?s1" using assms(2) by (simp add: uv_hist_def write_cbs_def List.map_filter_def)
  ultimately show ?thesis using Some by (simp add: uv__req_unregister_def rest_same_def)
qed (use assms in \<open>simp add: rest_same_def\<close>)

lemma uv__finish_close_ok:
  assumes "uv_inv s" "event_ok s UvFinish"
  shows "ends_in (uv__finish_close s) (\<lambda>s1. uv_inv s1 \<and> us_closed s1 \<and> us_size s1 = 0 \<and> us_writes s1 = us_writes s)"
proof -
  have s: "uv_flags s" "uv_acc s" "uv_hist s" "us_closing s" "\<not> us_closed s" using assms by (auto simp: uv_inv_def uv_safe_def)
  define s0 where "s0 = s\<lparr>us_closed := True\<rparr>"
  have nr: "us_fd s = - 1" "\<not> us_reading s" "\<not> us_fed s" using s(1,4) by (auto simp: uv_flags_def)
  have s0: "uv_acc s0" "uv_hist s0" "us_fd s0 = - 1" "\<not> us_pollin s0" "\<not> us_pollout s0" "us_closing s0" "us_closed s0"
    "\<not> us_reading s0" "us_delayed_error s0 \<le> 0" "us_writes s0 = us_writes s" "\<not> us_fed s0"
    using s nr by (simp_all add: uv_acc_def uv_hist_def write_cbs_def uv_flags_def s0_def)
  obtain s1 where e1: "(case us_connect_req s0 of None \<Rightarrow> Inr s0
      | Some req \<Rightarrow> ebind (uv__req_unregister s0) (\<lambda>s1. Inr ((call (ConnectCb req UV_ECANCELED) s1)\<lparr>us_connect_req := None\<rparr>))) = Inr s1"
    and s1: "uv_acc s1" "uv_hist s1" "us_connect_req s1 = None" "rest_same s0 s1"
    using destroy_connect_ok [OF s0(1,2)] unfolding ends_in_iff by (elim exE conjE)
  let ?fl = "uv__stream_flush_write_queue s1 UV_ECANCELED"
  have c: "UV_ECANCELED \<noteq> 0" by (simp add: UV_ECANCELED_def)
  obtain s2 n z where e2: "uv__write_callbacks ?fl = Inr s2" and s2: "uv_acc s2" "uv_hist s2"
    and eq2: "s2 = ?fl\<lparr>us_completed := [], us_reqs := n, us_size := z, us_calls := called_all ?fl\<rparr>"
    using uv__write_callbacks_ok [OF flush_acc [OF s1(1) c] flush_hist [OF s1(2) c]] unfolding ends_in_iff by (elim exE conjE)
  have f2: "us_queue s2 = []" "us_completed s2 = []" "us_connect_req s2 = None" "us_fd s2 = - 1" "\<not> us_pollin s2" "\<not> us_pollout s2"
    "us_closing s2" "us_closed s2" "\<not> us_reading s2" "us_delayed_error s2 \<le> 0" "us_writes s2 = us_writes s" "\<not> us_fed s2"
    unfolding eq2 using s1(3,4) s0(3-) by (simp_all add: uv__stream_flush_write_queue_def rest_same_def)
  have z: "us_size s2 = 0" using s2(1) f2(1,2) by (simp add: uv_acc_def)
  have inv: "uv_inv s3" if "uv_acc s3" "uv_hist s3" "us_shutdown_req s3 = None" "us_queue s3 = us_queue s2" "us_completed s3 = us_completed s2"
    "us_connect_req s3 = us_connect_req s2" "us_fd s3 = us_fd s2" "us_pollin s3 = us_pollin s2" "us_pollout s3 = us_pollout s2"
    "us_closing s3 = us_closing s2" "us_closed s3 = us_closed s2" "us_reading s3 = us_reading s2" "us_delayed_error s3 = us_delayed_error s2" "us_fed s3 = us_fed s2"
    for s3
    using that f2 by (simp add: uv_inv_def uv_safe_def uv_flags_def uv_live_def)
  show ?thesis
  proof (cases "us_shutdown_req s2")
    case None
    then show ?thesis using e1 e2 s(4,5) s0(4,5,7) inv [OF s2 None] z f2(8,11)
      by (simp add: uv__finish_close_def uv__stream_destroy_def flip: s0_def)
  next
    case (Some req)
    define s3 where "s3 = s2\<lparr>us_reqs := us_reqs s2 - 1, us_calls := us_calls s2 @ [ShutdownCb req UV_ECANCELED], us_shutdown_req := None\<rparr>"
    have p: "us_reqs s2 > 0" using reqs_drop(2) [OF s2(1) Some] by blast
    have a3: "uv_acc s3" using reqs_drop(2) [OF s2(1) Some] by (simp add: uv_acc_def s3_def)
    have h3: "uv_hist s3" using s2(2) by (simp add: uv_hist_def write_cbs_def List.map_filter_def s3_def)
    have "uv_inv s3" by (rule inv [OF a3 h3]) (simp_all add: s3_def)
    then show ?thesis using e1 e2 s(4,5) s0(4,5,7) z f2(8,11) Some p
      by (simp add: uv__finish_close_def uv__stream_destroy_def uv__req_unregister_def s3_def flip: s0_def)
  qed
qed

section \<open>Runs\<close>

lemma uv_step_ok:
  assumes "rcb_ok iovmax rcb" "uv_inv s" "event_ok s e"
  shows "ends_in (uv_step iovmax rcb len s e) uv_inv"
proof (cases e)
  case (UvApi a)
  have "ends_in (api_step iovmax s a) uv_inv"
    by (rule ends_in_mono [OF api_step_ok]) (use assms UvApi in \<open>auto simp: uv_inv_def\<close>)
  then show ?thesis using UvApi by simp
next
  case (UvIo ev)
  then show ?thesis using uv__stream_io_ok [of s ev iovmax rcb len] assms by (simp add: uv_inv_def)
next
  case (UvPending ev)
  let ?ev = "ev\<lparr>ev_in := False, ev_out := True, ev_hup := False, ev_err := False\<rparr>"
  have "ends_in (uv__stream_io iovmax rcb len (s\<lparr>us_fed := False\<rparr>) ?ev) uv_inv" if "us_fed s"
    by (rule uv__stream_io_ok) (use assms UvPending that fed_safe in \<open>auto simp: uv_inv_def uv_safe_def uv_flags_def\<close>)
  then show ?thesis using UvPending assms(2) by (simp add: uv__run_pending_def)
next
  case UvFinish
  have "ends_in (uv__finish_close s) uv_inv"
    by (rule ends_in_mono [OF uv__finish_close_ok]) (use assms UvFinish in auto)
  then show ?thesis using UvFinish by simp
qed

lemma uv_run_ok:
  "rcb_ok iovmax rcb \<Longrightarrow> uv_inv s \<Longrightarrow> events_ok iovmax rcb len s es \<Longrightarrow> ends_in (uv_run iovmax rcb len s es) uv_inv"
proof (induction es arbitrary: s)
  case (Cons e es)
  obtain s1 where s1: "uv_step iovmax rcb len s e = Inr s1" "uv_inv s1"
    using uv_step_ok [OF Cons.prems(1,2), of e len] Cons.prems(3) by (auto simp: ends_in_iff)
  have "events_ok iovmax rcb len s1 es" using Cons.prems(3) s1(1) by simp
  from Cons.IH [OF Cons.prems(1) s1(2) this] s1(1) show ?case by simp
qed simp

lemma uv_init_inv: "uv_inv uv_stream_init"
proof -
  have "uv_hist uv_stream_init"
    by (rule uv_histI [of _ "[]" "[]" "[]"]) (simp_all add: uv_stream_init_def write_cbs_def List.map_filter_def)
  then show ?thesis by (simp add: uv_inv_def uv_safe_def uv_flags_def uv_acc_def uv_live_def uv_stream_init_def)
qed

end
