(* ===== verification/UvStreamDrain.thy ===== *)
theory UvStreamDrain
  imports UvStreamIo
begin

text \<open>
  Progress: every report of writability for which the kernel has room brings the queue forward, by
  the measure \<open>uv_work\<close> (bytes and buffers that are left).
\<close>

section \<open>What is left of a request\<close>

definition req_work :: "uv_write_req \<Rightarrow> nat" where
  "req_work q = length (req_pending q) + (length (rq_bufs q) - rq_index q)"

definition uv_work :: "uv_stream \<Rightarrow> nat" where
  "uv_work s = sum_list (map req_work (us_queue s))"

definition uv_pending :: "uv_stream \<Rightarrow> u8 list" where
  "uv_pending s = concat (map req_pending (us_queue s))"

lemma write_loop_index:
  "write_loop q sz n = Inr (q1, sz1, fin) \<Longrightarrow>
    length (rq_bufs q1) = length (rq_bufs q) \<and> rq_index q \<le> rq_index q1 \<and>
    (n = 0 \<and> rq_bufs q ! rq_index q = [] \<longrightarrow> rq_index q < rq_index q1)"
proof (induction "length (rq_bufs q) - rq_index q" arbitrary: q sz n rule: less_induct)
  case less
  let ?i = "rq_index q" and ?bufs = "rq_bufs q"
  let ?q1 = "q\<lparr>rq_index := Suc ?i\<rparr>" and ?n = "n - length (?bufs ! ?i)" and ?sz = "sz - int (length (?bufs ! ?i))"
  consider (out) "length ?bufs \<le> ?i" | (part) "?i < length ?bufs" "n < length (?bufs ! ?i)"
    | (last) "?i < length ?bufs" "\<not> n < length (?bufs ! ?i)" "Suc ?i = length ?bufs"
    | (more) "?i < length ?bufs" "\<not> n < length (?bufs ! ?i)" "Suc ?i \<noteq> length ?bufs" by linarith
  then show ?case
  proof cases
    case more
    then have "write_loop ?q1 ?sz ?n = Inr (q1, sz1, fin)"
      using less.prems by (subst (asm) write_loop.simps) (auto simp: Let_def uv_assert_def split: if_splits)
    moreover have "length (rq_bufs ?q1) - rq_index ?q1 < length ?bufs - ?i" using more by simp
    ultimately show ?thesis using less.hyps [of ?q1 ?sz ?n] more by auto
  qed (use less.prems in \<open>subst (asm) write_loop.simps, auto simp: Let_def uv_assert_def split: if_splits\<close>)+
qed

section \<open>One write\<close>

definition wrote :: "uv_stream \<Rightarrow> uv_stream \<Rightarrow> bool" where
  "wrote s s1 \<longleftrightarrow> us_sent s1 @ uv_pending s1 = us_sent s @ uv_pending s \<and> us_writes s1 = us_writes s \<and>
     (if us_queue s = [] then us_queue s1 = [] else uv_work s1 < uv_work s)"

lemma wrote_frame:
  "us_queue s1 = us_queue s2 \<Longrightarrow> us_sent s1 = us_sent s2 \<Longrightarrow> us_writes s1 = us_writes s2 \<Longrightarrow> wrote s s1 = wrote s s2"
  by (simp add: wrote_def uv_pending_def uv_work_def)

lemma uv__write_room:
  assumes "uv_safe s" "0 \<le> us_fd s" "0 < m" "0 < iovmax"
  shows "ends_in (uv__write iovmax s (Room m)) (wrote s)"
proof (cases "us_queue s")
  case Nil
  then show ?thesis using assms by (simp add: uv__write_def wrote_def)
next
  case (Cons q qs)
  have q: "rq_index q < length (rq_bufs q)" "us_size s < 2 ^ 64"
    "us_size s = int (length (req_pending q)) + sum_list (map live_count qs) + sum_list (map live_count (us_completed s))"
    using assms(1) Cons by (auto simp: uv_safe_def uv_acc_def live_count_def)
  let ?iov = "take iovmax (drop (rq_index q) (rq_bufs q))"
  let ?bs = "concat ?iov"
  let ?n = "min m (length ?bs)"
  have pre: "req_pending q = ?bs @ concat (drop iovmax (drop (rq_index q) (rq_bufs q)))"
    unfolding req_pending_def by (metis append_take_drop_id concat_append)
  have n: "?n \<le> length (req_pending q)" using pre by simp
  have sz: "int (length (req_pending q)) \<le> us_size s" using q(3) by simp
  obtain q1 fin where w: "write_loop q (us_size s) ?n = Inr (q1, us_size s - int ?n, fin)"
    and q1: "rq_error q1 = rq_error q" "req_pending q1 = drop ?n (req_pending q)"
    and fin: "if fin then ?n = length (req_pending q) else rq_index q1 < length (rq_bufs q1)"
    by (rule write_loop_cases [OF q(1) n sz q(2)])
  note idx = write_loop_index [OF w]
  have "take ?n (?bs @ rest) = take ?n ?bs" for rest by simp
  then have tk: "req_pending q = take ?n ?bs @ req_pending q1" unfolding q1(2) by (metis append_take_drop_id pre)
  have hd: "rq_bufs q ! rq_index q = hd ?iov" "?iov \<noteq> []"
    using q(1) assms(4) by (simp_all add: hd_drop_conv_nth)
  have less: "req_work q1 < req_work q" if "\<not> fin"
  proof (cases "?n = 0")
    case True
    then have "rq_bufs q ! rq_index q = []" using hd assms(3) by (cases ?iov) (auto simp: min_def split: if_splits)
    then have "rq_index q < rq_index q1" "rq_index q1 < length (rq_bufs q1)" "length (rq_bufs q1) = length (rq_bufs q)"
      using idx True fin that by simp_all
    moreover have "req_pending q1 = req_pending q" using True tk by simp
    ultimately show ?thesis unfolding req_work_def by simp
  next
    case False
    then have "length (req_pending q1) < length (req_pending q)" using n False unfolding q1(2) length_drop by linarith
    moreover have "length (rq_bufs q1) = length (rq_bufs q)" "rq_index q \<le> rq_index q1" using idx by simp_all
    ultimately show ?thesis unfolding req_work_def by simp
  qed
  have pos: "0 < req_work q" using q(1) by (simp add: req_work_def)
  have e: "rq_error q = 0" using assms(1) Cons by (simp add: uv_safe_def uv_acc_def)
  show ?thesis
  proof (cases fin)
    case True
    then have "req_pending q1 = []" using fin unfolding q1(2) by simp
    then show ?thesis using True assms(2) Cons w q1(1) tk pos
      by (simp add: uv__write_def Let_def wrote_def uv__write_req_finish_def uv__io_feed_def uv_pending_def uv_work_def)
  next
    case False
    then show ?thesis using assms(2) Cons w q1(1) tk less
      by (simp add: uv__write_def Let_def wrote_def uv__io_start_out_def uv_pending_def uv_work_def)
  qed
qed

section \<open>One report\<close>

text \<open>The loop reports that the socket is writable, and the kernel has room for \<open>m\<close> bytes.\<close>

definition out_ev :: "nat \<Rightarrow> io_event" where
  "out_ev m = \<lparr>ev_in = False, ev_out = True, ev_hup = False, ev_err = False, ev_reads = [], ev_write = Room m,
     ev_shutdown = 0, ev_connect = 0\<rparr>"

definition drained_by :: "uv_stream \<Rightarrow> uv_stream \<Rightarrow> bool" where
  "drained_by s s1 \<longleftrightarrow> wrote s s1 \<and> us_fd s1 = us_fd s \<and> us_closing s1 = us_closing s \<and> us_connect_req s1 = None \<and>
     us_completed s1 = [] \<and> (us_queue s1 = [] \<longrightarrow> us_shutdown_req s1 = None)"

lemma write_phase_drains:
  assumes "uv_safe s" "0 \<le> us_fd s" "us_connect_req s = None" "0 < m" "0 < iovmax"
  shows "ends_in (uv__write iovmax s (Room m)) (\<lambda>s3. ends_in (uv__write_callbacks s3) (\<lambda>s4.
    ends_in (if us_queue s4 = [] then uv__drain s4 e else Inr s4) (drained_by s)))"
proof -
  have "ends_in (uv__write iovmax s (Room m)) (\<lambda>s3. uv_safe s3 \<and> same_conn s s3 \<and> wrote s s3)"
    using ends_in_conj [OF uv__write_ok [OF assms(1-3), of "Room m" iovmax] uv__write_room [OF assms(1,2,4,5)]]
    by (simp add: ends_in_def split: sum.splits)
  then show ?thesis
  proof (rule ends_in_mono)
    fix s3 assume a: "uv_safe s3 \<and> same_conn s s3 \<and> wrote s s3"
    then have s3: "uv_flags s3" "uv_acc s3" "uv_hist s3" "us_fd s3 = us_fd s" "us_closing s3 = us_closing s"
      "us_connect_req s3 = None" "wrote s s3"
      using assms(3) by (auto simp: uv_safe_def same_conn_def)
    show "ends_in (uv__write_callbacks s3) (\<lambda>s4. ends_in (if us_queue s4 = [] then uv__drain s4 e else Inr s4) (drained_by s))"
    proof (rule ends_in_mono [OF callbacks_safe [OF s3(1-3)]])
      fix s4
      assume b: "uv_safe s4 \<and> us_completed s4 = [] \<and>
        (\<exists>n z. s4 = s3\<lparr>us_completed := [], us_reqs := n, us_size := z, us_calls := called_all s3\<rparr>)"
      then have s4: "uv_safe s4" "us_completed s4 = []" by blast+
      obtain n z where eq: "s4 = s3\<lparr>us_completed := [], us_reqs := n, us_size := z, us_calls := called_all s3\<rparr>" using b by blast
      have fr: "us_fd s4 = us_fd s" "us_closing s4 = us_closing s" "us_connect_req s4 = None" "us_queue s4 = us_queue s3"
        "us_sent s4 = us_sent s3" "us_writes s4 = us_writes s3"
        using s3(4-6) unfolding eq by simp_all
      have w: "wrote s s4" using s3(7) wrote_frame [OF fr(4-6)] by simp
      show "ends_in (if us_queue s4 = [] then uv__drain s4 e else Inr s4) (drained_by s)"
      proof (cases "us_queue s4 = []")
        case True
        have "0 \<le> us_fd s4" using fr(1) assms(2) by simp
        have "ends_in (uv__drain s4 e) (drained_by s)"
        proof (rule ends_in_mono [OF uv__drain_ok [OF s4(1) True s4(2) fr(3) \<open>0 \<le> us_fd s4\<close>]])
          fix x
          assume x: "uv_safe x \<and> us_queue x = [] \<and> us_completed x = [] \<and> us_fd x = us_fd s4 \<and> us_connect_req x = None \<and>
            us_shutdown_req x = None \<and> us_writes x = us_writes s4 \<and> us_sent x = us_sent s4 \<and> us_closing x = us_closing s4"
          then have "wrote s x" using w wrote_frame [of x s4 s] True by simp
          with x show "drained_by s x" using fr(1,2) by (simp add: drained_by_def)
        qed
        then show ?thesis using True by simp
      next
        case False
        then show ?thesis using s4(2) fr(1-3) w by (simp add: drained_by_def)
      qed
    qed
  qed
qed

lemma uv_out_step:
  assumes "uv_inv s" "0 \<le> us_fd s" "us_connect_req s = None" "0 < m" "0 < iovmax" "rcb_ok iovmax rcb"
  shows "ends_in (uv_step iovmax rcb len s (UvIo (out_ev m))) (\<lambda>s1. uv_inv s1 \<and> drained_by s s1)"
proof -
  have nc: "\<not> us_closing s" using assms(1,2) by (auto simp: uv_inv_def uv_safe_def uv_flags_def)
  have s: "uv_safe s" using assms(1) by (simp add: uv_inv_def)
  have ev: "\<not> ev_in (out_ev m)" "\<not> ev_err (out_ev m)" "\<not> ev_hup (out_ev m)" "ev_out (out_ev m)" "ev_write (out_ev m) = Room m"
    "ev_shutdown (out_ev m) = 0" "ev_connect (out_ev m) = 0"
    by (simp_all add: out_ev_def)
  have inv: "ends_in (uv__stream_io iovmax rcb len s (out_ev m)) uv_inv"
    by (rule uv__stream_io_ok [OF s assms(2) nc]) (use assms(6) in \<open>simp_all add: ev\<close>)
  have "ends_in (uv__stream_io iovmax rcb len s (out_ev m)) (drained_by s)"
    using write_phase_drains [OF s assms(2-5), of "ev_shutdown (out_ev m)"] assms(2,3) nc
    by (simp add: ev uv__stream_io_def split del: if_split)
  with inv show ?thesis unfolding uv_step.simps by (rule ends_in_conj)
qed

lemma uv_out_steps:
  "uv_inv s \<Longrightarrow> 0 \<le> us_fd s \<Longrightarrow> us_connect_req s = None \<Longrightarrow> 0 < m \<Longrightarrow> 0 < iovmax \<Longrightarrow> rcb_ok iovmax rcb \<Longrightarrow> uv_work s < n \<Longrightarrow>
    ends_in (uv_run iovmax rcb len s (replicate n (UvIo (out_ev m)))) (\<lambda>s1. uv_inv s1 \<and> us_queue s1 = [] \<and> us_completed s1 = [] \<and>
      us_shutdown_req s1 = None \<and> us_writes s1 = us_writes s \<and> us_sent s1 = us_sent s @ uv_pending s)"
proof (induction n arbitrary: s)
  case (Suc n)
  obtain s1 where s1: "uv_step iovmax rcb len s (UvIo (out_ev m)) = Inr s1" "uv_inv s1" "drained_by s s1"
    using uv_out_step [OF Suc.prems(1-6)] unfolding ends_in_iff by blast
  have f: "us_fd s1 = us_fd s" "us_connect_req s1 = None" "wrote s s1" "us_completed s1 = []"
    "us_queue s1 = [] \<longrightarrow> us_shutdown_req s1 = None" using s1(3) by (simp_all add: drained_by_def)
  have io: "us_writes s1 = us_writes s" "us_sent s1 @ uv_pending s1 = us_sent s @ uv_pending s" using f(3) by (simp_all add: wrote_def)
  have nil: "us_queue s = []" if "uv_work s = 0"
    using Suc.prems(1) that by (cases "us_queue s") (auto simp: uv_work_def req_work_def uv_inv_def uv_safe_def uv_acc_def)
  show ?case
  proof (cases "n = 0")
    case True
    then have "us_queue s1 = []" using nil f(3) Suc.prems(7) by (simp add: wrote_def)
    then show ?thesis using True s1(1,2) f(4,5) io by (simp add: uv_pending_def)
  next
    case False
    have "uv_work s1 < n" using f(3) False Suc.prems(7) by (auto simp: wrote_def uv_work_def split: if_splits)
    with Suc.IH [OF s1(2) _ f(2) Suc.prems(4-6)] f(1) Suc.prems(2) show ?thesis using s1(1) io by simp
  qed
qed simp

end
