(* ===== verification/UvStreamProps.thy ===== *)
theory UvStreamProps
  imports UvStreamDrain
begin

text \<open>What the streams of libuv guarantee to a program that uses them well, and two calls that do not.\<close>

section \<open>Reading the history\<close>

lemma served_facts:
  assumes "served ws sts ps"
  shows "length ps = length ws" "map fst ws = map fst sts"
    "\<forall>k<length ps. prefix (ps ! k) (snd (ws ! k)) \<and> (snd (sts ! k) = 0 \<longrightarrow> ps ! k = snd (ws ! k))"
proof -
  from assms have l: "length ws = length sts" "length sts = length ps"
    and all: "\<forall>k<length ws. case (ws ! k, zip sts ps ! k) of ((i, bs), ((j, st), p)) \<Rightarrow> i = j \<and> prefix p bs \<and> (st = 0 \<longrightarrow> p = bs)"
    by (auto simp: served_def list_all2_conv_all_nth)
  show "length ps = length ws" using l by simp
  have "fst (ws ! k) = fst (sts ! k) \<and> prefix (ps ! k) (snd (ws ! k)) \<and> (snd (sts ! k) = 0 \<longrightarrow> ps ! k = snd (ws ! k))"
    if "k < length ws" for k
    using all [rule_format, OF that] l that by (cases "ws ! k"; cases "sts ! k") auto
  then show "map fst ws = map fst sts"
    "\<forall>k<length ps. prefix (ps ! k) (snd (ws ! k)) \<and> (snd (sts ! k) = 0 \<longrightarrow> ps ! k = snd (ws ! k))"
    using l by (auto intro!: nth_equalityI)
qed

lemma waiting_facts:
  "map fst (waiting pre qs) = map rq_id qs"
  "\<exists>ps. length ps = length qs \<and> (qs = [] \<longrightarrow> pre = []) \<longrightarrow> concat ps = pre \<and>
    (\<forall>k<length ps. prefix (ps ! k) (snd (waiting pre qs ! k)))"
proof -
  show "map fst (waiting pre qs) = map rq_id qs" by (cases qs) (auto simp: o_def)
  show "\<exists>ps. length ps = length qs \<and> (qs = [] \<longrightarrow> pre = []) \<longrightarrow> concat ps = pre \<and>
    (\<forall>k<length ps. prefix (ps ! k) (snd (waiting pre qs ! k)))"
    by (rule exI [of _ "case qs of [] \<Rightarrow> [] | q # qs' \<Rightarrow> pre # map (\<lambda>_. []) qs'"])
      (auto simp: nth_Cons split: list.split nat.split)
qed

lemma hist_facts:
  assumes "uv_hist s"
  shows "map fst (us_writes s) = map fst (write_cbs s) @ map rq_id (us_completed s @ us_queue s)"
    "\<exists>ps. length ps = length (us_writes s) \<and> us_sent s = concat ps \<and> (\<forall>k<length ps. prefix (ps ! k) (snd (us_writes s ! k))) \<and>
      (\<forall>k<length (write_cbs s). snd (write_cbs s ! k) = 0 \<longrightarrow> ps ! k = snd (us_writes s ! k))"
proof -
  obtain ws ps pre where h: "us_writes s = ws @ waiting pre (us_queue s)" "us_queue s = [] \<longrightarrow> pre = []"
    "served ws (write_cbs s @ map (\<lambda>q. (rq_id q, rq_error q)) (us_completed s)) ps" "us_sent s = concat ps @ pre"
    using assms by (rule uv_histE)
  note f = served_facts [OF h(3)]
  show "map fst (us_writes s) = map fst (write_cbs s) @ map rq_id (us_completed s @ us_queue s)"
    using f(2) h(1) waiting_facts(1) by (simp add: o_def)
  define qs where "qs = (case us_queue s of [] \<Rightarrow> [] | q # qs' \<Rightarrow> pre # map (\<lambda>_. []) qs')"
  have qs: "concat qs = pre" "length qs = length (waiting pre (us_queue s))"
    "\<forall>k<length qs. prefix (qs ! k) (snd (waiting pre (us_queue s) ! k))"
    using h(2) by (auto simp: qs_def nth_Cons split: list.split nat.split)
  have w: "length (write_cbs s) \<le> length ws" using arg_cong [OF f(2), of length] by simp
  have "length (ps @ qs) = length (us_writes s)" "us_sent s = concat (ps @ qs)"
    using f(1) h(1,4) qs(1,2) by simp_all
  moreover have "\<forall>k<length (ps @ qs). prefix ((ps @ qs) ! k) (snd (us_writes s ! k))"
    using f(1,3) qs(2,3) unfolding h(1) by (auto simp: nth_append)
  moreover have "\<forall>k<length (write_cbs s). snd (write_cbs s ! k) = 0 \<longrightarrow> (ps @ qs) ! k = snd (us_writes s ! k)"
    using f(1,3) w unfolding h(1) by (auto simp: nth_append)
  ultimately show "\<exists>ps. length ps = length (us_writes s) \<and> us_sent s = concat ps \<and> (\<forall>k<length ps. prefix (ps ! k) (snd (us_writes s ! k))) \<and>
      (\<forall>k<length (write_cbs s). snd (write_cbs s ! k) = 0 \<longrightarrow> ps ! k = snd (us_writes s ! k))"
    by blast
qed

lemma uv_run_append:
  "uv_run iovmax rcb len s (es @ fs) = ebind (uv_run iovmax rcb len s es) (\<lambda>s1. uv_run iovmax rcb len s1 fs)"
  by (induction es arbitrary: s) (simp_all add: ebind_assoc)

text \<open>A run for the witnesses: an echoing callback, a write that the kernel takes in two parts, the end of file.\<close>

definition echo_back :: "int \<Rightarrow> u8 list \<Rightarrow> uv_stream \<Rightarrow> uv_api list" where
  "echo_back n bytes s =
     (if us_closing s then [] else if n < 0 then [ApiClose]
      else if bytes \<noteq> [] \<and> us_size s + uv__count_bufs [bytes] < 2 ^ 64 then [ApiWrite 7 [bytes] False (Room 2)] else [])"

lemma echo_back_ok: "rcb_ok iovmax echo_back"
  by (auto simp: rcb_ok_def echo_back_def split: sum.split)

definition io_in :: "u8 list \<Rightarrow> io_event" where
  "io_in bytes = (out_ev 100)\<lparr>ev_in := True, ev_reads := [Inr bytes]\<rparr>"

definition demo_events :: "uv_event list" where
  "demo_events = [UvApi (ApiOpen 5), UvApi ApiReadStart, UvApi (ApiWrite 1 [[1, 2, 3], [4]] False (Room 2)), UvIo (io_in [8, 9])]"

lemma demo_events_ok: "events_ok 3 echo_back 64 uv_stream_init (demo_events @ [UvPending (out_ev 1), UvIo (io_in []), UvFinish])"
  by code_simp

lemma demo_run:
  "uv_run 3 echo_back 64 uv_stream_init demo_events = Inr s \<Longrightarrow>
    us_sent s = [1, 2, 3, 4] \<and> us_writes s = [(1, [1, 2, 3, 4]), (7, [8, 9])] \<and> write_cbs s = [(1, 0)] \<and> us_fd s = 5 \<and>
    us_connect_req s = None \<and> uv_work s = 3"
proof -
  have "map_sum id (\<lambda>s. (us_sent s, us_writes s, write_cbs s, us_fd s, us_connect_req s, uv_work s))
      (uv_run 3 echo_back 64 uv_stream_init demo_events) =
    Inr ([1, 2, 3, 4], [(1, [1, 2, 3, 4]), (7, [8, 9])], [(1, 0)], 5, None, 3)"
    by code_simp
  moreover assume "uv_run 3 echo_back 64 uv_stream_init demo_events = Inr s"
  ultimately show ?thesis by simp
qed

lemma events_ok_append: "events_ok iovmax rcb len s (es @ fs) \<Longrightarrow> events_ok iovmax rcb len s es"
  by (induction es arbitrary: s) (auto split: sum.splits)

section \<open>Properties\<close>

text \<open>
  C16: a stream that is opened, connected, written to, read from, shut down and closed as the manual
  asks for, in any order, against any kernel and with any read callback that does the same, never
  fails an assertion and never leaves an array: the counters of bytes and requests count what is
  queued, the flags fit together and whoever waits is watched for.
\<close>

theorem uv_run_safe:
  assumes "rcb_ok iovmax rcb" "events_ok iovmax rcb len uv_stream_init es"
  shows "\<exists>s. uv_run iovmax rcb len uv_stream_init es = Inr s \<and> uv_inv s"
  using uv_run_ok [OF assms(1) uv_init_inv assms(2)] by (simp add: ends_in_iff)

theorem uv_run_safe_witness: "\<exists>s. uv_run 3 echo_back 64 uv_stream_init (demo_events @ [UvPending (out_ev 1), UvIo (io_in []), UvFinish]) = Inr s \<and> uv_inv s"
  by (rule uv_run_safe [OF echo_back_ok demo_events_ok])

text \<open>
  C14: the write queue is a queue: the callbacks made, the requests that are done and the ones that
  wait are, in this order, exactly the writes that were accepted, so none is lost, doubled or
  overtaken; and what the kernel got is, write by write, a prefix of the bytes of the write, all of
  them where the callback said 0.
\<close>

theorem uv_write_history:
  assumes "rcb_ok iovmax rcb" "events_ok iovmax rcb len uv_stream_init es" "uv_run iovmax rcb len uv_stream_init es = Inr s"
  shows "map fst (us_writes s) = map fst (write_cbs s) @ map rq_id (us_completed s @ us_queue s) \<and>
    (\<exists>ps. length ps = length (us_writes s) \<and> us_sent s = concat ps \<and> (\<forall>k<length ps. prefix (ps ! k) (snd (us_writes s ! k))) \<and>
      (\<forall>k<length (write_cbs s). snd (write_cbs s ! k) = 0 \<longrightarrow> ps ! k = snd (us_writes s ! k)))"
proof -
  have "uv_hist s" using uv_run_ok [OF assms(1) uv_init_inv assms(2)] assms(3) by (simp add: uv_inv_def uv_safe_def)
  from hist_facts [OF this] show ?thesis by blast
qed

theorem uv_write_history_witness:
  "\<exists>s. uv_run 3 echo_back 64 uv_stream_init demo_events = Inr s \<and> map rq_id (us_completed s @ us_queue s) = [7]"
proof -
  note ok = events_ok_append [OF demo_events_ok]
  obtain s where s: "uv_run 3 echo_back 64 uv_stream_init demo_events = Inr s"
    using uv_run_ok [OF echo_back_ok uv_init_inv ok] by (auto simp: ends_in_iff)
  from uv_write_history [OF echo_back_ok ok s] demo_run [OF s] s show ?thesis by simp
qed

text \<open>
  C15: no write and no connection is forgotten: while a stream is open, a write that is queued or whose
  callback is due and a connection that is being made have the socket watched for writability or
  the stream queued for the next turn of the loop; and when closing has ended, every accepted write,
  the connection and the shutdown had their callbacks and no byte is counted as queued. Nothing is
  said of a shutdown that waits on an open stream: one that was asked for while the stream was
  connecting and has nothing to write waits for ever (\<open>uv_shutdown_while_connecting_stalls\<close>).
\<close>

theorem uv_nothing_forgotten:
  assumes "rcb_ok iovmax rcb" "events_ok iovmax rcb len uv_stream_init es" "uv_run iovmax rcb len uv_stream_init es = Inr s"
  shows "(\<not> us_closing s \<and> (us_queue s \<noteq> [] \<or> us_completed s \<noteq> [] \<or> us_connect_req s \<noteq> None) \<longrightarrow> us_pollout s \<or> us_fed s) \<and>
    (us_closed s \<longrightarrow> map fst (us_writes s) = map fst (write_cbs s) \<and> us_connect_req s = None \<and> us_shutdown_req s = None \<and> us_size s = 0)"
proof -
  have i: "uv_flags s" "uv_acc s" "uv_hist s" "uv_live s"
    using uv_run_ok [OF assms(1) uv_init_inv assms(2)] assms(3) by (simp_all add: uv_inv_def uv_safe_def)
  have "map fst (us_writes s) = map fst (write_cbs s) \<and> us_connect_req s = None \<and> us_shutdown_req s = None \<and> us_size s = 0" if "us_closed s"
  proof -
    have c: "us_queue s = []" "us_completed s = []" "us_connect_req s = None" "us_shutdown_req s = None"
      using i(1) that by (simp_all add: uv_flags_def)
    moreover have "us_size s = 0" using i(2) c(1,2) by (simp add: uv_acc_def)
    ultimately show ?thesis using hist_facts(1) [OF i(3)] by simp
  qed
  moreover have "us_pollout s \<or> us_fed s" if "\<not> us_closing s" "us_queue s \<noteq> [] \<or> us_completed s \<noteq> [] \<or> us_connect_req s \<noteq> None"
  proof -
    have "us_connect_req s \<noteq> None \<longrightarrow> us_pollout s" using i(1) that(1) by (simp add: uv_flags_def)
    then show ?thesis using i(4) that unfolding uv_live_def by blast
  qed
  ultimately show ?thesis by blast
qed

theorem uv_nothing_forgotten_witness:
  "\<exists>s. uv_run 3 echo_back 64 uv_stream_init (demo_events @ [UvPending (out_ev 1), UvIo (io_in []), UvFinish]) = Inr s \<and> map fst (write_cbs s) = [1, 7]"
proof -
  obtain s where s: "uv_run 3 echo_back 64 uv_stream_init (demo_events @ [UvPending (out_ev 1), UvIo (io_in []), UvFinish]) = Inr s"
    using uv_run_ok [OF echo_back_ok uv_init_inv demo_events_ok] by (auto simp: ends_in_iff)
  have "map_sum id (\<lambda>s. (us_closed s, map fst (us_writes s))) (uv_run 3 echo_back 64 uv_stream_init (demo_events @ [UvPending (out_ev 1), UvIo (io_in []), UvFinish])) =
    Inr (True, [1, 7])" by code_simp
  then have "us_closed s" "map fst (us_writes s) = [1, 7]" using s by simp_all
  then show ?thesis using uv_nothing_forgotten [OF echo_back_ok demo_events_ok s] s by simp
qed

text \<open>
  C17: writing ends: from every state of an open, connected stream, however full its queue, more reports
  of writability than \<open>uv_work\<close> with room for at least a byte each empty the queue: every byte that
  waited is sent, in order, every write has had its callback and a shutdown that waited is done.
\<close>

theorem uv_writes_end:
  assumes "rcb_ok iovmax rcb" "events_ok iovmax rcb len uv_stream_init es" "uv_run iovmax rcb len uv_stream_init es = Inr s"
    and "0 \<le> us_fd s" "us_connect_req s = None" "0 < m" "0 < iovmax" "uv_work s < n"
  shows "\<exists>s1. uv_run iovmax rcb len uv_stream_init (es @ replicate n (UvIo (out_ev m))) = Inr s1 \<and> us_queue s1 = [] \<and>
    us_sent s1 = us_sent s @ uv_pending s \<and> map fst (write_cbs s1) = map fst (us_writes s) \<and> us_shutdown_req s1 = None"
proof -
  have "uv_inv s" using uv_run_ok [OF assms(1) uv_init_inv assms(2)] assms(3) by simp
  from uv_out_steps [OF this assms(4-7,1,8), of len] obtain s1 where
    s1: "uv_run iovmax rcb len s (replicate n (UvIo (out_ev m))) = Inr s1" "uv_inv s1" "us_queue s1 = []" "us_completed s1 = []"
      "us_shutdown_req s1 = None" "us_writes s1 = us_writes s" "us_sent s1 = us_sent s @ uv_pending s"
    unfolding ends_in_iff by blast
  have "map fst (us_writes s1) = map fst (write_cbs s1)"
    using hist_facts(1) [of s1] s1(2-4) by (simp add: uv_inv_def uv_safe_def)
  then show ?thesis using s1 assms(3) by (simp add: uv_run_append)
qed

theorem uv_writes_end_witness:
  "\<exists>s1. uv_run 3 echo_back 64 uv_stream_init (demo_events @ replicate 4 (UvIo (out_ev 1))) = Inr s1 \<and> map fst (write_cbs s1) = [1, 7]"
proof -
  note ok = events_ok_append [OF demo_events_ok]
  obtain s where s: "uv_run 3 echo_back 64 uv_stream_init demo_events = Inr s"
    using uv_run_ok [OF echo_back_ok uv_init_inv ok] by (auto simp: ends_in_iff)
  from uv_writes_end [OF echo_back_ok ok s, of 1 4] demo_run [OF s] show ?thesis by auto
qed

text \<open>
  A shutdown that is asked for while the stream still connects stalls: when the connection is made
  and no write waits, \<open>uv__stream_connect\<close> stops watching for writability although the shutdown is
  pending, so the socket is not shut down and its callback is not made.
\<close>

theorem uv_shutdown_while_connecting_stalls:
  assumes "us_connect_req s = Some c" "us_queue s = []" "us_delayed_error s = 0" "0 \<le> us_fd s"
    and "uv_shutdown s q = Inr (0, s1)" "ev_connect ev = 0"
  shows "\<exists>s2. uv_step iovmax rcb len s1 (UvIo ev) = Inr s2 \<and> us_shutdown_req s2 = Some q \<and> us_shutting s2 \<and> \<not> us_shut s2 \<and>
    \<not> us_pollout s2 \<and> us_fed s2 = us_fed s \<and> us_calls s2 = us_calls s @ [ConnectCb c 0]"
proof -
  have s1: "s1 = s\<lparr>us_reqs := Suc (us_reqs s), us_shutdown_req := Some q, us_shutting := True, us_pollout := True\<rparr>" "\<not> us_shut s" "\<not> us_closing s"
    using assms(4,5) by (auto simp: uv_shutdown_def io_defs uv_assert_def UV_ENOTCONN_def split: if_splits)
  show ?thesis using assms(1-4,6) s1(2,3) unfolding s1(1)
    by (simp add: uv__stream_io_def uv__stream_connect_def io_defs uv_assert_def Let_def EINPROGRESS_def)
qed

theorem uv_shutdown_while_connecting_stalls_witness:
  "\<exists>s s1 s2. uv_run 3 echo_back 64 uv_stream_init [UvApi (ApiConnect 1 5 EINPROGRESS)] = Inr s \<and> uv_shutdown s 2 = Inr (0, s1) \<and>
    uv_step 3 echo_back 64 s1 (UvIo (out_ev 100)) = Inr s2 \<and> us_calls s2 = [ConnectCb 1 0] \<and> us_shutdown_req s2 = Some 2"
proof -
  let ?es = "[UvApi (ApiConnect 1 5 EINPROGRESS)]"
  obtain s where s: "uv_run 3 echo_back 64 uv_stream_init ?es = Inr s"
    by (simp add: uv__tcp_connect_def uv__stream_open_def uv_stream_init_def io_defs uv_assert_def Let_def EINPROGRESS_def ECONNREFUSED_def)
  have eq: "s = uv_stream_init\<lparr>us_writable := True, us_fd := 5, us_delayed_error := 0, us_reqs := 1, us_connect_req := Some 1, us_pollout := True\<rparr>"
    using s by (simp add: uv__tcp_connect_def uv__stream_open_def uv_stream_init_def io_defs uv_assert_def Let_def EINPROGRESS_def ECONNREFUSED_def)
  then obtain s1 where s1: "uv_shutdown s 2 = Inr (0, s1)"
    by (simp add: uv_shutdown_def io_defs uv_assert_def uv_stream_init_def)
  have "us_connect_req s = Some 1" "us_queue s = []" "us_delayed_error s = 0" "0 \<le> us_fd s" "us_calls s = []" "ev_connect (out_ev 100) = 0"
    by (simp_all add: eq uv_stream_init_def out_ev_def)
  with uv_shutdown_while_connecting_stalls [OF _ _ _ _ s1, of 1 "out_ev 100" 3 echo_back 64] s s1 show ?thesis by auto
qed

text \<open>
  \<open>uv_try_write\<close> hides errors: on an idle stream whose \<open>write\<close> fails, whatever the error, it returns
  \<open>UV_EAGAIN\<close>, which the manual reserves for a socket that cannot take data right now.
\<close>

theorem uv_try_write_hides_errors:
  assumes "us_connect_req s = None" "us_queue s = []" "us_completed s = []" "us_size s = 0" "0 \<le> us_fd s"
    and "bufs \<noteq> []" "uv__count_bufs bufs < 2 ^ 64" "0 < e"
  shows "\<exists>s1. uv_try_write iovmax s rid bufs False (Errno e) = Inr (- EAGAIN, s1) \<and> us_queue s1 = [] \<and> us_completed s1 = [] \<and>
    us_size s1 = 0 \<and> us_sent s1 = us_sent s \<and> us_calls s1 = us_calls s"
proof -
  have c: "0 \<le> uv__count_bufs bufs" by (simp add: uv__count_bufs_def)
  have sz: "to_size_t (uv__count_bufs bufs) = uv__count_bufs bufs" using c assms(7) by simp
  show ?thesis using assms(1-6,8) c sz
    by (simp add: uv_try_write_def uv_write2_def uv__write_def Let_def io_defs uv_assert_def uv__write_req_finish_def
      uv__write_req_size_def EAGAIN_def)
qed

theorem uv_try_write_hides_errors_witness:
  "\<exists>s1. uv_try_write 3 (uv_stream_init\<lparr>us_fd := 5, us_writable := True\<rparr>) 1 [[1, 2]] False (Errno 32) = Inr (- 11, s1)"
  using uv_try_write_hides_errors [of "uv_stream_init\<lparr>us_fd := 5, us_writable := True\<rparr>" "[[1, 2]]" 32 3 1]
  by (auto simp: uv_stream_init_def uv__count_bufs_def EAGAIN_def)

end
