(* ===== verification/UvHeap.thy ===== *)
theory UvHeap
  imports Prelude
begin

text \<open>
  The binary heap of libuv, \<open>third/libuv/src/heap-inl.h\<close>: nodes in memory that point to their children
  and to their parent, with the shape of a complete tree. A node is named by its address; the
  comparison is given by \<open>lt\<close>. The loops that follow pointers may run forever on a structure that is
  not a tree: not returning is \<open>None\<close>.
\<close>

section \<open>Nodes\<close>

record heap_node =
  hn_left :: "nat option"
  hn_right :: "nat option"
  hn_parent :: "nat option"

record uv_heap =
  uh_min :: "nat option"
  uh_nelts :: u32
  uh_node :: "nat \<Rightarrow> heap_node"

definition heap_init :: "uv_heap \<Rightarrow> uv_heap" where
  "heap_init h = h\<lparr>uh_min := None, uh_nelts := 0\<rparr>"

definition heap_min :: "uv_heap \<Rightarrow> nat option" where
  "heap_min h = uh_min h"

definition upd_node :: "uv_heap \<Rightarrow> nat \<Rightarrow> (heap_node \<Rightarrow> heap_node) \<Rightarrow> uv_heap" where
  "upd_node h x f = h\<lparr>uh_node := (uh_node h)(x := f (uh_node h x))\<rparr>"

text \<open>An assignment through a pointer that may be NULL, guarded as in the code.\<close>

definition set_parent :: "uv_heap \<Rightarrow> nat option \<Rightarrow> nat \<Rightarrow> uv_heap" where
  "set_parent h y x = (case y of None \<Rightarrow> h | Some a \<Rightarrow> upd_node h a (\<lambda>n. n\<lparr>hn_parent := Some x\<rparr>))"

text \<open>The pointer to \<open>x\<close> in its parent, or \<open>min\<close>, is set to \<open>y\<close>: the end of the swap and of the removal.\<close>

definition relink :: "uv_heap \<Rightarrow> nat option \<Rightarrow> nat \<Rightarrow> nat \<Rightarrow> uv_heap" where
  "relink h g x y =
     (case g of
        None \<Rightarrow> h\<lparr>uh_min := Some y\<rparr>
      | Some p \<Rightarrow>
          if hn_left (uh_node h p) = Some x then upd_node h p (\<lambda>n. n\<lparr>hn_left := Some y\<rparr>)
          else upd_node h p (\<lambda>n. n\<lparr>hn_right := Some y\<rparr>))"

definition heap_node_swap :: "uv_heap \<Rightarrow> nat \<Rightarrow> nat \<Rightarrow> uv_heap" where
  "heap_node_swap h parent child =
     (let t = uh_node h parent;
          h1 = upd_node h parent (\<lambda>_. uh_node h child);
          h2 = upd_node h1 child (\<lambda>_. t);
          h3 = upd_node h2 parent (\<lambda>n. n\<lparr>hn_parent := Some child\<rparr>);
          (h4, sibling) =
            (if hn_left (uh_node h3 child) = Some child
             then (upd_node h3 child (\<lambda>n. n\<lparr>hn_left := Some parent\<rparr>), hn_right (uh_node h3 child))
             else (upd_node h3 child (\<lambda>n. n\<lparr>hn_right := Some parent\<rparr>), hn_left (uh_node h3 child)));
          h5 = set_parent h4 sibling child;
          h6 = set_parent h5 (hn_left (uh_node h5 parent)) parent;
          h7 = set_parent h6 (hn_right (uh_node h6 parent)) parent
      in relink h7 (hn_parent (uh_node h7 child)) parent child)"

section \<open>The path to a position\<close>

text \<open>
  The bits of the position, read from the root: \<open>path\<close> collects them with the first step in the lowest
  bit and \<open>k\<close> counts them.
\<close>

function path_loop :: "u32 \<Rightarrow> nat \<Rightarrow> u32 \<Rightarrow> u32 \<times> nat" where
  "path_loop path k n =
     (if 2 \<le> n then path_loop (push_bit 1 path OR (n AND 1)) (Suc k) (n div 2) else (path, k))"
  by auto
termination
proof (relation "measure (\<lambda>(_, _, n). unat n)")
  fix n :: u32 and path :: u32 and k :: nat
  assume "2 \<le> n"
  then have "2 \<le> unat n" by (simp add: word_le_nat_alt)
  then show "((push_bit 1 path OR n AND 1, Suc k, n div 2), path, k, n) \<in> measure (\<lambda>(_, _, n). unat n)"
    by (simp add: unat_div)
qed simp

declare path_loop.simps [simp del]

text \<open>A pointer to a pointer of the structure.\<close>

datatype slot = MinSlot | LeftSlot nat | RightSlot nat

fun get_slot :: "uv_heap \<Rightarrow> slot \<Rightarrow> nat option" where
  "get_slot h MinSlot = uh_min h"
| "get_slot h (LeftSlot x) = hn_left (uh_node h x)"
| "get_slot h (RightSlot x) = hn_right (uh_node h x)"

fun put_slot :: "uv_heap \<Rightarrow> slot \<Rightarrow> nat option \<Rightarrow> uv_heap" where
  "put_slot h MinSlot y = h\<lparr>uh_min := y\<rparr>"
| "put_slot h (LeftSlot x) y = upd_node h x (\<lambda>n. n\<lparr>hn_left := y\<rparr>)"
| "put_slot h (RightSlot x) y = upd_node h x (\<lambda>n. n\<lparr>hn_right := y\<rparr>)"

text \<open>The traversal; the result is the last two slots, \<open>parent\<close> and \<open>child\<close>.\<close>

fun descend :: "uv_heap \<Rightarrow> u32 \<Rightarrow> nat \<Rightarrow> slot \<Rightarrow> slot \<Rightarrow> (slot \<times> slot) exec" where
  "descend h path 0 parent child = Inr (parent, child)"
| "descend h path (Suc k) parent child =
     ebind (deref (get_slot h child)) (\<lambda>x.
     descend h (drop_bit 1 path) k child (if path AND 1 \<noteq> 0 then RightSlot x else LeftSlot x))"

section \<open>Walking up and down\<close>

partial_function (option) sift_up :: "(nat \<Rightarrow> nat \<Rightarrow> bool) \<Rightarrow> uv_heap \<Rightarrow> nat \<Rightarrow> uv_heap option" where
  [code]: "sift_up lt h x =
     (case hn_parent (uh_node h x) of
        None \<Rightarrow> Some h
      | Some p \<Rightarrow> if lt x p then sift_up lt (heap_node_swap h p x) x else Some h)"

definition smallest :: "(nat \<Rightarrow> nat \<Rightarrow> bool) \<Rightarrow> uv_heap \<Rightarrow> nat \<Rightarrow> nat" where
  "smallest lt h child =
     (let s0 = child;
          s1 = (case hn_left (uh_node h child) of Some l \<Rightarrow> if lt l s0 then l else s0 | None \<Rightarrow> s0)
      in case hn_right (uh_node h child) of Some r \<Rightarrow> if lt r s1 then r else s1 | None \<Rightarrow> s1)"

partial_function (option) sift_down :: "(nat \<Rightarrow> nat \<Rightarrow> bool) \<Rightarrow> uv_heap \<Rightarrow> nat \<Rightarrow> uv_heap option" where
  [code]: "sift_down lt h child =
     (let s = smallest lt h child in
      if s = child then Some h else sift_down lt (heap_node_swap h child s) child)"

section \<open>Inserting and removing\<close>

definition heap_insert :: "(nat \<Rightarrow> nat \<Rightarrow> bool) \<Rightarrow> uv_heap \<Rightarrow> nat \<Rightarrow> uv_heap exec option" where
  "heap_insert lt h newnode =
     (let h1 = upd_node h newnode (\<lambda>_. \<lparr>hn_left = None, hn_right = None, hn_parent = None\<rparr>);
          (path, k) = path_loop 0 0 (1 + uh_nelts h1)
      in case descend h1 path k MinSlot MinSlot of
           Inl e \<Rightarrow> Some (Inl e)
         | Inr (parent, child) \<Rightarrow>
             (let h2 = upd_node h1 newnode (\<lambda>n. n\<lparr>hn_parent := get_slot h1 parent\<rparr>);
                  h3 = put_slot h2 child (Some newnode);
                  h4 = h3\<lparr>uh_nelts := uh_nelts h3 + 1\<rparr>
              in map_option Inr (sift_up lt h4 newnode)))"

text \<open>The last node takes the place of the node that leaves.\<close>

definition replace_node :: "uv_heap \<Rightarrow> nat \<Rightarrow> nat \<Rightarrow> uv_heap" where
  "replace_node h node child =
     (let h1 = upd_node h child (\<lambda>_. uh_node h node);
          h2 = set_parent h1 (hn_left (uh_node h1 child)) child;
          h3 = set_parent h2 (hn_right (uh_node h2 child)) child
      in relink h3 (hn_parent (uh_node h3 node)) node child)"

definition heap_remove :: "(nat \<Rightarrow> nat \<Rightarrow> bool) \<Rightarrow> uv_heap \<Rightarrow> nat \<Rightarrow> uv_heap exec option" where
  "heap_remove lt h node =
     (if uh_nelts h = 0 then Some (Inr h)
      else
        (let (path, k) = path_loop 0 0 (uh_nelts h)
         in case descend h path k MinSlot MinSlot of
              Inl e \<Rightarrow> Some (Inl e)
            | Inr (_, mx) \<Rightarrow>
                (let h1 = h\<lparr>uh_nelts := uh_nelts h - 1\<rparr>
                 in case get_slot h1 mx of
                      None \<Rightarrow> Some (Inl NullDeref)
                    | Some child \<Rightarrow>
                        (let h2 = put_slot h1 mx None
                         in if child = node then Some (Inr (if uh_min h2 = Some child then h2\<lparr>uh_min := None\<rparr> else h2))
                            else
                              (case sift_down lt (replace_node h2 node child) child of
                                 None \<Rightarrow> None
                               | Some h3 \<Rightarrow> map_option Inr (sift_up lt h3 child))))))"

text \<open>Dequeuing passes \<open>min\<close> as the node; with a NULL \<open>min\<close> the removal sees \<open>child == node == NULL\<close> at one element.\<close>

definition heap_dequeue :: "(nat \<Rightarrow> nat \<Rightarrow> bool) \<Rightarrow> uv_heap \<Rightarrow> uv_heap exec option" where
  "heap_dequeue lt h =
     (case uh_min h of
        None \<Rightarrow>
          Some (if uh_nelts h = 0 then Inr h else if uh_nelts h = 1 then Inr (h\<lparr>uh_nelts := 0\<rparr>) else Inl NullDeref)
      | Some x \<Rightarrow> heap_remove lt h x)"

end
