(* ===== verification/UvTimer.thy ===== *)
theory UvTimer
  imports UvHeap "HOL-Library.Product_Lexorder"
begin

text \<open>
  The timers of libuv on Unix, \<open>third/libuv/src/unix/timer.c\<close>, over the heap of \<open>UvHeap\<close>, with the part
  of \<open>core.c\<close> and \<open>uv-common.h\<close> that starts, stops and closes their handles. A timer is named by its
  address, which is also that of its heap node. \<open>UV__HANDLE_CLOSING\<close> is 0 on Unix, so the assertions on
  it always hold. A callback is a list of calls, chosen by the argument \<open>tcb\<close> from the callback's name, the
  timer and the state it is called in. A run that does not return is \<open>None\<close>.
\<close>

section \<open>State\<close>

text \<open>
  \<open>uv_timer_t\<close> with its handle flags, and the part of \<open>uv_loop_t\<close> that timers use. \<open>ul_fired\<close> is a history: the callbacks
  made, with their timers. \<open>ul_tick\<close> counts the readings of the clock.
\<close>

record uv_timer =
  ut_cb :: "nat option"
  ut_timeout :: u64
  ut_repeat :: u64
  ut_start_id :: u64
  ut_active :: bool
  ut_ref :: bool
  ut_closing :: bool
  ut_closed :: bool

record uv_loop =
  ul_time :: u64
  ul_counter :: u64
  ul_heap :: uv_heap
  ul_timer :: "nat \<Rightarrow> uv_timer"
  ul_active :: u32
  ul_closing :: "nat list"
  ul_stop :: bool
  ul_fired :: "(nat \<times> nat) list"
  ul_tick :: nat

definition upd_timer :: "uv_loop \<Rightarrow> nat \<Rightarrow> (uv_timer \<Rightarrow> uv_timer) \<Rightarrow> uv_loop" where
  "upd_timer l x f = l\<lparr>ul_timer := (ul_timer l)(x := f (ul_timer l x))\<rparr>"

definition timer_less_than :: "uv_loop \<Rightarrow> nat \<Rightarrow> nat \<Rightarrow> bool" where
  "timer_less_than l ha hb =
     (let a = ul_timer l ha; b = ul_timer l hb in
      if ut_timeout a < ut_timeout b then True
      else if ut_timeout b < ut_timeout a then False
      else if ut_start_id a < ut_start_id b then True
      else if ut_start_id b < ut_start_id a then False
      else False)"

definition timer_handle_init :: "uv_loop \<Rightarrow> nat \<Rightarrow> uv_loop" where
  "timer_handle_init l x =
     upd_timer l x (\<lambda>t. t\<lparr>ut_active := False, ut_ref := True, ut_closing := False, ut_closed := False\<rparr>)"

definition timer_handle_start :: "uv_loop \<Rightarrow> nat \<Rightarrow> uv_loop" where
  "timer_handle_start l x =
     (if ut_active (ul_timer l x) then l
      else
        (let l1 = upd_timer l x (\<lambda>t. t\<lparr>ut_active := True\<rparr>)
         in if ut_ref (ul_timer l1 x) then l1\<lparr>ul_active := ul_active l1 + 1\<rparr> else l1))"

definition timer_handle_stop :: "uv_loop \<Rightarrow> nat \<Rightarrow> uv_loop" where
  "timer_handle_stop l x =
     (if \<not> ut_active (ul_timer l x) then l
      else
        (let l1 = upd_timer l x (\<lambda>t. t\<lparr>ut_active := False\<rparr>)
         in if ut_ref (ul_timer l1 x) then l1\<lparr>ul_active := ul_active l1 - 1\<rparr> else l1))"

definition timer_ref :: "uv_loop \<Rightarrow> nat \<Rightarrow> uv_loop" where
  "timer_ref l x =
     (if ut_ref (ul_timer l x) then l
      else
        (let l1 = upd_timer l x (\<lambda>t. t\<lparr>ut_ref := True\<rparr>)
         in if ut_active (ul_timer l1 x) then l1\<lparr>ul_active := ul_active l1 + 1\<rparr> else l1))"

definition timer_unref :: "uv_loop \<Rightarrow> nat \<Rightarrow> uv_loop" where
  "timer_unref l x =
     (if \<not> ut_ref (ul_timer l x) then l
      else
        (let l1 = upd_timer l x (\<lambda>t. t\<lparr>ut_ref := False\<rparr>)
         in if ut_active (ul_timer l1 x) then l1\<lparr>ul_active := ul_active l1 - 1\<rparr> else l1))"

text \<open>The fields of a loop that \<open>uv_loop_init\<close> sets; the memory of the timers is arbitrary but not in use.\<close>

definition blank_timer :: uv_timer where
  "blank_timer = \<lparr>ut_cb = None, ut_timeout = 0, ut_repeat = 0, ut_start_id = 0, ut_active = False, ut_ref = False,
     ut_closing = False, ut_closed = False\<rparr>"

definition blank_heap :: uv_heap where
  "blank_heap = \<lparr>uh_min = None, uh_nelts = 0, uh_node = (\<lambda>_. \<lparr>hn_left = None, hn_right = None, hn_parent = None\<rparr>)\<rparr>"

definition timer_loop_init :: "u64 \<Rightarrow> uv_loop" where
  "timer_loop_init now = \<lparr>ul_time = now, ul_counter = 0, ul_heap = heap_init blank_heap, ul_timer = (\<lambda>_. blank_timer),
     ul_active = 0, ul_closing = [], ul_stop = False, ul_fired = [], ul_tick = 0\<rparr>"

section \<open>The calls\<close>

definition uv_timer_init :: "uv_loop \<Rightarrow> nat \<Rightarrow> int \<times> uv_loop" where
  "uv_timer_init l x = (0, upd_timer (timer_handle_init l x) x (\<lambda>t. t\<lparr>ut_cb := None, ut_repeat := 0\<rparr>))"

definition uv_timer_stop :: "uv_loop \<Rightarrow> nat \<Rightarrow> (int \<times> uv_loop) exec option" where
  "uv_timer_stop l x =
     (if \<not> ut_active (ul_timer l x) then xret (0, l)
      else
        xbind (heap_remove (timer_less_than l) (ul_heap l) x) (\<lambda>h.
        xret (0, timer_handle_stop (l\<lparr>ul_heap := h\<rparr>) x)))"

definition TIMER_EINVAL :: int where "TIMER_EINVAL = -22"

definition uv_timer_start :: "uv_loop \<Rightarrow> nat \<Rightarrow> nat option \<Rightarrow> u64 \<Rightarrow> u64 \<Rightarrow> (int \<times> uv_loop) exec option" where
  "uv_timer_start l x cb timeout repeat =
     (if cb = None then xret (TIMER_EINVAL, l)
      else
        xbind (if ut_active (ul_timer l x) then uv_timer_stop l x else xret (0, l)) (\<lambda>(_, l1).
        (let c = ul_time l1 + timeout;
             clamped_timeout = (if c < timeout then -1 else c);
             l2 = upd_timer l1 x (\<lambda>t. t\<lparr>ut_cb := cb, ut_timeout := clamped_timeout, ut_repeat := repeat, ut_start_id := ul_counter l1\<rparr>);
             l3 = l2\<lparr>ul_counter := ul_counter l2 + 1\<rparr>
         in xbind (heap_insert (timer_less_than l3) (ul_heap l3) x) (\<lambda>h.
            xret (0, timer_handle_start (l3\<lparr>ul_heap := h\<rparr>) x)))))"

definition uv_timer_again :: "uv_loop \<Rightarrow> nat \<Rightarrow> (int \<times> uv_loop) exec option" where
  "uv_timer_again l x =
     (if ut_cb (ul_timer l x) = None then xret (TIMER_EINVAL, l)
      else if ut_repeat (ul_timer l x) \<noteq> 0 then
        xbind (uv_timer_stop l x) (\<lambda>(_, l1).
        xbind (uv_timer_start l1 x (ut_cb (ul_timer l1 x)) (ut_repeat (ul_timer l1 x)) (ut_repeat (ul_timer l1 x))) (\<lambda>(_, l2).
        xret (0, l2)))
      else xret (0, l))"

definition uv_timer_set_repeat :: "uv_loop \<Rightarrow> nat \<Rightarrow> u64 \<Rightarrow> uv_loop" where
  "uv_timer_set_repeat l x r = upd_timer l x (\<lambda>t. t\<lparr>ut_repeat := r\<rparr>)"

definition uv_timer_get_repeat :: "uv_loop \<Rightarrow> nat \<Rightarrow> u64" where
  "uv_timer_get_repeat l x = ut_repeat (ul_timer l x)"

definition uv__timer_close :: "uv_loop \<Rightarrow> nat \<Rightarrow> uv_loop exec option" where
  "uv__timer_close l x = xbind (uv_timer_stop l x) (\<lambda>(_, l1). xret l1)"

text \<open>\<open>uv_close\<close> of a timer, with \<open>uv__make_close_pending\<close>.\<close>

definition make_close_pending :: "uv_loop \<Rightarrow> nat \<Rightarrow> uv_loop exec option" where
  "make_close_pending l x =
     (if ut_closing (ul_timer l x) \<and> \<not> ut_closed (ul_timer l x) then xret (l\<lparr>ul_closing := x # ul_closing l\<rparr>)
      else Some (Inl Abort))"

definition timer_close :: "uv_loop \<Rightarrow> nat \<Rightarrow> uv_loop exec option" where
  "timer_close l x =
     (if ut_closing (ul_timer l x) \<or> ut_closed (ul_timer l x) then Some (Inl Abort)
      else
        xbind (uv__timer_close (upd_timer l x (\<lambda>t. t\<lparr>ut_closing := True\<rparr>)) x) (\<lambda>l1. make_close_pending l1 x))"

section \<open>Callbacks\<close>

datatype timer_call =
    TimerInit nat
  | TimerStart nat "nat option" u64 u64
  | TimerStop nat
  | TimerAgain nat
  | TimerSetRepeat nat u64
  | TimerRef nat
  | TimerUnref nat
  | TimerClose nat
  | LoopStop

fun timer_step :: "uv_loop \<Rightarrow> timer_call \<Rightarrow> uv_loop exec option" where
  "timer_step l (TimerInit x) = xret (snd (uv_timer_init l x))"
| "timer_step l (TimerStart x cb t r) = xbind (uv_timer_start l x cb t r) (\<lambda>(_, l1). xret l1)"
| "timer_step l (TimerStop x) = xbind (uv_timer_stop l x) (\<lambda>(_, l1). xret l1)"
| "timer_step l (TimerAgain x) = xbind (uv_timer_again l x) (\<lambda>(_, l1). xret l1)"
| "timer_step l (TimerSetRepeat x r) = xret (uv_timer_set_repeat l x r)"
| "timer_step l (TimerRef x) = xret (timer_ref l x)"
| "timer_step l (TimerUnref x) = xret (timer_unref l x)"
| "timer_step l (TimerClose x) = timer_close l x"
| "timer_step l LoopStop = xret (l\<lparr>ul_stop := True\<rparr>)"

fun timer_steps :: "uv_loop \<Rightarrow> timer_call list \<Rightarrow> uv_loop exec option" where
  "timer_steps l [] = xret l"
| "timer_steps l (c # cs) = xbind (timer_step l c) (\<lambda>l1. timer_steps l1 cs)"

type_synonym timer_prog = "nat \<Rightarrow> nat \<Rightarrow> uv_loop \<Rightarrow> timer_call list"

definition timer_cb :: "timer_prog \<Rightarrow> uv_loop \<Rightarrow> nat \<Rightarrow> uv_loop exec option" where
  "timer_cb tcb l x =
     (case ut_cb (ul_timer l x) of
        None \<Rightarrow> Some (Inl NullDeref)
      | Some c \<Rightarrow> (let l1 = l\<lparr>ul_fired := ul_fired l @ [(c, x)]\<rparr> in timer_steps l1 (tcb c x l1)))"

section \<open>Running the timers\<close>

text \<open>\<open>uv__next_timeout\<close>; the returned \<open>int\<close> as an integer.\<close>

definition uv__next_timeout :: "uv_loop \<Rightarrow> int" where
  "uv__next_timeout l =
     (case heap_min (ul_heap l) of
        None \<Rightarrow> -1
      | Some x \<Rightarrow>
          if ut_timeout (ul_timer l x) \<le> ul_time l then 0
          else
            (let diff = ut_timeout (ul_timer l x) - ul_time l
             in uint (if diff > 2147483647 then 2147483647 else diff)))"

text \<open>One iteration of the loop of \<open>uv__run_timers\<close>, for the timer at the root.\<close>

definition fire_timer :: "timer_prog \<Rightarrow> uv_loop \<Rightarrow> nat \<Rightarrow> uv_loop exec option" where
  "fire_timer tcb l x =
     xbind (uv_timer_stop l x) (\<lambda>(_, l1). xbind (uv_timer_again l1 x) (\<lambda>(_, l2). timer_cb tcb l2 x))"

partial_function (option) uv__run_timers :: "timer_prog \<Rightarrow> uv_loop \<Rightarrow> uv_loop exec option" where
  [code]: "uv__run_timers tcb l =
     (case heap_min (ul_heap l) of
        None \<Rightarrow> xret l
      | Some x \<Rightarrow>
          if ut_timeout (ul_timer l x) > ul_time l then xret l
          else xbind (fire_timer tcb l x) (\<lambda>l1. uv__run_timers tcb l1))"

end
