(* ===== verification/UvLoop.thy ===== *)
theory UvLoop
  imports UvTimer
begin

text \<open>
  The event loop of libuv, \<open>uv_run\<close> of \<open>third/libuv/src/unix/core.c\<close> with \<open>uv__io_poll\<close> of \<open>linux-core.c\<close>, for a
  64-bit Linux with \<open>epoll_wait\<close>. Timers are modelled (\<open>UvTimer\<close>). The clock, the answers of the kernel and the
  other handles are the argument \<open>env\<close>: what their callbacks do to the timers is given as calls. A loop that
  does not return is \<open>None\<close>.
\<close>

section \<open>The surroundings of a loop\<close>

text \<open>
  An answer of \<open>epoll_wait\<close>: the time is up; a signal; an error; events only for descriptors that are not
  watched any more; events whose callbacks make the calls, with \<open>True\<close> if the array of 1024 events is full.
\<close>

datatype epoll_answer = EpTimeout | EpIntr | EpError | EpStale | EpEvents "timer_call list" bool

datatype uv_phase = Pending | Idle | Prepare | Check

datatype uv_busy = OtherActive | HasIdle | HasPending

text \<open>
  \<open>en_wait\<close> gives the answer and the reading of the clock after it. \<open>en_phase\<close> gives one list of calls for each callback of
  the other handles in a phase.
\<close>

record uv_env =
  en_clock :: "uv_loop \<Rightarrow> u64"
  en_wait :: "int \<Rightarrow> uv_loop \<Rightarrow> epoll_answer \<times> u64"
  en_phase :: "uv_phase \<Rightarrow> uv_loop \<Rightarrow> timer_call list list"
  en_busy :: "uv_busy \<Rightarrow> uv_loop \<Rightarrow> bool"
  en_close :: "nat \<Rightarrow> uv_loop \<Rightarrow> timer_call list"

definition uv__update_time :: "uv_env \<Rightarrow> uv_loop \<Rightarrow> uv_loop" where
  "uv__update_time env l = l\<lparr>ul_time := en_clock env l, ul_tick := Suc (ul_tick l)\<rparr>"

definition run_phase :: "uv_env \<Rightarrow> uv_phase \<Rightarrow> uv_loop \<Rightarrow> uv_loop exec option" where
  "run_phase env p l = timer_steps l (concat (en_phase env p l))"

section \<open>Being alive\<close>

definition uv__loop_alive :: "uv_env \<Rightarrow> uv_loop \<Rightarrow> bool" where
  "uv__loop_alive env l \<longleftrightarrow> ul_active l > 0 \<or> en_busy env OtherActive l \<or> ul_closing l \<noteq> []"

definition uv_backend_timeout :: "uv_env \<Rightarrow> uv_loop \<Rightarrow> int" where
  "uv_backend_timeout env l =
     (if ul_stop l then 0
      else if \<not> ul_active l > 0 \<and> \<not> en_busy env OtherActive l then 0
      else if en_busy env HasIdle l then 0
      else if en_busy env HasPending l then 0
      else if ul_closing l \<noteq> [] then 0
      else uv__next_timeout l)"

section \<open>Polling\<close>

text \<open>\<open>real_timeout -= (loop->time - base)\<close>: an \<open>int\<close> minus a \<open>uint64_t\<close>, stored in an \<open>int\<close>.\<close>

definition less_elapsed :: "int \<Rightarrow> u64 \<Rightarrow> u64 \<Rightarrow> int" where
  "less_elapsed real_timeout now base = to_int (real_timeout - uint (now - base))"

partial_function (option) poll_loop ::
    "uv_env \<Rightarrow> u64 \<Rightarrow> nat \<Rightarrow> int \<Rightarrow> int \<Rightarrow> uv_loop \<Rightarrow> uv_loop exec option" where
  [code]: "poll_loop env base count real_timeout timeout l =
     (let (a, now) = en_wait env timeout l;
          l1 = l\<lparr>ul_time := now, ul_tick := Suc (ul_tick l)\<rparr>;
          real1 = less_elapsed real_timeout now base
      in case a of
           EpTimeout \<Rightarrow>
             if timeout = -1 then Some (Inl Abort)
             else if real_timeout - timeout > 0 then poll_loop env base count real_timeout (real_timeout - timeout) l1
             else xret l1
         | EpError \<Rightarrow> Some (Inl Abort)
         | EpIntr \<Rightarrow>
             if timeout = -1 then poll_loop env base count real_timeout timeout l1
             else if timeout = 0 then xret l1
             else if \<not> timeout > 0 then Some (Inl Abort)
             else if real1 \<le> 0 then xret l1
             else poll_loop env base count real1 real1 l1
         | EpStale \<Rightarrow>
             if timeout = 0 then xret l1
             else if timeout = -1 then poll_loop env base count real_timeout timeout l1
             else if \<not> timeout > 0 then Some (Inl Abort)
             else if real1 \<le> 0 then xret l1
             else poll_loop env base count real1 real1 l1
         | EpEvents cs full \<Rightarrow>
             xbind (timer_steps l1 cs) (\<lambda>l2.
             if full \<and> count - 1 \<noteq> 0 then poll_loop env base (count - 1) real_timeout 0 l2 else xret l2))"

text \<open>The loop watches its own descriptors, so \<open>nfds\<close> is not 0.\<close>

definition uv__io_poll :: "uv_env \<Rightarrow> int \<Rightarrow> uv_loop \<Rightarrow> uv_loop exec option" where
  "uv__io_poll env timeout l =
     (if \<not> timeout \<ge> -1 then Some (Inl Abort) else poll_loop env (ul_time l) 48 timeout timeout l)"

section \<open>The end of closing\<close>

definition finish_close :: "uv_env \<Rightarrow> uv_loop \<Rightarrow> nat \<Rightarrow> uv_loop exec option" where
  "finish_close env l x =
     (if \<not> ut_closing (ul_timer l x) \<or> ut_closed (ul_timer l x) then Some (Inl Abort)
      else
        (let l1 = timer_unref (upd_timer l x (\<lambda>t. t\<lparr>ut_closed := True\<rparr>)) x
         in timer_steps l1 (en_close env x l1)))"

fun closing_loop :: "uv_env \<Rightarrow> uv_loop \<Rightarrow> nat list \<Rightarrow> uv_loop exec option" where
  "closing_loop env l [] = xret l"
| "closing_loop env l (p # ps) = xbind (finish_close env l p) (\<lambda>l1. closing_loop env l1 ps)"

definition uv__run_closing_handles :: "uv_env \<Rightarrow> uv_loop \<Rightarrow> uv_loop exec option" where
  "uv__run_closing_handles env l = closing_loop env (l\<lparr>ul_closing := []\<rparr>) (ul_closing l)"

section \<open>Running\<close>

datatype uv_run_mode = RunDefault | RunOnce | RunNowait

definition run_iteration :: "uv_env \<Rightarrow> timer_prog \<Rightarrow> uv_run_mode \<Rightarrow> uv_loop \<Rightarrow> uv_loop exec option" where
  "run_iteration env tcb mode l =
     xbind (uv__run_timers tcb (uv__update_time env l)) (\<lambda>l2.
     let ran_pending = en_phase env Pending l2 \<noteq> [] in
     xbind (run_phase env Pending l2) (\<lambda>l3.
     xbind (run_phase env Idle l3) (\<lambda>l4.
     xbind (run_phase env Prepare l4) (\<lambda>l5.
     let timeout = (if (mode = RunOnce \<and> \<not> ran_pending) \<or> mode = RunDefault then uv_backend_timeout env l5 else 0) in
     xbind (uv__io_poll env timeout l5) (\<lambda>l6.
     xbind (run_phase env Check l6) (\<lambda>l7.
     xbind (uv__run_closing_handles env l7) (\<lambda>l8.
     if mode = RunOnce then uv__run_timers tcb (uv__update_time env l8) else xret l8)))))))"

partial_function (option) run_loop ::
    "uv_env \<Rightarrow> timer_prog \<Rightarrow> uv_run_mode \<Rightarrow> bool \<Rightarrow> uv_loop \<Rightarrow> (bool \<times> uv_loop) exec option" where
  [code]: "run_loop env tcb mode r l =
     (if r \<and> \<not> ul_stop l then
        xbind (run_iteration env tcb mode l) (\<lambda>l1.
        if mode = RunOnce \<or> mode = RunNowait then xret (uv__loop_alive env l1, l1)
        else run_loop env tcb mode (uv__loop_alive env l1) l1)
      else xret (r, l))"

definition uv_run_core :: "uv_env \<Rightarrow> timer_prog \<Rightarrow> uv_run_mode \<Rightarrow> uv_loop \<Rightarrow> (int \<times> uv_loop) exec option" where
  "uv_run_core env tcb mode l =
     (let r = uv__loop_alive env l
      in xbind (run_loop env tcb mode r (if r then l else uv__update_time env l)) (\<lambda>(r1, l1).
         xret (if r1 then 1 else 0, l1\<lparr>ul_stop := False\<rparr>)))"

end
