(* ===== verification/UvHeapRep.thy ===== *)
theory UvHeapRep
  imports UvHeap "HOL-Library.Multiset"
begin

text \<open>
  The pointer structure of the heap stands for a list of nodes: the children of position \<open>i\<close> are at
  \<open>2 i + 1\<close> and \<open>2 i + 2\<close>. Swapping a node with its parent, adding the last node and taking it away are
  operations on this list.
\<close>

section \<open>Representation\<close>

definition at :: "nat list \<Rightarrow> nat \<Rightarrow> nat option" where
  "at xs j = (if j < length xs then Some (xs ! j) else None)"

definition up :: "nat \<Rightarrow> nat" where
  "up i = (i - 1) div 2"

definition node_at :: "nat list \<Rightarrow> nat \<Rightarrow> heap_node" where
  "node_at xs i = \<lparr>hn_left = at xs (2 * i + 1), hn_right = at xs (2 * i + 2), hn_parent = (if i = 0 then None else at xs (up i))\<rparr>"

definition heap_rep :: "uv_heap \<Rightarrow> nat list \<Rightarrow> bool" where
  "heap_rep h xs \<longleftrightarrow> distinct xs \<and> length xs < 2 ^ 32 \<and> uh_nelts h = of_nat (length xs) \<and> uh_min h = at xs 0 \<and>
     (\<forall>i<length xs. uh_node h (xs ! i) = node_at xs i)"

definition swap_at :: "nat list \<Rightarrow> nat \<Rightarrow> nat \<Rightarrow> nat list" where
  "swap_at xs p i = xs[p := xs ! i, i := xs ! p]"

lemma up_less: "0 < i \<Longrightarrow> up i < i"
  by (auto simp: up_def)

lemma up_eq: "0 < j \<Longrightarrow> up j = i \<longleftrightarrow> j = 2 * i + 1 \<or> j = 2 * i + 2"
  by (auto simp: up_def)

lemma length_swap_at [simp]: "length (swap_at xs p i) = length xs"
  by (simp add: swap_at_def)

lemma nth_swap_at: "p < length xs \<Longrightarrow> i < length xs \<Longrightarrow> j < length xs \<Longrightarrow>
    swap_at xs p i ! j = (if j = i then xs ! p else if j = p then xs ! i else xs ! j)"
  by (simp add: swap_at_def nth_list_update)

lemma distinct_swap_at: "p < length xs \<Longrightarrow> i < length xs \<Longrightarrow> distinct (swap_at xs p i) = distinct xs"
  by (simp add: swap_at_def)

lemma mset_swap_at: "p < length xs \<Longrightarrow> i < length xs \<Longrightarrow> mset (swap_at xs p i) = mset xs"
  unfolding swap_at_def by (rule mset_swap)

lemma set_swap_at: "p < length xs \<Longrightarrow> i < length xs \<Longrightarrow> set (swap_at xs p i) = set xs"
  using mset_swap_at [of p xs i] by (metis set_mset_mset)

section \<open>Swapping\<close>

lemma set_parent_fields [simp]:
  "hn_left (uh_node (set_parent h s x) y) = hn_left (uh_node h y)"
  "hn_right (uh_node (set_parent h s x) y) = hn_right (uh_node h y)"
  "hn_parent (uh_node (set_parent h s x) y) = (if s = Some y then Some x else hn_parent (uh_node h y))"
  "uh_min (set_parent h s x) = uh_min h" "uh_nelts (set_parent h s x) = uh_nelts h"
  by (auto simp: set_parent_def upd_node_def split: option.split)

lemma upd_node_fields [simp]:
  "uh_node (upd_node h x f) y = (if y = x then f (uh_node h x) else uh_node h y)"
  "uh_min (upd_node h x f) = uh_min h" "uh_nelts (upd_node h x f) = uh_nelts h"
  by (auto simp: upd_node_def)

lemma relink_fields [simp]:
  "hn_left (uh_node (relink h g x y) z) =
     (if g = Some z \<and> hn_left (uh_node h z) = Some x then Some y else hn_left (uh_node h z))"
  "hn_right (uh_node (relink h g x y) z) =
     (if g = Some z \<and> hn_left (uh_node h z) \<noteq> Some x then Some y else hn_right (uh_node h z))"
  "hn_parent (uh_node (relink h g x y) z) = hn_parent (uh_node h z)"
  "uh_min (relink h g x y) = (if g = None then Some y else uh_min h)" "uh_nelts (relink h g x y) = uh_nelts h"
  by (auto simp: relink_def split: option.split)

text \<open>What \<open>heap_node_swap\<close> does to every field.\<close>

definition exchanged :: "uv_heap \<Rightarrow> nat \<Rightarrow> nat \<Rightarrow> uv_heap" where
  "exchanged h a c = upd_node (upd_node (upd_node h a (\<lambda>_. uh_node h c)) c (\<lambda>_. uh_node h a)) a (\<lambda>n. n\<lparr>hn_parent := Some c\<rparr>)"

lemma swap_fields:
  assumes "a \<noteq> c" "uh_node h a = \<lparr>hn_left = la, hn_right = ra, hn_parent = gp\<rparr>"
    and "uh_node h c = \<lparr>hn_left = l, hn_right = r, hn_parent = Some a\<rparr>"
    and "la = Some c \<and> sib = ra \<or> la \<noteq> Some c \<and> ra = Some c \<and> sib = la"
    and "l \<noteq> Some a" "r \<noteq> Some a" "sib \<noteq> Some a" "gp \<noteq> Some a" "l \<noteq> Some c" "r \<noteq> Some c" "sib \<noteq> Some c" "gp \<noteq> Some c"
  shows "hn_left (uh_node (heap_node_swap h a c) y) =
      (if y = a then l else if y = c then (if la = Some c then Some a else la)
       else if gp = Some y \<and> hn_left (uh_node h y) = Some a then Some c else hn_left (uh_node h y))"
    and "hn_right (uh_node (heap_node_swap h a c) y) =
      (if y = a then r else if y = c then (if la = Some c then ra else Some a)
       else if gp = Some y \<and> hn_left (uh_node h y) \<noteq> Some a then Some c else hn_right (uh_node h y))"
    and "hn_parent (uh_node (heap_node_swap h a c) y) =
      (if y = a then Some c else if y = c then gp else if l = Some y \<or> r = Some y then Some a
       else if sib = Some y then Some c else hn_parent (uh_node h y))"
    and "uh_min (heap_node_swap h a c) = (if gp = None then Some c else uh_min h)"
    and "uh_nelts (heap_node_swap h a c) = uh_nelts h"
proof -
  define h4 where "h4 = upd_node (exchanged h a c) c
    (\<lambda>n. if la = Some c then n\<lparr>hn_left := Some a\<rparr> else n\<lparr>hn_right := Some a\<rparr>)"
  define h7 where "h7 = set_parent (set_parent (set_parent h4 sib c) l a) r a"
  have h4: "uh_node h4 y = (if y = a then \<lparr>hn_left = l, hn_right = r, hn_parent = Some c\<rparr>
    else if y = c then \<lparr>hn_left = (if la = Some c then Some a else la), hn_right = (if la = Some c then ra else Some a), hn_parent = gp\<rparr>
    else uh_node h y)" for y
    using assms(1-3) by (simp add: h4_def exchanged_def)
  have eq: "heap_node_swap h a c = relink h7 gp a c"
    by (cases "la = Some c") (use assms in \<open>simp_all add: heap_node_swap_def Let_def h7_def h4_def exchanged_def\<close>)
  have h7: "hn_left (uh_node h7 y) = hn_left (uh_node h4 y)" "hn_right (uh_node h7 y) = hn_right (uh_node h4 y)"
    "hn_parent (uh_node h7 y) = (if r = Some y \<or> l = Some y then Some a else if sib = Some y then Some c else hn_parent (uh_node h4 y))" for y
    by (simp_all add: h7_def)
  show "hn_left (uh_node (heap_node_swap h a c) y) =
      (if y = a then l else if y = c then (if la = Some c then Some a else la)
       else if gp = Some y \<and> hn_left (uh_node h y) = Some a then Some c else hn_left (uh_node h y))"
    using assms(5-) by (auto simp: eq h7 h4)
  show "hn_right (uh_node (heap_node_swap h a c) y) =
      (if y = a then r else if y = c then (if la = Some c then ra else Some a)
       else if gp = Some y \<and> hn_left (uh_node h y) \<noteq> Some a then Some c else hn_right (uh_node h y))"
    using assms(5-) by (auto simp: eq h7 h4)
  show "hn_parent (uh_node (heap_node_swap h a c) y) =
      (if y = a then Some c else if y = c then gp else if l = Some y \<or> r = Some y then Some a
       else if sib = Some y then Some c else hn_parent (uh_node h y))"
    using assms(5-) by (auto simp: eq h7 h4)
  show "uh_min (heap_node_swap h a c) = (if gp = None then Some c else uh_min h)"
    "uh_nelts (heap_node_swap h a c) = uh_nelts h"
    by (simp_all add: eq h7_def h4_def exchanged_def)
qed

lemma at_eq_Some: "distinct xs \<Longrightarrow> k < length xs \<Longrightarrow> at xs j = Some (xs ! k) \<longleftrightarrow> j = k"
  by (auto simp: at_def nth_eq_iff_index_eq)

lemma at_swap: "p < length xs \<Longrightarrow> i < length xs \<Longrightarrow>
    at (swap_at xs p i) j = (if j = i then at xs p else if j = p then at xs i else at xs j)"
  by (auto simp: at_def nth_swap_at)

lemma at_less: "k < length xs \<Longrightarrow> at xs k = Some (xs ! k)"
  by (simp add: at_def)

lemma heap_rep_node: "heap_rep h xs \<Longrightarrow> i < length xs \<Longrightarrow> uh_node h (xs ! i) = node_at xs i"
  by (simp add: heap_rep_def)

lemma heap_rep_swap:
  assumes "heap_rep h xs" "0 < i" "i < length xs"
  shows "heap_rep (heap_node_swap h (xs ! up i) (xs ! i)) (swap_at xs (up i) i)"
proof -
  define p where "p = up i"
  define a where "a = xs ! p"
  define c where "c = xs ! i"
  have p: "p < i" "p < length xs" using up_less [OF assms(2)] assms(3) by (simp_all add: p_def)
  have i: "i = 2 * p + 1 \<or> i = 2 * p + 2" using up_eq [OF assms(2), of p] by (simp add: p_def)
  have d: "distinct xs" using assms(1) by (simp add: heap_rep_def)
  have eqa: "at xs j = Some a \<longleftrightarrow> j = p" for j unfolding a_def by (rule at_eq_Some [OF d p(2)])
  have eqc: "at xs j = Some c \<longleftrightarrow> j = i" for j unfolding c_def by (rule at_eq_Some [OF d assms(3)])
  have ac: "a \<noteq> c" using d p assms(3) by (simp add: a_def c_def nth_eq_iff_index_eq)
  define gp where "gp = (if p = 0 then None else at xs (up p))"
  define sib where "sib = (if i = 2 * p + 1 then at xs (2 * p + 2) else at xs (2 * p + 1))"
  have na: "uh_node h a = \<lparr>hn_left = at xs (2 * p + 1), hn_right = at xs (2 * p + 2), hn_parent = gp\<rparr>"
    using heap_rep_node [OF assms(1) p(2)] by (simp add: node_at_def a_def gp_def)
  have nc: "uh_node h c = \<lparr>hn_left = at xs (2 * i + 1), hn_right = at xs (2 * i + 2), hn_parent = Some a\<rparr>"
    using heap_rep_node [OF assms(1,3)] assms(2) p(2) by (simp add: node_at_def c_def a_def p_def at_less)
  have side: "at xs (2 * p + 1) = Some c \<and> sib = at xs (2 * p + 2) \<or>
      at xs (2 * p + 1) \<noteq> Some c \<and> at xs (2 * p + 2) = Some c \<and> sib = at xs (2 * p + 1)"
    using i by (auto simp: eqc sib_def)
  have upp: "p \<noteq> 0 \<Longrightarrow> up p < p" by (rule up_less) simp
  have upl: "p = 0 \<or> up p \<noteq> p \<and> up p \<noteq> i" using upp p(1) by fastforce
  have gpa: "gp \<noteq> Some a" "gp \<noteq> Some c" using upp p(1) by (auto simp: gp_def eqa eqc)
  have sb: "sib \<noteq> Some a" "sib \<noteq> Some c" using i by (auto simp: sib_def eqa eqc)
  have ch: "at xs (2 * i + 1) \<noteq> Some a" "at xs (2 * i + 2) \<noteq> Some a" "at xs (2 * i + 1) \<noteq> Some c" "at xs (2 * i + 2) \<noteq> Some c"
    using p(1) by (auto simp: eqa eqc)
  note f = swap_fields [OF ac na nc side ch(1,2) sb(1) gpa(1) ch(3,4) sb(2) gpa(2)]
  let ?h = "heap_node_swap h a c" and ?ys = "swap_at xs p i"
  note ats = at_swap [OF p(2) assms(3)]
  have ysj: "?ys ! j = (if j = i then a else if j = p then c else xs ! j)" if "j < length xs" for j
    using that p assms(3) by (simp add: nth_swap_at a_def c_def)
  have ya: "at xs p = Some a" "at xs i = Some c" using p assms(3) by (simp_all add: at_less a_def c_def)
  have node: "uh_node ?h (?ys ! j) = node_at ?ys j" if j: "j < length xs" for j
  proof -
    consider (p) "j = p" | (i) "j = i" | (o) "j \<noteq> p" "j \<noteq> i" by blast
    then show ?thesis
    proof cases
      case p
      then have y: "?ys ! j = c" using ysj [OF j] \<open>p < i\<close> by simp
      have "uh_node ?h c = node_at ?ys p"
        by (rule heap_node.equality) (use i \<open>p < i\<close> ac upl in \<open>auto simp: f node_at_def ats eqc ya gp_def\<close>)
      then show ?thesis using y p by simp
    next
      case i
      then have y: "?ys ! j = a" using ysj [OF j] by simp
      have "uh_node ?h a = node_at ?ys i"
        by (rule heap_node.equality) (use assms(2) \<open>p < i\<close> in \<open>auto simp: f node_at_def ats ya p_def [symmetric]\<close>)
      then show ?thesis using y i by simp
    next
      case o
      then have y: "?ys ! j = xs ! j" using ysj [OF j] by simp
      have eqj: "at xs k = Some (xs ! j) \<longleftrightarrow> k = j" for k by (rule at_eq_Some [OF d j])
      have nj: "uh_node h (xs ! j) = node_at xs j" by (rule heap_rep_node [OF assms(1) j])
      have ne: "xs ! j \<noteq> a" "xs ! j \<noteq> c" using o d j p assms(3) by (simp_all add: a_def c_def nth_eq_iff_index_eq)
      have gpj: "gp = Some (xs ! j) \<longleftrightarrow> p = 2 * j + 1 \<or> p = 2 * j + 2"
        using up_eq [of p j] by (auto simp: gp_def eqj)
      have upj: "j \<noteq> 0 \<Longrightarrow> up j = p \<longleftrightarrow> j = 2 * p + 1 \<or> j = 2 * p + 2" "j \<noteq> 0 \<Longrightarrow> up j = i \<longleftrightarrow> j = 2 * i + 1 \<or> j = 2 * i + 2"
        by (auto simp: up_eq)
      have "uh_node ?h (xs ! j) = node_at ?ys j"
      proof (rule heap_node.equality)
        show "hn_left (uh_node ?h (xs ! j)) = hn_left (node_at ?ys j)"
          using ne o i by (auto simp: f gpj nj node_at_def ats ya eqa)
        show "hn_right (uh_node ?h (xs ! j)) = hn_right (node_at ?ys j)"
          using ne o i by (auto simp: f gpj nj node_at_def ats ya eqa)
        show "hn_parent (uh_node ?h (xs ! j)) = hn_parent (node_at ?ys j)"
        proof (cases "j = 0")
          case True
          show ?thesis using ne eqj nj unfolding True by (auto simp: f node_at_def sib_def)
        next
          case False
          then show ?thesis using ne o i upj
            by (auto simp: f eqj nj node_at_def ats ya sib_def)
        qed
      qed simp
      then show ?thesis using y by simp
    qed
  qed
  have ne: "0 < length xs" by (rule le_less_trans [OF _ p(2)]) simp
  have g0: "gp = None \<longleftrightarrow> p = 0" using upp less_trans [OF upp p(2)] by (auto simp: gp_def at_def)
  have "uh_min h = Some (xs ! 0)" using assms(1) ne by (simp add: heap_rep_def at_def)
  then have "uh_min ?h = at ?ys 0" using ysj [OF ne] assms(2) ne g0 by (simp add: f at_def)
  moreover have "uh_nelts ?h = of_nat (length ?ys)" using assms(1) by (simp add: f heap_rep_def)
  moreover have "distinct ?ys" using d distinct_swap_at [OF p(2) assms(3)] by simp
  ultimately have "heap_rep ?h ?ys" using assms(1) node by (simp add: heap_rep_def)
  then show ?thesis by (simp add: a_def c_def p_def)
qed

end
