(* ===== verification/UvHeapPos.thy ===== *)
theory UvHeapPos
  imports UvHeapRep
begin

text \<open>The path that the code computes from a number leads to the position of that number.\<close>

section \<open>The bits of a position\<close>

fun bits_of :: "nat \<Rightarrow> nat list" where
  "bits_of n = (if 2 \<le> n then bits_of (n div 2) @ [n mod 2] else [])"

declare bits_of.simps [simp del]

fun descend_bits :: "uv_heap \<Rightarrow> nat list \<Rightarrow> slot \<Rightarrow> slot \<Rightarrow> (slot \<times> slot) exec" where
  "descend_bits h [] parent child = Inr (parent, child)"
| "descend_bits h (b # bs) parent child =
     ebind (deref (get_slot h child)) (\<lambda>x. descend_bits h bs child (if b \<noteq> 0 then RightSlot x else LeftSlot x))"

lemma descend_bits_append:
  "descend_bits h (bs @ cs) pa ch = ebind (descend_bits h bs pa ch) (\<lambda>(pa, ch). descend_bits h cs pa ch)"
  by (induction bs arbitrary: pa ch) (simp_all add: ebind_assoc)

lemma path_word:
  fixes path n :: u32
  assumes "unat path < 2 ^ 31"
  shows "drop_bit 1 (push_bit 1 path OR (n AND 1)) = path" "(push_bit 1 path OR (n AND 1)) AND 1 = n AND 1"
proof -
  have "take_bit 31 (unat path) = unat path" using assms by (simp add: take_bit_nat_eq_self)
  moreover have "bit path i \<Longrightarrow> bit (unat path) i" for i by (simp add: bit_unsigned_iff)
  ultimately have b: "bit path i \<Longrightarrow> i < 31" for i by (metis bit_take_bit_iff)
  show "drop_bit 1 (push_bit 1 path OR (n AND 1)) = path"
    by (rule bit_word_eqI) (use b in \<open>auto simp: bit_simps simp del: One_nat_def\<close>)
  show "(push_bit 1 path OR (n AND 1)) AND 1 = n AND 1"
    by (rule bit_word_eqI) (auto simp: bit_simps simp del: One_nat_def)
qed

lemma odd_word: "n AND 1 \<noteq> (0 :: u32) \<longleftrightarrow> unat n mod 2 \<noteq> 0"
  by (simp add: and_one_eq unat_eq_0 [symmetric] unat_mod del: unat_eq_zero)

lemma descend_path:
  "unat path < 2 ^ k \<Longrightarrow> unat n < 2 ^ (32 - k) \<Longrightarrow> k \<le> 31 \<Longrightarrow> path_loop path k n = (p, j) \<Longrightarrow>
    descend h p j pa ch = ebind (descend_bits h (bits_of (unat n)) pa ch) (\<lambda>(pa, ch). descend h path k pa ch)"
proof (induction path k n arbitrary: pa ch rule: path_loop.induct)
  case (1 path k n)
  show ?case
  proof (cases "2 \<le> n")
    case False
    then have "bits_of (unat n) = []" by (subst bits_of.simps) (simp add: word_le_nat_alt)
    then show ?thesis using 1(5) False by (subst (asm) path_loop.simps) simp
  next
    case True
    let ?path = "push_bit 1 path OR (n AND 1)"
    have n2: "2 \<le> unat n" using True by (simp add: word_le_nat_alt)
    have k: "k < 31"
    proof (rule ccontr)
      assume "\<not> k < 31"
      then have "k = 31" using 1(4) by simp
      then show False using 1(3) n2 by simp
    qed
    have "unat path < 2 ^ 31" using 1(2) k by (meson less_trans one_less_numeral_iff power_strict_increasing semiring_norm(76))
    note w = path_word [OF this, of n]
    have "unat ?path div 2 = drop_bit 1 (unat ?path)" by (simp add: drop_bit_Suc)
    also have "\<dots> = unat (drop_bit 1 ?path)" by (rule unat_drop_bit_eq [symmetric])
    also have "\<dots> = unat path" by (simp only: w(1))
    finally have "unat ?path div 2 = unat path" .
    then have p1: "unat ?path < 2 ^ Suc k" using 1(2) by simp
    have "32 - k = Suc (32 - Suc k)" using k by simp
    then have n1: "unat (n div 2) < 2 ^ (32 - Suc k)" using 1(3) by (simp add: unat_div)
    have l: "path_loop ?path (Suc k) (n div 2) = (p, j)" using 1(5) True by (subst (asm) path_loop.simps) simp
    have b: "bits_of (unat n) = bits_of (unat (n div 2)) @ [unat n mod 2]"
      using n2 by (subst bits_of.simps) (simp add: unat_div)
    have step: "descend h ?path (Suc k) pa' ch' = ebind (descend_bits h [unat n mod 2] pa' ch') (\<lambda>(pa, ch). descend h path k pa ch)" for pa' ch'
      using w odd_word [of n] by (simp add: ebind_assoc)
    show ?thesis unfolding b descend_bits_append ebind_assoc
      by (subst 1(1) [OF True p1 n1 _ l]) (use k step in \<open>simp_all add: split_def\<close>)
  qed
qed

section \<open>The position reached\<close>

text \<open>The slot that points to position \<open>j\<close>.\<close>

definition slot_of :: "nat list \<Rightarrow> nat \<Rightarrow> slot" where
  "slot_of xs j = (if j = 0 then MinSlot else if odd j then LeftSlot (xs ! up j) else RightSlot (xs ! up j))"

lemma get_slot_of: "heap_rep h xs \<Longrightarrow> j \<le> length xs \<Longrightarrow> get_slot h (slot_of xs j) = at xs j"
proof (cases "j = 0")
  case False
  assume a: "heap_rep h xs" "j \<le> length xs"
  have "up j < length xs" using up_less [of j] False a(2) by simp
  moreover have "odd j \<Longrightarrow> 2 * up j + 1 = j" "even j \<Longrightarrow> 2 * up j + 2 = j" using False by (auto simp: up_def elim: oddE)
  ultimately show ?thesis using False heap_rep_node [OF a(1), of "up j"] by (auto simp: slot_of_def node_at_def)
qed (simp add: heap_rep_def slot_of_def)

lemma descend_bits_pos:
  "heap_rep h xs \<Longrightarrow> 0 < n \<Longrightarrow> n \<le> Suc (length xs) \<Longrightarrow>
    descend_bits h (bits_of n) MinSlot MinSlot =
      Inr (if n = 1 then MinSlot else slot_of xs (up (n - 1)), slot_of xs (n - 1))"
proof (induction n rule: less_induct)
  case (less n)
  show ?case
  proof (cases "2 \<le> n")
    case False
    then have "n = 1" using less.prems(2) by simp
    then show ?thesis by (simp add: bits_of.simps slot_of_def)
  next
    case True
    have u: "up (n - 1) = n div 2 - 1" by (simp add: up_def)
    have m: "n div 2 < n" "0 < n div 2" "n div 2 - 1 < length xs" using True less.prems(3) by auto
    have g: "get_slot h (slot_of xs (n div 2 - 1)) = Some (xs ! (n div 2 - 1))"
      using get_slot_of [OF less.prems(1), of "n div 2 - 1"] m(3) by (simp add: at_less)
    have s: "n mod 2 = Suc 0 \<Longrightarrow> slot_of xs (n - Suc 0) = RightSlot (xs ! (n div 2 - Suc 0))"
      "even n \<Longrightarrow> slot_of xs (n - Suc 0) = LeftSlot (xs ! (n div 2 - Suc 0))"
      using True u by (auto simp: slot_of_def)
    show ?thesis
      by (subst bits_of.simps) (use less.IH [OF m(1) less.prems(1) m(2)] True m(3) g s u in \<open>auto simp: descend_bits_append\<close>)
  qed
qed

lemma descend_pos:
  assumes "heap_rep h xs" "0 < n" "unat n \<le> Suc (length xs)" "path_loop 0 0 n = (p, k)"
  shows "descend h p k MinSlot MinSlot =
    Inr (if n = 1 then MinSlot else slot_of xs (up (unat n - 1)), slot_of xs (unat n - 1))"
proof -
  have "unat n < 2 ^ 32" using unsigned_less [of n] by simp
  then have "descend h p k MinSlot MinSlot = descend_bits h (bits_of (unat n)) MinSlot MinSlot"
    using descend_path [of 0 0 n p k h MinSlot MinSlot] assms(4) by simp
  moreover have "0 < unat n" "unat n = 1 \<longleftrightarrow> n = 1" using assms(2) by (auto simp: word_less_nat_alt) (metis unat_1 word_unat_eq_iff One_nat_def)
  ultimately show ?thesis using descend_bits_pos [OF assms(1) _ assms(3)] by simp
qed

end
