(* ===== verification/UvHeapLink.thy ===== *)
theory UvHeapLink
  imports UvHeapPos
begin

text \<open>Adding a last node, taking the last node away and putting it in the place of another.\<close>

lemma at_snoc: "at (xs @ [x]) k = (if k = length xs then Some x else at xs k)"
  by (auto simp: at_def nth_append)

lemma at_butlast: "xs \<noteq> [] \<Longrightarrow> at (butlast xs) k = (if k = length xs - 1 then None else at xs k)"
  by (auto simp: at_def nth_butlast)

lemma at_update: "r < length ys \<Longrightarrow> at (ys[r := c]) k = (if k = r then Some c else at ys k)"
  by (auto simp: at_def)

lemma at_in: "at xs k = Some x \<Longrightarrow> x \<in> set xs"
  by (auto simp: at_def split: if_splits)

lemma child_pos:
  assumes "n \<noteq> 0"
  shows "2 * j + 1 = n \<longleftrightarrow> odd n \<and> j = up n" "2 * j + 2 = n \<longleftrightarrow> even n \<and> j = up n"
proof -
  obtain m where "n = 2 * m + 1 \<or> n = 2 * m + 2" using assms by (metis up_eq gr0I)
  then have "odd n \<and> n = 2 * up n + 1 \<or> even n \<and> n = 2 * up n + 2" by (auto simp: up_def)
  then show "2 * j + 1 = n \<longleftrightarrow> odd n \<and> j = up n" "2 * j + 2 = n \<longleftrightarrow> even n \<and> j = up n" by auto
qed

lemma put_slot_of:
  assumes "n \<noteq> 0"
  shows "hn_left (uh_node (put_slot h (slot_of xs n) y) z) = (if odd n \<and> z = xs ! up n then y else hn_left (uh_node h z))"
    "hn_right (uh_node (put_slot h (slot_of xs n) y) z) = (if even n \<and> z = xs ! up n then y else hn_right (uh_node h z))"
    "hn_parent (uh_node (put_slot h (slot_of xs n) y) z) = hn_parent (uh_node h z)"
  using assms by (cases "odd n"; simp add: slot_of_def)+

lemma node_at_fields:
  "hn_left (node_at xs i) = at xs (2 * i + 1)" "hn_right (node_at xs i) = at xs (2 * i + 2)"
  "hn_parent (node_at xs i) = (if i = 0 then None else at xs (up i))"
  by (simp_all add: node_at_def)

lemma heap_rep_fresh: "heap_rep h xs \<Longrightarrow> x \<notin> set xs \<Longrightarrow> heap_rep (upd_node h x f) xs"
  by (auto simp: heap_rep_def dest: nth_mem)

lemma heap_rep_link:
  assumes "heap_rep h xs" "x \<notin> set xs" "Suc (length xs) < 2 ^ 32"
    and "uh_node h x = \<lparr>hn_left = None, hn_right = None, hn_parent = (if xs = [] then None else at xs (up (length xs)))\<rparr>"
  shows "heap_rep ((put_slot h (slot_of xs (length xs)) (Some x))\<lparr>uh_nelts := uh_nelts h + 1\<rparr>) (xs @ [x])"
proof -
  let ?n = "length xs"
  let ?h = "put_slot h (slot_of xs ?n) (Some x)"
  have d: "distinct xs" and nodes: "\<And>j. j < ?n \<Longrightarrow> uh_node h (xs ! j) = node_at xs j" using assms(1) by (auto simp: heap_rep_def)
  have u: "xs \<noteq> [] \<Longrightarrow> up ?n < ?n" using up_less [of ?n] by simp
  have upn: "j < ?n \<Longrightarrow> j \<noteq> 0 \<Longrightarrow> up j \<noteq> ?n" for j using up_less [of j] by simp
  have old: "uh_node ?h (xs ! j) = node_at (xs @ [x]) j" if j: "j < ?n" for j
  proof -
    have ne: "xs \<noteq> []" using j by auto
    have eq: "xs ! j = xs ! up ?n \<longleftrightarrow> j = up ?n" using d j u [OF ne] by (simp add: nth_eq_iff_index_eq)
    have k: "2 * j + 1 = ?n \<longleftrightarrow> odd ?n \<and> j = up ?n" "2 * j + 2 = ?n \<longleftrightarrow> even ?n \<and> j = up ?n"
      using child_pos [of ?n j] ne by simp_all
    have nj: "hn_left (uh_node ?h (xs ! j)) = (if odd ?n \<and> j = up ?n then Some x else at xs (2 * j + 1))"
      "hn_right (uh_node ?h (xs ! j)) = (if even ?n \<and> j = up ?n then Some x else at xs (2 * j + 2))"
      "hn_parent (uh_node ?h (xs ! j)) = (if j = 0 then None else at xs (up j))"
      using ne unfolding put_slot_of [of ?n, simplified, OF ne] eq nodes [OF j] node_at_fields by simp_all
    show ?thesis
    proof (rule heap_node.equality)
      show "hn_left (uh_node ?h (xs ! j)) = hn_left (node_at (xs @ [x]) j)"
        unfolding nj node_at_def at_snoc k by simp
      show "hn_right (uh_node ?h (xs ! j)) = hn_right (node_at (xs @ [x]) j)"
        unfolding nj node_at_def at_snoc k by simp
      show "hn_parent (uh_node ?h (xs ! j)) = hn_parent (node_at (xs @ [x]) j)"
        using upn [OF j] unfolding nj node_at_def at_snoc by simp
    qed simp
  qed
  have nx: "uh_node ?h x = uh_node h x" using assms(2) u by (cases "xs = []") (auto simp: slot_of_def)
  have new: "uh_node ?h x = node_at (xs @ [x]) ?n"
  proof -
    have "at (xs @ [x]) k = None" if "?n < k" for k using that by (simp add: at_def)
    moreover have "xs \<noteq> [] \<Longrightarrow> at (xs @ [x]) (up ?n) = at xs (up ?n)" using u by (auto simp: at_snoc)
    ultimately show ?thesis unfolding nx assms(4) by (simp add: node_at_def)
  qed
  have mn: "uh_min ?h = at (xs @ [x]) 0"
    using assms(1) by (cases "xs = []") (auto simp: slot_of_def at_snoc heap_rep_def at_def nth_append)
  have "uh_node ?h ((xs @ [x]) ! j) = node_at (xs @ [x]) j" if "j < Suc ?n" for j
    using old new that by (cases "j = ?n") (auto simp: nth_append)
  then show ?thesis using assms(1-3) mn d by (simp add: heap_rep_def add.commute)
qed

lemma heap_rep_unlink:
  assumes "heap_rep h xs" "xs \<noteq> []"
  shows "heap_rep (put_slot (h\<lparr>uh_nelts := uh_nelts h - 1\<rparr>) (slot_of xs (length xs - 1)) None) (butlast xs)"
proof -
  let ?n = "length xs - 1"
  let ?h = "put_slot (h\<lparr>uh_nelts := uh_nelts h - 1\<rparr>) (slot_of xs ?n) None"
  have d: "distinct xs" and nodes: "\<And>j. j < length xs \<Longrightarrow> uh_node h (xs ! j) = node_at xs j" using assms(1) by (auto simp: heap_rep_def)
  have u: "?n \<noteq> 0 \<Longrightarrow> up ?n < ?n" using up_less [of ?n] by simp
  have upn: "j < ?n \<Longrightarrow> j \<noteq> 0 \<Longrightarrow> up j \<noteq> ?n" for j using up_less [of j] by simp
  have old: "uh_node ?h (xs ! j) = node_at (butlast xs) j" if j: "j < ?n" for j
  proof -
    have n0: "?n \<noteq> 0" using j by simp
    have eq: "xs ! j = xs ! up ?n \<longleftrightarrow> j = up ?n" using d j u [OF n0] by (simp add: nth_eq_iff_index_eq)
    have k: "2 * j + 1 = ?n \<longleftrightarrow> odd ?n \<and> j = up ?n" "2 * j + 2 = ?n \<longleftrightarrow> even ?n \<and> j = up ?n"
      using child_pos [OF n0] by blast+
    have nj: "uh_node h (xs ! j) = node_at xs j" using nodes j by simp
    have f: "hn_left (uh_node ?h (xs ! j)) = (if odd ?n \<and> j = up ?n then None else at xs (2 * j + 1))"
      "hn_right (uh_node ?h (xs ! j)) = (if even ?n \<and> j = up ?n then None else at xs (2 * j + 2))"
      "hn_parent (uh_node ?h (xs ! j)) = (if j = 0 then None else at xs (up j))"
      unfolding put_slot_of [OF n0] eq by (simp_all add: nj node_at_fields)
    show ?thesis
    proof (rule heap_node.equality)
      show "hn_left (uh_node ?h (xs ! j)) = hn_left (node_at (butlast xs) j)"
        unfolding f node_at_def at_butlast [OF assms(2)] k by simp
      show "hn_right (uh_node ?h (xs ! j)) = hn_right (node_at (butlast xs) j)"
        unfolding f node_at_def at_butlast [OF assms(2)] k by simp
      show "hn_parent (uh_node ?h (xs ! j)) = hn_parent (node_at (butlast xs) j)"
        using upn [OF j] unfolding f node_at_def at_butlast [OF assms(2)] by simp
    qed simp
  qed
  have mn: "uh_min ?h = at (butlast xs) 0"
    using assms by (auto simp: slot_of_def at_butlast heap_rep_def)
  have len: "of_nat (length (butlast xs)) = uh_nelts h - 1"
    using assms by (simp add: heap_rep_def of_nat_diff Suc_leI)
  have "uh_node ?h (butlast xs ! j) = node_at (butlast xs) j" if "j < length (butlast xs)" for j
    using old [of j] that by (simp add: nth_butlast)
  moreover have "uh_nelts ?h = of_nat (length (butlast xs))" using len by (simp add: slot_of_def)
  ultimately show ?thesis using assms(1) mn d distinct_butlast [OF d] unfolding heap_rep_def by auto
qed

lemma heap_rep_replace:
  fixes h ys r c
  defines "h3 \<equiv> upd_node h c (\<lambda>_. uh_node h (ys ! r))"
  defines "h5 \<equiv> set_parent (set_parent h3 (at ys (2 * r + 1)) c) (at ys (2 * r + 2)) c"
  assumes "heap_rep h ys" "r < length ys" "c \<notin> set ys"
  shows "heap_rep (relink h5 (if r = 0 then None else at ys (up r)) (ys ! r) c) (ys[r := c])"
proof -
  let ?g = "if r = 0 then None else at ys (up r)"
  let ?h = "relink h5 ?g (ys ! r) c" and ?ys = "ys[r := c]"
  have d: "distinct ys" and nodes: "\<And>j. j < length ys \<Longrightarrow> uh_node h (ys ! j) = node_at ys j"
    using assms(3) by (auto simp: heap_rep_def)
  have nc: "at ys k \<noteq> Some c" for k using assms(5) at_in by blast
  have ur: "r \<noteq> 0 \<Longrightarrow> up r < r" by (rule up_less) simp
  have ur': "r = 0 \<or> up r \<noteq> r" using ur by fastforce
  have c: "uh_node ?h c = node_at ?ys r"
    by (rule heap_node.equality)
      (use assms(4) nc ur' nodes [OF assms(4)] in \<open>auto simp: h5_def h3_def node_at_def at_update\<close>)
  have old: "uh_node ?h (ys ! j) = node_at ?ys j" if j: "j < length ys" "j \<noteq> r" for j
  proof -
    have e: "at ys k = Some (ys ! j) \<longleftrightarrow> k = j" for k by (rule at_eq_Some [OF d j(1)])
    have er: "at ys k = Some (ys ! r) \<longleftrightarrow> k = r" for k by (rule at_eq_Some [OF d assms(4)])
    have ne: "ys ! j \<noteq> c" using assms(5) j(1) nth_mem by blast
    have g: "?g = Some (ys ! j) \<longleftrightarrow> r = 2 * j + 1 \<or> r = 2 * j + 2" using up_eq [of r j] by (auto simp: e)
    have uj: "j \<noteq> 0 \<Longrightarrow> up j = r \<longleftrightarrow> j = 2 * r + 1 \<or> j = 2 * r + 2" by (rule up_eq) simp
    have nj: "hn_left (uh_node h5 (ys ! j)) = at ys (2 * j + 1)" "hn_right (uh_node h5 (ys ! j)) = at ys (2 * j + 2)"
      "hn_parent (uh_node h5 (ys ! j)) = (if j = 2 * r + 1 \<or> j = 2 * r + 2 then Some c else if j = 0 then None else at ys (up j))"
      unfolding h5_def h3_def set_parent_fields upd_node_fields e using ne nodes [OF j(1)] by (auto simp: node_at_def)
    show ?thesis
    proof (rule heap_node.equality)
      show "hn_left (uh_node ?h (ys ! j)) = hn_left (node_at ?ys j)"
        using assms(4) unfolding relink_fields nj g by (auto simp: er node_at_def at_update)
      show "hn_right (uh_node ?h (ys ! j)) = hn_right (node_at ?ys j)"
        using assms(4) unfolding relink_fields nj g by (auto simp: er node_at_def at_update)
      show "hn_parent (uh_node ?h (ys ! j)) = hn_parent (node_at ?ys j)"
        using assms(4) uj unfolding relink_fields nj by (auto simp: node_at_def at_update)
    qed simp
  qed
  have mn: "uh_min ?h = at ?ys 0"
    using assms(3,4) ur by (auto simp: h5_def h3_def heap_rep_def at_update at_def)
  have "uh_node ?h (?ys ! j) = node_at ?ys j" if "j < length ys" for j
    using c old that assms(4) by (cases "j = r") auto
  then show ?thesis using assms(3) mn d distinct_list_update [OF d, of c r] assms(5)
    by (auto simp: heap_rep_def h5_def h3_def)
qed

end
