(* ===== verification/UvHeapOrder.thy ===== *)
theory UvHeapOrder
  imports UvHeapLink
begin

text \<open>
  Order: the walks of the code compute walks on the list, which establish the heap order, and the
  operations on the pointer structure insert and remove one element.
\<close>

section \<open>The walks on the list\<close>

definition key_less :: "('x \<Rightarrow> 'k::linorder) \<Rightarrow> 'x \<Rightarrow> 'x \<Rightarrow> bool" where
  "key_less k x y \<longleftrightarrow> k x < k y"

function walk_up :: "(nat \<Rightarrow> 'k::linorder) \<Rightarrow> nat list \<Rightarrow> nat \<Rightarrow> nat list" where
  "walk_up k xs i =
     (if 0 < i \<and> k (xs ! i) < k (xs ! up i) then walk_up k (swap_at xs (up i) i) (up i) else xs)"
  by auto
termination by (relation "measure (\<lambda>(_, _, i). i)") (auto simp: up_less)

definition least_child :: "(nat \<Rightarrow> 'k::linorder) \<Rightarrow> nat list \<Rightarrow> nat \<Rightarrow> nat" where
  "least_child k xs i =
     (let l = 2 * i + 1; r = 2 * i + 2;
          s = (if l < length xs \<and> k (xs ! l) < k (xs ! i) then l else i)
      in if r < length xs \<and> k (xs ! r) < k (xs ! s) then r else s)"

lemma least_child_range: "least_child k xs i = i \<or> i < least_child k xs i \<and> least_child k xs i < length xs"
  by (auto simp: least_child_def Let_def)

function walk_down :: "(nat \<Rightarrow> 'k::linorder) \<Rightarrow> nat list \<Rightarrow> nat \<Rightarrow> nat list \<times> nat" where
  "walk_down k xs i =
     (let s = least_child k xs i in if s = i then (xs, i) else walk_down k (swap_at xs i s) s)"
  by auto
termination
proof (relation "measure (\<lambda>(_, xs, i). length xs - i)")
  fix k :: "nat \<Rightarrow> 'k::linorder" and xs i s
  assume "s = least_child k xs i" "s \<noteq> i"
  then show "((k, swap_at xs i s, s), k, xs, i) \<in> measure (\<lambda>(_, xs, i). length xs - i)"
    using least_child_range [of k xs i] by auto
qed simp

declare walk_up.simps [simp del] walk_down.simps [simp del]

text \<open>The pointer walks compute them.\<close>

lemma sift_up_rep:
  "heap_rep h xs \<Longrightarrow> i < length xs \<Longrightarrow> \<exists>h'. sift_up (key_less k) h (xs ! i) = Some h' \<and> heap_rep h' (walk_up k xs i)"
proof (induction i arbitrary: h xs rule: less_induct)
  case (less i)
  have n: "uh_node h (xs ! i) = node_at xs i" by (rule heap_rep_node [OF less.prems])
  show ?case
  proof (cases "0 < i \<and> k (xs ! i) < k (xs ! up i)")
    case False
    have "sift_up (key_less k) h (xs ! i) = Some h"
      using False less.prems(2) up_less [of i]
      by (subst sift_up.simps) (auto simp: n node_at_def at_def key_less_def split: option.split)
    then show ?thesis using less.prems(1) False by (subst walk_up.simps) auto
  next
    case True
    let ?ys = "swap_at xs (up i) i" and ?h = "heap_node_swap h (xs ! up i) (xs ! i)"
    have u: "up i < i" "up i < length xs" using True up_less [of i] less.prems(2) by auto
    have p: "hn_parent (uh_node h (xs ! i)) = Some (xs ! up i)" using True u by (simp add: n node_at_def at_def)
    have rep: "heap_rep ?h ?ys" using heap_rep_swap [OF less.prems(1) _ less.prems(2)] True by simp
    have "?ys ! up i = xs ! i" using u less.prems(2) by (simp add: nth_swap_at)
    with less.IH [OF u(1) rep] u obtain h' where h': "sift_up (key_less k) ?h (xs ! i) = Some h'" "heap_rep h' (walk_up k ?ys (up i))" by auto
    have "sift_up (key_less k) h (xs ! i) = Some h'"
      using True h'(1) p by (subst sift_up.simps) (simp add: key_less_def)
    moreover have "walk_up k xs i = walk_up k ?ys (up i)" using True by (subst walk_up.simps) simp
    ultimately show ?thesis using h'(2) by auto
  qed
qed

lemma smallest_rep:
  assumes "heap_rep h xs" "i < length xs"
  shows "smallest (key_less k) h (xs ! i) = xs ! least_child k xs i"
proof -
  have n: "uh_node h (xs ! i) = node_at xs i" by (rule heap_rep_node [OF assms])
  show ?thesis
    by (auto simp: smallest_def least_child_def Let_def n node_at_def at_def key_less_def)
qed

lemma sift_down_rep:
  "heap_rep h xs \<Longrightarrow> i < length xs \<Longrightarrow> walk_down k xs i = (ys, j) \<Longrightarrow>
    \<exists>h'. sift_down (key_less k) h (xs ! i) = Some h' \<and> heap_rep h' ys \<and> j < length ys \<and> ys ! j = xs ! i"
proof (induction k xs i arbitrary: h rule: walk_down.induct)
  case (1 k xs i)
  let ?s = "least_child k xs i"
  have sm: "smallest (key_less k) h (xs ! i) = xs ! ?s" by (rule smallest_rep [OF 1(2,3)])
  have d: "distinct xs" using 1(2) by (simp add: heap_rep_def)
  show ?case
  proof (cases "?s = i")
    case True
    then have "sift_down (key_less k) h (xs ! i) = Some h" by (subst sift_down.simps) (simp add: sm)
    moreover have "ys = xs" "j = i" using 1(4) True by (simp_all add: walk_down.simps [of k xs i])
    ultimately show ?thesis using 1(2,3) by auto
  next
    case False
    let ?ys = "swap_at xs i ?s" and ?h = "heap_node_swap h (xs ! i) (xs ! ?s)"
    have s: "i < ?s" "?s < length xs" using least_child_range [of k xs i] False by auto
    have ui: "up ?s = i" using False up_eq [of ?s i] s(1) by (auto simp: least_child_def Let_def split: if_splits)
    have rep: "heap_rep ?h ?ys" using heap_rep_swap [OF 1(2) _ s(2)] s(1) by (simp add: ui)
    have ne: "xs ! ?s \<noteq> xs ! i" using d s 1(3) by (simp add: nth_eq_iff_index_eq)
    have "?ys ! ?s = xs ! i" using s 1(3) by (simp add: nth_swap_at)
    moreover have "walk_down k ?ys ?s = (ys, j)" using 1(4) False by (simp add: walk_down.simps [of k xs i] Let_def)
    ultimately obtain h' where "sift_down (key_less k) ?h (xs ! i) = Some h'" "heap_rep h' ys" "j < length ys" "ys ! j = xs ! i"
      using 1(1) [OF refl False rep] s(2) by auto
    then show ?thesis using sm ne by (subst sift_down.simps) (simp add: Let_def)
  qed
qed

section \<open>Heap order\<close>

definition ordered :: "(nat \<Rightarrow> 'k::linorder) \<Rightarrow> nat list \<Rightarrow> bool" where
  "ordered k xs \<longleftrightarrow> (\<forall>j<length xs. 0 < j \<longrightarrow> k (xs ! up j) \<le> k (xs ! j))"

text \<open>Order everywhere but above, respectively around, one position.\<close>

definition ordered_but_up :: "(nat \<Rightarrow> 'k::linorder) \<Rightarrow> nat list \<Rightarrow> nat \<Rightarrow> bool" where
  "ordered_but_up k xs i \<longleftrightarrow> (\<forall>j<length xs. 0 < j \<and> j \<noteq> i \<longrightarrow> k (xs ! up j) \<le> k (xs ! j)) \<and>
     (\<forall>j<length xs. 0 < i \<and> 0 < j \<and> up j = i \<longrightarrow> k (xs ! up i) \<le> k (xs ! j))"

definition ordered_around :: "(nat \<Rightarrow> 'k::linorder) \<Rightarrow> nat list \<Rightarrow> nat \<Rightarrow> bool" where
  "ordered_around k xs i \<longleftrightarrow> (\<forall>j<length xs. 0 < j \<and> j \<noteq> i \<and> up j \<noteq> i \<longrightarrow> k (xs ! up j) \<le> k (xs ! j)) \<and>
     (\<forall>j<length xs. 0 < i \<and> 0 < j \<and> up j = i \<longrightarrow> k (xs ! up i) \<le> k (xs ! j))"

lemma walk_up_ordered:
  "i < length xs \<Longrightarrow> ordered_but_up k xs i \<Longrightarrow> ordered k (walk_up k xs i) \<and> mset (walk_up k xs i) = mset xs"
proof (induction k xs i rule: walk_up.induct)
  case (1 k xs i)
  show ?case
  proof (cases "0 < i \<and> k (xs ! i) < k (xs ! up i)")
    case False
    then have "ordered k xs" using 1(3) by (fastforce simp: ordered_def ordered_but_up_def)
    then show ?thesis using False by (subst walk_up.simps, subst (2) walk_up.simps) auto
  next
    case True
    let ?p = "up i" let ?ys = "swap_at xs ?p i"
    have p: "?p < i" "?p < length xs" using True up_less [of i] 1(2) by auto
    note nth = nth_swap_at [OF p(2) 1(2)]
    have o1: "\<And>j. j < length xs \<Longrightarrow> 0 < j \<Longrightarrow> j \<noteq> i \<Longrightarrow> k (xs ! up j) \<le> k (xs ! j)"
      and o2: "\<And>j. j < length xs \<Longrightarrow> 0 < j \<Longrightarrow> up j = i \<Longrightarrow> k (xs ! ?p) \<le> k (xs ! j)"
      using 1(3) True by (auto simp: ordered_but_up_def)
    have "ordered_but_up k ?ys ?p"
      unfolding ordered_but_up_def length_swap_at
    proof (intro conjI allI impI)
      fix j assume j: "j < length xs" "0 < j \<and> j \<noteq> ?p"
      have uj: "up j < length xs" "up j < j" using j up_less [of j] by auto
      show "k (?ys ! up j) \<le> k (?ys ! j)"
      proof (cases "j = i")
        case True
        then show ?thesis using nth [OF j(1)] nth [OF uj(1)] p \<open>0 < i \<and> k (xs ! i) < k (xs ! ?p)\<close> by auto
      next
        case False
        consider "up j = i" | "up j = ?p" | "up j \<noteq> i" "up j \<noteq> ?p" by blast
        then show ?thesis
        proof cases
          case 1
          then show ?thesis using False j nth [OF j(1)] nth [OF uj(1)] o2 [OF j(1)] by simp
        next
          case 2
          then have "k (xs ! ?p) \<le> k (xs ! j)" using o1 [OF j(1)] j False by simp
          then show ?thesis using 2 False j nth [OF j(1)] nth [OF uj(1)] p True by auto
        next
          case 3
          then show ?thesis using False j nth [OF j(1)] nth [OF uj(1)] o1 [OF j(1)] by simp
        qed
      qed
    next
      fix j assume j: "j < length xs" "0 < ?p \<and> 0 < j \<and> up j = ?p"
      have up: "up ?p < ?p" "up ?p < length xs" using up_less [of ?p] j p by auto
      have jp: "?p < j" using up_less [of j] j by auto
      have a: "k (xs ! up ?p) \<le> k (xs ! ?p)" using o1 [OF p(2)] j p by simp
      show "k (?ys ! up ?p) \<le> k (?ys ! j)"
      proof (cases "j = i")
        case True
        then show ?thesis using a nth [OF j(1)] nth [OF up(2)] p up by simp
      next
        case False
        have "k (xs ! ?p) \<le> k (xs ! j)" using o1 [OF j(1)] j False by simp
        then show ?thesis using False a nth [OF j(1)] nth [OF up(2)] p up jp by auto
      qed
    qed
    with 1(1) [OF True] p(2) have "ordered k (walk_up k ?ys ?p) \<and> mset (walk_up k ?ys ?p) = mset ?ys" by simp
    then show ?thesis using True mset_swap_at [OF p(2) 1(2)] by (subst walk_up.simps, subst (2) walk_up.simps) simp
  qed
qed

lemma least_child_facts:
  fixes k :: "nat \<Rightarrow> 'k::linorder"
  assumes "i < length xs"
  defines "s \<equiv> least_child k xs i"
  shows "s < length xs" "k (xs ! s) \<le> k (xs ! i)" "j < length xs \<Longrightarrow> 0 < j \<Longrightarrow> up j = i \<Longrightarrow> k (xs ! s) \<le> k (xs ! j)"
    "s \<noteq> i \<Longrightarrow> up s = i \<and> i < s \<and> k (xs ! s) < k (xs ! i)"
proof -
  show "s < length xs" using least_child_range [of k xs i] assms by auto
  show "k (xs ! s) \<le> k (xs ! i)" by (auto simp: s_def least_child_def Let_def)
  show "s \<noteq> i \<Longrightarrow> up s = i \<and> i < s \<and> k (xs ! s) < k (xs ! i)"
    by (auto simp: s_def least_child_def Let_def up_def split: if_splits)
  assume j: "j < length xs" "0 < j" "up j = i"
  then have "j = 2 * i + 1 \<or> j = 2 * i + 2" using up_eq by blast
  then show "k (xs ! s) \<le> k (xs ! j)" using j(1) by (auto simp: s_def least_child_def Let_def not_less)
qed

lemma walk_down_ordered:
  "i < length xs \<Longrightarrow> ordered_around k xs i \<Longrightarrow> walk_down k xs i = (ys, j) \<Longrightarrow>
    ordered_but_up k ys j \<and> mset ys = mset xs \<and> j < length ys"
proof (induction k xs i rule: walk_down.induct)
  case (1 k xs i)
  let ?s = "least_child k xs i"
  note s = least_child_facts [OF 1(2), where k = k]
  have o1: "\<And>j. j < length xs \<Longrightarrow> 0 < j \<Longrightarrow> j \<noteq> i \<Longrightarrow> up j \<noteq> i \<Longrightarrow> k (xs ! up j) \<le> k (xs ! j)"
    and o2: "\<And>j. j < length xs \<Longrightarrow> 0 < i \<Longrightarrow> 0 < j \<Longrightarrow> up j = i \<Longrightarrow> k (xs ! up i) \<le> k (xs ! j)"
    using 1(3) by (auto simp: ordered_around_def)
  show ?case
  proof (cases "?s = i")
    case True
    then have eq: "ys = xs" "j = i" using 1(4) by (simp_all add: walk_down.simps [of k xs i])
    have "ordered_but_up k xs i" unfolding ordered_but_up_def
    proof (intro conjI allI impI)
      fix j assume "j < length xs" "0 < j \<and> j \<noteq> i"
      then show "k (xs ! up j) \<le> k (xs ! j)" using o1 [of j] s(3) [of j] True by (cases "up j = i") auto
    qed (use o2 in blast)
    then show ?thesis using eq 1(2) by simp
  next
    case False
    let ?ys = "swap_at xs i ?s"
    have ui: "up ?s = i" "i < ?s" "k (xs ! ?s) < k (xs ! i)" using s(4) False by auto
    note nth = nth_swap_at [OF 1(2) s(1)]
    have "ordered_around k ?ys ?s" unfolding ordered_around_def length_swap_at
    proof (intro conjI allI impI)
      fix j assume j: "j < length xs" "0 < j \<and> j \<noteq> ?s \<and> up j \<noteq> ?s"
      have uj: "up j < length xs" "up j < j" using j up_less [of j] by auto
      show "k (?ys ! up j) \<le> k (?ys ! j)"
      proof (cases "j = i")
        case True
        then have "k (xs ! up i) \<le> k (xs ! ?s)" using o2 [OF s(1)] j ui by simp
        then show ?thesis using True j nth [OF j(1)] nth [OF uj(1)] uj ui by auto
      next
        case False
        then show ?thesis using j nth [OF j(1)] nth [OF uj(1)] o1 [OF j(1)] s(3) [OF j(1)] by (cases "up j = i") auto
      qed
    next
      fix j assume j: "j < length xs" "0 < ?s \<and> 0 < j \<and> up j = ?s"
      have "?s < j" using up_less [of j] j by auto
      then have "k (xs ! ?s) \<le> k (xs ! j)" using o1 [OF j(1)] j ui by auto
      then show "k (?ys ! up ?s) \<le> k (?ys ! j)"
        using nth [OF j(1)] nth [OF 1(2)] ui \<open>?s < j\<close> by simp
    qed
    moreover have "walk_down k ?ys ?s = (ys, j)" using 1(4) False by (simp add: walk_down.simps [of k xs i] Let_def)
    ultimately have "ordered_but_up k ys j \<and> mset ys = mset ?ys \<and> j < length ys"
      using 1(1) [OF refl False] s(1) by simp
    then show ?thesis using mset_swap_at [OF 1(2) s(1)] by simp
  qed
qed

section \<open>Inserting and removing\<close>

lemma heap_insert_rep:
  assumes "heap_rep h xs" "ordered k xs" "x \<notin> set xs" "Suc (length xs) < 2 ^ 32"
  shows "\<exists>h' ys. heap_insert (key_less k) h x = Some (Inr h') \<and> heap_rep h' ys \<and> ordered k ys \<and> mset ys = add_mset x (mset xs)"
proof -
  let ?n = "length xs"
  define h1 where "h1 = upd_node h x (\<lambda>_. \<lparr>hn_left = None, hn_right = None, hn_parent = None\<rparr>)"
  obtain p j where pj: "path_loop 0 0 (1 + uh_nelts h1) = (p, j)" by fastforce
  have r1: "heap_rep h1 xs" unfolding h1_def by (rule heap_rep_fresh [OF assms(1,3)])
  have n: "1 + uh_nelts h1 = of_nat (Suc ?n)" using r1 by (simp add: heap_rep_def)
  have un: "unat (1 + uh_nelts h1) = Suc ?n" unfolding n using assms(4) by (simp only: unat_of_nat word_size) simp
  define pa where "pa = (if 1 + uh_nelts h1 = 1 then MinSlot else slot_of xs (up ?n))"
  have d: "descend h1 p j MinSlot MinSlot = Inr (pa, slot_of xs ?n)"
    using descend_pos [OF r1 _ _ pj] un by (simp add: word_less_nat_alt pa_def)
  have n1: "1 + uh_nelts h1 = 1 \<longleftrightarrow> xs = []" using un by (metis One_nat_def Suc_inject length_0_conv unat_1 word_unat_eq_iff)
  have pa: "get_slot h1 pa = (if xs = [] then None else at xs (up ?n))"
  proof (cases "xs = []")
    case True
    then show ?thesis using r1 n1 by (simp add: heap_rep_def at_def pa_def)
  next
    case False
    then have "up ?n \<le> ?n" using up_less [of ?n] by simp
    then show ?thesis using get_slot_of [OF r1] n1 False by (simp add: pa_def)
  qed
  define h2 where "h2 = upd_node h1 x (\<lambda>n. n\<lparr>hn_parent := get_slot h1 pa\<rparr>)"
  have r2: "heap_rep h2 xs" unfolding h2_def by (rule heap_rep_fresh [OF r1 assms(3)])
  have x2: "uh_node h2 x = \<lparr>hn_left = None, hn_right = None, hn_parent = (if xs = [] then None else at xs (up ?n))\<rparr>"
    unfolding h2_def pa by (simp add: h1_def)
  let ?h4 = "(put_slot h2 (slot_of xs ?n) (Some x))\<lparr>uh_nelts := uh_nelts h2 + 1\<rparr>"
  have r4: "heap_rep ?h4 (xs @ [x])" by (rule heap_rep_link [OF r2 assms(3,4) x2])
  obtain h' where h': "sift_up (key_less k) ?h4 ((xs @ [x]) ! ?n) = Some h'" "heap_rep h' (walk_up k (xs @ [x]) ?n)"
    using sift_up_rep [OF r4, of ?n k] by auto
  have u: "up j < ?n" if "j < length (xs @ [x])" "0 < j" for j using up_less [of j] that by simp
  have "ordered_but_up k (xs @ [x]) ?n" unfolding ordered_but_up_def
  proof (intro conjI allI impI)
    fix j assume j: "j < length (xs @ [x])" "0 < j \<and> j \<noteq> ?n"
    then show "k ((xs @ [x]) ! up j) \<le> k ((xs @ [x]) ! j)" using assms(2) u [of j] by (simp add: ordered_def nth_append)
  next
    fix j assume "j < length (xs @ [x])" "0 < ?n \<and> 0 < j \<and> up j = ?n"
    then show "k ((xs @ [x]) ! up ?n) \<le> k ((xs @ [x]) ! j)" using u [of j] by simp
  qed
  from walk_up_ordered [OF _ this] have w: "ordered k (walk_up k (xs @ [x]) ?n)" "mset (walk_up k (xs @ [x]) ?n) = add_mset x (mset xs)" by auto
  have nel: "uh_nelts (put_slot h2 sl y) = uh_nelts h2" for sl y by (cases sl) simp_all
  have "heap_insert (key_less k) h x = map_option Inr (sift_up (key_less k) ?h4 x)"
    unfolding heap_insert_def h1_def [symmetric] Let_def pj by (simp add: d nel flip: h2_def)
  then have "heap_insert (key_less k) h x = Some (Inr h')" using h'(1) by simp
  then show ?thesis using h'(2) w by blast
qed

lemma ordered_butlast: "ordered k xs \<Longrightarrow> ordered k (butlast xs)"
  unfolding ordered_def
proof (intro allI impI)
  fix j assume a: "\<forall>j<length xs. 0 < j \<longrightarrow> k (xs ! up j) \<le> k (xs ! j)" "j < length (butlast xs)" "0 < j"
  then show "k (butlast xs ! up j) \<le> k (butlast xs ! j)" using up_less [of j] by (simp add: nth_butlast)
qed

lemma ordered_replace:
  assumes "ordered k ys" "r < length ys"
  shows "ordered_around k (ys[r := c]) r"
  unfolding ordered_around_def
proof (intro conjI allI impI)
  fix j assume j: "j < length (ys[r := c])" "0 < j \<and> j \<noteq> r \<and> up j \<noteq> r"
  then show "k (ys[r := c] ! up j) \<le> k (ys[r := c] ! j)" using assms(1) by (simp add: ordered_def)
next
  fix j assume j: "j < length (ys[r := c])" "0 < r \<and> 0 < j \<and> up j = r"
  then have "r < j" "up r \<noteq> r" using up_less [of j] up_less [of r] by auto
  moreover have "k (ys ! up r) \<le> k (ys ! r)" "k (ys ! r) \<le> k (ys ! j)" using assms j by (auto simp: ordered_def)
  ultimately show "k (ys[r := c] ! up r) \<le> k (ys[r := c] ! j)" by simp
qed

lemma heap_remove_rep:
  assumes "heap_rep h xs" "ordered k xs" "x \<in> set xs"
  shows "\<exists>h' ys. heap_remove (key_less k) h x = Some (Inr h') \<and> heap_rep h' ys \<and> ordered k ys \<and> mset ys = mset xs - {#x#}"
proof -
  define n where "n = length xs - 1"
  have ne: "xs \<noteq> []" using assms(3) by auto
  have d: "distinct xs" "length xs < 2 ^ 32" and nel: "uh_nelts h = of_nat (length xs)" using assms(1) by (auto simp: heap_rep_def)
  have un: "unat (uh_nelts h) = length xs" unfolding nel using d(2) by (simp only: unat_of_nat word_size) simp
  then have n0: "uh_nelts h \<noteq> 0" using ne by auto
  obtain p j where pj: "path_loop 0 0 (uh_nelts h) = (p, j)" by fastforce
  obtain pa where ds: "descend h p j MinSlot MinSlot = Inr (pa, slot_of xs n)"
    unfolding n_def
    using descend_pos [OF assms(1) _ _ pj] un n0 by (simp add: word_neq_0_conv)
  define h1 where "h1 = h\<lparr>uh_nelts := uh_nelts h - 1\<rparr>"
  define c where "c = last xs"
  have g: "get_slot h1 (slot_of xs n) = Some c"
  proof -
    have "get_slot h1 (slot_of xs n) = get_slot h (slot_of xs n)" by (cases "slot_of xs n") (simp_all add: h1_def)
    then show ?thesis using get_slot_of [OF assms(1), of n] ne by (simp add: n_def at_def c_def last_conv_nth)
  qed
  define h2 where "h2 = put_slot h1 (slot_of xs n) None"
  let ?ys = "butlast xs"
  have r2: "heap_rep h2 ?ys" unfolding h2_def h1_def n_def by (rule heap_rep_unlink [OF assms(1) ne])
  have o2: "ordered k ?ys" by (rule ordered_butlast [OF assms(2)])
  have ms: "mset xs = add_mset c (mset ?ys)" using ne by (metis append_butlast_last_id c_def mset_append mset_single_iff_right union_mset_add_mset_right add.right_neutral mset.simps)
  have cn: "c \<notin> set ?ys" using d(1) ne by (metis append_butlast_last_id c_def distinct_append disjoint_iff list.set_intros(1))
  note unf = heap_remove_def Let_def pj
  show ?thesis
  proof (cases "c = x")
    case True
    have "uh_min h2 \<noteq> Some c" using r2 cn at_in by (auto simp: heap_rep_def)
    moreover have "heap_remove (key_less k) h x = Some (Inr (if uh_min h2 = Some c then h2\<lparr>uh_min := None\<rparr> else h2))"
      using n0 g True unfolding unf h2_def by (simp add: ds flip: h1_def)
    ultimately have "heap_remove (key_less k) h x = Some (Inr h2)" by simp
    then show ?thesis using r2 o2 ms True by auto
  next
    case False
    obtain r where r: "r < length ?ys" "?ys ! r = x"
      using assms(3) ms False by (metis in_set_conv_nth insert_iff set_mset_add_mset_insert set_mset_mset)
    have nr: "uh_node h2 x = node_at ?ys r" using heap_rep_node [OF r2 r(1)] r(2) by simp
    define h3 where "h3 = upd_node h2 c (\<lambda>_. uh_node h2 x)"
    define h4 where "h4 = set_parent h3 (hn_left (uh_node h3 c)) c"
    define h5 where "h5 = set_parent h4 (hn_right (uh_node h4 c)) c"
    define h6 where "h6 = relink h5 (hn_parent (uh_node h5 x)) x c"
    have rn: "replace_node h2 x c = h6" unfolding replace_node_def Let_def h6_def h5_def h4_def h3_def ..
    have lr: "hn_left (uh_node h3 c) = at ?ys (2 * r + 1)" "hn_right (uh_node h4 c) = at ?ys (2 * r + 2)"
      by (simp_all add: h3_def h4_def nr node_at_def)
    have xr: "at ?ys i = Some x \<longleftrightarrow> i = r" for i using at_eq_Some [OF distinct_butlast [OF d(1)] r(1)] r(2) by simp
    have "hn_parent (uh_node h5 x) = (if r = 0 then None else at ?ys (up r))"
      using False unfolding h5_def lr h4_def by (simp add: h3_def nr node_at_def xr)
    then have "heap_rep h6 (?ys[r := c])"
      using heap_rep_replace [OF r2 r(1) cn] lr(2) unfolding h6_def h5_def h4_def lr(1) r(2) h3_def [symmetric] by simp
    moreover have len: "r < length (?ys[r := c])" using r(1) by simp
    moreover obtain zs i where wd: "walk_down k (?ys[r := c]) r = (zs, i)" by fastforce
    ultimately obtain h7 where h7: "sift_down (key_less k) h6 c = Some h7" "heap_rep h7 zs" "i < length zs" "zs ! i = c"
      using sift_down_rep [of h6 "?ys[r := c]" r k zs i] r(1) by auto
    have wdo: "ordered_but_up k zs i" "mset zs = mset (?ys[r := c])"
      using walk_down_ordered [OF len ordered_replace [OF o2 r(1)] wd] by auto
    obtain h8 where h8: "sift_up (key_less k) h7 c = Some h8" "heap_rep h8 (walk_up k zs i)"
      using sift_up_rep [OF h7(2,3), of k] h7(4) by auto
    have "mset (?ys[r := c]) = mset xs - {#x#}" using r ms False by (simp add: mset_update)
    then have "ordered k (walk_up k zs i)" "mset (walk_up k zs i) = mset xs - {#x#}"
      using walk_up_ordered [OF h7(3) wdo(1)] wdo(2) by auto
    moreover have "heap_remove (key_less k) h x = Some (Inr h8)"
      using n0 g False h7(1) h8(1) unfolding unf
      by (simp add: ds rn flip: h1_def h2_def)
    ultimately show ?thesis using h8(2) by blast
  qed
qed

lemma ordered_root: "ordered k xs \<Longrightarrow> j < length xs \<Longrightarrow> k (xs ! 0) \<le> k (xs ! j)"
proof (induction j rule: less_induct)
  case (less j)
  show ?case
  proof (cases "j = 0")
    case False
    then have "k (xs ! up j) \<le> k (xs ! j)" "k (xs ! 0) \<le> k (xs ! up j)"
      using less up_less [of j] by (auto simp: ordered_def)
    then show ?thesis by simp
  qed simp
qed

lemma heap_min_rep:
  assumes "heap_rep h xs" "ordered k xs"
  shows "if xs = [] then heap_min h = None else \<exists>x\<in>set xs. heap_min h = Some x \<and> (\<forall>y\<in>set xs. k x \<le> k y)"
proof (cases xs)
  case (Cons x ys)
  then have m: "heap_min h = Some (xs ! 0)" using assms(1) by (simp add: heap_min_def heap_rep_def at_def)
  have "k (xs ! 0) \<le> k y" if "y \<in> set xs" for y
    using that ordered_root [OF assms(2)] by (metis in_set_conv_nth)
  moreover have "xs ! 0 \<in> set xs" "xs \<noteq> []" using Cons by simp_all
  ultimately show ?thesis using m by auto
qed (use assms in \<open>simp add: heap_min_def heap_rep_def at_def\<close>)

end
