(* ===== verification/UvHeapQueue.thy ===== *)
theory UvHeapQueue
  imports UvHeapOrder
begin

text \<open>
  The contract of a heap as the locale \<open>prio_heap\<close>: what a client may rely on, whatever the pointers do. The
  heap of libuv is its interpretation, and an executable specification of it is a sorted list.
\<close>

section \<open>The contract\<close>

text \<open>
  \<open>good k h A\<close>: the heap \<open>h\<close> holds the elements \<open>A\<close>, ordered by the keys \<open>k\<close>. The operations take the
  comparison as an argument, so a client may change the key of an element that is not in the heap.
\<close>

locale prio_heap =
  fixes good :: "('x \<Rightarrow> 'k::linorder) \<Rightarrow> 'h \<Rightarrow> 'x set \<Rightarrow> bool"
    and ins :: "('x \<Rightarrow> 'x \<Rightarrow> bool) \<Rightarrow> 'h \<Rightarrow> 'x \<Rightarrow> 'h exec option"
    and rem :: "('x \<Rightarrow> 'x \<Rightarrow> bool) \<Rightarrow> 'h \<Rightarrow> 'x \<Rightarrow> 'h exec option"
    and mn :: "'h \<Rightarrow> 'x option"
    and room :: nat
  assumes good_finite: "good k h A \<Longrightarrow> finite A"
    and good_cong: "good k h A \<Longrightarrow> \<forall>x\<in>A. k' x = k x \<Longrightarrow> good k' h A"
    and ins_good: "good k h A \<Longrightarrow> x \<notin> A \<Longrightarrow> Suc (card A) < room \<Longrightarrow>
      \<exists>h'. ins (key_less k) h x = Some (Inr h') \<and> good k h' (insert x A)"
    and rem_good: "good k h A \<Longrightarrow> x \<in> A \<Longrightarrow> \<exists>h'. rem (key_less k) h x = Some (Inr h') \<and> good k h' (A - {x})"
    and mn_good: "good k h A \<Longrightarrow>
      if A = {} then mn h = None else \<exists>x\<in>A. mn h = Some x \<and> (\<forall>y\<in>A. k x \<le> k y)"
begin

lemma mn_None: "good k h A \<Longrightarrow> mn h = None \<longleftrightarrow> A = {}"
  using mn_good [of k h A] by (auto split: if_splits)

lemma mn_Some: "good k h A \<Longrightarrow> mn h = Some x \<Longrightarrow> x \<in> A \<and> (\<forall>y\<in>A. k x \<le> k y)"
  using mn_good [of k h A] by (auto split: if_splits)

text \<open>An element that enters with a new key.\<close>

lemma ins_rekeyed:
  assumes "good k h A" "x \<notin> A" "Suc (card A) < room" "\<forall>y\<in>A. k' y = k y"
  shows "\<exists>h'. ins (key_less k') h x = Some (Inr h') \<and> good k' h' (insert x A)"
  by (rule ins_good [OF good_cong [OF assms(1,4)] assms(2,3)])

text \<open>With distinct keys the minimum is the head of the sorted list of the elements.\<close>

lemma mn_sorted_list:
  assumes "good k h (set xs)" "sorted_wrt (\<lambda>x y. k x < k y) xs"
  shows "mn h = (case xs of [] \<Rightarrow> None | x # _ \<Rightarrow> Some x)"
proof (cases xs)
  case Nil
  then show ?thesis using mn_None [OF assms(1)] by simp
next
  case (Cons x ys)
  then obtain y where y: "mn h = Some y" using mn_None [OF assms(1)] by auto
  then have "y \<in> set xs" "k y \<le> k x" using mn_Some [OF assms(1) y] Cons by auto
  then have "y = x" using assms(2) Cons by auto
  then show ?thesis using y Cons by simp
qed

end

section \<open>The heap of libuv keeps it\<close>

definition good_heap :: "(nat \<Rightarrow> 'k::linorder) \<Rightarrow> uv_heap \<Rightarrow> nat set \<Rightarrow> bool" where
  "good_heap k h A \<longleftrightarrow> (\<exists>xs. heap_rep h xs \<and> ordered k xs \<and> set xs = A)"

lemma heap_rep_distinct: "heap_rep h xs \<Longrightarrow> distinct xs"
  by (simp add: heap_rep_def)

interpretation uvq: prio_heap good_heap heap_insert heap_remove heap_min "2 ^ 32"
proof unfold_locales
  fix k :: "nat \<Rightarrow> 'k::linorder" and h A assume g: "good_heap k h A"
  then obtain xs where xs: "heap_rep h xs" "ordered k xs" "set xs = A" by (auto simp: good_heap_def)
  have card: "card A = length xs" using heap_rep_distinct [OF xs(1)] xs(3) by (simp flip: distinct_card)
  show "finite A" using xs(3) by auto
  show "good_heap k' h A" if "\<forall>x\<in>A. k' x = k x" for k' :: "nat \<Rightarrow> 'k"
  proof -
    have "ordered k' xs" using xs(2,3) that up_less by (auto simp: ordered_def) (metis nth_mem less_trans)
    then show ?thesis using xs(1,3) by (auto simp: good_heap_def)
  qed
  show "\<exists>h'. heap_insert (key_less k) h x = Some (Inr h') \<and> good_heap k h' (insert x A)"
    if x: "x \<notin> A" "Suc (card A) < 2 ^ 32" for x
  proof -
    obtain h' ys where "heap_insert (key_less k) h x = Some (Inr h')" "heap_rep h' ys" "ordered k ys" "mset ys = add_mset x (mset xs)"
      using heap_insert_rep [OF xs(1,2), of x] x xs(3) card by auto
    moreover from this(4) have "set ys = insert x A" using xs(3) by (metis set_mset_add_mset_insert set_mset_mset)
    ultimately show ?thesis by (auto simp: good_heap_def)
  qed
  show "\<exists>h'. heap_remove (key_less k) h x = Some (Inr h') \<and> good_heap k h' (A - {x})" if x: "x \<in> A" for x
  proof -
    obtain h' ys where o: "heap_remove (key_less k) h x = Some (Inr h')" "heap_rep h' ys" "ordered k ys" "mset ys = mset xs - {#x#}"
      using heap_remove_rep [OF xs(1,2), of x] x xs(3) by auto
    have "mset ys = mset (remove1 x xs)" using o(4) by simp
    then have "set ys = A - {x}" using heap_rep_distinct [OF xs(1)] xs(3) by (metis mset_eq_setD set_remove1_eq)
    then show ?thesis using o by (auto simp: good_heap_def)
  qed
  show "if A = {} then heap_min h = None else \<exists>x\<in>A. heap_min h = Some x \<and> (\<forall>y\<in>A. k x \<le> k y)"
    using heap_min_rep [OF xs(1,2)] xs(3) by (auto split: if_splits)
qed

lemma good_heap_init: "good_heap k (heap_init h) {}"
  by (auto simp: good_heap_def heap_rep_def heap_init_def at_def ordered_def intro: exI [of _ "[]"])

lemma good_heap_nelts: "good_heap k h A \<Longrightarrow> uh_nelts h = of_nat (card A) \<and> card A < 2 ^ 32"
  by (auto simp: good_heap_def heap_rep_def distinct_card)

lemma good_heap_dequeue:
  assumes "good_heap k h A" "A \<noteq> {}"
  shows "\<exists>h' x. heap_dequeue (key_less k) h = Some (Inr h') \<and> heap_min h = Some x \<and> good_heap k h' (A - {x})"
proof -
  obtain x where x: "heap_min h = Some x" using uvq.mn_None [OF assms(1)] assms(2) by auto
  then have "x \<in> A" using uvq.mn_Some [OF assms(1)] by blast
  then show ?thesis using uvq.rem_good [OF assms(1)] x by (auto simp: heap_dequeue_def heap_min_def)
qed

section \<open>A sorted list as its specification\<close>

datatype heap_op = HeapInsert nat | HeapRemove nat | HeapDequeue

fun heap_op_run :: "(nat \<Rightarrow> nat \<Rightarrow> bool) \<Rightarrow> uv_heap \<Rightarrow> heap_op \<Rightarrow> uv_heap exec option" where
  "heap_op_run lt h (HeapInsert x) = heap_insert lt h x"
| "heap_op_run lt h (HeapRemove x) = heap_remove lt h x"
| "heap_op_run lt h HeapDequeue = heap_dequeue lt h"

fun heap_ops_run :: "(nat \<Rightarrow> nat \<Rightarrow> bool) \<Rightarrow> uv_heap \<Rightarrow> heap_op list \<Rightarrow> uv_heap exec option" where
  "heap_ops_run lt h [] = Some (Inr h)"
| "heap_ops_run lt h (c # cs) =
     (case heap_op_run lt h c of None \<Rightarrow> None | Some (Inl e) \<Rightarrow> Some (Inl e) | Some (Inr h1) \<Rightarrow> heap_ops_run lt h1 cs)"

text \<open>The calls a client may make, and what they mean: a node enters once, and leaves only if it is there.\<close>

fun sorted_op :: "(nat \<Rightarrow> 'k::linorder) \<Rightarrow> nat list \<Rightarrow> heap_op \<Rightarrow> nat list option" where
  "sorted_op k xs (HeapInsert x) = (if x \<in> set xs \<or> 2 ^ 32 \<le> Suc (length xs) then None else Some (insort_key k x xs))"
| "sorted_op k xs (HeapRemove x) = (if x \<in> set xs then Some (remove1 x xs) else None)"
| "sorted_op k xs HeapDequeue = Some (tl xs)"

fun sorted_ops :: "(nat \<Rightarrow> 'k::linorder) \<Rightarrow> nat list \<Rightarrow> heap_op list \<Rightarrow> nat list option" where
  "sorted_ops k xs [] = Some xs"
| "sorted_ops k xs (c # cs) = (case sorted_op k xs c of None \<Rightarrow> None | Some ys \<Rightarrow> sorted_ops k ys cs)"

definition holds_sorted :: "(nat \<Rightarrow> 'k::linorder) \<Rightarrow> uv_heap \<Rightarrow> nat list \<Rightarrow> bool" where
  "holds_sorted k h xs \<longleftrightarrow> good_heap k h (set xs) \<and> sorted_wrt (\<lambda>x y. k x < k y) xs"

lemma sorted_wrt_distinct: "sorted_wrt (\<lambda>x y. (k x :: 'k::linorder) < k y) xs \<Longrightarrow> distinct xs"
  by (induction xs) auto

lemma sorted_wrt_insort:
  "sorted_wrt (\<lambda>x y. (k x :: 'k::linorder) < k y) xs \<Longrightarrow> k x \<notin> k ` set xs \<Longrightarrow> sorted_wrt (\<lambda>x y. k x < k y) (insort_key k x xs)"
  by (induction xs) (auto simp: set_insort_key)

lemma sorted_wrt_remove1: "sorted_wrt P xs \<Longrightarrow> sorted_wrt P (remove1 x xs)"
  by (induction xs) (auto dest: notin_set_remove1)

lemma heap_op_refines:
  assumes "inj k" "holds_sorted k h xs" "sorted_op k xs c = Some ys"
  shows "\<exists>h'. heap_op_run (key_less k) h c = Some (Inr h') \<and> holds_sorted k h' ys"
proof -
  have g: "good_heap k h (set xs)" and s: "sorted_wrt (\<lambda>x y. k x < k y) xs"
    using assms(2) by (simp_all add: holds_sorted_def)
  have d: "distinct xs" by (rule sorted_wrt_distinct [OF s])
  show ?thesis
  proof (cases c)
    case (HeapInsert x)
    then have x: "x \<notin> set xs" "Suc (length xs) < 2 ^ 32" "ys = insort_key k x xs" using assms(3) by (auto split: if_splits)
    then have "k x \<notin> k ` set xs" using injD [OF assms(1)] by auto
    then have "sorted_wrt (\<lambda>x y. k x < k y) ys" using sorted_wrt_insort [OF s] x(3) by simp
    then show ?thesis using uvq.ins_good [OF g x(1)] x(2,3) d HeapInsert
      by (auto simp: holds_sorted_def distinct_card set_insort_key)
  next
    case (HeapRemove x)
    then have x: "x \<in> set xs" "ys = remove1 x xs" using assms(3) by (auto split: if_splits)
    then show ?thesis using uvq.rem_good [OF g x(1)] sorted_wrt_remove1 [OF s] d HeapRemove
      by (auto simp: holds_sorted_def)
  next
    case HeapDequeue
    show ?thesis
    proof (cases xs)
      case Nil
      then have "uh_nelts h = 0" "uh_min h = None" using good_heap_nelts [OF g] uvq.mn_None [OF g] by (auto simp: heap_min_def)
      then show ?thesis using Nil assms(2,3) HeapDequeue by (auto simp: heap_dequeue_def)
    next
      case (Cons x zs)
      then have "heap_min h = Some x" using uvq.mn_sorted_list [OF g s] by simp
      moreover have "set xs - {x} = set zs" using Cons d by auto
      ultimately show ?thesis using good_heap_dequeue [OF g] assms(3) Cons s HeapDequeue by (auto simp: holds_sorted_def)
    qed
  qed
qed

lemma heap_ops_refine:
  "inj k \<Longrightarrow> holds_sorted k h xs \<Longrightarrow> sorted_ops k xs cs = Some ys \<Longrightarrow>
    \<exists>h'. heap_ops_run (key_less k) h cs = Some (Inr h') \<and> holds_sorted k h' ys"
proof (induction cs arbitrary: h xs)
  case (Cons c cs)
  obtain zs where zs: "sorted_op k xs c = Some zs" "sorted_ops k zs cs = Some ys"
    using Cons.prems(3) by (auto split: option.splits)
  show ?case using heap_op_refines [OF Cons.prems(1,2) zs(1)] Cons.IH [OF Cons.prems(1) _ zs(2)] by auto
qed simp

end
