(* ===== verification/UvTimerInv.thy ===== *)
theory UvTimerInv
  imports UvTimer UvHeapQueue
begin

text \<open>
  The invariant of the timers of a loop and what each call does to it. The heap is used through the contract
  \<open>prio_heap\<close> only.
\<close>

section \<open>Invariant\<close>

definition tkey :: "uv_loop \<Rightarrow> nat \<Rightarrow> u64 \<times> u64" where
  "tkey l x = (ut_timeout (ul_timer l x), ut_start_id (ul_timer l x))"

definition active_set :: "uv_loop \<Rightarrow> nat set" where
  "active_set l = {x. ut_active (ul_timer l x)}"

text \<open>The handles whose closing is not finished: the list \<open>P\<close> that the loop is working on, and the new ones.\<close>

definition closing_ok :: "nat list \<Rightarrow> uv_loop \<Rightarrow> bool" where
  "closing_ok P l \<longleftrightarrow> distinct (P @ ul_closing l) \<and>
     set (P @ ul_closing l) = {x. ut_closing (ul_timer l x) \<and> \<not> ut_closed (ul_timer l x)}"

definition timers_ok :: "nat set \<Rightarrow> nat list \<Rightarrow> uv_loop \<Rightarrow> bool" where
  "timers_ok T P l \<longleftrightarrow> finite T \<and> card T < 2 ^ 32 \<and> active_set l \<subseteq> T \<and>
     good_heap (tkey l) (ul_heap l) (active_set l) \<and>
     (\<forall>x\<in>active_set l. ut_cb (ul_timer l x) \<noteq> None) \<and>
     ul_active l = of_nat (card {x \<in> active_set l. ut_ref (ul_timer l x)}) \<and> closing_ok P l"

lemma timer_less_than_key: "timer_less_than l = key_less (tkey l)"
  by (rule ext)+ (auto simp: timer_less_than_def key_less_def tkey_def less_prod_def Let_def)

lemma upd_timer_fields [simp]:
  "ul_timer (upd_timer l x f) = (ul_timer l)(x := f (ul_timer l x))"
  "ul_time (upd_timer l x f) = ul_time l" "ul_counter (upd_timer l x f) = ul_counter l"
  "ul_heap (upd_timer l x f) = ul_heap l" "ul_active (upd_timer l x f) = ul_active l"
  "ul_closing (upd_timer l x f) = ul_closing l" "ul_stop (upd_timer l x f) = ul_stop l"
  "ul_fired (upd_timer l x f) = ul_fired l" "ul_tick (upd_timer l x f) = ul_tick l"
  by (simp_all add: upd_timer_def)

text \<open>The fields no operation on the heap of timers changes.\<close>

definition same_rest :: "uv_loop \<Rightarrow> uv_loop \<Rightarrow> bool" where
  "same_rest l l' \<longleftrightarrow> ul_time l' = ul_time l \<and> ul_closing l' = ul_closing l \<and> ul_stop l' = ul_stop l \<and> ul_fired l' = ul_fired l \<and>
     ul_tick l' = ul_tick l"

lemma same_rest_refl [simp]: "same_rest l l"
  by (simp add: same_rest_def)

lemma same_rest_trans [trans]: "same_rest l l1 \<Longrightarrow> same_rest l1 l2 \<Longrightarrow> same_rest l l2"
  by (simp add: same_rest_def)

lemma closing_ok_cong:
  "closing_ok P l \<Longrightarrow> ul_closing l' = ul_closing l \<Longrightarrow>
    \<forall>x. ut_closing (ul_timer l' x) = ut_closing (ul_timer l x) \<and> ut_closed (ul_timer l' x) = ut_closed (ul_timer l x) \<Longrightarrow>
    closing_ok P l'"
  by (simp add: closing_ok_def)

lemma active_finite: "timers_ok T P l \<Longrightarrow> finite (active_set l)"
  by (auto simp: timers_ok_def dest: finite_subset)

text \<open>A handle that enters or leaves a set of referenced active handles.\<close>

lemma of_nat_card_insert: "finite A \<Longrightarrow> x \<notin> A \<Longrightarrow> (of_nat (card (insert x A)) :: u32) = of_nat (card A) + 1"
  by simp

lemma of_nat_card_remove: "finite A \<Longrightarrow> x \<in> A \<Longrightarrow> (of_nat (card (A - {x})) :: u32) = of_nat (card A) - 1"
  by (metis add_diff_cancel_right' card.remove of_nat_Suc add.commute)

section \<open>Stopping\<close>

lemma stop_ok:
  assumes "timers_ok T P l"
  shows "\<exists>l'. uv_timer_stop l x = xret (0, l') \<and> timers_ok T P l' \<and> same_rest l l' \<and> ul_counter l' = ul_counter l \<and>
    ul_timer l' = (ul_timer l)(x := (ul_timer l x)\<lparr>ut_active := False\<rparr>)"
proof (cases "ut_active (ul_timer l x)")
  case False
  then have "(ul_timer l)(x := (ul_timer l x)\<lparr>ut_active := False\<rparr>) = ul_timer l" by (intro ext) simp
  then show ?thesis using False assms by (simp add: uv_timer_stop_def)
next
  case True
  let ?A = "active_set l" and ?R = "{y \<in> active_set l. ut_ref (ul_timer l y)}"
  have x: "x \<in> ?A" using True by (simp add: active_set_def)
  have g: "good_heap (tkey l) (ul_heap l) ?A" using assms by (simp add: timers_ok_def)
  obtain h where h: "heap_remove (timer_less_than l) (ul_heap l) x = xret h" "good_heap (tkey l) h (?A - {x})"
    using uvq.rem_good [OF g x] by (auto simp: timer_less_than_key)
  define l' where "l' = timer_handle_stop (l\<lparr>ul_heap := h\<rparr>) x"
  have t: "ul_timer l' = (ul_timer l)(x := (ul_timer l x)\<lparr>ut_active := False\<rparr>)"
    and f: "ul_heap l' = h" "same_rest l l'" "ul_counter l' = ul_counter l"
    and a: "ul_active l' = (if ut_ref (ul_timer l x) then ul_active l - 1 else ul_active l)"
    using True by (simp_all add: l'_def timer_handle_stop_def Let_def same_rest_def)
  have A: "active_set l' = ?A - {x}" by (auto simp: active_set_def t)
  have "tkey l' y = tkey l y" for y by (simp add: tkey_def t)
  then have "good_heap (tkey l') h (?A - {x})" by (intro uvq.good_cong [OF h(2)]) simp
  moreover have "{y \<in> ?A - {x}. ut_ref (ul_timer l' y)} = ?R - {x}" by (auto simp: t)
  moreover have "of_nat (card (?R - {x})) = (if ut_ref (ul_timer l x) then of_nat (card ?R) - 1 else of_nat (card ?R) :: u32)"
  proof (cases "ut_ref (ul_timer l x)")
    case True
    then show ?thesis using of_nat_card_remove [of ?R x] x active_finite [OF assms] by simp
  next
    case False
    then have "?R - {x} = ?R" by auto
    then show ?thesis using False by simp
  qed
  moreover have "closing_ok P l"  using assms by (simp add: timers_ok_def)
  then have "closing_ok P l'" by (rule closing_ok_cong) (use f(2) in \<open>simp_all add: same_rest_def t\<close>)
  moreover have "\<forall>y\<in>?A - {x}. ut_cb (ul_timer l' y) \<noteq> None" using assms by (auto simp: timers_ok_def t)
  ultimately have "timers_ok T P l'" using assms a unfolding timers_ok_def A f(1) by auto
  then show ?thesis using True h(1) t f by (auto simp: uv_timer_stop_def l'_def [symmetric])
qed

section \<open>Starting\<close>

definition clamp :: "u64 \<Rightarrow> u64 \<Rightarrow> u64" where
  "clamp now t = (if now + t < t then -1 else now + t)"

lemma unat_max64: "unat (-1 :: u64) = 2 ^ 64 - 1"
  by (simp only: unsigned_minus_1_eq_mask mask_eq_exp_minus_1) simp

lemma unat_clamp: "unat (clamp now t) = min (unat now + unat t) (2 ^ 64 - 1)"
proof (cases "unat now + unat t < 2 ^ 64")
  case True
  then have "unat (now + t) = unat now + unat t" by (simp add: unat_word_ariths)
  then show ?thesis using True by (simp add: clamp_def word_less_nat_alt)
next
  case False
  have b: "unat now < 2 ^ 64" "unat t < 2 ^ 64" using unsigned_less [of now] unsigned_less [of t] by simp_all
  then have "unat (now + t) = unat now + unat t - 2 ^ 64"
    using False by (simp add: unat_word_ariths mod_if)
  then have "now + t < t" using b False by (simp add: word_less_nat_alt)
  then show ?thesis using False by (simp add: clamp_def unat_max64)
qed

lemma clamp_later: "now < -1 \<Longrightarrow> 0 < t \<Longrightarrow> now < clamp now t"
  by (auto simp: word_less_nat_alt unat_clamp unat_max64)

definition started :: "uv_loop \<Rightarrow> nat \<Rightarrow> nat \<Rightarrow> u64 \<Rightarrow> u64 \<Rightarrow> uv_timer" where
  "started l x c t r = (ul_timer l x)\<lparr>ut_cb := Some c, ut_timeout := clamp (ul_time l) t, ut_repeat := r,
     ut_start_id := ul_counter l, ut_active := True\<rparr>"

lemma start_ok:
  assumes "timers_ok T P l" "x \<in> T"
  shows "\<exists>l'. uv_timer_start l x (Some c) t r = xret (0, l') \<and> timers_ok T P l' \<and> same_rest l l' \<and>
    ul_counter l' = ul_counter l + 1 \<and> ul_timer l' = (ul_timer l)(x := started l x c t r)"
proof -
  obtain l1 where l1: "(if ut_active (ul_timer l x) then uv_timer_stop l x else xret (0, l)) = xret (0, l1)"
    "timers_ok T P l1" "same_rest l l1" "ul_counter l1 = ul_counter l"
    "ul_timer l1 = (ul_timer l)(x := (ul_timer l x)\<lparr>ut_active := False\<rparr>)"
  proof (cases "ut_active (ul_timer l x)")
    case True
    then show ?thesis using stop_ok [OF assms(1), of x] that by auto
  next
    case False
    then have "(ul_timer l)(x := (ul_timer l x)\<lparr>ut_active := False\<rparr>) = ul_timer l" by (intro ext) simp
    then show ?thesis using False assms(1) that [of l] by simp
  qed
  let ?A = "active_set l1" and ?R = "{y \<in> active_set l1. ut_ref (ul_timer l1 y)}"
  have xA: "x \<notin> ?A" by (simp add: active_set_def l1(5))
  define l3 where "l3 = (upd_timer l1 x (\<lambda>u. u\<lparr>ut_cb := Some c, ut_timeout := clamp (ul_time l1) t, ut_repeat := r,
    ut_start_id := ul_counter l1\<rparr>))\<lparr>ul_counter := ul_counter l1 + 1\<rparr>"
  have "?A \<subset> T" "finite T" using assms(2) xA l1(2) by (auto simp: timers_ok_def)
  then have "Suc (card ?A) \<le> card T" by (simp add: psubset_card_mono Suc_leI)
  then have room: "Suc (card ?A) < 2 ^ 32" using assms(1) by (simp add: timers_ok_def)
  have "\<forall>y\<in>?A. tkey l3 y = tkey l1 y" using xA by (auto simp: tkey_def l3_def)
  moreover have "good_heap (tkey l1) (ul_heap l1) ?A" using l1(2) by (simp add: timers_ok_def)
  ultimately obtain h where h: "heap_insert (timer_less_than l3) (ul_heap l1) x = xret h" "good_heap (tkey l3) h (insert x ?A)"
    using uvq.ins_rekeyed [of "tkey l1" "ul_heap l1" ?A x "tkey l3"] xA room unfolding timer_less_than_key by blast
  define l' where "l' = timer_handle_start (l3\<lparr>ul_heap := h\<rparr>) x"
  have na: "\<not> ut_active (ul_timer l3 x)" using l1(5) by (simp add: l3_def)
  have t: "ul_timer l' = (ul_timer l)(x := started l x c t r)"
    using na l1(3-5) by (simp add: l'_def timer_handle_start_def Let_def l3_def started_def same_rest_def)
  have f: "ul_heap l' = h" "same_rest l l'" "ul_counter l' = ul_counter l + 1"
    using na l1(3,4) by (simp_all add: l'_def timer_handle_start_def Let_def l3_def same_rest_def)
  have a: "ul_active l' = (if ut_ref (ul_timer l x) then ul_active l1 + 1 else ul_active l1)"
    using na l1(5) by (simp add: l'_def timer_handle_start_def Let_def l3_def)
  have A: "active_set l' = insert x ?A" by (auto simp: active_set_def t l1(5) started_def)
  have "tkey l' y = tkey l3 y" for y using l1(3-5) by (simp add: tkey_def t l3_def started_def same_rest_def)
  then have "good_heap (tkey l') h (insert x ?A)" by (intro uvq.good_cong [OF h(2)]) simp
  moreover have "{y \<in> insert x ?A. ut_ref (ul_timer l' y)} = (if ut_ref (ul_timer l x) then insert x ?R else ?R)"
    using xA by (auto simp: t l1(5) started_def)
  moreover have "of_nat (card (insert x ?R)) = (of_nat (card ?R) + 1 :: u32)"
    using xA active_finite [OF l1(2)] by (intro of_nat_card_insert) auto
  moreover have "closing_ok P l"  using assms(1) by (simp add: timers_ok_def)
  then have "closing_ok P l'" by (rule closing_ok_cong) (use f(2) in \<open>simp_all add: same_rest_def t started_def\<close>)
  moreover have "\<forall>y\<in>insert x ?A. ut_cb (ul_timer l' y) \<noteq> None" using l1(2,5) by (auto simp: timers_ok_def t started_def)
  ultimately have "timers_ok T P l'" using assms(2) l1(2) a unfolding timers_ok_def A f(1) by auto
  moreover have "uv_timer_start l x (Some c) t r = xret (0, l')"
    using h(1) unfolding uv_timer_start_def l1(1) by (simp add: Let_def l'_def l3_def clamp_def)
  ultimately show ?thesis using t f by blast
qed

lemma start_null: "uv_timer_start l x None t r = xret (TIMER_EINVAL, l)"
  by (simp add: uv_timer_start_def)

lemma again_ok:
  assumes "timers_ok T P l" "x \<in> T"
  shows "\<exists>e l'. uv_timer_again l x = xret (e, l') \<and> timers_ok T P l' \<and> same_rest l l' \<and>
    (case ut_cb (ul_timer l x) of
       Some c \<Rightarrow> if ut_repeat (ul_timer l x) = 0 then e = 0 \<and> l' = l
         else e = 0 \<and> ul_timer l' = (ul_timer l)(x := started l x c (ut_repeat (ul_timer l x)) (ut_repeat (ul_timer l x)))
     | None \<Rightarrow> e = TIMER_EINVAL \<and> l' = l)"
proof (cases "ut_cb (ul_timer l x)")
  case None
  then show ?thesis using assms(1) by (simp add: uv_timer_again_def)
next
  case (Some c)
  let ?r = "ut_repeat (ul_timer l x)"
  show ?thesis
  proof (cases "?r = 0")
    case True
    then show ?thesis using assms(1) Some by (simp add: uv_timer_again_def)
  next
    case False
    obtain l1 where l1: "uv_timer_stop l x = xret (0, l1)" "timers_ok T P l1" "same_rest l l1" "ul_counter l1 = ul_counter l"
      "ul_timer l1 = (ul_timer l)(x := (ul_timer l x)\<lparr>ut_active := False\<rparr>)"
      using stop_ok [OF assms(1), of x] by blast
    obtain l2 where l2: "uv_timer_start l1 x (Some c) ?r ?r = xret (0, l2)" "timers_ok T P l2" "same_rest l1 l2"
      "ul_timer l2 = (ul_timer l1)(x := started l1 x c ?r ?r)"
      using start_ok [OF l1(2) assms(2), of c ?r ?r] by blast
    have "started l1 x c ?r ?r = started l x c ?r ?r" using l1(3-5) by (simp add: started_def same_rest_def)
    then have "ul_timer l2 = (ul_timer l)(x := started l x c ?r ?r)" using l2(4) l1(5) by simp
    moreover have "uv_timer_again l x = xret (0, l2)" using False Some l1(1,5) l2(1) by (simp add: uv_timer_again_def)
    ultimately show ?thesis using False Some l2(2) same_rest_trans [OF l1(3) l2(3)] by auto
  qed
qed

end
