(* ===== verification/UvTimerRun.thy ===== *)
theory UvTimerRun
  imports UvTimerInv
begin

text \<open>
  Calls and callbacks keep the invariant; what they do to the timers that are due, and what
  \<open>uv__run_timers\<close> makes of it.
\<close>

section \<open>One call\<close>

text \<open>
  What a program must not do: initialise a timer that is running or whose closing is not finished, start or close
  one that is not its own, close a timer twice.
\<close>

fun legal_call :: "nat set \<Rightarrow> uv_loop \<Rightarrow> timer_call \<Rightarrow> bool" where
  "legal_call T l (TimerInit x) \<longleftrightarrow>
     \<not> ut_active (ul_timer l x) \<and> \<not> (ut_closing (ul_timer l x) \<and> \<not> ut_closed (ul_timer l x))"
| "legal_call T l (TimerStart x cb t r) \<longleftrightarrow> x \<in> T"
| "legal_call T l (TimerAgain x) \<longleftrightarrow> x \<in> T"
| "legal_call T l (TimerClose x) \<longleftrightarrow> \<not> ut_closing (ul_timer l x) \<and> \<not> ut_closed (ul_timer l x)"
| "legal_call T l c \<longleftrightarrow> True"

fun call_target :: "timer_call \<Rightarrow> nat option" where
  "call_target (TimerInit x) = Some x"
| "call_target (TimerStart x cb t r) = Some x"
| "call_target (TimerStop x) = Some x"
| "call_target (TimerAgain x) = Some x"
| "call_target (TimerSetRepeat x r) = Some x"
| "call_target (TimerRef x) = Some x"
| "call_target (TimerUnref x) = Some x"
| "call_target (TimerClose x) = Some x"
| "call_target LoopStop = None"

text \<open>A call that starts a timer for the current millisecond makes it due at once.\<close>

fun positive_start :: "timer_call \<Rightarrow> bool" where
  "positive_start (TimerStart x cb t r) \<longleftrightarrow> cb = None \<or> t > 0"
| "positive_start c \<longleftrightarrow> True"

definition due :: "uv_loop \<Rightarrow> nat set" where
  "due l = {x \<in> active_set l. ut_timeout (ul_timer l x) \<le> ul_time l}"

text \<open>Timers stop being due, and those that still are have not been touched.\<close>

definition shrinks :: "uv_loop \<Rightarrow> uv_loop \<Rightarrow> bool" where
  "shrinks l l' \<longleftrightarrow> due l' \<subseteq> due l \<and>
     (\<forall>x\<in>due l'. tkey l' x = tkey l x \<and> ut_cb (ul_timer l' x) = ut_cb (ul_timer l x))"

lemma shrinks_refl [simp]: "shrinks l l"
  by (simp add: shrinks_def)

lemma shrinks_trans: "shrinks l l1 \<Longrightarrow> shrinks l1 l2 \<Longrightarrow> shrinks l l2"
  by (auto simp: shrinks_def)

text \<open>Only the timer \<open>x\<close> changes, and it is not due afterwards or as it was.\<close>

lemma shrinks_upd:
  assumes "ul_timer l' = (ul_timer l)(x := u)" "ul_time l' = ul_time l"
    and "ut_active u \<Longrightarrow> ut_timeout u \<le> ul_time l \<Longrightarrow>
      ut_active (ul_timer l x) \<and> ut_timeout u = ut_timeout (ul_timer l x) \<and>
      ut_start_id u = ut_start_id (ul_timer l x) \<and> ut_cb u = ut_cb (ul_timer l x)"
  shows "shrinks l l'"
  using assms by (auto simp: shrinks_def due_def active_set_def tkey_def)

lemma timers_ok_upd:
  assumes "timers_ok T P l" "ul_timer l' = (ul_timer l)(x := u)" "ul_heap l' = ul_heap l"
    and "ut_active u = ut_active (ul_timer l x)" "ut_active u \<Longrightarrow> ut_timeout u = ut_timeout (ul_timer l x)"
    and "ut_active u \<Longrightarrow> ut_start_id u = ut_start_id (ul_timer l x)" "ut_active u \<Longrightarrow> ut_cb u = ut_cb (ul_timer l x)"
    and "ul_active l' = (if ut_active u \<and> ut_ref u \<and> \<not> ut_ref (ul_timer l x) then ul_active l + 1
       else if ut_active u \<and> \<not> ut_ref u \<and> ut_ref (ul_timer l x) then ul_active l - 1 else ul_active l)"
    and "closing_ok P' l'"
  shows "timers_ok T P' l'"
proof -
  let ?R = "{y \<in> active_set l. ut_ref (ul_timer l y)}"
  have A: "active_set l' = active_set l" using assms(2,4) by (auto simp: active_set_def)
  have g: "good_heap (tkey l) (ul_heap l) (active_set l)" using assms(1) by (simp add: timers_ok_def)
  have "good_heap (tkey l') (ul_heap l) (active_set l)"
    by (rule uvq.good_cong [OF g]) (use assms(2,4-6) in \<open>auto simp: tkey_def active_set_def\<close>)
  moreover have "{y \<in> active_set l. ut_ref (ul_timer l' y)} =
    (if ut_active u \<and> ut_ref u then insert x ?R else ?R - {x})"
    using assms(2,4) by (auto simp: active_set_def)
  moreover have "finite ?R" "ut_active u \<Longrightarrow> x \<in> ?R \<longleftrightarrow> ut_ref (ul_timer l x)" "\<not> ut_active u \<Longrightarrow> x \<notin> ?R"
    using active_finite [OF assms(1)] assms(4) by (auto simp: active_set_def)
  moreover have "ul_active l = of_nat (card ?R)" using assms(1) by (simp add: timers_ok_def)
  ultimately have "ul_active l' = of_nat (card {y \<in> active_set l. ut_ref (ul_timer l' y)})"
    using assms(8) of_nat_card_insert [of ?R x] of_nat_card_remove [of ?R x]
    by (cases "ut_active u"; cases "ut_ref u"; cases "x \<in> ?R") (simp_all add: insert_absorb)
  moreover have "\<forall>y\<in>active_set l. ut_cb (ul_timer l' y) \<noteq> None"
    using assms(1,2,4,7) by (auto simp: timers_ok_def active_set_def)
  ultimately show ?thesis
    using assms(1,3,9) \<open>good_heap (tkey l') (ul_heap l) (active_set l)\<close> unfolding timers_ok_def A by simp
qed

lemma timers_ok_same:
  assumes "timers_ok T P l" "ul_timer l' = ul_timer l" "ul_heap l' = ul_heap l" "ul_active l' = ul_active l" "closing_ok P' l'"
  shows "timers_ok T P' l'"
proof -
  have "tkey l' = tkey l" "active_set l' = active_set l" by (auto simp: tkey_def active_set_def assms(2))
  then show ?thesis using assms by (simp add: timers_ok_def)
qed

lemma closing_ok_timers_ok: "timers_ok T P l \<Longrightarrow> closing_ok P l"
  by (simp add: timers_ok_def)

text \<open>What a legal call does: it returns, keeps the invariant, the time and the history, and touches one timer.\<close>

definition step_fine :: "nat set \<Rightarrow> nat list \<Rightarrow> uv_loop \<Rightarrow> nat option \<Rightarrow> uv_loop \<Rightarrow> bool" where
  "step_fine T P l x l' \<longleftrightarrow> timers_ok T P l' \<and> ul_time l' = ul_time l \<and> ul_fired l' = ul_fired l \<and>
     (\<forall>y. x \<noteq> Some y \<longrightarrow> ul_timer l' y = ul_timer l y)"

lemma init_ok:
  assumes "timers_ok T P l" "legal_call T l (TimerInit x)"
  shows "step_fine T P l (Some x) (snd (uv_timer_init l x)) \<and> shrinks l (snd (uv_timer_init l x))"
proof -
  let ?l = "snd (uv_timer_init l x)"
  let ?u = "(ul_timer l x)\<lparr>ut_active := False, ut_ref := True, ut_closing := False, ut_closed := False, ut_cb := None, ut_repeat := 0\<rparr>"
  have t: "ul_timer ?l = (ul_timer l)(x := ?u)" by (simp add: uv_timer_init_def timer_handle_init_def)
  have f: "ul_time ?l = ul_time l" "ul_fired ?l = ul_fired l" "ul_heap ?l = ul_heap l" "ul_active ?l = ul_active l" "ul_closing ?l = ul_closing l"
    by (simp_all add: uv_timer_init_def timer_handle_init_def)
  have "closing_ok P ?l" using closing_ok_timers_ok [OF assms(1)] assms(2) f(5) by (auto simp: closing_ok_def t)
  then have "timers_ok T P ?l" by (intro timers_ok_upd [OF assms(1) t f(3)]) (use assms(2) f(4) in simp_all)
  moreover have "shrinks l ?l" by (rule shrinks_upd [OF t f(1)]) simp
  ultimately show ?thesis using f t by (simp add: step_fine_def)
qed

lemma ref_ok:
  assumes "timers_ok T P l"
  shows "step_fine T P l (Some x) (timer_ref l x) \<and> shrinks l (timer_ref l x)"
    and "step_fine T P l (Some x) (timer_unref l x) \<and> shrinks l (timer_unref l x)"
    and "step_fine T P l (Some x) (uv_timer_set_repeat l x r) \<and> shrinks l (uv_timer_set_repeat l x r)"
proof -
  note c = closing_ok_cong [OF closing_ok_timers_ok [OF assms]]
  have t: "ul_timer (timer_ref l x) = (ul_timer l)(x := (ul_timer l x)\<lparr>ut_ref := True\<rparr>)"
    "ul_timer (timer_unref l x) = (ul_timer l)(x := (ul_timer l x)\<lparr>ut_ref := False\<rparr>)"
    "ul_timer (uv_timer_set_repeat l x r) = (ul_timer l)(x := (ul_timer l x)\<lparr>ut_repeat := r\<rparr>)"
    by (auto simp: timer_ref_def timer_unref_def uv_timer_set_repeat_def Let_def)
  have f: "ul_time (timer_ref l x) = ul_time l" "ul_fired (timer_ref l x) = ul_fired l" "ul_heap (timer_ref l x) = ul_heap l"
    "ul_closing (timer_ref l x) = ul_closing l" by (simp_all add: timer_ref_def Let_def)
  have g: "ul_time (timer_unref l x) = ul_time l" "ul_fired (timer_unref l x) = ul_fired l" "ul_heap (timer_unref l x) = ul_heap l"
    "ul_closing (timer_unref l x) = ul_closing l" by (simp_all add: timer_unref_def Let_def)
  have h: "ul_time (uv_timer_set_repeat l x r) = ul_time l" "ul_fired (uv_timer_set_repeat l x r) = ul_fired l"
    "ul_heap (uv_timer_set_repeat l x r) = ul_heap l" "ul_closing (uv_timer_set_repeat l x r) = ul_closing l"
    by (simp_all add: uv_timer_set_repeat_def)
  have "closing_ok P (timer_ref l x)" by (rule c) (simp_all add: f t)
  then have "timers_ok T P (timer_ref l x)"
    by (intro timers_ok_upd [OF assms t(1) f(3)]) (simp_all add: timer_ref_def Let_def)
  moreover have "shrinks l (timer_ref l x)" by (rule shrinks_upd [OF t(1) f(1)]) simp
  ultimately show "step_fine T P l (Some x) (timer_ref l x) \<and> shrinks l (timer_ref l x)" using f t by (simp add: step_fine_def)
  have "closing_ok P (timer_unref l x)" by (rule c) (simp_all add: g t)
  then have "timers_ok T P (timer_unref l x)"
    by (intro timers_ok_upd [OF assms t(2) g(3)]) (simp_all add: timer_unref_def Let_def)
  moreover have "shrinks l (timer_unref l x)" by (rule shrinks_upd [OF t(2) g(1)]) simp
  ultimately show "step_fine T P l (Some x) (timer_unref l x) \<and> shrinks l (timer_unref l x)" using g t by (simp add: step_fine_def)
  have "closing_ok P (uv_timer_set_repeat l x r)" by (rule c) (simp_all add: h t)
  then have "timers_ok T P (uv_timer_set_repeat l x r)"
    by (intro timers_ok_upd [OF assms t(3) h(3)]) (simp_all add: uv_timer_set_repeat_def)
  moreover have "shrinks l (uv_timer_set_repeat l x r)" by (rule shrinks_upd [OF t(3) h(1)]) simp
  ultimately show "step_fine T P l (Some x) (uv_timer_set_repeat l x r) \<and> shrinks l (uv_timer_set_repeat l x r)"
    using h t by (simp add: step_fine_def)
qed


lemma stop_fine:
  assumes "timers_ok T P l"
  shows "\<exists>l'. uv_timer_stop l x = xret (0, l') \<and> step_fine T P l (Some x) l' \<and> shrinks l l' \<and> x \<notin> due l' \<and>
    due l' = due l - {x} \<and> same_rest l l' \<and> ul_timer l' = (ul_timer l)(x := (ul_timer l x)\<lparr>ut_active := False\<rparr>)"
proof -
  obtain l' where l': "uv_timer_stop l x = xret (0, l')" "timers_ok T P l'" "same_rest l l'"
    "ul_timer l' = (ul_timer l)(x := (ul_timer l x)\<lparr>ut_active := False\<rparr>)"
    using stop_ok [OF assms, of x] by blast
  moreover have "shrinks l l'" by (rule shrinks_upd [OF l'(4)]) (use l'(3) in \<open>simp_all add: same_rest_def\<close>)
  moreover have "due l' = due l - {x}" using l'(3,4) by (auto simp: due_def active_set_def same_rest_def)
  ultimately show ?thesis by (auto simp: step_fine_def same_rest_def)
qed

lemma started_not_due: "ul_time l < -1 \<Longrightarrow> t > 0 \<Longrightarrow> \<not> ut_timeout (started l x c t r) \<le> ul_time l"
  using clamp_later [of "ul_time l" t] by (simp add: started_def not_le)

lemma start_fine:
  assumes "timers_ok T P l" "x \<in> T"
  shows "\<exists>e l'. uv_timer_start l x cb t r = xret (e, l') \<and> step_fine T P l (Some x) l' \<and>
    (ul_time l < -1 \<longrightarrow> cb = None \<or> t > 0 \<longrightarrow> shrinks l l')"
proof (cases cb)
  case None
  then show ?thesis using start_null assms(1) by (auto simp: step_fine_def)
next
  case (Some c)
  obtain l' where l': "uv_timer_start l x (Some c) t r = xret (0, l')" "timers_ok T P l'" "same_rest l l'"
    "ul_timer l' = (ul_timer l)(x := started l x c t r)"
    using start_ok [OF assms, of c t r] by blast
  have "shrinks l l'" if "ul_time l < -1" "t > 0"
    by (rule shrinks_upd [OF l'(4)]) (use l'(3) started_not_due [OF that, of x c r] in \<open>simp_all add: same_rest_def\<close>)
  then show ?thesis using l' Some by (auto simp: step_fine_def same_rest_def)
qed

lemma again_fine:
  assumes "timers_ok T P l" "x \<in> T"
  shows "\<exists>e l'. uv_timer_again l x = xret (e, l') \<and> step_fine T P l (Some x) l' \<and>
    ut_cb (ul_timer l' x) = ut_cb (ul_timer l x) \<and> (ul_time l < -1 \<longrightarrow> shrinks l l')"
proof -
  let ?r = "ut_repeat (ul_timer l x)"
  obtain e l' where l': "uv_timer_again l x = xret (e, l')" "timers_ok T P l'" "same_rest l l'"
    and c: "case ut_cb (ul_timer l x) of
       Some c \<Rightarrow> if ?r = 0 then e = 0 \<and> l' = l else e = 0 \<and> ul_timer l' = (ul_timer l)(x := started l x c ?r ?r)
     | None \<Rightarrow> e = TIMER_EINVAL \<and> l' = l"
    using again_ok [OF assms] by blast
  show ?thesis
  proof (cases "l' = l")
    case True
    then show ?thesis using l' by (auto simp: step_fine_def same_rest_def)
  next
    case False
    then obtain d where d: "ut_cb (ul_timer l x) = Some d" "?r \<noteq> 0" "ul_timer l' = (ul_timer l)(x := started l x d ?r ?r)"
      using c by (auto split: option.splits if_splits)
    have "?r > 0" using d(2) by (simp add: word_neq_0_conv)
    then have "shrinks l l'" if "ul_time l < -1"
      by (intro shrinks_upd [OF d(3)]) (use l'(3) started_not_due [OF that, of ?r x d ?r] in \<open>simp_all add: same_rest_def\<close>)
    then show ?thesis using l' d by (auto simp: step_fine_def same_rest_def started_def)
  qed
qed

lemma close_fine:
  assumes "timers_ok T P l" "\<not> ut_closing (ul_timer l x)" "\<not> ut_closed (ul_timer l x)"
  shows "\<exists>l'. timer_close l x = xret l' \<and> step_fine T P l (Some x) l' \<and> shrinks l l'"
proof -
  let ?u = "(ul_timer l x)\<lparr>ut_closing := True, ut_active := False\<rparr>"
  let ?l0 = "upd_timer l x (\<lambda>t. t\<lparr>ut_closing := True\<rparr>)"
  have c: "closing_ok P l" by (rule closing_ok_timers_ok [OF assms(1)])
  have t0: "ul_timer ?l0 = (ul_timer l)(x := (ul_timer l x)\<lparr>ut_closing := True\<rparr>)" by simp
  then have c0: "closing_ok (x # P) ?l0" using assms(2,3) c by (auto simp: closing_ok_def)
  have "timers_ok T (x # P) ?l0"
    by (rule timers_ok_upd [OF assms(1) t0 _ _ _ _ _ _ c0]) simp_all
  then obtain l1 where l1: "uv_timer_stop ?l0 x = xret (0, l1)" "timers_ok T (x # P) l1" "same_rest ?l0 l1"
    "ul_timer l1 = (ul_timer ?l0)(x := (ul_timer ?l0 x)\<lparr>ut_active := False\<rparr>)"
    using stop_ok [of T "x # P" ?l0 x] by blast
  let ?l' = "l1\<lparr>ul_closing := x # ul_closing l1\<rparr>"
  have t: "ul_timer ?l' = (ul_timer l)(x := ?u)" using l1(4) by simp
  have "closing_ok P ?l'" using closing_ok_timers_ok [OF l1(2)] by (auto simp: closing_ok_def)
  then have "timers_ok T P ?l'" by (intro timers_ok_same [OF l1(2)]) simp_all
  moreover have "shrinks l ?l'" by (rule shrinks_upd [OF t]) (use l1(3) in \<open>simp_all add: same_rest_def\<close>)
  moreover have "timer_close l x = xret ?l'"
    using assms(2,3) l1(1,4) by (simp add: timer_close_def uv__timer_close_def make_close_pending_def)
  ultimately show ?thesis using l1(3) t by (auto simp: step_fine_def same_rest_def)
qed

lemma step_ok:
  assumes "timers_ok T P l" "legal_call T l c"
  shows "\<exists>l'. timer_step l c = xret l' \<and> step_fine T P l (call_target c) l' \<and>
    (ul_time l < -1 \<longrightarrow> positive_start c \<longrightarrow> shrinks l l')"
proof (cases c)
  case (TimerInit x)
  then show ?thesis using init_ok [OF assms(1), of x] assms(2) by simp
next
  case (TimerStart x cb t r)
  then show ?thesis using start_fine [OF assms(1), of x cb t r] assms(2) by auto
next
  case (TimerStop x)
  then show ?thesis using stop_fine [OF assms(1), of x] by auto
next
  case (TimerAgain x)
  then show ?thesis using again_fine [OF assms(1), of x] assms(2) by auto
next
  case (TimerClose x)
  then show ?thesis using close_fine [OF assms(1), of x] assms(2) by auto
next
  case LoopStop
  have "closing_ok P (l\<lparr>ul_stop := True\<rparr>)" using closing_ok_timers_ok [OF assms(1)] by (simp add: closing_ok_def)
  then have "timers_ok T P (l\<lparr>ul_stop := True\<rparr>)" by (intro timers_ok_same [OF assms(1)]) simp_all
  moreover have "shrinks l (l\<lparr>ul_stop := True\<rparr>)" by (simp add: shrinks_def due_def active_set_def tkey_def)
  ultimately show ?thesis using LoopStop by (simp add: step_fine_def)
qed (use ref_ok [OF assms(1)] in simp_all)

section \<open>Several calls\<close>

fun legal_calls :: "nat set \<Rightarrow> uv_loop \<Rightarrow> timer_call list \<Rightarrow> bool" where
  "legal_calls T l [] \<longleftrightarrow> True"
| "legal_calls T l (c # cs) \<longleftrightarrow>
     legal_call T l c \<and> (case timer_step l c of Some (Inr l1) \<Rightarrow> legal_calls T l1 cs | _ \<Rightarrow> True)"

lemma steps_ok:
  "timers_ok T P l \<Longrightarrow> legal_calls T l cs \<Longrightarrow>
    \<exists>l'. timer_steps l cs = xret l' \<and> timers_ok T P l' \<and> ul_time l' = ul_time l \<and> ul_fired l' = ul_fired l \<and>
      (\<forall>y. (\<forall>c\<in>set cs. call_target c \<noteq> Some y) \<longrightarrow> ul_timer l' y = ul_timer l y) \<and>
      (ul_time l < -1 \<longrightarrow> (\<forall>c\<in>set cs. positive_start c) \<longrightarrow> shrinks l l')"
proof (induction cs arbitrary: l)
  case (Cons c cs)
  obtain l1 where l1: "timer_step l c = xret l1" "timers_ok T P l1" "ul_time l1 = ul_time l" "ul_fired l1 = ul_fired l"
    "\<forall>y. call_target c \<noteq> Some y \<longrightarrow> ul_timer l1 y = ul_timer l y" "ul_time l < -1 \<longrightarrow> positive_start c \<longrightarrow> shrinks l l1"
    using step_ok [OF Cons.prems(1), of c] Cons.prems(2) by (auto simp: step_fine_def)
  moreover have "legal_calls T l1 cs" using Cons.prems(2) l1(1) by simp
  ultimately show ?case using Cons.IH [of l1] by (auto intro: shrinks_trans)
qed simp


section \<open>Running the timers\<close>

text \<open>What a program's callbacks may do, in a loop whose timers are the addresses \<open>T\<close>.\<close>

definition legal_prog :: "nat set \<Rightarrow> timer_prog \<Rightarrow> bool" where
  "legal_prog T tcb \<longleftrightarrow> (\<forall>c x l P. timers_ok T P l \<longrightarrow> x \<in> T \<longrightarrow> legal_calls T l (tcb c x l))"

definition positive_prog :: "timer_prog \<Rightarrow> bool" where
  "positive_prog tcb \<longleftrightarrow> (\<forall>c x l. \<forall>a\<in>set (tcb c x l). positive_start a)"

text \<open>A callback that leaves the other due timers alone.\<close>

definition modest_prog :: "timer_prog \<Rightarrow> bool" where
  "modest_prog tcb \<longleftrightarrow> (\<forall>c x l. \<forall>a\<in>set (tcb c x l). \<forall>y. call_target a = Some y \<longrightarrow> y = x \<or> y \<notin> due l)"

lemma fire_ok:
  assumes "timers_ok T P l" "x \<in> active_set l" "legal_prog T tcb"
  shows "\<exists>c l'. ut_cb (ul_timer l x) = Some c \<and> fire_timer tcb l x = xret l' \<and> timers_ok T P l' \<and>
    ul_time l' = ul_time l \<and> ul_fired l' = ul_fired l @ [(c, x)] \<and>
    (ul_time l < -1 \<longrightarrow> positive_prog tcb \<longrightarrow> shrinks l l' \<and> x \<notin> due l' \<and> (modest_prog tcb \<longrightarrow> due l' = due l - {x}))"
proof -
  have xT: "x \<in> T" using assms(1,2) by (auto simp: timers_ok_def)
  obtain l1 where l1: "uv_timer_stop l x = xret (0, l1)" "step_fine T P l (Some x) l1" "shrinks l l1" "x \<notin> due l1"
    "due l1 = due l - {x}" "ul_timer l1 = (ul_timer l)(x := (ul_timer l x)\<lparr>ut_active := False\<rparr>)"
    using stop_fine [OF assms(1), of x] by blast
  then have t1: "timers_ok T P l1" by (simp add: step_fine_def)
  obtain e l2 where l2: "uv_timer_again l1 x = xret (e, l2)" "step_fine T P l1 (Some x) l2"
    "ut_cb (ul_timer l2 x) = ut_cb (ul_timer l1 x)" "ul_time l1 < -1 \<longrightarrow> shrinks l1 l2"
    using again_fine [OF t1 xT] by blast
  obtain c where c: "ut_cb (ul_timer l x) = Some c" using assms(1,2) by (auto simp: timers_ok_def)
  then have c2: "ut_cb (ul_timer l2 x) = Some c" using l2(3) l1(6) by simp
  define l3 where "l3 = l2\<lparr>ul_fired := ul_fired l2 @ [(c, x)]\<rparr>"
  have t3: "timers_ok T P l3"
  proof (rule timers_ok_same)
    show "timers_ok T P l2" using l2(2) by (simp add: step_fine_def)
    then show "closing_ok P l3" using closing_ok_timers_ok by (auto simp: l3_def closing_ok_def)
  qed (simp_all add: l3_def)
  have d3: "due l3 = due l2" "tkey l3 = tkey l2" by (auto simp: due_def active_set_def tkey_def l3_def)
  then have s3: "shrinks l2 l3" by (simp add: shrinks_def l3_def)
  have "legal_calls T l3 (tcb c x l3)" using assms(3) t3 xT by (auto simp: legal_prog_def)
  then obtain l4 where l4: "timer_steps l3 (tcb c x l3) = xret l4" "timers_ok T P l4" "ul_time l4 = ul_time l3" "ul_fired l4 = ul_fired l3"
    "\<forall>y. (\<forall>a\<in>set (tcb c x l3). call_target a \<noteq> Some y) \<longrightarrow> ul_timer l4 y = ul_timer l3 y"
    "ul_time l3 < -1 \<longrightarrow> (\<forall>a\<in>set (tcb c x l3). positive_start a) \<longrightarrow> shrinks l3 l4"
    using steps_ok [OF t3] by blast
  have time: "ul_time l2 = ul_time l" "ul_time l3 = ul_time l" "ul_fired l3 = ul_fired l @ [(c, x)]"
    using l1(2) l2(2) by (simp_all add: step_fine_def l3_def)
  have "fire_timer tcb l x = xret l4"
    using l1(1) l2(1) l4(1) c2 by (simp add: fire_timer_def timer_cb_def l3_def Let_def)
  moreover have "shrinks l l4 \<and> x \<notin> due l4 \<and> (modest_prog tcb \<longrightarrow> due l4 = due l - {x})" if "ul_time l < -1" "positive_prog tcb"
  proof -
    have s: "shrinks l1 l2" "shrinks l3 l4"
      using that l2(4) l4(6) l1(2) time by (auto simp: step_fine_def positive_prog_def)
    then have s14: "shrinks l1 l4" using s3 by (blast intro: shrinks_trans)
    then have "x \<notin> due l4" using l1(4) by (auto simp: shrinks_def)
    moreover have "due l - {x} \<subseteq> due l4" if m: "modest_prog tcb"
    proof
      fix y assume y: "y \<in> due l - {x}"
      then have "ul_timer l2 y = ul_timer l y" using l2(2) l1(2) by (simp add: step_fine_def)
      then have y2: "y \<in> due l3" "ul_timer l3 y = ul_timer l y"
        using y time by (auto simp: due_def active_set_def l3_def)
      then have "call_target a \<noteq> Some y" if "a \<in> set (tcb c x l3)" for a
        using m that y unfolding modest_prog_def by blast
      then have "ul_timer l4 y = ul_timer l y" using l4(5) y2(2) by simp
      then show "y \<in> due l4" using y l4(3) time by (auto simp: due_def active_set_def)
    qed
    moreover have "due l4 \<subseteq> due l - {x}" using s14 l1(5) by (auto simp: shrinks_def)
    ultimately show ?thesis using shrinks_trans [OF l1(3) s14] by auto
  qed
  ultimately show ?thesis using c l4(2-4) time by auto
qed

text \<open>The root of the heap is due if any timer is.\<close>

lemma min_due:
  assumes "timers_ok T P l"
  shows "case heap_min (ul_heap l) of
      None \<Rightarrow> active_set l = {} \<and> due l = {}
    | Some x \<Rightarrow> x \<in> active_set l \<and> (\<forall>y\<in>active_set l. tkey l x \<le> tkey l y) \<and>
        (if ut_timeout (ul_timer l x) > ul_time l then due l = {} else x \<in> due l)"
proof -
  have g: "good_heap (tkey l) (ul_heap l) (active_set l)" using assms by (simp add: timers_ok_def)
  show ?thesis
  proof (cases "heap_min (ul_heap l)")
    case None
    then show ?thesis using uvq.mn_None [OF g] by (auto simp: due_def)
  next
    case (Some x)
    note x = uvq.mn_Some [OF g Some]
    have "ut_timeout (ul_timer l x) \<le> ut_timeout (ul_timer l y)" if "y \<in> active_set l" for y
      using x that by (auto simp: tkey_def less_eq_prod_def less_le)
    then show ?thesis using x Some by (auto simp: due_def not_le) (erule less_le_trans, blast)
  qed
qed

lemma run_timers_step:
  "uv__run_timers tcb l =
     (case heap_min (ul_heap l) of
        None \<Rightarrow> xret l
      | Some x \<Rightarrow>
          if ut_timeout (ul_timer l x) > ul_time l then xret l
          else xbind (fire_timer tcb l x) (\<lambda>l1. uv__run_timers tcb l1))"
  by (rule uv__run_timers.simps)

text \<open>The firings \<open>fs\<close> of a run that starts in \<open>l\<close>: due timers, each once, in the order of their keys.\<close>

definition fired_in_order :: "uv_loop \<Rightarrow> (nat \<times> nat) list \<Rightarrow> bool" where
  "fired_in_order l fs \<longleftrightarrow> distinct (map snd fs) \<and> snd ` set fs \<subseteq> due l \<and>
     sorted_wrt (\<lambda>p q. tkey l (snd p) \<le> tkey l (snd q)) fs \<and> (\<forall>(c, x)\<in>set fs. ut_cb (ul_timer l x) = Some c)"

lemma fired_in_order_Cons:
  assumes "fired_in_order l' fs" "shrinks l l'" "x \<in> due l" "x \<notin> due l'" "\<forall>y\<in>due l. tkey l x \<le> tkey l y"
    and "ut_cb (ul_timer l x) = Some c"
  shows "fired_in_order l ((c, x) # fs)"
proof -
  have sub: "snd ` set fs \<subseteq> due l'" using assms(1) by (simp add: fired_in_order_def)
  then have k: "tkey l' (snd p) = tkey l (snd p)" "ut_cb (ul_timer l' (snd p)) = ut_cb (ul_timer l (snd p))" "snd p \<in> due l"
    if "p \<in> set fs" for p using that assms(2) by (auto simp: shrinks_def image_subset_iff)
  have "sorted_wrt (\<lambda>p q. tkey l' (snd p) \<le> tkey l' (snd q)) fs" using assms(1) by (simp add: fired_in_order_def)
  then have "sorted_wrt (\<lambda>p q. tkey l (snd p) \<le> tkey l (snd q)) fs" by (rule sorted_wrt_mono_rel [rotated]) (simp add: k)
  moreover have "\<forall>(d, y)\<in>set fs. ut_cb (ul_timer l y) = Some d" using assms(1) k by (fastforce simp: fired_in_order_def)
  ultimately show ?thesis using assms(1,3-6) k sub by (auto simp: fired_in_order_def)
qed

lemma run_timers_ok:
  assumes "timers_ok T P l" "legal_prog T tcb" "positive_prog tcb" "ul_time l < -1"
  shows "\<exists>l' fs. uv__run_timers tcb l = xret l' \<and> timers_ok T P l' \<and> ul_time l' = ul_time l \<and> due l' = {} \<and>
    ul_fired l' = ul_fired l @ fs \<and> fired_in_order l fs \<and> (modest_prog tcb \<longrightarrow> snd ` set fs = due l)"
  using assms(1,4)
proof (induction "card (due l)" arbitrary: l rule: less_induct)
  case less
  have fin: "finite (due l)" using active_finite [OF less.prems(1)] by (simp add: due_def)
  show ?case
  proof (cases "due l = {}")
    case True
    then have "uv__run_timers tcb l = xret l"
      using min_due [OF less.prems(1)] by (subst run_timers_step) (auto split: option.splits if_splits)
    then show ?thesis using True less.prems(1) by (intro exI [of _ l] exI [of _ "[]"]) (simp add: fired_in_order_def)
  next
    case False
    then obtain x where x: "heap_min (ul_heap l) = Some x" "x \<in> active_set l" "\<forall>y\<in>active_set l. tkey l x \<le> tkey l y"
      "\<not> ut_timeout (ul_timer l x) > ul_time l" "x \<in> due l"
      using min_due [OF less.prems(1)] by (auto split: option.splits if_splits)
    obtain c l1 where l1: "ut_cb (ul_timer l x) = Some c" "fire_timer tcb l x = xret l1" "timers_ok T P l1" "ul_time l1 = ul_time l"
      "ul_fired l1 = ul_fired l @ [(c, x)]" "shrinks l l1" "x \<notin> due l1" "modest_prog tcb \<longrightarrow> due l1 = due l - {x}"
      using fire_ok [OF less.prems(1) x(2) assms(2)] assms(3) less.prems(2) by blast
    have "due l1 \<subset> due l" using l1(6,7) x(5) by (auto simp: shrinks_def)
    then have "card (due l1) < card (due l)" by (rule psubset_card_mono [OF fin])
    then obtain l' fs where r: "uv__run_timers tcb l1 = xret l'" "timers_ok T P l'" "ul_time l' = ul_time l1" "due l' = {}"
      "ul_fired l' = ul_fired l1 @ fs" "fired_in_order l1 fs" "modest_prog tcb \<longrightarrow> snd ` set fs = due l1"
      using less.hyps [OF _ l1(3)] l1(4) less.prems(2) by auto
    have "fired_in_order l ((c, x) # fs)"
      by (rule fired_in_order_Cons [OF r(6) l1(6) x(5) l1(7) _ l1(1)]) (use x(3) in \<open>auto simp: due_def\<close>)
    moreover have "modest_prog tcb \<longrightarrow> snd ` set ((c, x) # fs) = due l" using r(7) l1(8) x(5) by auto
    moreover have "uv__run_timers tcb l = xret l'" using x(1,4) l1(2) r(1) by (subst run_timers_step) simp
    ultimately show ?thesis using r l1(4,5) by (intro exI [of _ l'] exI [of _ "(c, x) # fs"]) simp
  qed
qed


section \<open>A new loop\<close>

lemma timer_loop_init_ok: "finite T \<Longrightarrow> card T < 2 ^ 32 \<Longrightarrow> timers_ok T [] (timer_loop_init now)"
  using good_heap_init [of "tkey (timer_loop_init now)" blank_heap]
  by (simp add: timers_ok_def timer_loop_init_def active_set_def blank_timer_def closing_ok_def)

text \<open>The loop after some calls; for concrete runs.\<close>

definition loop_after :: "u64 \<Rightarrow> timer_call list \<Rightarrow> uv_loop" where
  "loop_after now cs =
     (case timer_steps (timer_loop_init now) cs of Some (Inr l) \<Rightarrow> l | _ \<Rightarrow> timer_loop_init now)"

lemma loop_after_ok:
  assumes "finite T" "card T < 2 ^ 32" "legal_calls T (timer_loop_init now) cs"
  shows "timers_ok T [] (loop_after now cs)"
  using steps_ok [OF timer_loop_init_ok [OF assms(1,2)] assms(3)] by (auto simp: loop_after_def)


text \<open>A timer that is initialised and started.\<close>

definition new_timer :: "uv_loop \<Rightarrow> nat \<Rightarrow> u64 \<Rightarrow> u64 \<Rightarrow> uv_timer \<Rightarrow> uv_timer" where
  "new_timer l c t r u = u\<lparr>ut_cb := Some c, ut_timeout := clamp (ul_time l) t, ut_repeat := r, ut_start_id := ul_counter l,
     ut_active := True, ut_ref := True, ut_closing := False, ut_closed := False\<rparr>"

lemma init_start_facts:
  assumes "timers_ok T P l" "x \<in> T" "legal_call T l (TimerInit x)"
  shows "\<exists>l'. timer_steps l (TimerInit x # TimerStart x (Some c) t r # cs) = timer_steps l' cs \<and> timers_ok T P l' \<and> same_rest l l' \<and>
    ul_counter l' = ul_counter l + 1 \<and> ul_timer l' = (ul_timer l)(x := new_timer l c t r (ul_timer l x))"
proof -
  let ?l = "snd (uv_timer_init l x)"
  have "timers_ok T P ?l" using init_ok [OF assms(1,3)] by (simp add: step_fine_def)
  then obtain l' where l': "uv_timer_start ?l x (Some c) t r = xret (0, l')" "timers_ok T P l'" "same_rest ?l l'"
    "ul_counter l' = ul_counter ?l + 1" "ul_timer l' = (ul_timer ?l)(x := started ?l x c t r)"
    using start_ok assms(2) by blast
  have "same_rest l ?l" "ul_time ?l = ul_time l" "ul_counter ?l = ul_counter l"
    by (simp_all add: uv_timer_init_def timer_handle_init_def same_rest_def)
  moreover have "started ?l x c t r = new_timer l c t r (ul_timer l x)"
    by (rule uv_timer.equality) (simp_all add: uv_timer_init_def timer_handle_init_def started_def new_timer_def)
  then have "(ul_timer ?l)(x := started ?l x c t r) = (ul_timer l)(x := new_timer l c t r (ul_timer l x))"
    by (simp add: uv_timer_init_def timer_handle_init_def)
  moreover have "timer_steps l (TimerInit x # TimerStart x (Some c) t r # cs) = timer_steps l' cs" using l'(1) by simp
  ultimately show ?thesis using l'(2-5) same_rest_trans [of l ?l l'] by auto
qed

end
