(* ===== verification/UvLoopRun.thy ===== *)
theory UvLoopRun
  imports UvLoop UvTimerRun
begin

text \<open>
  The loop with one-shot timers in quiet surroundings, whose callbacks stop timers but start none: every
  iteration fires what is due or waits, and the loop ends when no timer is left.
\<close>

section \<open>Callbacks that only stop timers\<close>

definition silent :: timer_prog where
  "silent c x l = []"

definition only_stops :: "timer_prog \<Rightarrow> bool" where
  "only_stops tcb \<longleftrightarrow> (\<forall>c x l. \<forall>k\<in>set (tcb c x l). \<exists>y. k = TimerStop y)"

text \<open>The timers that some callback stops.\<close>

definition stopped_by :: "timer_prog \<Rightarrow> nat set" where
  "stopped_by tcb = {y. \<exists>c x l. TimerStop y \<in> set (tcb c x l)}"

definition one_shot :: "uv_loop \<Rightarrow> bool" where
  "one_shot l \<longleftrightarrow> (\<forall>x\<in>active_set l. ut_repeat (ul_timer l x) = 0)"

text \<open>The timers of \<open>D\<close> have stopped; nothing else happened but firing.\<close>

definition stopped :: "uv_loop \<Rightarrow> nat set \<Rightarrow> uv_loop \<Rightarrow> bool" where
  "stopped l D l' \<longleftrightarrow> ul_timer l' = (\<lambda>x. if x \<in> D then (ul_timer l x)\<lparr>ut_active := False\<rparr> else ul_timer l x) \<and>
     ul_time l' = ul_time l \<and> ul_closing l' = ul_closing l \<and> ul_stop l' = ul_stop l"

lemma stopped_refl: "stopped l {} l"
  by (simp add: stopped_def)

lemma stopped_trans: "stopped l D l1 \<Longrightarrow> stopped l1 E l2 \<Longrightarrow> stopped l (D \<union> E) l2"
  by (auto simp: stopped_def fun_eq_iff)

lemma stopped_active: "stopped l D l' \<Longrightarrow> active_set l' = active_set l - D"
  by (auto simp: stopped_def active_set_def)

lemma stopped_due: "stopped l D l' \<Longrightarrow> due l' = due l - D"
  by (auto simp: stopped_def due_def active_set_def)

lemma stopped_shrinks: "stopped l D l' \<Longrightarrow> shrinks l l'"
  by (auto simp: stopped_due shrinks_def) (auto simp: stopped_def tkey_def)

lemma stopped_one_shot: "stopped l D l' \<Longrightarrow> one_shot l \<Longrightarrow> one_shot l'"
  by (auto simp: stopped_active one_shot_def) (auto simp: stopped_def)

lemma steps_stop:
  "timers_ok T P l \<Longrightarrow> \<forall>k\<in>set cs. \<exists>y. k = TimerStop y \<Longrightarrow>
    \<exists>l'. timer_steps l cs = xret l' \<and> timers_ok T P l' \<and> stopped l {y. TimerStop y \<in> set cs} l' \<and> ul_fired l' = ul_fired l"
proof (induction cs arbitrary: l)
  case Nil
  then show ?case by (simp add: stopped_refl)
next
  case (Cons k cs)
  obtain y where y: "k = TimerStop y" using Cons.prems(2) by auto
  obtain l1 where l1: "uv_timer_stop l y = xret (0, l1)" "timers_ok T P l1" "same_rest l l1"
    "ul_timer l1 = (ul_timer l)(y := (ul_timer l y)\<lparr>ut_active := False\<rparr>)"
    using stop_ok [OF Cons.prems(1), of y] by blast
  have s1: "stopped l {y} l1" "ul_fired l1 = ul_fired l" using l1(3,4) by (auto simp: stopped_def same_rest_def)
  obtain l' where l': "timer_steps l1 cs = xret l'" "timers_ok T P l'" "stopped l1 {y. TimerStop y \<in> set cs} l'" "ul_fired l' = ul_fired l1"
    using Cons.IH [OF l1(2)] Cons.prems(2) by auto
  have "{y} \<union> {y. TimerStop y \<in> set cs} = {y. TimerStop y \<in> set (k # cs)}" using y by auto
  then have "stopped l {y. TimerStop y \<in> set (k # cs)} l'" using stopped_trans [OF s1(1) l'(3)] by simp
  then show ?case using l1(1) l'(1,2,4) s1(2) y by simp
qed

lemma fire_stops:
  assumes "only_stops tcb" "timers_ok T P l" "x \<in> active_set l" "ut_repeat (ul_timer l x) = 0"
  shows "\<exists>c l' D. ut_cb (ul_timer l x) = Some c \<and> fire_timer tcb l x = xret l' \<and> timers_ok T P l' \<and>
    stopped l (insert x D) l' \<and> D \<subseteq> stopped_by tcb \<and> ul_fired l' = ul_fired l @ [(c, x)]"
proof -
  obtain l1 where l1: "uv_timer_stop l x = xret (0, l1)" "timers_ok T P l1" "same_rest l l1"
    "ul_timer l1 = (ul_timer l)(x := (ul_timer l x)\<lparr>ut_active := False\<rparr>)"
    using stop_ok [OF assms(2), of x] by blast
  obtain c where c: "ut_cb (ul_timer l x) = Some c" using assms(2,3) by (auto simp: timers_ok_def)
  let ?l = "l1\<lparr>ul_fired := ul_fired l1 @ [(c, x)]\<rparr>"
  let ?D = "{y. TimerStop y \<in> set (tcb c x ?l)}"
  have "closing_ok P ?l" using closing_ok_timers_ok [OF l1(2)] by (simp add: closing_ok_def)
  then have t: "timers_ok T P ?l" by (intro timers_ok_same [OF l1(2)]) simp_all
  have s: "stopped l {x} ?l" using l1(3,4) by (auto simp: stopped_def same_rest_def)
  obtain l' where l': "timer_steps ?l (tcb c x ?l) = xret l'" "timers_ok T P l'" "stopped ?l ?D l'" "ul_fired l' = ul_fired ?l"
    using steps_stop [OF t, of "tcb c x ?l"] assms(1) by (auto simp: only_stops_def)
  have "fire_timer tcb l x = xret l'"
    using l1(1,4) c assms(4) l'(1) by (simp add: fire_timer_def uv_timer_again_def timer_cb_def Let_def)
  moreover have "stopped l (insert x ?D) l'" using stopped_trans [OF s l'(3)] by simp
  moreover have "?D \<subseteq> stopped_by tcb" by (auto simp: stopped_by_def)
  ultimately show ?thesis using c l1(3) l'(2,4) by (intro exI [of _ c] exI [of _ l'] exI [of _ ?D]) (auto simp: same_rest_def)
qed

lemma run_timers_stops:
  assumes "only_stops tcb"
  shows "timers_ok T P l \<Longrightarrow> one_shot l \<Longrightarrow>
    \<exists>l' fs D. uv__run_timers tcb l = xret l' \<and> timers_ok T P l' \<and> stopped l D l' \<and> due l \<subseteq> D \<and>
      ul_fired l' = ul_fired l @ fs \<and> fired_in_order l fs \<and> D \<subseteq> snd ` set fs \<union> stopped_by tcb"
proof (induction "card (due l)" arbitrary: l rule: less_induct)
  case less
  have fin: "finite (due l)" using active_finite [OF less.prems(1)] by (simp add: due_def)
  show ?case
  proof (cases "due l = {}")
    case True
    then have "uv__run_timers tcb l = xret l"
      using min_due [OF less.prems(1)] by (subst run_timers_step) (auto split: option.splits if_splits)
    then show ?thesis using True less.prems(1) stopped_refl [of l]
      by (intro exI [of _ l] exI [of _ "[]"] exI [of _ "{}"]) (simp add: fired_in_order_def)
  next
    case False
    then obtain x where x: "heap_min (ul_heap l) = Some x" "x \<in> active_set l" "\<forall>y\<in>active_set l. tkey l x \<le> tkey l y"
      "\<not> ut_timeout (ul_timer l x) > ul_time l" "x \<in> due l"
      using min_due [OF less.prems(1)] by (auto split: option.splits if_splits)
    have "ut_repeat (ul_timer l x) = 0" using less.prems(2) x(2) by (simp add: one_shot_def)
    then obtain c l1 D where l1: "ut_cb (ul_timer l x) = Some c" "fire_timer tcb l x = xret l1" "timers_ok T P l1"
      "stopped l (insert x D) l1" "D \<subseteq> stopped_by tcb" "ul_fired l1 = ul_fired l @ [(c, x)]"
      using fire_stops [OF assms less.prems(1) x(2)] by blast
    have d1: "due l1 = due l - insert x D" by (rule stopped_due [OF l1(4)])
    then have "due l1 \<subset> due l" using x(5) by blast
    then have "card (due l1) < card (due l)" by (rule psubset_card_mono [OF fin])
    then obtain l' fs E where r: "uv__run_timers tcb l1 = xret l'" "timers_ok T P l'" "stopped l1 E l'" "due l1 \<subseteq> E"
      "ul_fired l' = ul_fired l1 @ fs" "fired_in_order l1 fs" "E \<subseteq> snd ` set fs \<union> stopped_by tcb"
      using less.hyps [OF _ l1(3) stopped_one_shot [OF l1(4) less.prems(2)]] by blast
    have "fired_in_order l ((c, x) # fs)"
      by (rule fired_in_order_Cons [OF r(6) stopped_shrinks [OF l1(4)] x(5) _ _ l1(1)]) (use x(3) d1 in \<open>auto simp: due_def\<close>)
    moreover have "stopped l (insert x D \<union> E) l'" by (rule stopped_trans [OF l1(4) r(3)])
    moreover have "due l \<subseteq> insert x D \<union> E" using d1 r(4) by blast
    moreover have "uv__run_timers tcb l = xret l'" using x(1,4) l1(2) r(1) by (subst run_timers_step) simp
    moreover have "insert x D \<union> E \<subseteq> snd ` set ((c, x) # fs) \<union> stopped_by tcb" using r(7) l1(5) by auto
    ultimately show ?thesis using r(2,5) l1(6)
      by (intro exI [of _ l'] exI [of _ "(c, x) # fs"] exI [of _ "insert x D \<union> E"]) simp
  qed
qed

section \<open>The next timeout\<close>

text \<open>The time the earliest timer is due.\<close>

lemma next_timeout_eq:
  assumes "timers_ok T P l"
  shows "uv__next_timeout l =
    (if active_set l = {} then -1
     else min (2 ^ 31 - 1) (max 0 (Min ((\<lambda>x. uint (ut_timeout (ul_timer l x))) ` active_set l) - uint (ul_time l))))"
proof (cases "heap_min (ul_heap l)")
  case None
  then show ?thesis using min_due [OF assms] by (simp add: uv__next_timeout_def)
next
  case (Some x)
  note x = min_due [OF assms]
  have le: "uint (ut_timeout (ul_timer l x)) \<le> uint (ut_timeout (ul_timer l y))" if "y \<in> active_set l" for y
    using x Some that by (auto simp: tkey_def less_eq_prod_def word_le_def word_less_def)
  have xA: "x \<in> active_set l" using x Some by simp
  have m: "Min ((\<lambda>x. uint (ut_timeout (ul_timer l x))) ` active_set l) = uint (ut_timeout (ul_timer l x))"
    by (rule Min_eqI) (use le xA active_finite [OF assms] in auto)
  show ?thesis
  proof (cases "ut_timeout (ul_timer l x) \<le> ul_time l")
    case True
    then have "uint (ut_timeout (ul_timer l x)) \<le> uint (ul_time l)" by (simp add: word_le_def)
    then show ?thesis using True Some xA m by (auto simp: uv__next_timeout_def)
  next
    case False
    let ?d = "ut_timeout (ul_timer l x) - ul_time l"
    have u: "uint ?d = uint (ut_timeout (ul_timer l x)) - uint (ul_time l)"
      using False by (simp add: uint_sub_if' word_le_def)
    have "?d > 2147483647 \<longleftrightarrow> uint ?d > 2147483647" by (simp add: word_less_def)
    then show ?thesis using False Some xA m u by (auto simp: uv__next_timeout_def Let_def word_le_def)
  qed
qed

lemma next_timeout_bounds:
  assumes "timers_ok T P l"
  shows "-1 \<le> uv__next_timeout l" "uv__next_timeout l < 2 ^ 31"
    "active_set l \<noteq> {} \<Longrightarrow> due l = {} \<Longrightarrow> 0 < uv__next_timeout l"
    "active_set l \<noteq> {} \<Longrightarrow> 0 \<le> uv__next_timeout l"
proof -
  have fin: "finite (active_set l)" by (rule active_finite [OF assms])
  show "0 < uv__next_timeout l" if "active_set l \<noteq> {}" "due l = {}"
  proof -
    have "uint (ul_time l) < uint (ut_timeout (ul_timer l x))" if "x \<in> active_set l" for x
      using that \<open>due l = {}\<close> by (auto simp: due_def word_le_def not_le)
    then show ?thesis using that fin by (simp add: next_timeout_eq [OF assms])
  qed
qed (auto simp: next_timeout_eq [OF assms] min_less_iff_disj intro: order_trans [OF _ max.cobounded1])


section \<open>Quiet surroundings\<close>

text \<open>
  No other handles; the clock does not go back; the kernel answers when the time it was given is over (or the
  clock is at its end).
\<close>

definition quiet :: "uv_env \<Rightarrow> bool" where
  "quiet env \<longleftrightarrow> (\<forall>p l. en_phase env p l = []) \<and> (\<forall>b l. \<not> en_busy env b l) \<and> (\<forall>l. ul_time l \<le> en_clock env l) \<and>
     (\<forall>t l. 0 \<le> t \<longrightarrow> fst (en_wait env t l) = EpTimeout \<and>
        min (unat (ul_time l) + nat t) (2 ^ 64 - 1) \<le> unat (snd (en_wait env t l)))"

lemma quiet_poll:
  assumes "quiet env" "0 \<le> t"
  shows "uv__io_poll env t l = xret (l\<lparr>ul_time := snd (en_wait env t l), ul_tick := Suc (ul_tick l)\<rparr>)"
proof -
  obtain n where "en_wait env t l = (EpTimeout, n)" using assms by (metis quiet_def prod.collapse)
  then show ?thesis using assms(2) by (simp add: uv__io_poll_def poll_loop.simps [of _ _ _ _ t])
qed

lemma quiet_phase: "quiet env \<Longrightarrow> run_phase env p l = xret l"
  by (simp add: quiet_def run_phase_def)

text \<open>A loop that has only referenced one-shot timers.\<close>

definition plain_loop :: "nat set \<Rightarrow> uv_loop \<Rightarrow> bool" where
  "plain_loop T l \<longleftrightarrow> timers_ok T [] l \<and> one_shot l \<and> (\<forall>x\<in>active_set l. ut_ref (ul_timer l x)) \<and>
     ul_closing l = [] \<and> \<not> ul_stop l"

lemma plain_loop_time: "plain_loop T l \<Longrightarrow> plain_loop T (l\<lparr>ul_time := n, ul_tick := k\<rparr>)"
proof -
  let ?l = "l\<lparr>ul_time := n, ul_tick := k\<rparr>"
  assume p: "plain_loop T l"
  then have t: "timers_ok T [] l" by (simp add: plain_loop_def)
  have "closing_ok [] ?l" using closing_ok_timers_ok [OF t] by (simp add: closing_ok_def)
  then have "timers_ok T [] ?l" by (intro timers_ok_same [OF t]) simp_all
  moreover have "active_set ?l = active_set l" by (simp add: active_set_def)
  ultimately show ?thesis using p by (simp add: plain_loop_def one_shot_def)
qed

lemma plain_loop_stopped:
  assumes "plain_loop T l" "timers_ok T [] l'" "stopped l D l'"
  shows "plain_loop T l'"
proof -
  have "one_shot l'" by (rule stopped_one_shot [OF assms(3)]) (use assms(1) in \<open>simp add: plain_loop_def\<close>)
  moreover have "ut_ref (ul_timer l' x)" if "x \<in> active_set l'" for x
  proof -
    have "x \<in> active_set l" "ul_timer l' x = ul_timer l x"
      using that stopped_active [OF assms(3)] assms(3) by (simp_all add: stopped_def)
    then show ?thesis using assms(1) by (simp add: plain_loop_def)
  qed
  moreover have "ul_closing l' = []" "\<not> ul_stop l'" using assms(1,3) by (simp_all add: plain_loop_def stopped_def)
  ultimately show ?thesis using assms(2) by (simp add: plain_loop_def)
qed

lemma plain_active:
  assumes "plain_loop T l"
  shows "ul_active l > 0 \<longleftrightarrow> active_set l \<noteq> {}"
proof -
  have t: "timers_ok T [] l" and r: "{x \<in> active_set l. ut_ref (ul_timer l x)} = active_set l"
    using assms by (auto simp: plain_loop_def)
  have "card (active_set l) \<le> card T" using t by (auto simp: timers_ok_def intro: card_mono)
  then have "card (active_set l) < 2 ^ 32" using t by (simp add: timers_ok_def)
  then have "unat (ul_active l) = card (active_set l)"
    using t unfolding timers_ok_def r by (simp add: unsigned_of_nat take_bit_nat_eq_self)
  then show ?thesis using active_finite [OF t] by (auto simp: word_less_nat_alt)
qed

lemma plain_iteration:
  assumes "quiet env" "plain_loop T l" "active_set l \<noteq> {}" "only_stops tcb"
  shows "\<exists>l' fs D. run_iteration env tcb RunDefault l = xret l' \<and> plain_loop T l' \<and> ul_time l \<le> ul_time l' \<and>
    ul_fired l' = ul_fired l @ fs \<and> fired_in_order (uv__update_time env l) fs \<and> due (uv__update_time env l) \<subseteq> D \<and>
    D \<subseteq> snd ` set fs \<union> stopped_by tcb \<and> (\<forall>x. tkey l' x = tkey l x) \<and> active_set l' = active_set l - D \<and>
    (\<forall>x\<in>active_set l'. ut_cb (ul_timer l' x) = ut_cb (ul_timer l x)) \<and>
    (active_set l' = active_set l \<longrightarrow> ul_time l < ul_time l')"
proof -
  define l1 where "l1 = uv__update_time env l"
  have p1: "plain_loop T l1" unfolding l1_def uv__update_time_def by (rule plain_loop_time [OF assms(2)])
  have t1: "ul_time l \<le> ul_time l1" using assms(1) by (simp add: quiet_def l1_def uv__update_time_def)
  have s1: "ul_timer l1 = ul_timer l" "active_set l1 = active_set l" "ul_fired l1 = ul_fired l"
    by (simp_all add: l1_def uv__update_time_def active_set_def)
  have "timers_ok T [] l1" "one_shot l1" using p1 by (simp_all add: plain_loop_def)
  from run_timers_stops [OF assms(4) this] obtain l2 fs D where l2: "uv__run_timers tcb l1 = xret l2" "timers_ok T [] l2" "stopped l1 D l2"
    "due l1 \<subseteq> D" "ul_fired l2 = ul_fired l1 @ fs" "fired_in_order l1 fs" "D \<subseteq> snd ` set fs \<union> stopped_by tcb"
    by (elim exE conjE)
  have p2: "plain_loop T l2" by (rule plain_loop_stopped [OF p1 l2(2,3)])
  have "due l2 = due l1 - D" by (rule stopped_due [OF l2(3)])
  moreover have "active_set l2 = active_set l1 - D" by (rule stopped_active [OF l2(3)])
  ultimately have a2: "active_set l2 = active_set l - D" "due l2 = {}" "ul_time l2 = ul_time l1"
    using l2(3,4) s1(2) by (auto simp: stopped_def)
  define t where "t = uv_backend_timeout env l2"
  have t: "t = (if active_set l2 = {} then 0 else uv__next_timeout l2)"
    using p2 plain_active [OF p2] assms(1) by (auto simp: t_def uv_backend_timeout_def quiet_def plain_loop_def)
  have t0: "0 \<le> t" "active_set l2 \<noteq> {} \<Longrightarrow> 0 < t" using next_timeout_bounds [OF l2(2)] a2(2) by (auto simp: t)
  define l' where "l' = l2\<lparr>ul_time := snd (en_wait env t l2), ul_tick := Suc (ul_tick l2)\<rparr>"
  have p': "plain_loop T l'" unfolding l'_def by (rule plain_loop_time [OF p2])
  have w: "min (unat (ul_time l2) + nat t) (2 ^ 64 - 1) \<le> unat (ul_time l')"
    using assms(1) t0(1) by (simp add: quiet_def l'_def)
  have "unat (ul_time l2) < 2 ^ 64" using unsigned_less [of "ul_time l2"] by simp
  then have "unat (ul_time l2) \<le> unat (ul_time l')" using w by linarith
  then have tl: "ul_time l1 \<le> ul_time l'" using a2(3) by (simp add: word_le_nat_alt)
  have later: "ul_time l < ul_time l'" if none: "active_set l2 = active_set l"
  proof -
    obtain x where x: "x \<in> active_set l2" using assms(3) none by auto
    then have "\<not> ut_timeout (ul_timer l2 x) \<le> ul_time l2" using a2(2) by (auto simp: due_def)
    then have "unat (ul_time l2) < unat (ut_timeout (ul_timer l2 x))" by (simp add: word_le_nat_alt)
    moreover have "unat (ut_timeout (ul_timer l2 x)) < 2 ^ 64"
      using unsigned_less [of "ut_timeout (ul_timer l2 x)"] by simp
    moreover have "0 < nat t" using t0(2) x by auto
    ultimately have "unat (ul_time l2) < unat (ul_time l')" using w by linarith
    then have "ul_time l1 < ul_time l'" using a2(3) by (simp add: word_less_nat_alt)
    then show ?thesis using t1 by simp
  qed
  have "ul_closing l' = []" using p' by (simp add: plain_loop_def)
  then have cl: "uv__run_closing_handles env l' = xret l'" by (simp add: uv__run_closing_handles_def)
  have "run_iteration env tcb RunDefault l = xret l'"
    using l2(1) quiet_phase [OF assms(1)] quiet_poll [OF assms(1) t0(1), of l2] cl
    by (simp add: run_iteration_def l1_def [symmetric] t_def [symmetric] Let_def l'_def [symmetric])
  moreover have "\<forall>x. tkey l' x = tkey l x" using l2(3) s1(1) by (auto simp: stopped_def tkey_def l'_def)
  moreover have "active_set l' = active_set l2" by (simp add: active_set_def l'_def)
  moreover have "\<forall>x\<in>active_set l2. ut_cb (ul_timer l' x) = ut_cb (ul_timer l x)"
    using l2(3) s1(1) by (auto simp: stopped_def l'_def)
  moreover have "ul_fired l' = ul_fired l @ fs" using l2(5) s1(3) by (simp add: l'_def)
  moreover have "ul_time l \<le> ul_time l'" by (rule order_trans [OF t1 tl])
  moreover have "active_set l2 = active_set l \<longrightarrow> ul_time l < ul_time l'" using later by blast
  ultimately show ?thesis using p' l2(4,6,7) a2(1) unfolding l1_def [symmetric]
    by (intro exI [of _ l'] exI [of _ fs] exI [of _ D]) (simp only: simp_thms)
qed

text \<open>What was due in one iteration comes before what is left.\<close>

definition fired_all :: "timer_prog \<Rightarrow> uv_loop \<Rightarrow> (nat \<times> nat) list \<Rightarrow> bool" where
  "fired_all tcb l fs \<longleftrightarrow> distinct (map snd fs) \<and> snd ` set fs \<subseteq> active_set l \<and>
     active_set l \<subseteq> snd ` set fs \<union> stopped_by tcb \<and>
     sorted_wrt (\<lambda>p q. tkey l (snd p) \<le> tkey l (snd q)) fs \<and> (\<forall>(c, x)\<in>set fs. ut_cb (ul_timer l x) = Some c)"

lemma fired_all_append:
  assumes "fired_in_order l1 fs" "due l1 \<subseteq> D" "D \<subseteq> snd ` set fs \<union> stopped_by tcb" "ul_timer l1 = ul_timer l" "fired_all tcb l' gs"
    and "active_set l' = active_set l - D" "\<forall>x. tkey l' x = tkey l x" "\<forall>x\<in>active_set l'. ut_cb (ul_timer l' x) = ut_cb (ul_timer l x)"
  shows "fired_all tcb l (fs @ gs)"
proof -
  have k: "tkey l1 = tkey l" "tkey l' = tkey l" "active_set l1 = active_set l"
    using assms(4,7) by (auto simp: tkey_def active_set_def)
  have fsd: "snd ` set fs \<subseteq> due l1" "distinct (map snd fs)" using assms(1) by (simp_all add: fired_in_order_def)
  have gsa: "snd ` set gs \<subseteq> active_set l - D" using assms(5,6) by (simp add: fired_all_def)
  have le: "tkey l (snd p) \<le> tkey l (snd q)" if "p \<in> set fs" "q \<in> set gs" for p q
  proof -
    have "snd p \<in> due l1" using that(1) fsd by auto
    moreover have "snd q \<in> active_set l1" "snd q \<notin> due l1" using that(2) assms(2) gsa k(3) by auto
    ultimately have "ut_timeout (ul_timer l (snd p)) < ut_timeout (ul_timer l (snd q))"
      using assms(4) by (auto simp: due_def)
    then show ?thesis by (auto simp: tkey_def)
  qed
  have cb: "\<forall>(c, x)\<in>set gs. ut_cb (ul_timer l x) = Some c"
  proof (intro ballI, clarify)
    fix c x assume g: "(c, x) \<in> set gs"
    have "ut_cb (ul_timer l' x) = Some c" using assms(5) g by (auto simp: fired_all_def)
    moreover have "x \<in> active_set l'" using gsa assms(6) imageI [OF g, of snd] by auto
    ultimately show "ut_cb (ul_timer l x) = Some c" using assms(8) by simp
  qed
  have "due l1 \<subseteq> active_set l" using k(3) by (auto simp: due_def)
  then have u: "snd ` set (fs @ gs) \<subseteq> active_set l" "distinct (map snd (fs @ gs))"
    using fsd gsa assms(2,5) by (auto simp: fired_all_def)
  have "active_set l - D \<subseteq> snd ` set gs \<union> stopped_by tcb" using assms(5,6) by (simp add: fired_all_def)
  then have "active_set l \<subseteq> snd ` set (fs @ gs) \<union> stopped_by tcb" using assms(3) by auto
  moreover have "sorted_wrt (\<lambda>p q. tkey l (snd p) \<le> tkey l (snd q)) (fs @ gs)"
    using assms(1,5) k le by (simp add: fired_all_def fired_in_order_def sorted_wrt_append)
  moreover have "\<forall>(c, x)\<in>set (fs @ gs). ut_cb (ul_timer l x) = Some c"
    using assms(1,4) cb by (auto simp: fired_in_order_def)
  ultimately show ?thesis using u by (simp add: fired_all_def)
qed

lemma plain_run:
  assumes "quiet env" "only_stops tcb"
  shows "plain_loop T l \<Longrightarrow> r \<longleftrightarrow> active_set l \<noteq> {} \<Longrightarrow>
    \<exists>l' fs. run_loop env tcb RunDefault r l = xret (False, l') \<and> plain_loop T l' \<and> active_set l' = {} \<and>
      ul_fired l' = ul_fired l @ fs \<and> fired_all tcb l fs"
proof (induction "(card (active_set l), 2 ^ 64 - unat (ul_time l))" arbitrary: l r rule: wf_induct_rule [OF wf_lex_prod [OF wf_less wf_less]])
  case (1 l)
  show ?case
  proof (cases "active_set l = {}")
    case True
    then show ?thesis using 1 by (simp add: run_loop.simps fired_all_def)
  next
    case False
    let ?l1 = "uv__update_time env l"
    obtain l' fs D where l': "run_iteration env tcb RunDefault l = xret l'" "plain_loop T l'" "ul_time l \<le> ul_time l'"
      "ul_fired l' = ul_fired l @ fs" "fired_in_order ?l1 fs" "due ?l1 \<subseteq> D" "D \<subseteq> snd ` set fs \<union> stopped_by tcb"
      "\<forall>x. tkey l' x = tkey l x"
      "active_set l' = active_set l - D" "\<forall>x\<in>active_set l'. ut_cb (ul_timer l' x) = ut_cb (ul_timer l x)"
      "active_set l' = active_set l \<longrightarrow> ul_time l < ul_time l'"
      using plain_iteration [OF assms(1) 1(2) False assms(2)] by blast
    have fin: "finite (active_set l)" using 1(2) active_finite by (auto simp: plain_loop_def)
    have "card (active_set l') < card (active_set l) \<or>
      card (active_set l') = card (active_set l) \<and> 2 ^ 64 - unat (ul_time l') < 2 ^ 64 - unat (ul_time l)"
    proof (cases "active_set l' = active_set l")
      case True
      then have "unat (ul_time l) < unat (ul_time l')" using l'(11) by (simp add: word_less_nat_alt)
      moreover have "unat (ul_time l') < 2 ^ 64" using unsigned_less [of "ul_time l'"] by simp
      ultimately have "2 ^ 64 - unat (ul_time l') < 2 ^ 64 - unat (ul_time l)" by linarith
      then show ?thesis using True by simp
    next
      case False
      then have "active_set l' \<subset> active_set l" using l'(9) by auto
      then show ?thesis using psubset_card_mono [OF fin] by blast
    qed
    moreover have alive: "uv__loop_alive env l' \<longleftrightarrow> active_set l' \<noteq> {}"
      using plain_active [OF l'(2)] l'(2) assms(1) by (auto simp: uv__loop_alive_def quiet_def plain_loop_def)
    ultimately obtain l'' gs where r: "run_loop env tcb RunDefault (uv__loop_alive env l') l' = xret (False, l'')" "plain_loop T l''"
      "active_set l'' = {}" "ul_fired l'' = ul_fired l' @ gs" "fired_all tcb l' gs"
      using 1(1) [OF _ l'(2) alive] by auto
    have "run_loop env tcb RunDefault r l = xret (False, l'')" if "r" for r
      using l'(1) r(1) 1(2) that by (subst run_loop.simps) (simp add: plain_loop_def)
    moreover have "fired_all tcb l (fs @ gs)"
      by (rule fired_all_append [OF l'(5-7) _ r(5) l'(9,8,10)]) (simp add: uv__update_time_def)
    ultimately show ?thesis using 1(3) False r(2-4) l'(4) by (intro exI [of _ l''] exI [of _ "fs @ gs"]) simp
  qed
qed

end
