(* ===== verification/UvLoopSafe.thy ===== *)
theory UvLoopSafe
  imports UvLoop UvTimerRun
begin

text \<open>
  No run of the loop ends in a fault, whatever the other handles, the kernel and the callbacks do, as long as
  the calls are legal: rule induction over the three loops, none of which need return.
\<close>

section \<open>Legal surroundings\<close>

text \<open>
  The calls of the other handles are legal wherever they are made; \<open>epoll_wait\<close> does not fail, and does not time
  out when it has been told to wait for ever.
\<close>

fun legal_answer :: "nat set \<Rightarrow> int \<Rightarrow> uv_loop \<Rightarrow> epoll_answer \<Rightarrow> bool" where
  "legal_answer T t l EpTimeout \<longleftrightarrow> t \<noteq> -1"
| "legal_answer T t l EpIntr \<longleftrightarrow> True"
| "legal_answer T t l EpError \<longleftrightarrow> False"
| "legal_answer T t l EpStale \<longleftrightarrow> True"
| "legal_answer T t l (EpEvents cs full) \<longleftrightarrow> legal_calls T l cs"

definition legal_env :: "nat set \<Rightarrow> uv_env \<Rightarrow> bool" where
  "legal_env T env \<longleftrightarrow> (\<forall>P l. timers_ok T P l \<longrightarrow>
     (\<forall>p. legal_calls T l (concat (en_phase env p l))) \<and> (\<forall>x. legal_calls T l (en_close env x l)) \<and>
     (\<forall>t. legal_answer T t (l\<lparr>ul_time := snd (en_wait env t l), ul_tick := Suc (ul_tick l)\<rparr>) (fst (en_wait env t l))))"

text \<open>A result that is no fault and keeps the invariant; not returning is allowed.\<close>

definition fine :: "nat set \<Rightarrow> nat list \<Rightarrow> uv_loop exec option \<Rightarrow> bool" where
  "fine T P r \<longleftrightarrow> (case r of None \<Rightarrow> True | Some (Inl e) \<Rightarrow> False | Some (Inr l) \<Rightarrow> timers_ok T P l)"

lemma fine_simps [simp]: "fine T P None" "\<not> fine T P (Some (Inl e))" "fine T P (xret l) \<longleftrightarrow> timers_ok T P l"
  by (simp_all add: fine_def)

lemma fine_bind:
  assumes "fine T P m" "\<And>l. timers_ok T P l \<Longrightarrow> fine T Q (f l)"
  shows "fine T Q (xbind m f)"
proof (cases m)
  case (Some r)
  then show ?thesis using assms by (cases r) simp_all
qed simp

lemma fine_Some: "(\<And>r. m = Some r \<Longrightarrow> fine T P (Some r)) \<Longrightarrow> fine T P m"
  by (cases m) simp_all

lemma fine_steps: "timers_ok T P l \<Longrightarrow> legal_calls T l cs \<Longrightarrow> fine T P (timer_steps l cs)"
  using steps_ok [of T P l cs] by auto

lemma timers_ok_time: "timers_ok T P l \<Longrightarrow> timers_ok T P (l\<lparr>ul_time := n, ul_tick := k\<rparr>)"
proof -
  assume t: "timers_ok T P l"
  then have "closing_ok P (l\<lparr>ul_time := n, ul_tick := k\<rparr>)" using closing_ok_timers_ok by (auto simp: closing_ok_def)
  then show ?thesis by (intro timers_ok_same [OF t]) simp_all
qed

lemma fine_phase: "legal_env T env \<Longrightarrow> timers_ok T P l \<Longrightarrow> fine T P (run_phase env p l)"
  unfolding run_phase_def by (rule fine_steps) (auto simp: legal_env_def)

section \<open>The loops\<close>

lemma run_timers_fine:
  assumes "legal_prog T tcb" "timers_ok T P l"
  shows "fine T P (uv__run_timers tcb l)"
proof (rule fine_Some)
  fix r assume "uv__run_timers tcb l = Some r"
  then have "legal_prog T tcb \<longrightarrow> timers_ok T P l \<longrightarrow> fine T P (Some r)"
  proof (rule uv__run_timers.raw_induct [rotated, where P = "\<lambda>tcb l r. legal_prog T tcb \<longrightarrow> timers_ok T P l \<longrightarrow> fine T P (Some r)"],
      intro impI)
    fix f tcb l r
    assume ih: "\<And>tcb l r. f tcb l = Some r \<Longrightarrow> legal_prog T tcb \<longrightarrow> timers_ok T P l \<longrightarrow> fine T P (Some r)"
      and r: "(case heap_min (ul_heap l) of None \<Rightarrow> xret l
        | Some x \<Rightarrow> if ul_time l < ut_timeout (ul_timer l x) then xret l else xbind (fire_timer tcb l x) (f tcb)) = Some r"
      and a: "legal_prog T tcb" "timers_ok T P l"
    show "fine T P (Some r)"
    proof (cases "heap_min (ul_heap l)")
      case None
      then show ?thesis unfolding r [symmetric] using a by simp
    next
      case (Some x)
      then have x: "x \<in> active_set l" using min_due [OF a(2)] by simp
      obtain l' where l': "fire_timer tcb l x = xret l'" "timers_ok T P l'"
        using fire_ok [OF a(2) x a(1)] by blast
      have "fine T P (f tcb l')" by (rule fine_Some) (use ih a(1) l'(2) in blast)
      then show ?thesis unfolding r [symmetric] using a(2) Some l'(1) by simp
    qed
  qed
  then show "fine T P (Some r)" using assms by blast
qed

lemma legal_env_wait:
  "legal_env T env \<Longrightarrow> timers_ok T P l \<Longrightarrow> en_wait env t l = (ans, now) \<Longrightarrow>
    legal_answer T t (l\<lparr>ul_time := now, ul_tick := Suc (ul_tick l)\<rparr>) ans"
  unfolding legal_env_def by (metis fst_conv snd_conv)

lemma poll_fine:
  assumes "legal_env T env" "timers_ok T P l"
  shows "-1 \<le> timeout \<Longrightarrow> fine T P (poll_loop env base k real_timeout timeout l)"
proof (rule fine_Some)
  fix r assume t: "-1 \<le> timeout"
  assume "poll_loop env base k real_timeout timeout l = Some r"
  then have "legal_env T env \<longrightarrow> timers_ok T P l \<longrightarrow> -1 \<le> timeout \<longrightarrow> fine T P (Some r)"
  proof (rule poll_loop.raw_induct [rotated, where P = "\<lambda>env base k real timeout l r.
      legal_env T env \<longrightarrow> timers_ok T P l \<longrightarrow> -1 \<le> timeout \<longrightarrow> fine T P (Some r)"], intro impI)
    fix f env base k real timeout l r
    assume ih: "\<And>env base k real timeout l r. f env base k real timeout l = Some r \<Longrightarrow>
        legal_env T env \<longrightarrow> timers_ok T P l \<longrightarrow> -1 \<le> timeout \<longrightarrow> fine T P (Some r)"
      and r: "(let (a, now) = en_wait env timeout l;
          l1 = l\<lparr>ul_time := now, ul_tick := Suc (ul_tick l)\<rparr>;
          real1 = less_elapsed real now base
      in case a of
           EpTimeout \<Rightarrow>
             if timeout = -1 then Some (Inl Abort)
             else if real - timeout > 0 then f env base k real (real - timeout) l1
             else xret l1
         | EpError \<Rightarrow> Some (Inl Abort)
         | EpIntr \<Rightarrow>
             if timeout = -1 then f env base k real timeout l1
             else if timeout = 0 then xret l1
             else if \<not> timeout > 0 then Some (Inl Abort)
             else if real1 \<le> 0 then xret l1
             else f env base k real1 real1 l1
         | EpStale \<Rightarrow>
             if timeout = 0 then xret l1
             else if timeout = -1 then f env base k real timeout l1
             else if \<not> timeout > 0 then Some (Inl Abort)
             else if real1 \<le> 0 then xret l1
             else f env base k real1 real1 l1
         | EpEvents cs full \<Rightarrow>
             xbind (timer_steps l1 cs) (\<lambda>l2.
             if full \<and> k - 1 \<noteq> 0 then f env base (k - 1) real 0 l2 else xret l2)) = Some r"
      and a: "legal_env T env" "timers_ok T P l" "-1 \<le> timeout"
    have rec: "fine T P (f env base k' real' timeout' l')" if "-1 \<le> timeout'" "timers_ok T P l'" for k' real' timeout' l'
      by (rule fine_Some) (use ih a(1) that in blast)
    obtain ans now where w: "en_wait env timeout l = (ans, now)" by fastforce
    let ?l = "l\<lparr>ul_time := now, ul_tick := Suc (ul_tick l)\<rparr>"
    have l: "timers_ok T P ?l" by (rule timers_ok_time [OF a(2)])
    have legal: "legal_answer T timeout ?l ans" by (rule legal_env_wait [OF a(1,2) w])
    show "fine T P (Some r)"
    proof (cases ans)
      case (EpEvents cs full)
      have "fine T P (xbind (timer_steps ?l cs) (\<lambda>l2. if full \<and> k - 1 \<noteq> 0 then f env base (k - 1) real 0 l2 else xret l2))"
        by (rule fine_bind [OF fine_steps [OF l]]) (use legal EpEvents rec in auto)
      then show ?thesis unfolding r [symmetric] w EpEvents by simp
    qed (unfold r [symmetric] w, use l rec legal a(3) in \<open>auto simp: Let_def\<close>)
  qed
  then show "fine T P (Some r)" using assms t by blast
qed


lemma closing_fine: "legal_env T env \<Longrightarrow> timers_ok T ps l \<Longrightarrow> fine T [] (closing_loop env l ps)"
proof (induction ps arbitrary: l)
  case (Cons p ps)
  let ?u = "(ul_timer l p)\<lparr>ut_closed := True\<rparr>"
  let ?l0 = "upd_timer l p (\<lambda>t. t\<lparr>ut_closed := True\<rparr>)"
  have c: "closing_ok (p # ps) l" by (rule closing_ok_timers_ok [OF Cons.prems(2)])
  then have p: "ut_closing (ul_timer l p)" "\<not> ut_closed (ul_timer l p)" by (auto simp: closing_ok_def)
  have t0: "ul_timer ?l0 = (ul_timer l)(p := ?u)" by simp
  have "closing_ok ps ?l0" using c by (auto simp: closing_ok_def)
  then have "timers_ok T ps ?l0" by (intro timers_ok_upd [OF Cons.prems(2) t0]) simp_all
  then have "timers_ok T ps (timer_unref ?l0 p)" using ref_ok(2) by (simp add: step_fine_def)
  then have "fine T ps (finish_close env l p)"
    unfolding finish_close_def Let_def using p Cons.prems(1) by (auto simp: legal_env_def intro!: fine_steps)
  then show ?case using Cons.IH [OF Cons.prems(1)] by (auto intro: fine_bind)
qed simp

lemma closing_handles_fine:
  assumes "legal_env T env" "timers_ok T [] l"
  shows "fine T [] (uv__run_closing_handles env l)"
proof -
  have "closing_ok (ul_closing l) (l\<lparr>ul_closing := []\<rparr>)" using closing_ok_timers_ok [OF assms(2)] by (simp add: closing_ok_def)
  then have "timers_ok T (ul_closing l) (l\<lparr>ul_closing := []\<rparr>)" by (intro timers_ok_same [OF assms(2)]) simp_all
  then show ?thesis unfolding uv__run_closing_handles_def by (rule closing_fine [OF assms(1)])
qed

lemma next_timeout_lower: "-1 \<le> uv__next_timeout l"
  by (auto simp: uv__next_timeout_def Let_def split: option.split intro: order_trans [OF _ uint_ge_0])

lemma backend_timeout_lower: "-1 \<le> uv_backend_timeout env l"
  using next_timeout_lower by (simp add: uv_backend_timeout_def)

lemma iteration_fine:
  assumes "legal_env T env" "legal_prog T tcb" "timers_ok T [] l"
  shows "fine T [] (run_iteration env tcb mode l)"
proof -
  have u: "timers_ok T [] (uv__update_time env l)" if "timers_ok T [] l" for l
    unfolding uv__update_time_def by (rule timers_ok_time [OF that])
  have poll: "fine T [] (uv__io_poll env t l)" if "timers_ok T [] l" "-1 \<le> t" for t l
    using poll_fine [OF assms(1) that(1,2)] that(2) by (simp add: uv__io_poll_def)
  show ?thesis
    unfolding run_iteration_def Let_def
    by (intro fine_bind [where P = "[]"] run_timers_fine fine_phase poll closing_handles_fine u assms)
      (auto intro: run_timers_fine u assms simp: backend_timeout_lower)
qed

lemma run_loop_fine:
  assumes "legal_env T env" "legal_prog T tcb" "timers_ok T [] l" "run_loop env tcb mode r l = Some res"
  shows "case res of Inl e \<Rightarrow> False | Inr (r1, l1) \<Rightarrow> timers_ok T [] l1"
proof -
  have "legal_env T env \<longrightarrow> legal_prog T tcb \<longrightarrow> timers_ok T [] l \<longrightarrow> (case res of Inl e \<Rightarrow> False | Inr (r1, l1) \<Rightarrow> timers_ok T [] l1)"
    using assms(4)
  proof (rule run_loop.raw_induct [rotated, where P = "\<lambda>env tcb mode r l res. legal_env T env \<longrightarrow> legal_prog T tcb \<longrightarrow>
      timers_ok T [] l \<longrightarrow> (case res of Inl e \<Rightarrow> False | Inr (r1, l1) \<Rightarrow> timers_ok T [] l1)"], intro impI)
    fix f env tcb mode r l res
    assume ih: "\<And>env tcb mode r l res. f env tcb mode r l = Some res \<Longrightarrow> legal_env T env \<longrightarrow> legal_prog T tcb \<longrightarrow>
        timers_ok T [] l \<longrightarrow> (case res of Inl e \<Rightarrow> False | Inr (r1, l1) \<Rightarrow> timers_ok T [] l1)"
      and r: "(if r \<and> \<not> ul_stop l then
          xbind (run_iteration env tcb mode l) (\<lambda>l1.
          if mode = RunOnce \<or> mode = RunNowait then xret (uv__loop_alive env l1, l1)
          else f env tcb mode (uv__loop_alive env l1) l1)
        else xret (r, l)) = Some res"
      and a: "legal_env T env" "legal_prog T tcb" "timers_ok T [] l"
    show "case res of Inl e \<Rightarrow> False | Inr (r1, l1) \<Rightarrow> timers_ok T [] l1"
    proof (cases "r \<and> \<not> ul_stop l")
      case False
      then have "res = Inr (r, l)" using r by (simp only: if_False option.inject)
      then show ?thesis using a(3) by simp
    next
      case True
      note i = iteration_fine [OF a, of mode]
      obtain l1 where l1: "run_iteration env tcb mode l = xret l1" "timers_ok T [] l1"
      proof (cases "run_iteration env tcb mode l")
        case None
        then show ?thesis using r True by simp
      next
        case (Some q)
        then show ?thesis using i that by (cases q) simp_all
      qed
      show ?thesis
      proof (cases "mode = RunOnce \<or> mode = RunNowait")
        case True
        then have "res = Inr (uv__loop_alive env l1, l1)" using r l1 \<open>r \<and> \<not> ul_stop l\<close> by auto
        then show ?thesis using l1(2) by simp
      next
        case False
        then have "f env tcb mode (uv__loop_alive env l1) l1 = Some res" using r l1 True by simp
        then show ?thesis using ih a(1,2) l1(2) by blast
      qed
    qed
  qed
  then show ?thesis using assms by blast
qed

end
