(* ===== verification/UvLoopProps.thy ===== *)
theory UvLoopProps
  imports UvLoopRun UvLoopSafe
begin

text \<open>What the heap, the timers and the loop of libuv guarantee, and three things they do not.\<close>

section \<open>Concrete runs\<close>

text \<open>Two timers, for 5 and 3 ms; and callbacks that start their timer again.\<close>

definition two_timers :: uv_loop where
  "two_timers = loop_after 100 [TimerInit 0, TimerStart 0 (Some 7) 5 0, TimerInit 1, TimerStart 1 (Some 8) 3 0]"

definition restart :: "u64 \<Rightarrow> timer_prog" where
  "restart t c x l = [TimerStart x (Some c) t 0]"

lemma two_timers_facts:
  "timers_ok {0, 1} [] two_timers" "same_rest (timer_loop_init 100) two_timers"
  "ut_timeout (ul_timer two_timers 0) = 105" "ut_timeout (ul_timer two_timers 1) = 103"
  "plain_loop {0, 1} two_timers" "active_set two_timers = {0, 1}"
  "ut_cb (ul_timer two_timers 0) = Some 7" "ut_cb (ul_timer two_timers 1) = Some 8"
proof -
  have i: "timers_ok {0, 1} [] (timer_loop_init 100)" by (rule timer_loop_init_ok) simp_all
  obtain l where l: "timer_steps (timer_loop_init 100) [TimerInit 0, TimerStart 0 (Some 7) 5 0, TimerInit 1, TimerStart 1 (Some 8) 3 0] =
      timer_steps l [TimerInit 1, TimerStart 1 (Some 8) 3 0]" "timers_ok {0, 1} [] l" "same_rest (timer_loop_init 100) l"
    "ul_timer l = (ul_timer (timer_loop_init 100))(0 := new_timer (timer_loop_init 100) 7 5 0 (ul_timer (timer_loop_init 100) 0))"
    using init_start_facts [OF i, of 0 7 5 0 "[TimerInit 1, TimerStart 1 (Some 8) 3 0]"] by (auto simp: timer_loop_init_def blank_timer_def)
  obtain m where m: "timer_steps l [TimerInit 1, TimerStart 1 (Some 8) 3 0] = timer_steps m []" "timers_ok {0, 1} [] m" "same_rest l m"
    "ul_timer m = (ul_timer l)(1 := new_timer l 8 3 0 (ul_timer l 1))"
    using init_start_facts [OF l(2), of 1 8 3 0 "[]"] l(4) by (auto simp: timer_loop_init_def blank_timer_def)
  have eq: "two_timers = m" using l(1) m(1) by (simp add: two_timers_def loop_after_def)
  have time: "ul_time l = 100" "ul_time (timer_loop_init 100) = 100" using l(3) by (simp_all add: same_rest_def timer_loop_init_def)
  have t: "ul_timer m 0 = new_timer (timer_loop_init 100) 7 5 0 blank_timer" "ul_timer m 1 = new_timer l 8 3 0 blank_timer"
    using l(4) m(4) by (simp_all add: timer_loop_init_def)
  show ok: "timers_ok {0, 1} [] two_timers" and s: "same_rest (timer_loop_init 100) two_timers"
    using m(2) same_rest_trans [OF l(3) m(3)] by (simp_all add: eq)
  show "ut_timeout (ul_timer two_timers 0) = 105" "ut_timeout (ul_timer two_timers 1) = 103"
    "ut_cb (ul_timer two_timers 0) = Some 7" "ut_cb (ul_timer two_timers 1) = Some 8"
    unfolding eq t by (simp_all add: new_timer_def time clamp_def)
  have "active_set two_timers \<subseteq> {0, 1}" using ok by (simp add: timers_ok_def)
  moreover have "0 \<in> active_set two_timers" "1 \<in> active_set two_timers"
    unfolding active_set_def eq mem_Collect_eq t by (simp_all add: new_timer_def)
  ultimately show a: "active_set two_timers = {0, 1}" by blast
  have "one_shot two_timers" "\<forall>x\<in>active_set two_timers. ut_ref (ul_timer two_timers x)"
    unfolding one_shot_def a unfolding eq ball_simps t by (simp_all add: new_timer_def)
  then show "plain_loop {0, 1} two_timers" using ok s by (simp add: plain_loop_def same_rest_def timer_loop_init_def)
qed

lemma two_timers_earliest:
  "(\<forall>x. \<not> ut_active (ul_timer two_timers x)) = False"
  "{uint (ut_timeout (ul_timer two_timers x)) | x. ut_active (ul_timer two_timers x)} = {105, 103}" "ul_time two_timers = 100"
proof -
  note f = two_timers_facts
  have a: "ut_active (ul_timer two_timers x) \<longleftrightarrow> x = 0 \<or> x = 1" for x using f(6) by (auto simp: active_set_def)
  then show "(\<forall>x. \<not> ut_active (ul_timer two_timers x)) = False" by blast
  have "{uint (ut_timeout (ul_timer two_timers x)) | x. ut_active (ul_timer two_timers x)} =
      (\<lambda>x. uint (ut_timeout (ul_timer two_timers x))) ` {0, 1}" by (auto simp: a)
  also have "\<dots> = {105, 103}" unfolding image_insert image_empty f(3,4) by simp
  finally show "{uint (ut_timeout (ul_timer two_timers x)) | x. ut_active (ul_timer two_timers x)} = {105, 103}" .
  show "ul_time two_timers = 100" using f(2) by (simp add: same_rest_def timer_loop_init_def)
qed

lemma two_timers_next: "uv__next_timeout two_timers = 3"
proof -
  have "(\<lambda>x. uint (ut_timeout (ul_timer two_timers x))) ` active_set two_timers = {105, 103}"
    unfolding two_timers_facts(6) image_insert image_empty two_timers_facts(3,4) by simp
  then show ?thesis using next_timeout_eq [OF two_timers_facts(1)] two_timers_facts(6) two_timers_earliest(3) by simp
qed

definition late :: "uv_loop \<Rightarrow> uv_loop" where
  "late l = l\<lparr>ul_time := 200\<rparr>"

lemma late_ok: "timers_ok {0, 1} [] (late two_timers)" "due (late two_timers) = {0, 1}"
proof -
  note f = two_timers_facts
  show "timers_ok {0, 1} [] (late two_timers)"
    unfolding late_def by (rule timers_ok_same [OF f(1)]) (use closing_ok_timers_ok [OF f(1)] in \<open>simp_all add: closing_ok_def\<close>)
  have "active_set (late two_timers) = {0, 1}" using f(6) by (simp add: active_set_def late_def)
  moreover have "ut_timeout (ul_timer (late two_timers) x) \<le> ul_time (late two_timers)" if "x = 0 \<or> x = 1" for x
  proof -
    have "ut_timeout (ul_timer two_timers x) \<le> 200" using that by (elim disjE) (simp_all only: f(3,4), simp_all)
    then show ?thesis by (simp add: late_def)
  qed
  ultimately show "due (late two_timers) = {0, 1}" unfolding due_def by blast
qed

lemma restart_legal: "legal_prog T (restart t)"
  by (auto simp: legal_prog_def restart_def split: option.split sum.split)


section \<open>The heap\<close>

text \<open>
  C19: the heap of pointers is a priority queue. Whatever nodes are inserted, removed and taken from the
  top, in an order that the sorted list of the specification allows, no operation faults or runs for ever, the root
  is the first node of the sorted list and the number of nodes its length.
\<close>

theorem heap_refines_sorted_list:
  assumes "inj k" "sorted_ops k [] cs = Some ys"
  shows "\<exists>h'. heap_ops_run (key_less k) (heap_init h) cs = Some (Inr h') \<and>
    heap_min h' = (case ys of [] \<Rightarrow> None | y # _ \<Rightarrow> Some y) \<and> uh_nelts h' = of_nat (length ys)"
proof -
  have "holds_sorted k (heap_init h) []" using good_heap_init by (simp add: holds_sorted_def)
  then obtain h' where h': "heap_ops_run (key_less k) (heap_init h) cs = Some (Inr h')" "good_heap k h' (set ys)"
    "sorted_wrt (\<lambda>x y. k x < k y) ys"
    using heap_ops_refine [OF assms(1) _ assms(2)] by (auto simp: holds_sorted_def)
  then show ?thesis
    using uvq.mn_sorted_list [OF h'(2,3)] good_heap_nelts [OF h'(2)] sorted_wrt_distinct [OF h'(3)] by (auto simp: distinct_card)
qed

theorem heap_refines_sorted_list_witness:
  "\<exists>h'. heap_ops_run (key_less (\<lambda>x. x)) (heap_init blank_heap)
     [HeapInsert 5, HeapInsert 3, HeapInsert 9, HeapInsert 1, HeapRemove 3, HeapDequeue] = Some (Inr h') \<and>
   heap_min h' = Some 5 \<and> uh_nelts h' = 2"
  using heap_refines_sorted_list [of "\<lambda>x. x" "[HeapInsert 5, HeapInsert 3, HeapInsert 9, HeapInsert 1, HeapRemove 3, HeapDequeue]" "[5, 9]"
      blank_heap] by simp

section \<open>The timers\<close>

text \<open>
  C20: running the timers ends. If the callbacks start timers only for later milliseconds, \<open>uv__run_timers\<close> returns
  with no timer left due; it has called only timers that were due, each once, with its own callback, in the order of
  their time and, for the same time, of their start; and all of them, if no callback touches another due timer.
\<close>

theorem run_timers_fires_due:
  assumes "timers_ok T [] l" "legal_prog T tcb" "positive_prog tcb" "ul_time l < -1"
  shows "\<exists>l' fs. uv__run_timers tcb l = Some (Inr l') \<and> timers_ok T [] l' \<and> due l' = {} \<and> ul_fired l' = ul_fired l @ fs \<and>
    distinct (map snd fs) \<and> snd ` set fs \<subseteq> due l \<and> (\<forall>(c, x)\<in>set fs. ut_cb (ul_timer l x) = Some c) \<and>
    sorted_wrt (\<lambda>p q. ut_timeout (ul_timer l (snd p)) < ut_timeout (ul_timer l (snd q)) \<or>
      ut_timeout (ul_timer l (snd p)) = ut_timeout (ul_timer l (snd q)) \<and>
      ut_start_id (ul_timer l (snd p)) \<le> ut_start_id (ul_timer l (snd q))) fs \<and>
    (modest_prog tcb \<longrightarrow> snd ` set fs = due l)"
proof -
  obtain l' fs where r: "uv__run_timers tcb l = Some (Inr l')" "timers_ok T [] l'" "due l' = {}" "ul_fired l' = ul_fired l @ fs"
    "fired_in_order l fs" "modest_prog tcb \<longrightarrow> snd ` set fs = due l"
    using run_timers_ok [OF assms] by blast
  moreover have "sorted_wrt (\<lambda>p q. ut_timeout (ul_timer l (snd p)) < ut_timeout (ul_timer l (snd q)) \<or>
      ut_timeout (ul_timer l (snd p)) = ut_timeout (ul_timer l (snd q)) \<and>
      ut_start_id (ul_timer l (snd p)) \<le> ut_start_id (ul_timer l (snd q))) fs"
  proof (rule sorted_wrt_mono_rel)
    show "sorted_wrt (\<lambda>p q. tkey l (snd p) \<le> tkey l (snd q)) fs" using r(5) by (simp add: fired_in_order_def)
  qed (auto simp: tkey_def less_eq_prod_def)
  ultimately show ?thesis by (auto simp: fired_in_order_def)
qed

lemma restart_modest: "modest_prog (restart t)"
  by (auto simp: modest_prog_def restart_def)

theorem run_timers_fires_due_witness:
  "\<exists>l' fs. uv__run_timers (restart 4) (late two_timers) = Some (Inr l') \<and> due l' = {} \<and> ul_fired l' = fs \<and> snd ` set fs = {0, 1}"
proof -
  have f: "ul_fired (late two_timers) = []" "ul_time (late two_timers) < -1"
    using two_timers_facts(2) by (simp_all add: late_def same_rest_def timer_loop_init_def word_less_nat_alt unat_max64)
  have "positive_prog (restart 4)" by (simp add: positive_prog_def restart_def)
  then show ?thesis
    using run_timers_fires_due [OF late_ok(1) restart_legal, of 4] f restart_modest [of 4] late_ok(2) by auto
qed

text \<open>
  C38: the next timeout is exact. \<open>uv__next_timeout\<close> is -1 only if no timer runs; otherwise it is the time until
  the earliest timer, 0 if that is over, cut to the largest \<open>int\<close>: the loop never sleeps past a timer that runs.
\<close>

theorem next_timeout_exact:
  assumes "timers_ok T [] l"
  shows "uv__next_timeout l =
    (if \<forall>x. \<not> ut_active (ul_timer l x) then -1
     else min 2147483647 (max 0 (Min {uint (ut_timeout (ul_timer l x)) | x. ut_active (ul_timer l x)} - uint (ul_time l))))"
proof -
  have "(\<lambda>x. uint (ut_timeout (ul_timer l x))) ` active_set l = {uint (ut_timeout (ul_timer l x)) | x. ut_active (ul_timer l x)}"
    by (auto simp: active_set_def)
  moreover have "active_set l = {} \<longleftrightarrow> (\<forall>x. \<not> ut_active (ul_timer l x))" by (auto simp: active_set_def)
  ultimately show ?thesis using next_timeout_eq [OF assms] by simp
qed

theorem next_timeout_exact_witness: "uv__next_timeout two_timers = 3"
  using next_timeout_exact [OF two_timers_facts(1)] two_timers_earliest by (simp only: if_False) simp

lemma restart_fires:
  assumes "timers_ok T P l" "x \<in> active_set l"
  shows "\<exists>l'. fire_timer (restart 0) l x = xret l' \<and> timers_ok T P l' \<and> due l' \<noteq> {}"
proof -
  have xT: "x \<in> T" using assms by (auto simp: timers_ok_def)
  obtain l1 where l1: "uv_timer_stop l x = xret (0, l1)" "step_fine T P l (Some x) l1"
    "ul_timer l1 = (ul_timer l)(x := (ul_timer l x)\<lparr>ut_active := False\<rparr>)"
    using stop_fine [OF assms(1), of x] by blast
  then have t1: "timers_ok T P l1" by (simp add: step_fine_def)
  obtain e l2 where l2: "uv_timer_again l1 x = xret (e, l2)" "step_fine T P l1 (Some x) l2" "ut_cb (ul_timer l2 x) = ut_cb (ul_timer l1 x)"
    using again_fine [OF t1 xT] by blast
  then have t2: "timers_ok T P l2" by (simp add: step_fine_def)
  obtain c where c: "ut_cb (ul_timer l x) = Some c" using assms by (auto simp: timers_ok_def)
  let ?l3 = "l2\<lparr>ul_fired := ul_fired l2 @ [(c, x)]\<rparr>"
  have "closing_ok P ?l3" using closing_ok_timers_ok [OF t2] by (simp add: closing_ok_def)
  then have t3: "timers_ok T P ?l3" by (intro timers_ok_same [OF t2]) simp_all
  obtain l4 where l4: "uv_timer_start ?l3 x (Some c) 0 0 = xret (0, l4)" "timers_ok T P l4" "same_rest ?l3 l4"
    "ul_timer l4 = (ul_timer ?l3)(x := started ?l3 x c 0 0)"
    using start_ok [OF t3 xT, of c 0 0] by blast
  have "x \<in> due l4" using l4(3,4) by (simp add: due_def active_set_def started_def clamp_def same_rest_def)
  moreover have "fire_timer (restart 0) l x = xret l4"
    using l1 l2 c l4(1) by (simp add: fire_timer_def timer_cb_def restart_def Let_def)
  ultimately show ?thesis using l4(2) by blast
qed

text \<open>
  A timer that starts itself for the current millisecond starves the loop: if any timer is due and
  every callback starts its timer again with timeout 0, \<open>uv__run_timers\<close> does not return.
\<close>

theorem run_timers_starves:
  assumes "timers_ok T [] l" "due l \<noteq> {}"
  shows "uv__run_timers (restart 0) l = None"
proof (rule ccontr)
  assume "uv__run_timers (restart 0) l \<noteq> None"
  then obtain r where "uv__run_timers (restart 0) l = Some r" by blast
  then have "restart 0 = restart 0 \<longrightarrow> timers_ok T [] l \<longrightarrow> due l = {}"
  proof (rule uv__run_timers.raw_induct [rotated, where P = "\<lambda>tcb l r. tcb = restart 0 \<longrightarrow> timers_ok T [] l \<longrightarrow> due l = {}"],
      intro impI)
    fix f tcb l r
    assume ih: "\<And>tcb l r. f tcb l = Some r \<Longrightarrow> tcb = restart 0 \<longrightarrow> timers_ok T [] l \<longrightarrow> due l = {}"
      and r: "(case heap_min (ul_heap l) of None \<Rightarrow> xret l
        | Some x \<Rightarrow> if ul_time l < ut_timeout (ul_timer l x) then xret l else xbind (fire_timer tcb l x) (f tcb)) = Some r"
      and a: "tcb = restart 0" "timers_ok T [] l"
    show "due l = {}"
    proof (rule ccontr)
      assume "due l \<noteq> {}"
      then obtain x where x: "heap_min (ul_heap l) = Some x" "x \<in> active_set l" "\<not> ul_time l < ut_timeout (ul_timer l x)"
        using min_due [OF a(2)] by (auto split: option.splits if_splits)
      obtain l' where "fire_timer (restart 0) l x = xret l'" "timers_ok T [] l'" "due l' \<noteq> {}"
        using restart_fires [OF a(2) x(2)] by blast
      then show False using ih [of tcb l' r] r x a(1) by simp
    qed
  qed
  then show False using assms by simp
qed

theorem run_timers_starves_witness: "uv__run_timers (restart 0) (late two_timers) = None"
  using run_timers_starves [OF late_ok(1)] late_ok(2) by simp

section \<open>The loop\<close>

text \<open>
  C18: the loop runs its timers and ends. Given a loop whose active timers are all one-shot and
  referenced, with no other handle and none closing, callbacks that make no calls but \<open>uv_timer_stop\<close>
  (of any timers), and a kernel that reports no events and no signals and waits as long as it is
  told, \<open>uv_run\<close> in default mode returns 0. It has called only timers that were active, each
  once with its own callback and in the order of their times, and every one of them, unless a
  callback stops it; no timer runs any more. (A callback that starts its timer for the same
  millisecond would keep the loop from returning, \<open>run_timers_starves\<close>.)
\<close>

theorem loop_runs_every_timer:
  assumes "plain_loop T l" "quiet env" "only_stops tcb"
  shows "\<exists>l' fs. uv_run_core env tcb RunDefault l = Some (Inr (0, l')) \<and> (\<forall>x. \<not> ut_active (ul_timer l' x)) \<and>
    ul_fired l' = ul_fired l @ fs \<and> distinct (map snd fs) \<and> snd ` set fs \<subseteq> {x. ut_active (ul_timer l x)} \<and>
    (\<forall>x. ut_active (ul_timer l x) \<and> (\<forall>c z k. TimerStop x \<notin> set (tcb c z k)) \<longrightarrow> x \<in> snd ` set fs) \<and>
    (\<forall>(c, x)\<in>set fs. ut_cb (ul_timer l x) = Some c) \<and>
    sorted_wrt (\<lambda>p q. ut_timeout (ul_timer l (snd p)) \<le> ut_timeout (ul_timer l (snd q))) fs"
proof -
  let ?r = "uv__loop_alive env l"
  let ?l = "if ?r then l else uv__update_time env l"
  have alive: "?r \<longleftrightarrow> active_set l \<noteq> {}"
    using plain_active [OF assms(1)] assms by (auto simp: uv__loop_alive_def quiet_def plain_loop_def)
  have p: "plain_loop T ?l" using assms(1) plain_loop_time by (simp add: uv__update_time_def)
  have same: "ul_timer ?l = ul_timer l" "ul_fired ?l = ul_fired l" "active_set ?l = active_set l"
    by (simp_all add: uv__update_time_def active_set_def)
  obtain l' fs where r: "run_loop env tcb RunDefault ?r ?l = xret (False, l')" "active_set l' = {}" "ul_fired l' = ul_fired ?l @ fs"
    "fired_all tcb ?l fs"
    using plain_run [OF assms(2,3) p, of ?r] alive same(3) by auto
  let ?l' = "l'\<lparr>ul_stop := False\<rparr>"
  have f: "distinct (map snd fs)" "snd ` set fs \<subseteq> active_set l" "active_set l \<subseteq> snd ` set fs \<union> stopped_by tcb"
    "sorted_wrt (\<lambda>p q. tkey ?l (snd p) \<le> tkey ?l (snd q)) fs" "\<forall>(c, x)\<in>set fs. ut_cb (ul_timer l x) = Some c"
    using r(4) same(1,3) by (simp_all add: fired_all_def)
  have "uv_run_core env tcb RunDefault l = Some (Inr (0, ?l'))" using r(1) by (simp add: uv_run_core_def Let_def)
  moreover have "\<forall>x. \<not> ut_active (ul_timer ?l' x)" using r(2) by (auto simp: active_set_def)
  moreover have "sorted_wrt (\<lambda>p q. ut_timeout (ul_timer l (snd p)) \<le> ut_timeout (ul_timer l (snd q))) fs"
    by (rule sorted_wrt_mono_rel [OF _ f(4)]) (auto simp: tkey_def less_eq_prod_def same(1))
  moreover have "x \<in> snd ` set fs" if "ut_active (ul_timer l x)" "\<forall>c z k. TimerStop x \<notin> set (tcb c z k)" for x
    using that f(3) by (auto simp: active_set_def stopped_by_def)
  moreover have "ul_fired ?l' = ul_fired l @ fs" using r(3) same(2) by simp
  ultimately show ?thesis using f(1,2,5) unfolding active_set_def [symmetric]
    by (intro exI [of _ ?l'] exI [of _ fs]) blast
qed

text \<open>A clock that stands still but for the time the kernel waits; and waits for ever end with a signal.\<close>

definition sleeping_env :: uv_env where
  "sleeping_env = \<lparr>en_clock = ul_time,
     en_wait = (\<lambda>t l. (if t = -1 then EpIntr else EpTimeout, word_of_nat (min (unat (ul_time l) + nat t) (2 ^ 64 - 1)))),
     en_phase = (\<lambda>_ _. []), en_busy = (\<lambda>_ _. False), en_close = (\<lambda>_ _. [])\<rparr>"

lemma sleeping_quiet: "quiet sleeping_env"
  by (simp add: quiet_def sleeping_env_def unsigned_of_nat take_bit_nat_eq_self)

lemma sleeping_legal: "legal_env T sleeping_env"
  by (simp add: legal_env_def sleeping_env_def)

text \<open>Timer 1, for 3 ms, stops timer 0, for 5 ms.\<close>

definition stops_other :: timer_prog where
  "stops_other c x l = (if x = 1 then [TimerStop 0] else [])"

theorem loop_runs_every_timer_witness:
  "\<exists>l' fs. uv_run_core sleeping_env stops_other RunDefault two_timers = Some (Inr (0, l')) \<and>
     ul_fired l' = fs \<and> distinct (map snd fs) \<and> {1} \<subseteq> snd ` set fs \<and> snd ` set fs \<subseteq> {0, 1} \<and>
     (\<exists>l1. uv_run_core sleeping_env silent RunDefault two_timers = Some (Inr (0, l1)) \<and> snd ` set (ul_fired l1) = {0, 1})"
proof -
  have u: "ul_fired two_timers = []" using two_timers_facts(2) by (simp add: same_rest_def timer_loop_init_def)
  have a: "ut_active (ul_timer two_timers x) \<longleftrightarrow> x = 0 \<or> x = 1" for x using two_timers_facts(6) by (auto simp: active_set_def)
  have p: "only_stops stops_other" "only_stops silent" by (simp_all add: only_stops_def stops_other_def silent_def)
  note run = loop_runs_every_timer [OF two_timers_facts(5) sleeping_quiet]
  obtain l' fs where 1: "uv_run_core sleeping_env stops_other RunDefault two_timers = Some (Inr (0, l'))"
    "ul_fired l' = ul_fired two_timers @ fs" "distinct (map snd fs)" "snd ` set fs \<subseteq> {x. ut_active (ul_timer two_timers x)}"
    "\<forall>x. ut_active (ul_timer two_timers x) \<and> (\<forall>c z k. TimerStop x \<notin> set (stops_other c z k)) \<longrightarrow> x \<in> snd ` set fs"
    using run [OF p(1)] by (elim exE conjE)
  obtain l1 gs where 2: "uv_run_core sleeping_env silent RunDefault two_timers = Some (Inr (0, l1))"
    "ul_fired l1 = ul_fired two_timers @ gs" "snd ` set gs \<subseteq> {x. ut_active (ul_timer two_timers x)}"
    "\<forall>x. ut_active (ul_timer two_timers x) \<and> (\<forall>c z k. TimerStop x \<notin> set (silent c z k)) \<longrightarrow> x \<in> snd ` set gs"
    using run [OF p(2)] by (elim exE conjE)
  have a1: "{x. ut_active (ul_timer two_timers x)} = {0, 1}" using a by auto
  have "1 \<in> snd ` set fs" using 1(5) a by (simp add: stops_other_def)
  moreover have "snd ` set gs = {0, 1}"
  proof (rule equalityI)
    show "snd ` set gs \<subseteq> {0, 1}" using 2(3) unfolding a1 .
    show "{0, 1} \<subseteq> snd ` set gs" using 2(4) a by (simp add: silent_def)
  qed
  ultimately show ?thesis using 1(1-4) 2(1,2) u unfolding a1 by (intro exI [of _ l'] exI [of _ fs]) simp
qed

text \<open>
  C21: no run of the loop ends in a fault. A program that makes legal calls on a new loop and then runs
  it in any mode, with any legal callbacks and whatever the other handles and the kernel do, reaches no assertion that fails and no
  NULL pointer; if \<open>uv_run\<close> returns, it returns 0 or 1, with the heap in order, the counter of active handles right
  and the list of closing handles complete.
\<close>

theorem loop_never_faults:
  assumes "finite T" "card T < 2 ^ 32" "legal_calls T (timer_loop_init now) cs" "legal_env T env" "legal_prog T tcb"
  shows "\<exists>l. timer_steps (timer_loop_init now) cs = Some (Inr l) \<and>
    (case uv_run_core env tcb mode l of
       None \<Rightarrow> True
     | Some (Inl e) \<Rightarrow> False
     | Some (Inr (n, l')) \<Rightarrow> (n = 0 \<or> n = 1) \<and> timers_ok T [] l')"
proof -
  obtain l where l: "timer_steps (timer_loop_init now) cs = Some (Inr l)" "timers_ok T [] l"
    using steps_ok [OF timer_loop_init_ok [OF assms(1,2)] assms(3)] by blast
  let ?r = "uv__loop_alive env l"
  let ?l = "if ?r then l else uv__update_time env l"
  have ok: "timers_ok T [] ?l" using l(2) timers_ok_time by (simp add: uv__update_time_def)
  show ?thesis
  proof (cases "run_loop env tcb mode ?r ?l")
    case None
    then show ?thesis using l(1) by (simp add: uv_run_core_def Let_def)
  next
    case (Some res)
    note f = run_loop_fine [OF assms(4,5) ok Some]
    then obtain r1 l1 where res: "res = Inr (r1, l1)" "timers_ok T [] l1" by (cases res) auto
    have "closing_ok [] (l1\<lparr>ul_stop := False\<rparr>)" using closing_ok_timers_ok [OF res(2)] by (simp add: closing_ok_def)
    then have "timers_ok T [] (l1\<lparr>ul_stop := False\<rparr>)" by (intro timers_ok_same [OF res(2)]) simp_all
    then show ?thesis using l(1) Some res(1) by (simp add: uv_run_core_def Let_def)
  qed
qed

theorem loop_never_faults_witness:
  "\<exists>l. timer_steps (timer_loop_init 100) [TimerInit 0, TimerClose 0] = Some (Inr l) \<and>
    (case uv_run_core sleeping_env (restart 1) RunOnce l of
       None \<Rightarrow> True
     | Some (Inl e) \<Rightarrow> False
     | Some (Inr (n, l')) \<Rightarrow> (n = 0 \<or> n = 1) \<and> timers_ok {0} [] l')"
  by (rule loop_never_faults)
    (simp_all add: sleeping_legal restart_legal timer_loop_init_def blank_timer_def uv_timer_init_def timer_handle_init_def split: option.split sum.split)

text \<open>A clock at \<open>t0\<close> and two signals while the loop waits, after \<open>d1\<close> and \<open>d2\<close> milliseconds.\<close>

definition signals_env :: "u64 \<Rightarrow> u64 \<Rightarrow> u64 \<Rightarrow> uv_env" where
  "signals_env t0 d1 d2 = \<lparr>en_clock = (\<lambda>l. if ul_tick l = 0 then t0 else t0 + d2),
     en_wait = (\<lambda>t l. (EpIntr, if ul_tick l = 1 then t0 + d1 else t0 + d2)),
     en_phase = (\<lambda>_ _. []), en_busy = (\<lambda>_ _. False), en_close = (\<lambda>_ _. [])\<rparr>"


lemma run_timers_none_due: "timers_ok T P l \<Longrightarrow> due l = {} \<Longrightarrow> uv__run_timers tcb l = xret l"
  using min_due [of T P l] by (subst run_timers_step) (auto split: option.splits if_splits)

lemma next_timeout_cong:
  "ul_heap l' = ul_heap l \<Longrightarrow> ul_timer l' = ul_timer l \<Longrightarrow> ul_time l' = ul_time l \<Longrightarrow> uv__next_timeout l' = uv__next_timeout l"
  by (cases "heap_min (ul_heap l)") (simp_all add: uv__next_timeout_def)

lemma next_timeout_not_due:
  assumes "timers_ok T P l" "int d < uv__next_timeout l" "ul_timer l' = ul_timer l" "ul_time l' = ul_time l + of_nat d"
  shows "due l' = {}"
proof -
  have "ul_time l' < ut_timeout (ul_timer l x)" if x: "x \<in> active_set l" for x
  proof -
    let ?S = "(\<lambda>x. uint (ut_timeout (ul_timer l x))) ` active_set l"
    have "Min ?S \<le> uint (ut_timeout (ul_timer l x))" using x active_finite [OF assms(1)] by simp
    moreover have "int d < max 0 (Min ?S - uint (ul_time l))"
      using assms(2) x next_timeout_eq [OF assms(1)] by (auto split: if_splits)
    ultimately have "uint (ul_time l) + int d < uint (ut_timeout (ul_timer l x))" by linarith
    then have lt: "unat (ul_time l) + d < unat (ut_timeout (ul_timer l x))" unfolding uint_nat by linarith
    moreover have "unat (ut_timeout (ul_timer l x)) < 2 ^ 64"
      using unsigned_less [of "ut_timeout (ul_timer l x)"] by simp
    ultimately have "unat (ul_time l') = unat (ul_time l) + d"
      by (simp add: assms(4) unat_word_ariths unsigned_of_nat take_bit_nat_eq_self)
    then show ?thesis using lt by (simp add: word_less_nat_alt)
  qed
  then show ?thesis using assms(3) by (auto simp: due_def active_set_def not_le)
qed

lemma less_elapsed_small:
  "0 \<le> uint d \<Longrightarrow> - (2 ^ 31) \<le> r - uint d \<Longrightarrow> r - uint d < 2 ^ 31 \<Longrightarrow> less_elapsed r (t0 + d) t0 = r - uint d"
  by (simp add: less_elapsed_def)

text \<open>
  \<open>UV_RUN_ONCE\<close> does not imply progress. The comment in \<open>uv_run\<close> says that at least one callback has been
  called when it returns. But \<open>uv__io_poll\<close> takes the whole time since it began off the time that is left, at every
  signal: after two signals it returns although the earliest timer is not due, and \<open>uv_run\<close> returns 1 with
  nothing called.
\<close>

theorem run_once_without_progress:
  assumes "timers_ok T [] l" "ul_closing l = []" "\<not> ul_stop l" "ul_active l > 0" "ul_tick l = 0"
    and "uv__next_timeout (l\<lparr>ul_time := t0\<rparr>) = D" "uint d1 < D" "uint d2 < D" "D \<le> uint d1 + uint d2"
  shows "\<exists>l'. uv_run_core (signals_env t0 d1 d2) tcb RunOnce l = Some (Inr (1, l')) \<and> ul_fired l' = ul_fired l"
proof -
  let ?env = "signals_env t0 d1 d2"
  define l0 where "l0 = l\<lparr>ul_time := t0, ul_tick := 1\<rparr>"
  define l1 where "l1 = l\<lparr>ul_time := t0 + d1, ul_tick := 2\<rparr>"
  define l2 where "l2 = l\<lparr>ul_time := t0 + d2, ul_tick := 3\<rparr>"
  define l3 where "l3 = l\<lparr>ul_time := t0 + d2, ul_tick := 4\<rparr>"
  have ok: "timers_ok T [] l0" "timers_ok T [] l3" unfolding l0_def l3_def by (rule timers_ok_time [OF assms(1)])+
  have D: "uv__next_timeout l0 = D" using assms(6) next_timeout_cong [of l0 "l\<lparr>ul_time := t0\<rparr>"] by (simp add: l0_def)
  have D0: "0 < D" "D < 2 ^ 31" using assms(7) uint_ge_0 [of d1] next_timeout_bounds(2) [OF ok(1)] D by linarith+
  have none: "due l0 = {}" "due l3 = {}"
    using next_timeout_not_due [OF ok(1), of 0 l0] next_timeout_not_due [OF ok(1), of "unat d2" l3] D D0(1) assms(8)
    by (simp_all add: l0_def l3_def)
  have u: "uv__update_time ?env l = l0" "uv__update_time ?env l2 = l3"
    using assms(5) by (simp_all add: uv__update_time_def signals_env_def l0_def l2_def l3_def)
  have w: "en_wait ?env t l0 = (EpIntr, t0 + d1)" "en_wait ?env t l1 = (EpIntr, t0 + d2)" for t
    by (simp_all add: signals_env_def l0_def l1_def)
  have n: "l0\<lparr>ul_time := t0 + d1, ul_tick := Suc (ul_tick l0)\<rparr> = l1" "l1\<lparr>ul_time := t0 + d2, ul_tick := Suc (ul_tick l1)\<rparr> = l2"
    by (simp_all add: l0_def l1_def l2_def)
  have e: "less_elapsed D (t0 + d1) t0 = D - uint d1" "less_elapsed (D - uint d1) (t0 + d2) t0 = D - uint d1 - uint d2"
    using D0 assms(7-9) by (auto intro!: less_elapsed_small)
  have "poll_loop ?env t0 48 (D - uint d1) (D - uint d1) l1 = xret l2"
    using assms(7,9) e(2) n(2) by (simp add: poll_loop.simps [of _ _ _ _ _ l1] w Let_def)
  then have "poll_loop ?env t0 48 D D l0 = xret l2"
    using D0(1) assms(7) e(1) n(1) by (simp add: poll_loop.simps [of _ _ _ _ _ l0] w Let_def)
  then have poll: "uv__io_poll ?env D l0 = xret l2" using D0(1) by (simp add: uv__io_poll_def l0_def)
  have ph: "run_phase ?env p m = xret m" "en_phase ?env p m = []" "\<not> en_busy ?env b m" for p m b
    by (simp_all add: run_phase_def signals_env_def)
  have t: "uv_backend_timeout ?env l0 = D" using assms(2-4) D ph by (simp add: uv_backend_timeout_def l0_def)
  have cl: "uv__run_closing_handles ?env l2 = xret l2" using assms(2) by (simp add: uv__run_closing_handles_def l2_def)
  have "run_iteration ?env tcb RunOnce l = xret l3"
    using run_timers_none_due [OF ok(1) none(1)] run_timers_none_due [OF ok(2) none(2)] u ph t poll cl
    by (simp add: run_iteration_def Let_def)
  moreover have "uv__loop_alive ?env l" "uv__loop_alive ?env l3" using assms(4) by (simp_all add: uv__loop_alive_def l3_def)
  ultimately have "run_loop ?env tcb RunOnce True l = xret (True, l3)" using assms(3) by (simp add: run_loop.simps)
  then have "uv_run_core ?env tcb RunOnce l = Some (Inr (1, l3\<lparr>ul_stop := False\<rparr>))"
    using \<open>uv__loop_alive ?env l\<close> by (simp add: uv_run_core_def Let_def)
  then show ?thesis by (simp add: l3_def)
qed

theorem run_once_without_progress_witness:
  "\<exists>l'. uv_run_core (signals_env 100 2 2) silent RunOnce two_timers = Some (Inr (1, l')) \<and> ul_fired l' = []"
proof -
  note f = two_timers_facts
  have r: "ul_closing two_timers = []" "\<not> ul_stop two_timers" "ul_tick two_timers = 0" "ul_fired two_timers = []" "ul_time two_timers = 100"
    using f(2) by (simp_all add: same_rest_def timer_loop_init_def)
  have "ul_active two_timers > 0" using plain_active [OF f(5)] f(6) by simp
  moreover have "uv__next_timeout (two_timers\<lparr>ul_time := 100\<rparr>) = 3"
    using next_timeout_cong [of "two_timers\<lparr>ul_time := 100\<rparr>" two_timers] two_timers_next r(5) by simp
  ultimately show ?thesis
    using run_once_without_progress [of "{0, 1}" two_timers 100 3 2 2 silent] f(1) r by simp
qed

text \<open>
  A full batch of events makes the loop wait again. The code wants to look for more events without
  waiting (``but don't block this time''), with timeout 0; when there are none, \<open>real_timeout - timeout\<close> is the whole
  timeout, so it asks the kernel once more, for as long as at the beginning.
\<close>

theorem full_batch_waits_again:
  assumes "0 < t" "en_wait env t l = (EpEvents cs True, n1)"
    and "timer_steps (l\<lparr>ul_time := n1, ul_tick := Suc (ul_tick l)\<rparr>) cs = Some (Inr l2)"
    and "en_wait env 0 l2 = (EpTimeout, n2)" "l3 = l2\<lparr>ul_time := n2, ul_tick := Suc (ul_tick l2)\<rparr>"
    and "en_wait env t l3 = (EpTimeout, n3)"
  shows "uv__io_poll env t l = Some (Inr (l3\<lparr>ul_time := n3, ul_tick := Suc (ul_tick l3)\<rparr>))"
proof -
  have "poll_loop env b k t t l3 = xret (l3\<lparr>ul_time := n3, ul_tick := Suc (ul_tick l3)\<rparr>)" for b k
    using assms(1,6) by (simp add: poll_loop.simps [of _ _ _ _ _ l3])
  then have "poll_loop env b k t 0 l2 = xret (l3\<lparr>ul_time := n3, ul_tick := Suc (ul_tick l3)\<rparr>)" for b k
    using assms(1,4,5) by (simp add: poll_loop.simps [of _ _ _ _ _ l2])
  then show ?thesis using assms(1-3) by (simp add: uv__io_poll_def poll_loop.simps [of _ _ _ _ _ l])
qed

text \<open>Waiting 3 ms from 100 on, with a full batch at 102: the timer for 103 is called at 105.\<close>

definition batch_env :: uv_env where
  "batch_env = sleeping_env\<lparr>en_wait := (\<lambda>t l. if ul_time l = 100 then (EpEvents [] True, 102) else (EpTimeout, ul_time l + word_of_int t))\<rparr>"

theorem full_batch_waits_again_witness:
  "\<exists>l'. uv__io_poll batch_env (uv__next_timeout two_timers) two_timers = Some (Inr l') \<and> ul_time l' = 105"
proof -
  have "ul_time two_timers = 100" using two_timers_facts(2) by (simp add: same_rest_def timer_loop_init_def)
  then show ?thesis
    using full_batch_waits_again [of 3 batch_env two_timers "[]" 102 "two_timers\<lparr>ul_time := 102, ul_tick := Suc (ul_tick two_timers)\<rparr>" 102 _ 105]
      two_timers_next by (simp add: batch_env_def)
qed

end
