(* ===== verification/UvInet.thy ===== *)
theory UvInet
  imports Prelude
begin

text \<open>
  Internet addresses as text, \<open>third/libuv/src/inet.c\<close>, with \<open>uv_ip4_addr\<close> and its companions in \<open>uv-common.c\<close>. C
  strings are lists of characters that are not NUL, \<open>[]\<close> is the end of the string. Arrays are lists; an access
  outside of them is \<open>OutOfBounds\<close>. \<open>AF_INET\<close> and \<open>AF_INET6\<close> have their values on Linux.
\<close>

section \<open>Numbers as text\<close>

text \<open>\<open>%u\<close> and \<open>%x\<close> of \<open>printf\<close>, and \<open>strchr\<close> as the index of a character.\<close>

definition lower_digits :: string where
  "lower_digits = ''0123456789abcdef''"

definition dec_digits :: string where
  "dec_digits = ''0123456789''"

definition upper_digits :: string where
  "upper_digits = ''0123456789ABCDEF''"

fun print_base :: "nat \<Rightarrow> nat \<Rightarrow> string" where
  "print_base b n = (if b < 2 \<or> n < b then [lower_digits ! n] else print_base b (n div b) @ [lower_digits ! (n mod b)])"

declare print_base.simps [simp del]

fun index_of :: "char \<Rightarrow> string \<Rightarrow> nat option" where
  "index_of c [] = None"
| "index_of c (d # ds) = (if c = d then Some 0 else map_option Suc (index_of c ds))"

section \<open>Printing\<close>

definition UV_ENOSPC :: int where "UV_ENOSPC = -28"
definition INET_EINVAL :: int where "INET_EINVAL = -22"
definition UV_EAFNOSUPPORT :: int where "UV_EAFNOSUPPORT = -97"
definition AF_INET :: int where "AF_INET = 2"
definition AF_INET6 :: int where "AF_INET6 = 10"

text \<open>
  An error number or the string that is in \<open>dst\<close> afterwards, which has room for \<open>sz\<close> characters. \<open>snprintf\<close> cuts
  what it writes to the 16 characters of \<open>tmp\<close> and returns the whole length.
\<close>

definition inet_ntop4 :: "u8 list \<Rightarrow> nat \<Rightarrow> (int + string) exec" where
  "inet_ntop4 src sz =
     (if length src < 4 then Inl OutOfBounds
      else
        (let p = (\<lambda>i. print_base 10 (unat (src ! i)));
             out = p 0 @ ''.'' @ p 1 @ ''.'' @ p 2 @ ''.'' @ p 3;
             tmp = take 15 out
         in Inr (if length out = 0 \<or> length out \<ge> sz then Inl UV_ENOSPC else Inr (take (sz - 1) tmp))))"

text \<open>The longest run of zero words: base (or -1) and length of the best and of the current run.\<close>

fun zero_runs :: "nat list \<Rightarrow> int \<Rightarrow> int \<times> int \<Rightarrow> int \<times> int \<Rightarrow> (int \<times> int) \<times> (int \<times> int)" where
  "zero_runs [] i best cur = (best, cur)"
| "zero_runs (w # ws) i best cur =
     (if w = 0 then zero_runs ws (i + 1) best (if fst cur = -1 then (i, 1) else (fst cur, snd cur + 1))
      else if fst cur \<noteq> -1 then
        zero_runs ws (i + 1) (if fst best = -1 \<or> snd cur > snd best then cur else best) (-1, snd cur)
      else zero_runs ws (i + 1) best cur)"

definition best_run :: "nat list \<Rightarrow> int \<times> int" where
  "best_run ws =
     (let (best, cur) = zero_runs ws 0 (-1, 0) (-1, 0);
          best1 = (if fst cur \<noteq> -1 \<and> (fst best = -1 \<or> snd cur > snd best) then cur else best)
      in if fst best1 \<noteq> -1 \<and> snd best1 < 2 then (-1, snd best1) else best1)"

text \<open>Characters go to \<open>tmp\<close>, which has 46, one of them for the NUL that is written in the end.\<close>

definition put_tmp :: "string \<Rightarrow> string \<Rightarrow> string exec" where
  "put_tmp tmp s = (if length tmp + length s < 46 then Inr (tmp @ s) else Inl OutOfBounds)"

text \<open>The words from position \<open>i\<close> on; the result is an error number or what is in \<open>tmp\<close>.\<close>

function ntop6_loop :: "u8 list \<Rightarrow> nat list \<Rightarrow> int \<times> int \<Rightarrow> nat \<Rightarrow> string \<Rightarrow> (int + string) exec" where
  "ntop6_loop src ws best i tmp =
     (if i \<ge> 8 then Inr (Inr tmp)
      else if fst best \<noteq> -1 \<and> int i \<ge> fst best \<and> int i < fst best + snd best then
        ebind (if int i = fst best then put_tmp tmp '':'' else Inr tmp) (\<lambda>tmp1. ntop6_loop src ws best (Suc i) tmp1)
      else
        ebind (if i \<noteq> 0 then put_tmp tmp '':'' else Inr tmp) (\<lambda>tmp1.
        if i = 6 \<and> fst best = 0 \<and> (snd best = 6 \<or> snd best = 7 \<and> ws ! 7 \<noteq> 1 \<or> snd best = 5 \<and> ws ! 5 = 65535) then
          ebind (inet_ntop4 (drop 12 src) (46 - length tmp1)) (\<lambda>r.
          case r of Inl e \<Rightarrow> Inr (Inl e) | Inr s \<Rightarrow> ebind (put_tmp tmp1 s) (\<lambda>tmp2. Inr (Inr tmp2)))
        else ebind (put_tmp tmp1 (print_base 16 (ws ! i))) (\<lambda>tmp2. ntop6_loop src ws best (Suc i) tmp2)))"
  by pat_completeness auto
termination by (relation "measure (\<lambda>(_, _, _, i, _). 8 - i)") auto

declare ntop6_loop.simps [simp del]

definition words6 :: "u8 list \<Rightarrow> nat list" where
  "words6 src = map (\<lambda>i. unat (src ! (2 * i)) * 256 + unat (src ! (2 * i + 1))) [0..<8]"

definition inet_ntop6 :: "u8 list \<Rightarrow> nat \<Rightarrow> (int + string) exec" where
  "inet_ntop6 src sz =
     (if length src < 16 then Inl OutOfBounds
      else
        (let ws = words6 src; best = best_run ws
         in ebind (ntop6_loop src ws best 0 []) (\<lambda>r.
            case r of
              Inl e \<Rightarrow> Inr (Inl e)
            | Inr tmp \<Rightarrow>
                ebind (if fst best \<noteq> -1 \<and> fst best + snd best = 8 then put_tmp tmp '':'' else Inr tmp) (\<lambda>tmp1.
                Inr (if Suc (length tmp1) > sz then Inl UV_ENOSPC else Inr tmp1)))))"

definition uv_inet_ntop :: "int \<Rightarrow> u8 list \<Rightarrow> nat \<Rightarrow> (int + string) exec" where
  "uv_inet_ntop af src sz =
     (if af = AF_INET then inet_ntop4 src sz
      else if af = AF_INET6 then inet_ntop6 src sz
      else Inr (Inl UV_EAFNOSUPPORT))"

section \<open>Parsing\<close>

definition get_at :: "'a list \<Rightarrow> nat \<Rightarrow> 'a exec" where
  "get_at xs i = (if i < length xs then Inr (xs ! i) else Inl OutOfBounds)"

definition set_at :: "'a list \<Rightarrow> nat \<Rightarrow> 'a \<Rightarrow> 'a list exec" where
  "set_at xs i v = (if i < length xs then Inr (xs[i := v]) else Inl OutOfBounds)"

text \<open>The loop of \<open>inet_pton4\<close>; the result is None for an error, or the number of octets and \<open>tmp\<close>.\<close>

fun pton4_loop :: "string \<Rightarrow> u8 list \<Rightarrow> nat \<Rightarrow> bool \<Rightarrow> int \<Rightarrow> (int \<times> u8 list) option exec" where
  "pton4_loop [] tmp tp saw_digit octets = Inr (Some (octets, tmp))"
| "pton4_loop (ch # src) tmp tp saw_digit octets =
     (case index_of ch dec_digits of
        Some d \<Rightarrow>
          ebind (get_at tmp tp) (\<lambda>v.
          let nw = unat v * 10 + d in
          if saw_digit \<and> v = 0 then Inr None
          else if nw > 255 then Inr None
          else
            ebind (set_at tmp tp (of_nat nw)) (\<lambda>tmp1.
            if \<not> saw_digit then
              if octets + 1 > 4 then Inr None else pton4_loop src tmp1 tp True (octets + 1)
            else pton4_loop src tmp1 tp saw_digit octets))
      | None \<Rightarrow>
          if ch = CHR ''.'' \<and> saw_digit then
            if octets = 4 then Inr None
            else ebind (set_at tmp (Suc tp) 0) (\<lambda>tmp1. pton4_loop src tmp1 (Suc tp) False octets)
          else Inr None)"

text \<open>The rest of \<open>tmp\<close> is not initialised: \<open>junk\<close>.\<close>

definition inet_pton4 :: "(nat \<Rightarrow> u8) \<Rightarrow> string \<Rightarrow> u8 list \<Rightarrow> (int \<times> u8 list) exec" where
  "inet_pton4 junk src dst =
     ebind (pton4_loop src (0 # map junk [1, 2, 3]) 0 False 0) (\<lambda>r.
     case r of
       None \<Rightarrow> Inr (INET_EINVAL, dst)
     | Some (octets, tmp1) \<Rightarrow>
         if octets < 4 then Inr (INET_EINVAL, dst)
         else ebind (write_at dst 0 tmp1) (\<lambda>dst1. Inr (0, dst1)))"

text \<open>
  The loop of \<open>inet_pton6\<close>. Pointers into \<open>tmp\<close> are indices, \<open>curtok\<close> is the rest of the source it points to; the result is
  None for an error, or \<open>tp\<close>, \<open>colonp\<close>, \<open>seen_xdigits\<close>, \<open>val\<close> and \<open>tmp\<close>.
\<close>

type_synonym pton6_state = "nat \<times> nat option \<times> nat \<times> u32 \<times> u8 list"

definition byte_hi :: "u32 \<Rightarrow> u8" where
  "byte_hi val = ucast (drop_bit 8 val) AND 255"

definition byte_lo :: "u32 \<Rightarrow> u8" where
  "byte_lo val = ucast val AND 255"

definition put_word :: "u8 list \<Rightarrow> nat \<Rightarrow> u32 \<Rightarrow> u8 list exec" where
  "put_word tmp tp val = ebind (set_at tmp tp (byte_hi val)) (\<lambda>tmp1. set_at tmp1 (Suc tp) (byte_lo val))"

definition xdigit :: "char \<Rightarrow> nat option" where
  "xdigit ch = (case index_of ch lower_digits of Some d \<Rightarrow> Some d | None \<Rightarrow> index_of ch upper_digits)"

fun pton6_loop :: "(nat \<Rightarrow> u8) \<Rightarrow> string \<Rightarrow> string \<Rightarrow> pton6_state \<Rightarrow> pton6_state option exec" where
  "pton6_loop junk [] curtok st = Inr (Some st)"
| "pton6_loop junk (ch # src) curtok (tp, colonp, seen, val, tmp) =
     (case xdigit ch of
        Some d \<Rightarrow>
          if Suc seen > 4 then Inr None
          else pton6_loop junk src curtok (tp, colonp, Suc seen, push_bit 4 val OR of_nat d, tmp)
      | None \<Rightarrow>
          if ch = CHR '':'' then
            if seen = 0 then
              if colonp \<noteq> None then Inr None else pton6_loop junk src src (tp, Some tp, seen, val, tmp)
            else if src = [] then Inr None
            else if tp + 2 > 16 then Inr None
            else ebind (put_word tmp tp val) (\<lambda>tmp1. pton6_loop junk src src (tp + 2, colonp, 0, 0, tmp1))
          else if ch = CHR ''.'' \<and> tp + 4 \<le> 16 then
            ebind (inet_pton4 junk curtok (drop tp tmp)) (\<lambda>(err, dst).
            if err = 0 then Inr (Some (tp + 4, colonp, 0, val, take tp tmp @ dst)) else Inr None)
          else Inr None)"

text \<open>The shift by hand: \<open>endp[- i] = colonp[n - i]; colonp[n - i] = 0\<close> for \<open>i\<close> up to \<open>n\<close>.\<close>

fun shift_loop :: "nat \<Rightarrow> nat \<Rightarrow> nat \<Rightarrow> u8 list \<Rightarrow> u8 list exec" where
  "shift_loop colonp n 0 tmp = Inr tmp"
| "shift_loop colonp n (Suc k) tmp =
     (let i = n - k in
      ebind (get_at tmp (colonp + n - i)) (\<lambda>v.
      ebind (set_at tmp (16 - i) v) (\<lambda>tmp1.
      ebind (set_at tmp1 (colonp + n - i) 0) (\<lambda>tmp2. shift_loop colonp n k tmp2))))"

definition pton6_end :: "pton6_state \<Rightarrow> u8 list option exec" where
  "pton6_end st =
     (case st of (tp, colonp, seen, val, tmp) \<Rightarrow>
        if seen \<noteq> 0 \<and> tp + 2 > 16 then Inr None
        else
          ebind (if seen \<noteq> 0 then put_word tmp tp val else Inr tmp) (\<lambda>tmp1.
          let tp1 = (if seen \<noteq> 0 then tp + 2 else tp) in
          case colonp of
            None \<Rightarrow> Inr (if tp1 \<noteq> 16 then None else Some tmp1)
          | Some c \<Rightarrow>
              if tp1 = 16 then Inr None
              else ebind (shift_loop c (tp1 - c) (tp1 - c) tmp1) (\<lambda>tmp2. Inr (Some tmp2))))"

definition inet_pton6 :: "(nat \<Rightarrow> u8) \<Rightarrow> string \<Rightarrow> u8 list \<Rightarrow> (int \<times> u8 list) exec" where
  "inet_pton6 junk src dst =
     (let src1 = (case src of ch # s \<Rightarrow> if ch = CHR '':'' then (case s of c # _ \<Rightarrow> if c = CHR '':'' then Some s else None | [] \<Rightarrow> None) else Some src
                  | [] \<Rightarrow> Some src)
      in case src1 of
           None \<Rightarrow> Inr (INET_EINVAL, dst)
         | Some s \<Rightarrow>
             ebind (pton6_loop junk s s (0, None, 0, 0, replicate 16 0)) (\<lambda>r.
             case r of
               None \<Rightarrow> Inr (INET_EINVAL, dst)
             | Some st \<Rightarrow>
                 ebind (pton6_end st) (\<lambda>r.
                 case r of None \<Rightarrow> Inr (INET_EINVAL, dst) | Some tmp \<Rightarrow> ebind (write_at dst 0 tmp) (\<lambda>dst1. Inr (0, dst1)))))"

text \<open>
  \<open>memcpy\<close> of the first \<open>len\<close> characters of a text to a fresh array of \<open>room\<close> characters, and the NUL
  behind them; the result is the C string the array then holds, up to its first NUL.
\<close>

definition text_of :: "string \<Rightarrow> string exec" where
  "text_of arr = (if CHR 0x00 \<in> set arr then Inr (takeWhile (\<lambda>c. c \<noteq> CHR 0x00) arr) else Inl OutOfBounds)"

definition copy_text :: "(nat \<Rightarrow> u8) \<Rightarrow> nat \<Rightarrow> string \<Rightarrow> nat \<Rightarrow> string exec" where
  "copy_text junk room src len =
     ebind (write_at (map (\<lambda>i. char_of (unat (junk i))) [0..<room]) 0 (take len src)) (\<lambda>arr.
     ebind (set_at arr len (CHR 0x00)) text_of)"

text \<open>\<open>src\<close> and \<open>dst\<close> are not NULL; \<open>tmp\<close> has 46 characters.\<close>

definition uv_inet_pton :: "(nat \<Rightarrow> u8) \<Rightarrow> int \<Rightarrow> string \<Rightarrow> u8 list \<Rightarrow> (int \<times> u8 list) exec" where
  "uv_inet_pton junk af src dst =
     (if af = AF_INET then inet_pton4 junk src dst
      else if af = AF_INET6 then
        (case index_of CHR ''%'' src of
           None \<Rightarrow> inet_pton6 junk src dst
         | Some len \<Rightarrow> if len > 45 then Inr (INET_EINVAL, dst) else ebind (copy_text junk 46 src len) (\<lambda>s. inet_pton6 junk s dst))
      else Inr (UV_EAFNOSUPPORT, dst))"


section \<open>Socket addresses\<close>

text \<open>The port and the address are in network byte order. \<open>if_nametoindex\<close> is an argument.\<close>

record sockaddr_in =
  sin_family :: int
  sin_port :: "u8 list"
  sin_addr :: "u8 list"

record sockaddr_in6 =
  sin6_family :: int
  sin6_port :: "u8 list"
  sin6_addr :: "u8 list"
  sin6_scope_id :: u32

definition htons_bytes :: "int \<Rightarrow> u8 list" where
  "htons_bytes port = [word_of_int (port mod 65536 div 256), word_of_int (port mod 256)]"

definition uv_ip4_addr :: "(nat \<Rightarrow> u8) \<Rightarrow> string \<Rightarrow> int \<Rightarrow> (int \<times> sockaddr_in) exec" where
  "uv_ip4_addr junk ip port =
     ebind (uv_inet_pton junk AF_INET ip (replicate 4 0)) (\<lambda>(err, a).
     Inr (err, \<lparr>sin_family = AF_INET, sin_port = htons_bytes port, sin_addr = a\<rparr>))"

text \<open>\<open>address_part\<close> has 40 characters.\<close>

definition uv_ip6_addr :: "(nat \<Rightarrow> u8) \<Rightarrow> (string \<Rightarrow> u32) \<Rightarrow> string \<Rightarrow> int \<Rightarrow> (int \<times> sockaddr_in6) exec" where
  "uv_ip6_addr junk if_nametoindex ip port =
     ebind
       (case index_of CHR ''%'' ip of
          None \<Rightarrow> Inr (ip, 0)
        | Some k \<Rightarrow>
            (let address_part_size = (if k \<ge> 40 then 39 else k) in
             ebind (copy_text junk 40 ip address_part_size) (\<lambda>address_part.
             Inr (address_part, if_nametoindex (drop (Suc k) ip))))) (\<lambda>(ip1, scope).
     ebind (uv_inet_pton junk AF_INET6 ip1 (replicate 16 0)) (\<lambda>(err, a).
     Inr (err, \<lparr>sin6_family = AF_INET6, sin6_port = htons_bytes port, sin6_addr = a, sin6_scope_id = scope\<rparr>)))"

definition uv_ip4_name :: "sockaddr_in \<Rightarrow> nat \<Rightarrow> (int + string) exec" where
  "uv_ip4_name src sz = uv_inet_ntop AF_INET (sin_addr src) sz"

definition uv_ip6_name :: "sockaddr_in6 \<Rightarrow> nat \<Rightarrow> (int + string) exec" where
  "uv_ip6_name src sz = uv_inet_ntop AF_INET6 (sin6_addr src) sz"

end
