(* ===== verification/UvInetText.thy ===== *)
theory UvInetText
  imports UvInet
begin

text \<open>Numbers and dotted addresses as text: what is printed, what is accepted.\<close>

section \<open>Digits\<close>

abbreviation dec :: "nat \<Rightarrow> string" where "dec \<equiv> print_base 10"
abbreviation hex :: "nat \<Rightarrow> string" where "hex \<equiv> print_base 16"
abbreviation dig :: "nat \<Rightarrow> char" where "dig d \<equiv> lower_digits ! d"

lemma index_of_Some: "index_of c ds = Some i \<Longrightarrow> i < length ds \<and> ds ! i = c"
  by (induction ds arbitrary: i) (auto split: if_splits)

lemma index_of_None: "index_of c ds = None \<longleftrightarrow> c \<notin> set ds"
  by (induction ds) auto

lemma dec_index: "d < 10 \<Longrightarrow> index_of (dig d) dec_digits = Some d"
proof -
  assume "d < 10"
  then have "d \<in> set [0..<10]" by simp
  moreover have "\<forall>d\<in>set [0..<10]. index_of (dig d) dec_digits = Some d" by code_simp
  ultimately show ?thesis by blast
qed

lemma dec_index_dig: "index_of c dec_digits = Some d \<Longrightarrow> d < 10 \<and> c = dig d"
proof -
  assume i: "index_of c dec_digits = Some d"
  then have "d < 10" "dec_digits ! d = c" using index_of_Some [OF i] by (simp_all add: dec_digits_def)
  moreover have "\<forall>d\<in>set [0..<10]. dec_digits ! d = dig d" by code_simp
  ultimately show ?thesis by simp
qed

lemma hex_index: "d < 16 \<Longrightarrow> xdigit (dig d) = Some d"
proof -
  assume "d < 16"
  then have "d \<in> set [0..<16]" by simp
  moreover have "\<forall>d\<in>set [0..<16]. xdigit (dig d) = Some d" by code_simp
  ultimately show ?thesis by blast
qed

lemma separators [simp]: "xdigit CHR '':'' = None" "xdigit CHR ''.'' = None" "index_of CHR ''.'' dec_digits = None"
  by code_simp+

lemma print_base_less: "2 \<le> b \<Longrightarrow> n < b \<Longrightarrow> print_base b n = [dig n]"
  by (simp add: print_base.simps)

lemma print_base_step: "2 \<le> b \<Longrightarrow> 0 < v \<Longrightarrow> d < b \<Longrightarrow> print_base b (v * b + d) = print_base b v @ [dig d]"
proof -
  assume a: "2 \<le> b" "0 < v" "d < b"
  then have "\<not> v * b + d < b" by (cases v) auto
  then show ?thesis using a by (subst print_base.simps) simp
qed

lemma print_base_not_Nil [simp]: "print_base b n \<noteq> []"
  by (subst print_base.simps) simp

text \<open>A number of one digit, or a shorter number and a digit.\<close>

lemma print_base_induct [consumes 1, case_names digit step]:
  fixes n :: nat
  assumes "2 \<le> b" "\<And>n. n < b \<Longrightarrow> P n" "\<And>v d. 0 < v \<Longrightarrow> d < b \<Longrightarrow> P v \<Longrightarrow> P (v * b + d)"
  shows "P n"
proof (induction n rule: less_induct)
  case (less n)
  show ?case
  proof (cases "n < b")
    case False
    then have "0 < n div b" "n mod b < b" "n div b < n" using assms(1) by (auto simp: div_greater_zero_iff)
    then have "P (n div b * b + n mod b)" using assms(3) less by blast
    then show ?thesis by simp
  qed (use assms(2) in simp)
qed

lemma dec_induct [case_names digit step]:
  "(\<And>n. n < 10 \<Longrightarrow> P n) \<Longrightarrow> (\<And>v d. 0 < v \<Longrightarrow> d < 10 \<Longrightarrow> P v \<Longrightarrow> P (v * 10 + d)) \<Longrightarrow> P (n :: nat)"
  by (rule print_base_induct [of 10]) simp_all

lemma print_base_length: "2 \<le> b \<Longrightarrow> n < b ^ k \<Longrightarrow> 0 < k \<Longrightarrow> length (print_base b n) \<le> k"
proof (induction k arbitrary: n)
  case (Suc k)
  show ?case
  proof (cases "n < b")
    case True
    then show ?thesis using Suc.prems by (simp add: print_base_less)
  next
    case False
    have "n div b < b ^ k" using Suc.prems(1,2) by (simp add: less_mult_imp_div_less mult.commute)
    moreover have "0 < k" using False Suc.prems(2) by (cases k) auto
    ultimately have "length (print_base b (n div b)) \<le> k" using Suc.IH Suc.prems(1) by blast
    moreover have "print_base b n = print_base b (n div b) @ [dig (n mod b)]"
      using False Suc.prems(1) by (subst print_base.simps) simp
    ultimately show ?thesis by simp
  qed
qed simp

section \<open>Four numbers with dots\<close>

definition dotted :: "u8 list \<Rightarrow> string" where
  "dotted a = dec (unat (a ! 0)) @ ''.'' @ dec (unat (a ! 1)) @ ''.'' @ dec (unat (a ! 2)) @ ''.'' @ dec (unat (a ! 3))"

lemma unat_byte_less [simp]: "unat (a :: u8) < 256"
  using unsigned_less [of a] by simp

lemma dec_u8_length: "length (dec (unat (a :: u8))) \<le> 3"
  using print_base_length [of 10 "unat a" 3] unat_byte_less [of a] by simp

lemma dotted_length: "length (dotted a) \<le> 15"
  using dec_u8_length [of "a ! 0"] dec_u8_length [of "a ! 1"] dec_u8_length [of "a ! 2"] dec_u8_length [of "a ! 3"]
  by (simp add: dotted_def)

lemma inet_ntop4_eq:
  "4 \<le> length src \<Longrightarrow> inet_ntop4 src sz = Inr (if sz \<le> length (dotted src) then Inl UV_ENOSPC else Inr (dotted src))"
  using dotted_length [of src] by (simp add: inet_ntop4_def Let_def dotted_def)

text \<open>Reading a number: the digits of \<open>n\<close>, then the rest.\<close>

lemma of_nat_u8: "n < 256 \<Longrightarrow> unat (of_nat n :: u8) = n"
  by (simp add: unsigned_of_nat take_bit_nat_eq_self)

lemma pton4_digit:
  assumes "d < 10" "tp < length tmp" "\<not> (saw \<and> tmp ! tp = 0)" "unat (tmp ! tp) * 10 + d < 256" "saw \<or> octets < 4"
  shows "pton4_loop (dig d # src) tmp tp saw octets =
    pton4_loop src (tmp[tp := of_nat (unat (tmp ! tp) * 10 + d)]) tp True (if saw then octets else octets + 1)"
  using assms by (cases saw) (simp_all add: dec_index get_at_def set_at_def Let_def)

lemma pton4_number:
  "n < 256 \<Longrightarrow> tp < length tmp \<Longrightarrow> tmp ! tp = 0 \<Longrightarrow> octets < 4 \<Longrightarrow>
    pton4_loop (dec n @ src) tmp tp False octets = pton4_loop src (tmp[tp := of_nat n]) tp True (octets + 1)"
proof (induction n arbitrary: src rule: dec_induct)
  case (digit n)
  then show ?case using pton4_digit [of n tp tmp False octets src] by (simp add: print_base_less)
next
  case (step v d)
  have v: "v < 256" "unat (of_nat v :: u8) = v" using step(4) by (simp_all add: of_nat_u8)
  then have "(of_nat v :: u8) \<noteq> 0" using step(1) by (metis unat_0 less_irrefl)
  then show ?case
    using step(3) [OF v(1) step(5-7), of "dig d # src"] step v pton4_digit [of d tp "tmp[tp := of_nat v]" True "octets + 1" src]
    by (simp add: print_base_step)
qed

lemma pton4_dot:
  "Suc tp < length tmp \<Longrightarrow> octets \<noteq> 4 \<Longrightarrow>
    pton4_loop (CHR ''.'' # src) tmp tp True octets = pton4_loop src (tmp[Suc tp := 0]) (Suc tp) False octets"
  by (simp add: set_at_def)

lemma pton4_loop_dotted:
  assumes "length a = 4" "length tmp = 4" "tmp ! 0 = 0"
  shows "pton4_loop (dotted a) tmp 0 False 0 = Inr (Some (4, a))"
proof -
  have a: "a = [a ! 0, a ! 1, a ! 2, a ! 3]" using assms(1) by (auto simp: length_Suc_conv numeral_eq_Suc)
  obtain t0 t1 t2 t3 where t: "tmp = [t0, t1, t2, t3]" using assms(2) by (auto simp: length_Suc_conv numeral_eq_Suc)
  have "t0 = 0" using t assms(3) by simp
  moreover have "pton4_loop (dec (unat (a ! Suc (Suc (Suc 0))))) [a ! 0, a ! Suc 0, a ! 2, 0] (Suc (Suc (Suc 0))) False 3 = Inr (Some (4, a))"
    using pton4_number [of "unat (a ! 3)" 3 "[a ! 0, a ! 1, a ! 2, 0]" 3 "[]"] a by (simp add: numeral_3_eq_3)
  ultimately show ?thesis
    by (simp add: dotted_def t pton4_number pton4_dot numeral_3_eq_3 del: pton4_loop.simps(2))
qed


section \<open>What is accepted as an IPv4 address\<close>

text \<open>The text that has been read: numbers with their dots, and a number that may go on.\<close>

definition read_text :: "u8 list \<Rightarrow> nat \<Rightarrow> bool \<Rightarrow> string" where
  "read_text tmp tp saw = concat (map (\<lambda>i. dec (unat (tmp ! i)) @ ''.'') [0..<tp]) @ (if saw then dec (unat (tmp ! tp)) else [])"

lemma read_text_digit:
  assumes "tp < length tmp" "d < 10" "unat (tmp ! tp) * 10 + d < 256" "saw \<Longrightarrow> tmp ! tp \<noteq> 0" "\<not> saw \<Longrightarrow> tmp ! tp = 0"
  shows "read_text (tmp[tp := of_nat (unat (tmp ! tp) * 10 + d)]) tp True = read_text tmp tp saw @ [dig d]"
proof -
  have n: "unat (of_nat (unat (tmp ! tp) * 10 + d) :: u8) = unat (tmp ! tp) * 10 + d" by (rule of_nat_u8 [OF assms(3)])
  have "dec (unat (tmp ! tp) * 10 + d) = (if saw then dec (unat (tmp ! tp)) else []) @ [dig d]"
  proof (cases saw)
    case True
    then have "0 < unat (tmp ! tp)" using assms(4) by (simp add: unat_gt_0)
    then show ?thesis using True assms(2) by (simp add: print_base_step)
  next
    case False
    then show ?thesis using assms(2,5) by (simp add: print_base_less)
  qed
  then show ?thesis using assms(1) n by (auto simp: read_text_def intro!: arg_cong [where f = concat] map_cong)
qed

lemma read_text_dot: "read_text (tmp[Suc tp := 0]) (Suc tp) False = read_text tmp tp True @ ''.''"
  by (auto simp: read_text_def intro!: arg_cong [where f = concat] map_cong)

lemma read_text_all: "length t = 4 \<Longrightarrow> read_text t 3 True = dotted t"
  by (simp add: read_text_def dotted_def upt_rec numeral_2_eq_2)

lemma pton4_sound:
  "length tmp = 4 \<Longrightarrow> tp < 4 \<Longrightarrow> octets = int tp + (if saw then 1 else 0) \<Longrightarrow> (\<not> saw \<longrightarrow> tmp ! tp = 0) \<Longrightarrow>
    \<exists>r. pton4_loop src tmp tp saw octets = Inr r \<and>
      (\<forall>n t. r = Some (n, t) \<longrightarrow> length t = 4 \<and> (n \<ge> 4 \<longrightarrow> read_text tmp tp saw @ src = dotted t))"
proof (induction src tmp tp saw octets rule: pton4_loop.induct)
  case (1 tmp tp saw octets)
  have "octets \<ge> 4 \<Longrightarrow> tp = 3 \<and> saw" using 1(2,3) by (auto split: if_splits)
  then show ?case using 1(1) read_text_all by auto
next
  case (2 ch src tmp tp saw octets)
  show ?case
  proof (cases "index_of ch dec_digits")
    case None
    show ?thesis
    proof (cases "ch = CHR ''.'' \<and> saw \<and> octets \<noteq> 4")
      case False
      then show ?thesis using None by auto
    next
      case True
      then have tp: "Suc tp < 4" using 2(5,6) by auto
      have "\<exists>r. pton4_loop src (tmp[Suc tp := 0]) (Suc tp) False octets = Inr r \<and>
          (\<forall>n t. r = Some (n, t) \<longrightarrow> length t = 4 \<and> (n \<ge> 4 \<longrightarrow> read_text (tmp[Suc tp := 0]) (Suc tp) False @ src = dotted t))"
        using 2(1) [OF None, of "tmp[Suc tp := 0]"] True tp 2(4-6) by simp
      then show ?thesis using None True tp 2(4) unfolding read_text_dot by (auto simp: set_at_def)
    qed
  next
    case (Some d)
    then have d: "d < 10" "ch = dig d" using dec_index_dig by blast+
    let ?nw = "unat (tmp ! tp) * 10 + d"
    show ?thesis
    proof (cases "saw \<and> tmp ! tp = 0 \<or> ?nw > 255 \<or> \<not> saw \<and> octets + 1 > 4")
      case True
      then show ?thesis using Some 2(4,5) by (auto simp: get_at_def set_at_def Let_def)
    next
      case False
      let ?t = "tmp[tp := of_nat ?nw]"
      let ?o = "if saw then octets else octets + 1"
      have step: "pton4_loop (ch # src) tmp tp saw octets = pton4_loop src ?t tp True ?o"
        unfolding d(2) by (rule pton4_digit) (use False d(1) 2(4-6) in auto)
      have rt: "read_text ?t tp True = read_text tmp tp saw @ [dig d]"
        by (rule read_text_digit) (use False d(1) 2(4,5,7) in auto)
      have "\<exists>r. pton4_loop src ?t tp True ?o = Inr r \<and>
          (\<forall>n t. r = Some (n, t) \<longrightarrow> length t = 4 \<and> (n \<ge> 4 \<longrightarrow> read_text ?t tp True @ src = dotted t))"
      proof (cases saw)
        case True
        show ?thesis
          using 2(3) [OF Some, of ?nw "tmp ! tp" ?t] True False 2(4-6) by (auto simp: get_at_def set_at_def)
      next
        case saw: False
        show ?thesis
          using 2(2) [OF Some, of ?nw "tmp ! tp" ?t] saw False 2(4-6) by (auto simp: get_at_def set_at_def)
      qed
      moreover have "read_text tmp tp saw @ ch # src = read_text ?t tp True @ src" by (simp only: rt d(2) append.assoc append_Cons append_Nil)
      ultimately show ?thesis by (simp only: step)
    qed
  qed
qed

text \<open>No text leads out of \<open>tmp\<close>; what is accepted is the text of the address.\<close>

lemma inet_pton4_cases:
  assumes "4 \<le> length dst"
  shows "(\<exists>a. length a = 4 \<and> src = dotted a \<and> inet_pton4 junk src dst = Inr (0, a @ drop 4 dst)) \<or>
    inet_pton4 junk src dst = Inr (INET_EINVAL, dst)"
proof -
  obtain r where r: "pton4_loop src (0 # map junk [1, 2, 3]) 0 False 0 = Inr r"
    "\<forall>n t. r = Some (n, t) \<longrightarrow> length t = 4 \<and> (n \<ge> 4 \<longrightarrow> src = dotted t)"
    using pton4_sound [of "0 # map junk [1, 2, 3]" 0 0 False src] by (auto simp: read_text_def)
  show ?thesis
  proof (cases r)
    case (Some q)
    then obtain n t where q: "r = Some (n, t)" by (cases q) simp
    then show ?thesis using r assms by (cases "n < 4") (auto simp: inet_pton4_def write_at_def)
  qed (use r(1) in \<open>simp add: inet_pton4_def\<close>)
qed

lemma inet_pton4_dotted:
  "length a = 4 \<Longrightarrow> 4 \<le> length dst \<Longrightarrow> inet_pton4 junk (dotted a) dst = Inr (0, a @ drop 4 dst)"
  by (simp add: inet_pton4_def pton4_loop_dotted write_at_def)

end
