(* ===== verification/UvInetParse6.thy ===== *)
theory UvInetParse6
  imports UvInetText
begin

text \<open>Reading IPv6 addresses: groups of hexadecimal digits, the gap, a dotted end; and no text leads out of the arrays.\<close>

section \<open>Groups\<close>

text \<open>The two bytes of a word, and the bytes of words.\<close>

definition word_bytes :: "nat \<Rightarrow> u8 list" where
  "word_bytes w = [of_nat (w div 256), of_nat w]"

definition bytes6 :: "nat list \<Rightarrow> u8 list" where
  "bytes6 ws = concat (map word_bytes ws)"

lemma bytes6_simps [simp]: "bytes6 [] = []" "bytes6 (w # ws) = word_bytes w @ bytes6 ws" "bytes6 (xs @ ys) = bytes6 xs @ bytes6 ys"
  by (simp_all add: bytes6_def)

lemma length_word_bytes [simp]: "length (word_bytes w) = 2"
  by (simp add: word_bytes_def)

lemma length_bytes6 [simp]: "length (bytes6 ws) = 2 * length ws"
  by (induction ws) simp_all

lemma hex_induct [case_names digit step]:
  "(\<And>n. n < 16 \<Longrightarrow> P n) \<Longrightarrow> (\<And>v d. 0 < v \<Longrightarrow> d < 16 \<Longrightarrow> P v \<Longrightarrow> P (v * 16 + d)) \<Longrightarrow> P (n :: nat)"
  by (rule print_base_induct [of 16]) simp_all

lemma hex_length: "w < 65536 \<Longrightarrow> length (hex w) \<le> 4"
  using print_base_length [of 16 w 4] by simp

lemma push_digit: "v < 65536 \<Longrightarrow> d < 16 \<Longrightarrow> push_bit 4 (of_nat v :: u32) OR of_nat d = of_nat (v * 16 + d)"
proof -
  assume a: "v < 65536" "d < 16"
  have "take_bit 4 d = d" using a(2) by (simp add: take_bit_nat_eq_self)
  then have "\<not> bit d n" if "4 \<le> n" for n using that by (metis bit_take_bit_iff not_le)
  then have "push_bit 4 v OR d = push_bit 4 v + d"
    by (intro disjunctive_add [symmetric]) (auto simp: bit_push_bit_iff not_le)
  then have "(of_nat (push_bit 4 v OR d) :: u32) = of_nat (v * 16 + d)" by (simp add: push_bit_eq_mult)
  then show ?thesis by (simp add: of_nat_or_eq push_bit_of_nat)
qed

lemma pton6_digits:
  "w < 65536 \<Longrightarrow> seen + length (hex w) \<le> 4 \<Longrightarrow>
    pton6_loop junk (hex w @ src) cur (tp, cp, seen, 0, tmp) = pton6_loop junk src cur (tp, cp, seen + length (hex w), of_nat w, tmp)"
proof (induction w arbitrary: src rule: hex_induct)
  case (digit n)
  then show ?case by (simp add: print_base_less hex_index)
next
  case (step v d)
  then have "pton6_loop junk (hex v @ dig d # src) cur (tp, cp, seen, 0, tmp) =
    pton6_loop junk (dig d # src) cur (tp, cp, seen + length (hex v), of_nat v, tmp)"
    by (simp add: print_base_step)
  then show ?case using step push_digit [of v d] by (simp add: print_base_step hex_index)
qed

lemma byte_word: "w < 65536 \<Longrightarrow> byte_hi (of_nat w) = of_nat (w div 256) \<and> byte_lo (of_nat w) = of_nat w"
proof -
  assume "w < 65536"
  then have u: "unat (of_nat w :: u32) = w" by (simp add: unsigned_of_nat take_bit_nat_eq_self)
  have "(255 :: u8) = - 1" by simp
  then have m: "x AND 255 = x" for x :: u8 by (simp only: and.right_neutral)
  have "unat (drop_bit 8 (of_nat w :: u32)) = w div 256" unfolding unat_drop_bit_eq u by (simp add: drop_bit_eq_div)
  then have "drop_bit 8 (of_nat w :: u32) = of_nat (w div 256)" 
    using \<open>w < 65536\<close> by (simp add: word_unat_eq_iff unsigned_of_nat take_bit_nat_eq_self)
  moreover have "(ucast (of_nat n :: u32) :: u8) = of_nat n" if "n \<le> w" for n
    using that \<open>w < 65536\<close> by (simp add: unsigned_of_nat take_bit_nat_eq_self)
  ultimately show ?thesis unfolding byte_hi_def byte_lo_def m by simp
qed

lemma put_word_eq:
  assumes "w < 65536" "length acc = tp"
  shows "put_word (acc @ a # b # rest) tp (of_nat w) = Inr (acc @ word_bytes w @ rest)"
  using assms byte_word [OF assms(1)] by (simp add: put_word_def set_at_def word_bytes_def list_update_append)

text \<open>What the loop and the end of \<open>inet_pton6\<close> make of the rest of the text.\<close>

definition run6 :: "(nat \<Rightarrow> u8) \<Rightarrow> string \<Rightarrow> string \<Rightarrow> pton6_state \<Rightarrow> u8 list option exec" where
  "run6 junk src cur st = ebind (pton6_loop junk src cur st) (\<lambda>r. case r of None \<Rightarrow> Inr None | Some st1 \<Rightarrow> pton6_end st1)"

text \<open>A state between groups: the words read so far, the gap.\<close>

definition between :: "nat list \<Rightarrow> nat option \<Rightarrow> pton6_state" where
  "between acc cp = (2 * length acc, cp, 0, 0, bytes6 acc @ replicate (16 - 2 * length acc) 0)"

lemma split_zeros: "2 * length acc + 2 \<le> 16 \<Longrightarrow>
    replicate (16 - 2 * length acc) (0 :: u8) = 0 # 0 # replicate (16 - 2 * length (acc @ [w])) 0"
proof -
  assume "2 * length acc + 2 \<le> 16"
  then have "16 - 2 * length acc = Suc (Suc (16 - 2 * length (acc @ [w])))" by simp
  then show ?thesis by (simp only: replicate_Suc)
qed

lemma run6_group_colon:
  assumes "w < 65536" "length acc < 8" "src \<noteq> []"
  shows "run6 junk (hex w @ CHR '':'' # src) cur (between acc cp) = run6 junk src src (between (acc @ [w]) cp)"
proof -
  have "hex w \<noteq> []" by simp
  then have "put_word (bytes6 acc @ replicate (16 - 2 * length acc) 0) (2 * length acc) (of_nat w) =
      Inr (bytes6 (acc @ [w]) @ replicate (16 - 2 * length (acc @ [w])) 0)"
    using put_word_eq [OF assms(1), of "bytes6 acc" "2 * length acc"] split_zeros [of acc w] assms(2) by simp
  moreover have "length (hex w) \<noteq> 0" by simp
  ultimately show ?thesis
    using pton6_digits [OF assms(1), of 0 junk "CHR '':'' # src" cur] hex_length [OF assms(1)] assms(2,3)
    by (simp add: run6_def between_def)
qed

lemma run6_end: "run6 junk [] cur st = pton6_end st"
  by (simp add: run6_def)

lemma run6_last_group:
  assumes "w < 65536" "length acc < 8"
  shows "run6 junk (hex w) cur (between acc cp) = pton6_end (between (acc @ [w]) cp)"
proof -
  have e: "2 * Suc (length acc) = 2 * length acc + 2" by simp
  have "put_word (bytes6 acc @ replicate (16 - 2 * length acc) 0) (2 * length acc) (of_nat w) =
      Inr (bytes6 (acc @ [w]) @ replicate (16 - 2 * length (acc @ [w])) 0)"
    using put_word_eq [OF assms(1), of "bytes6 acc" "2 * length acc"] split_zeros [of acc w] assms(2) by simp
  moreover have "length (hex w) \<noteq> 0" by simp
  ultimately show ?thesis
    using pton6_digits [OF assms(1), of 0 junk "[]" cur] hex_length [OF assms(1)] assms(2)
    by (simp add: run6_def between_def pton6_end_def Let_def e del: mult_Suc_right add_2_eq_Suc add_2_eq_Suc' split: option.split)
qed

lemma run6_gap: "run6 junk (CHR '':'' # src) cur (between acc None) = run6 junk src src (between acc (Some (2 * length acc)))"
  by (simp add: run6_def between_def)

text \<open>Groups with colons between them.\<close>

fun gtext :: "nat list \<Rightarrow> string" where
  "gtext [] = []"
| "gtext [w] = hex w"
| "gtext (w # ws) = hex w @ CHR '':'' # gtext ws"

lemma gtext_not_Nil [simp]: "gtext ws = [] \<longleftrightarrow> ws = []"
  by (cases ws rule: gtext.cases) simp_all

lemma run6_groups:
  "\<forall>w\<in>set ws. w < 65536 \<Longrightarrow> length acc + length ws \<le> 8 \<Longrightarrow>
    run6 junk (gtext ws) cur (between acc cp) = pton6_end (between (acc @ ws) cp)"
proof (induction ws arbitrary: acc cur rule: gtext.induct)
  case (3 w v ws)
  then show ?case using run6_group_colon [of w acc "gtext (v # ws)" junk cur cp] by simp
qed (simp_all add: run6_end run6_last_group)

lemma run6_groups_colon:
  "ws \<noteq> [] \<Longrightarrow> \<forall>w\<in>set ws. w < 65536 \<Longrightarrow> length acc + length ws \<le> 8 \<Longrightarrow> src \<noteq> [] \<Longrightarrow>
    run6 junk (gtext ws @ CHR '':'' # src) cur (between acc cp) = run6 junk src src (between (acc @ ws) cp)"
proof (induction ws arbitrary: acc cur rule: gtext.induct)
  case (3 w v ws)
  then show ?case
    using run6_group_colon [of w acc "gtext (v # ws) @ CHR '':'' # src" junk cur cp] by simp
qed (simp_all add: run6_group_colon)


text \<open>A dotted end: digits that are read as hexadecimal first, until the dot sends the parser back to their beginning.\<close>

lemma dec_hex_digits:
  "n < 256 \<Longrightarrow> seen + length (dec n) \<le> 4 \<Longrightarrow>
    \<exists>v. pton6_loop junk (dec n @ src) cur (tp, cp, seen, val, tmp) = pton6_loop junk src cur (tp, cp, seen + length (dec n), v, tmp)"
proof (induction n arbitrary: src rule: dec_induct)
  case (digit n)
  then show ?case by (auto simp: print_base_less hex_index)
next
  case (step v d)
  obtain u where "pton6_loop junk (dec v @ dig d # src) cur (tp, cp, seen, val, tmp) =
    pton6_loop junk (dig d # src) cur (tp, cp, seen + length (dec v), u, tmp)"
    using step.IH [of "dig d # src"] step.prems step.hyps by (auto simp: print_base_step)
  then show ?case using step by (auto simp: print_base_step hex_index)
qed

lemma run6_dotted:
  assumes "length a = 4" "length acc \<le> 6"
  shows "run6 junk (dotted a) (dotted a) (between acc cp) =
    pton6_end (2 * length acc + 4, cp, 0, 0, bytes6 acc @ a @ replicate (12 - 2 * length acc) 0)"
proof -
  let ?src = "CHR ''.'' # dec (unat (a ! 1)) @ ''.'' @ dec (unat (a ! 2)) @ ''.'' @ dec (unat (a ! 3))"
  let ?tmp = "bytes6 acc @ replicate (16 - 2 * length acc) 0"
  have d: "dotted a = dec (unat (a ! 0)) @ ?src" by (simp add: dotted_def)
  obtain v where v: "pton6_loop junk (dec (unat (a ! 0)) @ ?src) (dotted a) (2 * length acc, cp, 0, 0, ?tmp) =
      pton6_loop junk ?src (dotted a) (2 * length acc, cp, 0 + length (dec (unat (a ! 0))), v, ?tmp)"
    using dec_hex_digits [of "unat (a ! 0)" 0 junk ?src "dotted a"] dec_u8_length [of "a ! 0"] unat_byte_less [of "a ! 0"] by fastforce
  have "inet_pton4 junk (dotted a) (drop (2 * length acc) ?tmp) = Inr (0, a @ replicate (12 - 2 * length acc) 0)"
    using inet_pton4_dotted [OF assms(1), of "replicate (16 - 2 * length acc) 0" junk] assms(2) by simp
  then have l: "pton6_loop junk (dotted a) (dotted a) (between acc cp) =
      Inr (Some (2 * length acc + 4, cp, 0, v, bytes6 acc @ a @ replicate (12 - 2 * length acc) 0))"
    using v assms(2) unfolding between_def by (subst (1) d) simp
  show ?thesis unfolding run6_def l by (simp add: pton6_end_def)
qed

section \<open>The gap\<close>

lemma set_at_middle: "n = length P \<Longrightarrow> set_at (P @ x # Q) n v = Inr (P @ v # Q)"
  by (simp add: set_at_def)

lemma shift_loop_eq:
  assumes "length Z \<noteq> 0" "length X + length Y + length Z = 16" "\<forall>z\<in>set Z. z = 0"
  shows "k \<le> length Y \<Longrightarrow> shift_loop (length X) (length Y) k (X @ take k Y @ Z @ drop k Y) = Inr (X @ Z @ Y)"
proof (induction k)
  case (Suc k)
  let ?n = "length Y" and ?t = "X @ take (Suc k) Y @ Z @ drop (Suc k) Y"
  have Z: "Z = replicate (length Z) 0" using assms(3) by (metis replicate_length_same)
  obtain m where m: "length Z = Suc m" using assms(1) by (cases "length Z") auto
  have Zl: "Z = replicate m 0 @ [0]" "Z = 0 # replicate m 0" using Z m by (simp_all add: replicate_append_same)
  have k: "k < ?n" using Suc.prems by simp
  have i1: "length X + ?n - (?n - k) = length X + k" using k by simp
  have i2: "16 - (?n - k) = length (X @ take (Suc k) Y @ replicate m 0)" using k assms(2) m by simp
  have lt: "length ?t = 16" using k assms(2) by simp
  have g: "get_at ?t (length X + k) = Inr (Y ! k)" using k lt assms(2) m by (simp add: get_at_def nth_append)
  have s1: "set_at ?t (16 - (?n - k)) (Y ! k) = Inr (X @ take (Suc k) Y @ replicate m 0 @ Y ! k # drop (Suc k) Y)"
    using set_at_middle [OF i2, of 0 "drop (Suc k) Y" "Y ! k"] by (subst Zl(1)) simp
  have "take (Suc k) Y = take k Y @ [Y ! k]" using k by (rule take_Suc_conv_app_nth)
  then have s2: "set_at (X @ take (Suc k) Y @ replicate m 0 @ Y ! k # drop (Suc k) Y) (length X + k) 0 =
      Inr (X @ take k Y @ (0 # replicate m 0) @ Y ! k # drop (Suc k) Y)"
    using k by (simp add: set_at_def list_update_append)
  have "Y ! k # drop (Suc k) Y = drop k Y" by (rule Cons_nth_drop_Suc [OF k])
  then show ?case using Suc.IH k g s1 s2 Zl(2) by (simp add: i1 Let_def)
qed simp

lemma pton6_end_gap:
  assumes "length B + 2 * length acc < 16"
  shows "pton6_end (2 * length acc + length B, Some (2 * length acc), 0, 0, bytes6 acc @ B @ replicate (16 - 2 * length acc - length B) 0) =
    Inr (Some (bytes6 acc @ replicate (16 - 2 * length acc - length B) 0 @ B))"
  using shift_loop_eq [of "replicate (16 - 2 * length acc - length B) 0" "bytes6 acc" B "length B"] assms
  by (simp add: pton6_end_def)

lemma pton6_end_full: "length ws = 8 \<Longrightarrow> pton6_end (between ws None) = Inr (Some (bytes6 ws))"
  by (simp add: pton6_end_def between_def)

lemma pton6_end_between:
  assumes "length A + length B < 8"
  shows "pton6_end (between (A @ B) (Some (2 * length A))) = Inr (Some (bytes6 (A @ replicate (8 - length A - length B) 0 @ B)))"
proof -
  have z: "bytes6 (replicate n 0) = replicate (2 * n) 0" for n by (induction n) (simp_all add: word_bytes_def)
  have "16 - 2 * length A - 2 * length B = 2 * (8 - length A - length B)" by simp
  then show ?thesis using pton6_end_gap [of "bytes6 B" A] assms by (simp add: between_def z add_mult_distrib2)
qed

section \<open>No text leads out of the arrays\<close>

definition pton6_ok :: "pton6_state \<Rightarrow> bool" where
  "pton6_ok st = (case st of (tp, cp, seen, val, tmp) \<Rightarrow> length tmp = 16 \<and> tp \<le> 16 \<and> (\<forall>c. cp = Some c \<longrightarrow> c \<le> tp))"

lemma put_word_safe: "tp + 2 \<le> length tmp \<Longrightarrow> \<exists>t. put_word tmp tp v = Inr t \<and> length t = length tmp"
  by (simp add: put_word_def set_at_def)

lemma pton6_loop_safe: "pton6_ok st \<Longrightarrow> \<exists>r. pton6_loop junk src cur st = Inr r \<and> (\<forall>st1. r = Some st1 \<longrightarrow> pton6_ok st1)"
proof (induction junk src cur st rule: pton6_loop.induct)
  case (2 junk ch src cur tp cp seen val tmp)
  note ok = 2(4) [unfolded pton6_ok_def, simplified]
  show ?case
  proof (cases "xdigit ch")
    case (Some d)
    then show ?thesis using 2(3) [OF Some] ok by (auto simp: pton6_ok_def)
  next
    case None
    consider "ch = CHR '':''" "seen = 0" | "ch = CHR '':''" "seen \<noteq> 0" | "ch \<noteq> CHR '':''" by blast
    then show ?thesis
    proof cases
      case 1
      then show ?thesis using 2(1) [OF None] ok None by (auto simp: pton6_ok_def)
    next
      case colon: 2
      show ?thesis
      proof (cases "src = [] \<or> tp + 2 > 16")
        case False
        then obtain t where t: "put_word tmp tp val = Inr t" "length t = 16" using put_word_safe [of tp tmp val] ok by auto
        have "pton6_ok (tp + 2, cp, 0, 0, t)" using ok False t(2) by (auto simp: pton6_ok_def)
        then have "\<exists>r. pton6_loop junk src src (tp + 2, cp, 0, 0, t) = Inr r \<and> (\<forall>st1. r = Some st1 \<longrightarrow> pton6_ok st1)"
          using 2(2) [OF None] colon False by auto
        then show ?thesis using None colon False t(1) by simp
      qed (use None colon in auto)
    next
      case 3
      show ?thesis
      proof (cases "ch = CHR ''.'' \<and> tp + 4 \<le> 16")
        case True
        then consider a where "length a = 4" "inet_pton4 junk cur (drop tp tmp) = Inr (0, a @ drop 4 (drop tp tmp))"
          | "inet_pton4 junk cur (drop tp tmp) = Inr (INET_EINVAL, drop tp tmp)"
          using inet_pton4_cases [of "drop tp tmp" cur junk] ok by fastforce
        then show ?thesis using ok None True by cases (auto simp: pton6_ok_def INET_EINVAL_def)
      qed (use None 3 in auto)
    qed
  qed
qed auto

lemma shift_loop_safe:
  "length tmp = 16 \<Longrightarrow> c + n \<le> 16 \<Longrightarrow> k \<le> n \<Longrightarrow> n \<le> 16 \<Longrightarrow> \<exists>t. shift_loop c n k tmp = Inr t \<and> length t = 16"
  by (induction c n k tmp rule: shift_loop.induct) (auto simp: get_at_def set_at_def Let_def)

lemma pton6_end_safe:
  assumes "pton6_ok st"
  shows "\<exists>r. pton6_end st = Inr r \<and> (\<forall>t. r = Some t \<longrightarrow> length t = 16)"
proof -
  obtain tp cp seen val tmp where st: "st = (tp, cp, seen, val, tmp)" by (cases st)
  note ok = assms [unfolded pton6_ok_def st, simplified]
  show ?thesis
  proof (cases "seen \<noteq> 0 \<and> tp + 2 > 16")
    case False
    define tp1 where "tp1 = (if seen \<noteq> 0 then tp + 2 else tp)"
    obtain t where t: "(if seen \<noteq> 0 then put_word tmp tp val else Inr tmp) = Inr t" "length t = 16"
      using put_word_safe [of tp tmp val] ok False by (cases "seen = 0") auto
    have "pton6_end st = (case cp of None \<Rightarrow> Inr (if tp1 \<noteq> 16 then None else Some t)
      | Some c \<Rightarrow> if tp1 = 16 then Inr None else ebind (shift_loop c (tp1 - c) (tp1 - c) t) (\<lambda>t2. Inr (Some t2)))"
      using False t(1) by (cases "seen = 0") (simp_all add: pton6_end_def st tp1_def split: option.split)
    moreover have "c \<le> tp1 \<and> tp1 \<le> 16" if "cp = Some c" for c using ok that False by (auto simp: tp1_def)
    moreover have "\<exists>t2. shift_loop c (tp1 - c) (tp1 - c) t = Inr t2 \<and> length t2 = 16" if "c \<le> tp1 \<and> tp1 \<le> 16" for c
      using shift_loop_safe [OF t(2), of c "tp1 - c" "tp1 - c"] that by (simp add: le_diff_conv)
    ultimately show ?thesis using t(2) by (cases cp) fastforce+
  qed (auto simp: pton6_end_def st)
qed

lemma inet_pton6_safe:
  assumes "length dst = 16"
  shows "\<exists>err t. inet_pton6 junk src dst = Inr (err, t) \<and> length t = 16 \<and> (err = 0 \<or> err = INET_EINVAL \<and> t = dst)"
proof -
  define fin where "fin = (\<lambda>s. ebind (pton6_loop junk s s (0, None, 0, 0, replicate 16 0)) (\<lambda>r.
      case r of None \<Rightarrow> Inr (INET_EINVAL, dst)
      | Some st \<Rightarrow> ebind (pton6_end st) (\<lambda>r.
          case r of None \<Rightarrow> Inr (INET_EINVAL, dst) | Some tmp \<Rightarrow> ebind (write_at dst 0 tmp) (\<lambda>dst1. Inr (0, dst1)))))"
  have ok: "\<exists>err t. fin s = Inr (err, t) \<and> length t = 16 \<and> (err = 0 \<or> err = INET_EINVAL \<and> t = dst)" for s
  proof -
    obtain r where r: "pton6_loop junk s s (0, None, 0, 0, replicate 16 0) = Inr r" "\<forall>st. r = Some st \<longrightarrow> pton6_ok st"
      using pton6_loop_safe [of "(0, None, 0, 0, replicate 16 0)" junk s s] by (auto simp: pton6_ok_def)
    show ?thesis
    proof (cases r)
      case (Some st)
      then obtain q where "pton6_end st = Inr q" "\<forall>t. q = Some t \<longrightarrow> length t = 16" using r(2) pton6_end_safe by blast
      then show ?thesis using r(1) Some assms by (cases q) (auto simp: write_at_def fin_def)
    qed (use r(1) assms in \<open>simp add: fin_def\<close>)
  qed
  show ?thesis unfolding inet_pton6_def Let_def fin_def [symmetric] using ok assms by (simp split: list.split option.split)
qed

text \<open>A copy that leaves room for the NUL holds what was copied, up to a NUL in it; any other leads out of the array.\<close>

lemma copy_text_eq:
  assumes "len \<le> length src"
  shows "copy_text junk room src len =
    (if len < room then Inr (takeWhile (\<lambda>c. c \<noteq> CHR 0x00) (take len src)) else Inl OutOfBounds)"
proof -
  define a where "a = (map (\<lambda>i. char_of (unat (junk i))) [0..<room] :: string)"
  have a: "length a = room" by (simp add: a_def)
  have l: "length (take len src) = len" using assms by simp
  have c: "copy_text junk room src len = ebind (write_at a 0 (take len src)) (\<lambda>arr. ebind (set_at arr len (CHR 0x00)) text_of)"
    by (simp add: copy_text_def a_def)
  show ?thesis
  proof (cases "len < room")
    case True
    then have "write_at a 0 (take len src) = Inr (take len src @ drop len a)" using l a by (simp add: write_at_def)
    moreover have "drop len a = a ! len # drop (Suc len) a" using True a by (simp add: Cons_nth_drop_Suc)
    then have "set_at (take len src @ drop len a) len (CHR 0x00) = Inr (take len src @ CHR 0x00 # drop (Suc len) a)"
      using l by (simp add: set_at_def list_update_append)
    moreover have "text_of (take len src @ CHR 0x00 # drop (Suc len) a) = Inr (takeWhile (\<lambda>c. c \<noteq> CHR 0x00) (take len src))"
      by (simp add: text_of_def takeWhile_tail)
    ultimately show ?thesis using True by (simp add: c)
  next
    case False
    then show ?thesis using l a unfolding c write_at_def by (cases "len = room") (simp_all add: set_at_def)
  qed
qed

lemma uv_inet_pton_safe:
  assumes "length dst = (if af = AF_INET then 4 else 16)"
  shows "\<exists>err t. uv_inet_pton junk af src dst = Inr (err, t) \<and> length t = length dst \<and> (err \<noteq> 0 \<longrightarrow> t = dst)"
proof -
  have "\<exists>err t. inet_pton4 junk src dst = Inr (err, t) \<and> length t = length dst \<and> (err \<noteq> 0 \<longrightarrow> t = dst)" if "af = AF_INET"
    using that assms inet_pton4_cases [of dst src junk] by auto
  moreover have p: "\<exists>err t. inet_pton6 junk s dst = Inr (err, t) \<and> length t = length dst \<and> (err \<noteq> 0 \<longrightarrow> t = dst)" if "af \<noteq> AF_INET" for s
    using that assms inet_pton6_safe [of dst junk s] by auto
  moreover have "\<exists>err t. ebind (copy_text junk 46 src k) (\<lambda>s. inet_pton6 junk s dst) = Inr (err, t) \<and> length t = length dst \<and> (err \<noteq> 0 \<longrightarrow> t = dst)"
    if "af \<noteq> AF_INET" "index_of CHR ''%'' src = Some k" "\<not> k > 45" for k
    using p [OF that(1)] index_of_Some [OF that(2)] that(3) by (simp add: copy_text_eq)
  ultimately show ?thesis by (simp add: uv_inet_pton_def split: option.split)
qed

end
