(* ===== verification/UvInetPrint6.thy ===== *)
theory UvInetPrint6
  imports UvInetParse6
begin

text \<open>Printing IPv6 addresses: the longest run of zeros, the texts that can come out, and that they are read back.\<close>

section \<open>The longest run of zeros\<close>

text \<open>A run is none (base \<open>-1\<close>) or a stretch of zeros in the words that were seen; the current run is at their end.\<close>

definition is_run :: "nat list \<Rightarrow> int \<times> int \<Rightarrow> bool" where
  "is_run ws r \<longleftrightarrow> (fst r \<noteq> -1 \<longrightarrow> (\<exists>A n B. ws = A @ replicate (Suc n) 0 @ B \<and> r = (int (length A), int (Suc n))))"

definition is_cur :: "nat list \<Rightarrow> int \<times> int \<Rightarrow> bool" where
  "is_cur ws r \<longleftrightarrow> (fst r \<noteq> -1 \<longrightarrow> (\<exists>A n. ws = A @ replicate (Suc n) 0 \<and> r = (int (length A), int (Suc n))))"

lemma is_run_more: "is_run ws r \<Longrightarrow> is_run (ws @ vs) r"
  unfolding is_run_def by (metis append.assoc)

lemma is_cur_run: "is_cur ws r \<Longrightarrow> is_run ws r"
  unfolding is_run_def is_cur_def by (metis append_Nil2)

lemma is_cur_new: "is_cur (ws @ [0]) (int (length ws), 1)"
  unfolding is_cur_def by (intro impI exI [of _ ws] exI [of _ 0]) simp

lemma is_cur_longer: "is_cur ws r \<Longrightarrow> fst r \<noteq> -1 \<Longrightarrow> is_cur (ws @ [0]) (fst r, snd r + 1)"
proof -
  assume "is_cur ws r" "fst r \<noteq> -1"
  then obtain A n where "ws = A @ replicate (Suc n) 0" "r = (int (length A), int (Suc n))" by (auto simp: is_cur_def)
  then show ?thesis unfolding is_cur_def
    by (intro impI exI [of _ A] exI [of _ "Suc n"]) (simp add: replicate_append_same [symmetric])
qed

lemma zero_runs_ok:
  "is_run P best \<Longrightarrow> is_cur P cur \<Longrightarrow> zero_runs ws (int (length P)) best cur = (b, c) \<Longrightarrow> is_run (P @ ws) b \<and> is_cur (P @ ws) c"
proof (induction ws arbitrary: P best cur)
  case (Cons w ws)
  have i: "int (length P) + 1 = int (length (P @ [w]))" by simp
  note step = Cons.IH [of "P @ [w]", folded i]
  have none: "is_cur (P @ [w]) (-1, k)" for k by (simp add: is_cur_def)
  have run: "is_run (P @ [w]) best" "is_run (P @ [w]) cur" using Cons.prems(1,2) is_run_more is_cur_run by blast+
  show ?case
  proof (cases "w = 0")
    case True
    then have "is_cur (P @ [w]) (if fst cur = -1 then (int (length P), 1) else (fst cur, snd cur + 1))"
      using is_cur_new [of P] is_cur_longer [OF Cons.prems(2)] by simp
    then show ?thesis using step [OF run(1)] Cons.prems(3) True by simp
  next
    case False
    show ?thesis
    proof (cases "fst cur = -1")
      case True
      then have "is_cur (P @ [w]) cur" by (simp add: is_cur_def)
      then show ?thesis using step [OF run(1)] Cons.prems(3) False True by simp
    next
      case c: False
      have "is_run (P @ [w]) (if fst best = -1 \<or> snd cur > snd best then cur else best)" using run by simp
      then show ?thesis using step [OF _ none] Cons.prems(3) False c by simp
    qed
  qed
qed simp

lemma best_run_cases:
  obtains k where "best_run ws = (-1, k)"
  | A n B where "ws = A @ replicate (Suc (Suc n)) 0 @ B" "best_run ws = (int (length A), int (Suc (Suc n)))"
proof -
  obtain b c where z: "zero_runs ws 0 (-1, 0) (-1, 0) = (b, c)" by (metis prod.collapse)
  then have "is_run ws b \<and> is_cur ws c" using zero_runs_ok [of "[]" "(-1, 0)" "(-1, 0)" ws b c] by (simp add: is_run_def is_cur_def)
  then have b: "is_run ws b" "is_run ws c" using is_cur_run by blast+
  define r where "r = (if fst c \<noteq> -1 \<and> (fst b = -1 \<or> snd c > snd b) then c else b)"
  have r: "is_run ws r" "best_run ws = (if fst r \<noteq> -1 \<and> snd r < 2 then (-1, snd r) else r)"
    using b by (simp_all add: best_run_def z Let_def r_def)
  show thesis
  proof (cases "fst r = -1 \<or> snd r < 2")
    case True
    then have "best_run ws = (-1, snd r)" using r(2) by (cases r) auto
    then show thesis by (rule that(1))
  next
    case False
    then obtain A n B where w: "ws = A @ replicate (Suc n) 0 @ B" "r = (int (length A), int (Suc n))"
      using r(1) unfolding is_run_def by blast
    then obtain m where "n = Suc m" using False by (cases n) auto
    then show thesis using that(2) [of A m B] w r(2) False by simp
  qed
qed

section \<open>The loop over the words\<close>

definition ctext :: "nat list \<Rightarrow> string" where
  "ctext ws = concat (map (\<lambda>w. CHR '':'' # hex w) ws)"

lemma ctext_simps [simp]: "ctext [] = []" "ctext (w # ws) = CHR '':'' # hex w @ ctext ws"
  by (simp_all add: ctext_def)

lemma gtext_Cons: "gtext (w # ws) = hex w @ ctext ws"
  by (induction ws arbitrary: w) simp_all

lemma ctext_gtext: "ws \<noteq> [] \<Longrightarrow> ctext ws = CHR '':'' # gtext ws"
  by (cases ws) (simp_all add: gtext_Cons del: gtext.simps)

lemma gtext_snoc: "gtext (ws @ [w]) = gtext ws @ (if ws = [] then [] else '':'') @ hex w"
  by (cases ws) (simp_all add: gtext_Cons ctext_def del: gtext.simps(2,3))

lemma gtext_length: "\<forall>w\<in>set ws. w < 65536 \<Longrightarrow> length (gtext ws) \<le> 5 * length ws"
proof (induction ws rule: rev_induct)
  case (snoc w ws)
  then show ?case using hex_length [of w] by (auto simp: gtext_snoc)
qed simp

text \<open>Where the last four bytes are printed with dots.\<close>

definition v4_end :: "nat list \<Rightarrow> int \<times> int \<Rightarrow> bool" where
  "v4_end ws best \<longleftrightarrow> fst best = 0 \<and> (snd best = 6 \<or> snd best = 7 \<and> ws ! 7 \<noteq> 1 \<or> snd best = 5 \<and> ws ! 5 = 65535)"

definition in_run :: "int \<times> int \<Rightarrow> nat \<Rightarrow> bool" where
  "in_run best i \<longleftrightarrow> fst best \<noteq> -1 \<and> fst best \<le> int i \<and> int i < fst best + snd best"

text \<open>One round.\<close>

lemma ntop6_end: "ntop6_loop src ws best 8 tmp = Inr (Inr tmp)"
  by (simp add: ntop6_loop.simps)

lemma ntop6_word:
  assumes "i < 8" "\<not> in_run best i" "\<not> (i = 6 \<and> v4_end ws best)" "ws ! i < 65536" "length tmp + 5 < 46"
  shows "ntop6_loop src ws best i tmp = ntop6_loop src ws best (Suc i) (tmp @ (if i = 0 then [] else '':'') @ hex (ws ! i))"
  using assms hex_length [OF assms(4)] by (subst ntop6_loop.simps) (auto simp: put_tmp_def in_run_def v4_end_def)

lemma ntop6_in_run:
  assumes "i < 8" "in_run best i" "length tmp + 1 < 46"
  shows "ntop6_loop src ws best i tmp = ntop6_loop src ws best (Suc i) (tmp @ (if int i = fst best then '':'' else []))"
  using assms by (subst ntop6_loop.simps) (auto simp: put_tmp_def in_run_def)

lemma ntop6_v4:
  assumes "v4_end ws best" "\<not> in_run best 6" "length tmp \<le> 20" "16 \<le> length src"
  shows "ntop6_loop src ws best 6 tmp = Inr (Inr (tmp @ '':'' @ dotted (drop 12 src)))"
  using assms dotted_length [of "drop 12 src"]
  by (subst ntop6_loop.simps) (auto simp: put_tmp_def in_run_def v4_end_def inet_ntop4_eq)

text \<open>Words to the end, words up to the run, over the run.\<close>

lemma ntop6_rest:
  "0 < i \<Longrightarrow> i \<le> 8 \<Longrightarrow> \<forall>j\<ge>i. \<not> in_run best j \<Longrightarrow> i \<le> 6 \<longrightarrow> \<not> v4_end ws best \<Longrightarrow> length ws = 8 \<Longrightarrow> \<forall>w\<in>set ws. w < 65536 \<Longrightarrow>
    length tmp + 5 * (8 - i) < 46 \<Longrightarrow> ntop6_loop src ws best i tmp = Inr (Inr (tmp @ ctext (drop i ws)))"
proof (induction "8 - i" arbitrary: i tmp)
  case 0
  then show ?case by (simp add: ntop6_end)
next
  case (Suc k)
  then have i: "i < 8" by simp
  then have w: "ws ! i < 65536" using Suc.prems(5,6) by simp
  have l: "length (tmp @ '':'' @ hex (ws ! i)) + 5 * (8 - Suc i) < 46" using hex_length [OF w] Suc.prems(7) i by simp
  have "ntop6_loop src ws best i tmp = ntop6_loop src ws best (Suc i) (tmp @ '':'' @ hex (ws ! i))"
    using ntop6_word [of i best ws tmp src] i w Suc.prems by simp
  also have "\<dots> = Inr (Inr ((tmp @ '':'' @ hex (ws ! i)) @ ctext (drop (Suc i) ws)))"
    by (rule Suc.hyps(1)) (use Suc.hyps(2) Suc.prems i l in auto)
  finally show ?case using Cons_nth_drop_Suc [of i ws] i Suc.prems(5) by (metis append.assoc append_Cons append_Nil ctext_simps(2))
qed

lemma ntop6_prefix:
  "k \<le> 8 \<Longrightarrow> \<forall>j<k. \<not> in_run best j \<Longrightarrow> \<not> v4_end ws best \<Longrightarrow> length ws = 8 \<Longrightarrow> \<forall>w\<in>set ws. w < 65536 \<Longrightarrow>
    ntop6_loop src ws best 0 [] = ntop6_loop src ws best k (gtext (take k ws))"
proof (induction k)
  case (Suc k)
  have t: "take (Suc k) ws = take k ws @ [ws ! k]" using Suc.prems(1,4) by (simp add: take_Suc_conv_app_nth)
  have "\<forall>w\<in>set (take k ws). w < 65536" using Suc.prems(5) by (meson in_set_takeD)
  then have "length (gtext (take k ws)) \<le> 5 * k" using gtext_length [of "take k ws"] Suc.prems(1,4) by simp
  then have "ntop6_loop src ws best k (gtext (take k ws)) = ntop6_loop src ws best (Suc k) (gtext (take (Suc k) ws))"
    using ntop6_word [of k best ws "gtext (take k ws)" src] Suc.prems unfolding t gtext_snoc by (auto simp: take_eq_Nil)
  then show ?case using Suc by simp
qed simp

lemma ntop6_over:
  assumes "best = (int b, int (Suc n))" "b + Suc n \<le> 8" "length tmp + 2 < 46"
  shows "ntop6_loop src ws best b tmp = ntop6_loop src ws best (b + Suc n) (tmp @ '':'')"
proof -
  have "m \<le> n \<Longrightarrow> ntop6_loop src ws best b tmp = ntop6_loop src ws best (b + Suc m) (tmp @ '':'')" for m
  proof (induction m)
    case 0
    then show ?case using ntop6_in_run [of b best tmp src ws] assms by (simp add: in_run_def)
  next
    case (Suc m)
    then show ?case using ntop6_in_run [of "b + Suc m" best "tmp @ '':''" src ws] assms by (simp add: in_run_def)
  qed
  then show ?thesis by blast
qed

section \<open>The texts\<close>

text \<open>No run; a run with words around it; a run at the beginning and the last four bytes with dots.\<close>

definition text6 :: "u8 list \<Rightarrow> string \<Rightarrow> bool" where
  "text6 a s \<longleftrightarrow>
     (\<exists>ws. length ws = 8 \<and> (\<forall>w\<in>set ws. w < 65536) \<and> bytes6 ws = a \<and> s = gtext ws) \<or>
     (\<exists>A n B. length A + Suc n + length B = 8 \<and> (\<forall>w\<in>set (A @ B). w < 65536) \<and>
        bytes6 (A @ replicate (Suc n) 0 @ B) = a \<and> s = gtext A @ ''::'' @ gtext B) \<or>
     (\<exists>B d. length d = 4 \<and> (B = [] \<or> B = [65535]) \<and> bytes6 (replicate (6 - length B) 0 @ B) @ d = a \<and>
        s = '':'' @ ctext B @ '':'' @ dotted d)"

lemma bytes6_take: "bytes6 (take n ws) = take (2 * n) (bytes6 ws)"
proof (induction n arbitrary: ws)
  case (Suc n)
  then show ?case by (cases ws) simp_all
qed simp

lemma words6_less: "\<forall>w\<in>set (words6 src). w < 65536"
proof
  fix w assume "w \<in> set (words6 src)"
  then obtain i where "w = unat (src ! (2 * i)) * 256 + unat (src ! (2 * i + 1))" by (auto simp: words6_def)
  then show "w < 65536" using unat_byte_less [of "src ! (2 * i)"] unat_byte_less [of "src ! (2 * i + 1)"] by linarith
qed

lemma length_words6 [simp]: "length (words6 src) = 8"
  by (simp add: words6_def)

lemma word_bytes_join: "word_bytes (unat (a :: u8) * 256 + unat (b :: u8)) = [a, b]"
proof -
  have "(256 :: u8) = 0" by simp
  then have "of_nat (unat a * 256 + unat b) = b" by (simp only: of_nat_add of_nat_mult of_nat_numeral) simp
  moreover have "(unat a * 256 + unat b) div 256 = unat a" using unat_byte_less [of b] by simp
  ultimately show ?thesis unfolding word_bytes_def by simp
qed

lemma bytes_pairs: "2 * n \<le> length src \<Longrightarrow> concat (map (\<lambda>i. [src ! (2 * i), src ! (2 * i + 1)]) [0..<n]) = take (2 * n) src"
  by (induction n) (simp_all add: take_Suc_conv_app_nth)

lemma bytes_words6: "length src = 16 \<Longrightarrow> bytes6 (words6 src) = src"
  using bytes_pairs [of 8 src] by (simp add: words6_def bytes6_def comp_def word_bytes_join del: upt_rec_numeral)

text \<open>What \<open>inet_ntop6\<close> prints is one of them.\<close>

lemma gap_text:
  assumes "words6 src = A @ replicate (Suc n) 0 @ B" "best_run (words6 src) = (int (length A), int (Suc n))"
    "v4_end (words6 src) (best_run (words6 src)) \<longrightarrow> n = 6"
  obtains tmp where "ntop6_loop src (words6 src) (best_run (words6 src)) 0 [] = Inr (Inr tmp)"
    "(if length A + Suc n = 8 then put_tmp tmp '':'' else Inr tmp) = Inr (gtext A @ ''::'' @ gtext B)"
proof -
  let ?ws = "words6 src" and ?i = "length A + Suc n"
  define best where "best = best_run ?ws"
  have b: "best = (int (length A), int (Suc n))" by (simp add: best_def assms(2))
  have l: "?i + length B = 8" using arg_cong [OF assms(1), of length] by simp
  have "\<forall>w\<in>set A. w < 65536" using words6_less [of src] by (simp add: assms(1))
  then have lA: "length (gtext A) \<le> 5 * length A" by (rule gtext_length)
  have "ntop6_loop src ?ws best 0 [] = ntop6_loop src ?ws best (length A) (gtext A)"
  proof (cases "A = []")
    case False
    then have "\<not> v4_end ?ws best" by (simp add: v4_end_def b)
    then show ?thesis
      using ntop6_prefix [of "length A" best ?ws src] words6_less [of src] l assms(1) b by (simp add: in_run_def)
  qed simp
  also have "\<dots> = ntop6_loop src ?ws best ?i (gtext A @ '':'')"
    by (rule ntop6_over) (use b l lA in auto)
  also have "\<dots> = Inr (Inr ((gtext A @ '':'') @ ctext (drop ?i ?ws)))"
    by (rule ntop6_rest) (use b l lA assms(3) words6_less [of src] in \<open>auto simp: in_run_def best_def\<close>)
  also have "drop ?i ?ws = B" by (simp add: assms(1))
  finally have e: "ntop6_loop src ?ws best 0 [] = Inr (Inr (gtext A @ '':'' @ ctext B))" by simp
  show thesis
  proof (rule that [of "gtext A @ '':'' @ ctext B"])
    show "ntop6_loop src ?ws (best_run ?ws) 0 [] = Inr (Inr (gtext A @ '':'' @ ctext B))" using e by (simp add: best_def)
    show "(if ?i = 8 then put_tmp (gtext A @ '':'' @ ctext B) '':'' else Inr (gtext A @ '':'' @ ctext B)) = Inr (gtext A @ ''::'' @ gtext B)"
      using l lA by (cases "B = []") (auto simp: put_tmp_def ctext_gtext)
  qed
qed

lemma dotted_text:
  assumes "v4_end (words6 src) (0, k)" "best_run (words6 src) = (0, k)" "words6 src = replicate (nat k) 0 @ B" "k \<noteq> 7" "length src = 16"
  shows "ntop6_loop src (words6 src) (0, k) 0 [] = Inr (Inr ('':'' @ ctext (take (6 - nat k) B) @ '':'' @ dotted (drop 12 src)))"
proof -
  let ?ws = "words6 src"
  have k: "k = 5 \<and> ?ws ! 5 = 65535 \<or> k = 6" using assms(1,4) by (auto simp: v4_end_def)
  then obtain n where n: "k = int (Suc n)" "Suc n \<le> 6" 
    using that [of 4] that [of 5] by auto
  have over: "ntop6_loop src ?ws (0, k) 0 [] = ntop6_loop src ?ws (0, k) (Suc n) '':''"
    using ntop6_over [of "(0, k)" 0 n "[]" src ?ws] n by simp
  have v4: "ntop6_loop src ?ws (0, k) 6 tmp = Inr (Inr (tmp @ '':'' @ dotted (drop 12 src)))" if "length tmp \<le> 20" for tmp
    by (rule ntop6_v4) (use assms(1,5) that n in \<open>auto simp: in_run_def\<close>)
  show ?thesis using k
  proof
    assume k: "k = 5 \<and> ?ws ! 5 = 65535"
    then have "B ! 0 = 65535" "B \<noteq> []" using assms(3) length_words6 [of src] by (auto simp: nth_append)
    then have "take 1 B = [65535]" by (cases B) auto
    moreover have "ntop6_loop src ?ws (0, k) 5 '':'' = ntop6_loop src ?ws (0, k) 6 ('':'' @ '':'' @ hex 65535)"
      using ntop6_word [of 5 "(0, k)" ?ws "'':''" src] k by (simp add: in_run_def)
    moreover have "n = 4" using n k by simp
    ultimately show ?thesis using over v4 [of "'':'' @ '':'' @ hex 65535"] hex_length [of 65535] k by simp
  qed (use over v4 [of "'':''"] n in simp)
qed

lemma inet_ntop6_dots:
  assumes "length src = 16" "words6 src = replicate (Suc (Suc n)) 0 @ B" "best_run (words6 src) = (0, int (Suc (Suc n)))"
    "v4_end (words6 src) (best_run (words6 src))" "n \<noteq> 5"
  obtains s where "text6 src s" "length s < 46" "inet_ntop6 src sz = Inr (if sz \<le> length s then Inl UV_ENOSPC else Inr s)"
proof -
  let ?ws = "words6 src"
  have l: "Suc (Suc n) + length B = 8" using arg_cong [OF assms(2), of length] by simp
  let ?d = "drop 12 src" and ?k = "int (Suc (Suc n))"
  let ?t = "'':'' @ ctext (take (6 - nat ?k) B) @ '':'' @ dotted ?d"
  have "ntop6_loop src ?ws (0, ?k) 0 [] = Inr (Inr ?t)"
    by (rule dotted_text) (use assms in \<open>auto simp: nat_add_distrib\<close>)
  moreover have k: "n = 3 \<and> ?ws ! 5 = 65535 \<or> n = 4" using assms(4,5) by (auto simp: v4_end_def assms(3))
  moreover have T: "take (6 - nat ?k) B = [] \<and> n = 4 \<or> take (6 - nat ?k) B = [65535] \<and> n = 3"
    using k l by (cases B) (auto simp: assms(2) nth_append)
  moreover have "take 6 ?ws = replicate (6 - length (take (6 - nat ?k) B)) 0 @ take (6 - nat ?k) B"
  proof -
    have "take 6 ?ws = take 6 (replicate (Suc (Suc n)) 0) @ take (6 - Suc (Suc n)) B" by (simp only: assms(2) append_Nil take_append length_replicate)
    moreover have "nat ?k = Suc (Suc n)" by simp
    ultimately show ?thesis using T by (elim disjE conjE) simp_all
  qed
  then have "bytes6 (replicate (6 - length (take (6 - nat ?k) B)) 0 @ take (6 - nat ?k) B) @ ?d = src"
    using bytes6_take [of 6 ?ws] bytes_words6 [OF assms(1)] by (metis append_take_drop_id mult_numeral_left_semiring_numeral num_double numeral_times_numeral)
  then have "text6 src ?t" unfolding text6_def
    by (intro disjI2 exI [of _ "take (6 - nat ?k) B"] exI [of _ ?d]) (use T assms(1) in auto)
  moreover have "length ?t < 46" using T hex_length [of 65535] dotted_length [of ?d] by auto
  ultimately show thesis using that [of ?t] assms(1,3) by (auto simp: inet_ntop6_def Let_def)
qed

text \<open>Every address is printed, in one of the three ways.\<close>

lemma inet_ntop6_text:
  assumes "length src = 16"
  obtains s where "text6 src s" "length s < 46" "inet_ntop6 src sz = Inr (if sz \<le> length s then Inl UV_ENOSPC else Inr s)"
proof (cases rule: best_run_cases [of "words6 src"])
  let ?ws = "words6 src"
  case (1 k)
  have "ntop6_loop src ?ws (-1, k) 0 [] = Inr (Inr (gtext ?ws))"
    using ntop6_prefix [of 8 "(-1, k)" ?ws src] words6_less [of src] by (simp add: in_run_def v4_end_def ntop6_end)
  moreover have "length (gtext ?ws) \<le> 40" using gtext_length [OF words6_less, of src] by simp
  moreover have "text6 src (gtext ?ws)" unfolding text6_def
    by (intro disjI1 exI [of _ ?ws]) (simp add: words6_less bytes_words6 assms)
  ultimately show thesis using that [of "gtext ?ws"] 1 assms by (simp add: inet_ntop6_def Let_def)
next
  let ?ws = "words6 src"
  case (2 A n B)
  have l: "length A + Suc (Suc n) + length B = 8" using arg_cong [OF 2(1), of length] by simp
  have less: "\<forall>w\<in>set (A @ B). w < 65536" using words6_less [of src] unfolding 2(1) by auto
  show thesis
  proof (cases "v4_end ?ws (best_run ?ws) \<and> n \<noteq> 5")
    case False
    let ?t = "gtext A @ ''::'' @ gtext B"
    have "length (gtext A) \<le> 5 * length A" "length (gtext B) \<le> 5 * length B" using less gtext_length by simp_all
    then have "length ?t < 46" using l by simp
    moreover have "text6 src ?t" unfolding text6_def
      by (intro disjI2 disjI1 exI [of _ A] exI [of _ "Suc n"] exI [of _ B])
        (use l less bytes_words6 [OF assms] in \<open>simp add: 2(1) [symmetric] del: replicate_Suc bytes6_simps\<close>)
    moreover obtain tmp where "ntop6_loop src ?ws (best_run ?ws) 0 [] = Inr (Inr tmp)"
      "(if length A + Suc (Suc n) = 8 then put_tmp tmp '':'' else Inr tmp) = Inr ?t"
      by (rule gap_text [OF 2]) (use False in simp)
    then have "inet_ntop6 src sz = Inr (if sz \<le> length ?t then Inl UV_ENOSPC else Inr ?t)"
      using assms 2(2) by (simp add: inet_ntop6_def Let_def less_Suc_eq_le split: if_splits)
    ultimately show thesis using that [of ?t] by blast
  next
    case True
    then have A: "A = []" by (simp add: v4_end_def 2(2))
    show thesis by (rule inet_ntop6_dots [of src n B sz]) (use assms 2 A True that in simp_all)
  qed
qed

section \<open>The way back\<close>

lemma inet_pton6_run:
  assumes "src = CHR '':'' # CHR '':'' # s \<and> rest = CHR '':'' # s \<or> (\<exists>c s. src = c # s \<and> c \<noteq> CHR '':'') \<and> rest = src"
    "run6 junk rest rest (between [] None) = Inr (Some a)" "length a = 16" "length dst = 16"
  shows "inet_pton6 junk src dst = Inr (0, a)"
proof -
  obtain st where st: "pton6_loop junk rest rest (0, None, 0, 0, replicate 16 0) = Inr (Some st)" "pton6_end st = Inr (Some a)"
    using assms(2) by (auto simp: run6_def between_def ebind_eq_Inr split: option.splits)
  show ?thesis using assms(1) st assms(3,4) by (auto simp: inet_pton6_def Let_def write_at_def)
qed

lemma hex_start: "\<exists>c s. hex w = c # s \<and> c \<noteq> CHR '':''"
proof (induction w rule: hex_induct)
  case (digit n)
  then show ?case using hex_index [of n] by (auto simp: print_base_less)
qed (auto simp: print_base_step)

lemma gtext_start: "ws \<noteq> [] \<Longrightarrow> \<exists>c s. gtext ws = c # s \<and> c \<noteq> CHR '':''"
proof (cases ws)
  case (Cons w vs)
  then show ?thesis using hex_start [of w] by (auto simp: gtext_Cons simp del: gtext.simps)
qed simp

lemma text6_read:
  assumes "text6 a s" "length dst = 16"
  shows "inet_pton6 junk s dst = Inr (0, a)"
proof -
  consider (words) ws where "length ws = 8" "\<forall>w\<in>set ws. w < 65536" "bytes6 ws = a" "s = gtext ws"
    | (gap) A n B where "length A + Suc n + length B = 8" "\<forall>w\<in>set (A @ B). w < 65536"
        "bytes6 (A @ replicate (Suc n) 0 @ B) = a" "s = gtext A @ ''::'' @ gtext B"
    | (dots) B d where "length d = 4" "B = [] \<or> B = [65535]" "bytes6 (replicate (6 - length B) 0 @ B) @ d = a"
        "s = '':'' @ ctext B @ '':'' @ dotted d"
    using assms(1) unfolding text6_def by blast
  then show ?thesis
  proof cases
    case words
    have "run6 junk s s (between [] None) = Inr (Some a)"
      using run6_groups [of ws "[]" junk s None] words pton6_end_full [of ws] by simp
    moreover have "\<exists>c r. s = c # r \<and> c \<noteq> CHR '':''" using gtext_start [of ws] words by fastforce
    ultimately show ?thesis using inet_pton6_run [of s _ s] assms(2) words(1,3) by (metis length_bytes6 num_double numeral_times_numeral)
  next
    case gap
    let ?r = "CHR '':'' # gtext B"
    have n: "8 - length A - length B = Suc n" using gap(1) by simp
    have "run6 junk (gtext B) (gtext B) (between A (Some (2 * length A))) = Inr (Some a)"
      using run6_groups [of B A junk "gtext B" "Some (2 * length A)"] gap(1,2) pton6_end_between [of A B] unfolding n gap(3) by simp
    then have r: "run6 junk ?r cur (between A None) = Inr (Some a)" for cur by (simp add: run6_gap)
    have "length a = 16" using gap(1,3) length_bytes6 [of "A @ replicate (Suc n) 0 @ B"] by simp
    show ?thesis
    proof (cases "A = []")
      case True
      then show ?thesis using inet_pton6_run [of s "gtext B" ?r] r \<open>length a = 16\<close> assms(2) gap(4) by simp
    next
      case False
      then have "run6 junk s s (between [] None) = Inr (Some a)"
        using run6_groups_colon [of A "[]" ?r junk s None] r gap by simp
      moreover have "\<exists>c r. s = c # r \<and> c \<noteq> CHR '':''" using gtext_start [OF False] gap(4) by fastforce
      ultimately show ?thesis using inet_pton6_run [of s _ s] \<open>length a = 16\<close> assms(2) by metis
    qed
  next
    case dots
    have l: "length a = 16" using arg_cong [OF dots(3), of length] dots(1,2) by auto
    define rest where "rest = (if B = [] then dotted d else gtext B @ CHR '':'' # dotted d)"
    have s: "s = CHR '':'' # CHR '':'' # rest" using dots(2,4) by (auto simp: rest_def)
    have z: "bytes6 (replicate n 0) = replicate (2 * n) 0" for n by (induction n) (simp_all add: word_bytes_def)
    have "dotted d \<noteq> []" by (simp add: dotted_def)
    then have "run6 junk rest rest (between [] (Some 0)) = run6 junk (dotted d) (dotted d) (between B (Some 0))"
      using dots(2) run6_groups_colon [of B "[]" "dotted d" junk rest "Some 0"] by (auto simp: rest_def)
    also have "\<dots> = pton6_end (2 * length B + 4, Some 0, 0, 0, bytes6 B @ d @ replicate (12 - 2 * length B) 0)"
      by (rule run6_dotted [OF dots(1)]) (use dots(2) in auto)
    also have "\<dots> = Inr (Some a)"
      using pton6_end_gap [of "bytes6 B @ d" "[]"] dots(1-3) by (auto simp: z add.commute)
    finally have "run6 junk (CHR '':'' # rest) (CHR '':'' # rest) (between [] None) = Inr (Some a)" by (simp add: run6_gap)
    then show ?thesis using inet_pton6_run [of s rest "CHR '':'' # rest"] s l assms(2) by blast
  qed
qed

end
