(* ===== verification/UvInetProps.thy ===== *)
theory UvInetProps
  imports UvInetPrint6
begin

text \<open>The properties of the address functions: exact acceptance, round trips, no access outside of the arrays, the zone.\<close>

section \<open>No zone in what is printed\<close>

lemma print_base_digits:
  assumes "2 \<le> b" "b \<le> 16"
  shows "set (print_base b n) \<subseteq> set lower_digits"
  using assms(1)
proof (induction n rule: print_base_induct)
  case (digit n)
  then have "n < length lower_digits" using assms(2) by (simp add: lower_digits_def)
  then show ?case using digit assms(1) by (simp add: print_base_less)
next
  case (step v d)
  then have "d < length lower_digits" using assms(2) by (simp add: lower_digits_def)
  then show ?case using step assms(1) by (simp add: print_base_step)
qed

lemma text6_no_zone: "text6 a s \<Longrightarrow> index_of CHR ''%'' s = None"
proof -
  have d: "CHR ''%'' \<notin> set (print_base b n)" if "2 \<le> b" "b \<le> 16" for b n
  proof -
    have "CHR ''%'' \<notin> set lower_digits" by (simp add: lower_digits_def)
    then show ?thesis using print_base_digits [OF that, of n] by blast
  qed
  have c: "CHR ''%'' \<notin> set (ctext ws)" for ws by (induction ws) (simp_all add: d)
  have g: "CHR ''%'' \<notin> set (gtext ws)" for ws using c by (cases ws) (simp_all add: gtext_Cons d del: gtext.simps(2,3))
  have "CHR ''%'' \<notin> set (dotted x)" for x by (simp add: dotted_def d)
  then show "text6 a s \<Longrightarrow> index_of CHR ''%'' s = None" unfolding index_of_None text6_def by (auto simp: g c d)
qed

section \<open>Properties\<close>

text \<open>
  C26: \<open>uv_ip4_addr\<close> accepts exactly the dotted decimal texts of the 2^32 addresses (four numbers up to 255 without
  leading zeros, three dots, nothing else) and then stores that address, whatever the memory of \<open>tmp\<close> held before. Any
  other text is \<open>UV_EINVAL\<close> and leaves the address zero.
\<close>

theorem uv_ip4_addr_exact:
  "(\<exists>a. length a = 4 \<and> ip = dotted a \<and>
      uv_ip4_addr junk ip port = Inr (0, \<lparr>sin_family = AF_INET, sin_port = htons_bytes port, sin_addr = a\<rparr>)) \<or>
   (\<nexists>a. length a = 4 \<and> ip = dotted a) \<and>
      uv_ip4_addr junk ip port = Inr (INET_EINVAL, \<lparr>sin_family = AF_INET, sin_port = htons_bytes port, sin_addr = [0, 0, 0, 0]\<rparr>)"
proof (cases "\<exists>a. length a = 4 \<and> ip = dotted a")
  case True
  then show ?thesis by (auto simp: uv_ip4_addr_def uv_inet_pton_def inet_pton4_dotted)
next
  case False
  then have "inet_pton4 junk ip (replicate 4 0) = Inr (INET_EINVAL, replicate 4 0)"
    using inet_pton4_cases [of "replicate 4 0" ip junk] by auto
  moreover have "replicate 4 (0 :: u8) = [0, 0, 0, 0]" by (simp add: numeral_eq_Suc)
  ultimately show ?thesis using False by (simp add: uv_ip4_addr_def uv_inet_pton_def)
qed

text \<open>
  Printing an address and reading the text gives the address back: \<open>uv_ip4_name\<close> into a buffer of 16 characters
  never fails, and \<open>uv_ip4_addr\<close> reads what it wrote.
\<close>

theorem uv_ip4_roundtrip:
  assumes "length (sin_addr sa) = 4" "16 \<le> sz"
  shows "\<exists>s. uv_ip4_name sa sz = Inr (Inr s) \<and>
    uv_ip4_addr junk s port = Inr (0, \<lparr>sin_family = AF_INET, sin_port = htons_bytes port, sin_addr = sin_addr sa\<rparr>)"
  using assms dotted_length [of "sin_addr sa"]
  by (simp add: uv_ip4_name_def uv_ip4_addr_def uv_inet_ntop_def uv_inet_pton_def inet_ntop4_eq inet_pton4_dotted)

text \<open>
  C25: Every IPv6 address is printed into 46 characters, whatever its runs of zeros and its kind (\<open>::\<close> at the beginning, in
  the middle or at the end, the last four bytes with dots), and \<open>uv_ip6_addr\<close> reads the text back to the same 16 bytes.
\<close>

theorem uv_ip6_roundtrip:
  assumes "length (sin6_addr sa) = 16" "46 \<le> sz"
  shows "\<exists>s. uv_ip6_name sa sz = Inr (Inr s) \<and>
    uv_ip6_addr junk scopes s port =
      Inr (0, \<lparr>sin6_family = AF_INET6, sin6_port = htons_bytes port, sin6_addr = sin6_addr sa, sin6_scope_id = 0\<rparr>)"
proof -
  obtain s where s: "text6 (sin6_addr sa) s" "length s < 46"
    "inet_ntop6 (sin6_addr sa) sz = Inr (if sz \<le> length s then Inl UV_ENOSPC else Inr s)"
    by (rule inet_ntop6_text [OF assms(1)])
  then have "uv_ip6_name sa sz = Inr (Inr s)" using assms(2) by (simp add: uv_ip6_name_def uv_inet_ntop_def AF_INET_def AF_INET6_def)
  moreover have "uv_inet_pton junk AF_INET6 s (replicate 16 0) = Inr (0, sin6_addr sa)"
    using text6_read [OF s(1)] text6_no_zone [OF s(1)] by (simp add: uv_inet_pton_def AF_INET_def AF_INET6_def)
  ultimately show ?thesis using text6_no_zone [OF s(1)] by (auto simp: uv_ip6_addr_def)
qed

lemma uv_ip6_roundtrip_witness:
  "\<exists>s. uv_ip6_name \<lparr>sin6_family = AF_INET6, sin6_port = [0, 80], sin6_addr = replicate 15 0 @ [1], sin6_scope_id = 3\<rparr> 46 = Inr (Inr s) \<and>
    uv_ip6_addr (\<lambda>_. 7) (\<lambda>_. 9) s 80 =
      Inr (0, \<lparr>sin6_family = AF_INET6, sin6_port = htons_bytes 80, sin6_addr = replicate 15 0 @ [1], sin6_scope_id = 0\<rparr>)"
  using uv_ip6_roundtrip [of "\<lparr>sin6_family = AF_INET6, sin6_port = [0, 80], sin6_addr = replicate 15 0 @ [1], sin6_scope_id = 3\<rparr>" 46
    "\<lambda>_. 7" "\<lambda>_. 9" 80] by simp

text \<open>
  C27: No text, however long or malformed, with or without a zone, makes the parsers read or write outside of
  their arrays: the 4 and 16 bytes of the addresses, the 46 characters that \<open>uv_inet_pton\<close> and the 40 that \<open>uv_ip6_addr\<close>
  copy the text before a \<open>%\<close> to. \<open>uv_ip4_addr\<close>, \<open>uv_ip6_addr\<close> and \<open>uv_inet_pton\<close> always return, with 0 or an error, and
  an error leaves the address as it was, zero.
\<close>

theorem uv_ip_addr_total:
  "\<exists>e4 a4 e6 a6.
    uv_ip4_addr junk ip port = Inr (e4, \<lparr>sin_family = AF_INET, sin_port = htons_bytes port, sin_addr = a4\<rparr>) \<and>
    length a4 = 4 \<and> (e4 = 0 \<or> a4 = replicate 4 0) \<and>
    (\<exists>scope. uv_ip6_addr junk scopes ip port =
      Inr (e6, \<lparr>sin6_family = AF_INET6, sin6_port = htons_bytes port, sin6_addr = a6, sin6_scope_id = scope\<rparr>)) \<and>
    length a6 = 16 \<and> (e6 = 0 \<or> a6 = replicate 16 0) \<and>
    (\<exists>e a. uv_inet_pton junk AF_INET6 ip (replicate 16 0) = Inr (e, a) \<and> length a = 16 \<and> (e = 0 \<or> a = replicate 16 0))"
proof -
  obtain e4 a4 where 4: "uv_inet_pton junk AF_INET ip (replicate 4 0) = Inr (e4, a4)" "length a4 = 4" "e4 = 0 \<or> a4 = replicate 4 0"
    using uv_inet_pton_safe [of "replicate 4 0" AF_INET junk ip] by auto
  define s where "s = (case index_of CHR ''%'' ip of None \<Rightarrow> ip
    | Some k \<Rightarrow> takeWhile (\<lambda>c. c \<noteq> CHR 0x00) (take (if k \<ge> 40 then 39 else k) ip))"
  obtain e6 a6 where 6: "uv_inet_pton junk AF_INET6 s (replicate 16 0) = Inr (e6, a6)" "length a6 = 16" "e6 = 0 \<or> a6 = replicate 16 0"
    using uv_inet_pton_safe [of "replicate 16 0" AF_INET6 junk s] by (auto simp: AF_INET_def AF_INET6_def)
  have "\<exists>scope. uv_ip6_addr junk scopes ip port =
      Inr (e6, \<lparr>sin6_family = AF_INET6, sin6_port = htons_bytes port, sin6_addr = a6, sin6_scope_id = scope\<rparr>)"
  proof (cases "index_of CHR ''%'' ip")
    case (Some k)
    have "copy_text junk 40 ip (if k \<ge> 40 then 39 else k) = Inr s"
      using index_of_Some [OF Some] Some by (simp add: copy_text_eq s_def)
    then show ?thesis using 6(1) Some by (simp add: uv_ip6_addr_def)
  qed (use 6(1) in \<open>simp add: uv_ip6_addr_def s_def\<close>)
  moreover have "uv_ip4_addr junk ip port = Inr (e4, \<lparr>sin_family = AF_INET, sin_port = htons_bytes port, sin_addr = a4\<rparr>)"
    using 4(1) by (simp add: uv_ip4_addr_def)
  moreover have "\<exists>e a. uv_inet_pton junk AF_INET6 ip (replicate 16 0) = Inr (e, a) \<and> length a = 16 \<and> (e = 0 \<or> a = replicate 16 0)"
    using uv_inet_pton_safe [of "replicate 16 0" AF_INET6 junk ip] by (auto simp: AF_INET_def AF_INET6_def)
  ultimately show ?thesis using 4(2,3) 6(2,3) by blast
qed

text \<open>
  A zone can change the address: \<open>uv_ip6_addr\<close> copies what precedes the \<open>%\<close> to 40 characters. A text of more than 39
  characters that is accepted without a zone is cut with one, and the cut text is accepted as another address.
\<close>

theorem uv_ip6_zone_cuts_address:
  "uv_ip6_addr junk scopes ''0:0000:0000:0000:0000:ffff:192.168.1.100'' port =
     Inr (0, \<lparr>sin6_family = AF_INET6, sin6_port = htons_bytes port,
       sin6_addr = replicate 10 0 @ [255, 255, 192, 168, 1, 100], sin6_scope_id = 0\<rparr>) \<and>
   uv_ip6_addr junk scopes ''0:0000:0000:0000:0000:ffff:192.168.1.100%eth0'' port =
     Inr (0, \<lparr>sin6_family = AF_INET6, sin6_port = htons_bytes port,
       sin6_addr = replicate 10 0 @ [255, 255, 192, 168, 1, 10], sin6_scope_id = scopes ''eth0''\<rparr>)"
proof -
  have "uv_inet_pton junk AF_INET6 ''0:0000:0000:0000:0000:ffff:192.168.1.100'' (replicate 16 0) =
      Inr (0, replicate 10 0 @ [255, 255, 192, 168, 1, 100])" by code_simp
  moreover have "uv_inet_pton junk AF_INET6 ''0:0000:0000:0000:0000:ffff:192.168.1.10'' (replicate 16 0) =
      Inr (0, replicate 10 0 @ [255, 255, 192, 168, 1, 10])" by code_simp
  ultimately show ?thesis by (simp add: uv_ip6_addr_def copy_text_eq)
qed

end
