(* ===== verification/UvListen.thy ===== *)
theory UvListen
  imports UvStream
begin

text \<open>
  Listening and accepting, the rest of \<open>third/libuv/src/unix/stream.c\<close> and \<open>tcp.c\<close> that a TCP server of the programs uses: one
  listening handle and the handles of its clients, with the descriptors of the process. Handles are streams of
  \<open>UvStream\<close>. A kernel call that is interrupted is repeated by the code; what is given here is its last result. The
  options \<open>UV_TCP_NODELAY\<close> and \<open>UV_TCP_KEEPALIVE\<close> are not set, and the pause of \<open>UV_TCP_SINGLE_ACCEPT\<close> has no effect
  here.
\<close>

section \<open>State\<close>

text \<open>
  \<open>ls_accepted\<close> and \<open>ls_queued\<close> are \<open>accepted_fd\<close> and \<open>queued_fds\<close> of the listening handle, \<open>ls_server_cb\<close> says that
  \<open>uv__server_io\<close> and \<open>connection_cb\<close> are set, \<open>ls_emfile\<close> is \<open>emfile_fd\<close> of the loop. \<open>ls_open\<close> are the open descriptors.
  The last fields count the calls of \<open>accept\<close> and \<open>open\<close> and are a history: the connections that came out of \<open>accept\<close> in
  their order, each with the number of the call, the descriptor and what became of it, and the statuses the
  connection callback was called with.
\<close>

datatype fate = Pending | Given nat | Refused nat | Shut

record uv_server =
  ls_stream :: uv_stream
  ls_ipv6 :: bool
  ls_accepted :: int
  ls_queued :: "int list option"
  ls_server_cb :: bool
  ls_emfile :: int
  ls_clients :: "nat \<Rightarrow> uv_stream"
  ls_open :: "int list"
  ls_accepts :: nat
  ls_opens :: nat
  ls_conns :: "(nat \<times> int \<times> fate) list"
  ls_calls :: "int list"

text \<open>A handle of the program, and the calls on them.\<close>

datatype handle = Server | Client nat

datatype srv_call =
    CallInit handle int
  | CallBind handle int bool int int int
  | CallListen int
  | CallAccept nat
  | CallClose handle

text \<open>
  The kernel: whether a connection waits at the \<open>n\<close>-th \<open>accept\<close> (or the error number), the same for \<open>open\<close> and \<open>socket\<close>, and
  the descriptor it chooses when some are open. Last the program: the calls of its connection callback.
\<close>

record uv_net =
  nt_accept :: "nat \<Rightarrow> int option"
  nt_open :: "nat \<Rightarrow> int option"
  nt_fresh :: "int list \<Rightarrow> int"
  nt_cb :: "int \<Rightarrow> uv_server \<Rightarrow> srv_call list"

definition EINTR :: int where "EINTR = 4"
definition ENFILE :: int where "ENFILE = 23"
definition EMFILE :: int where "EMFILE = 24"
definition EADDRINUSE :: int where "EADDRINUSE = 98"
definition EAFNOSUPPORT :: int where "EAFNOSUPPORT = 97"
definition ECONNABORTED :: int where "ECONNABORTED = 103"
definition UV_EAGAIN :: int where "UV_EAGAIN = -11"
definition POLLIN :: int where "POLLIN = 1"

definition hnd :: "uv_server \<Rightarrow> handle \<Rightarrow> uv_stream" where
  "hnd s h = (case h of Server \<Rightarrow> ls_stream s | Client c \<Rightarrow> ls_clients s c)"

definition set_hnd :: "uv_server \<Rightarrow> handle \<Rightarrow> uv_stream \<Rightarrow> uv_server" where
  "set_hnd s h st = (case h of Server \<Rightarrow> s\<lparr>ls_stream := st\<rparr> | Client c \<Rightarrow> s\<lparr>ls_clients := (ls_clients s)(c := st)\<rparr>)"

definition set_fate :: "uv_server \<Rightarrow> fate \<Rightarrow> uv_server" where
  "set_fate s f = (let (n, fd, _) = last (ls_conns s) in s\<lparr>ls_conns := butlast (ls_conns s) @ [(n, fd, f)]\<rparr>)"

section \<open>Descriptors\<close>

definition uv__open :: "uv_net \<Rightarrow> uv_server \<Rightarrow> int \<times> uv_server" where
  "uv__open net s =
     (let s1 = s\<lparr>ls_opens := Suc (ls_opens s)\<rparr> in
      case nt_open net (ls_opens s) of
        Some e \<Rightarrow> (- e, s1)
      | None \<Rightarrow> (let fd = nt_fresh net (ls_open s) in (fd, s1\<lparr>ls_open := fd # ls_open s\<rparr>)))"

definition uv__accept :: "uv_net \<Rightarrow> uv_server \<Rightarrow> int \<Rightarrow> (int \<times> uv_server) exec" where
  "uv__accept net s sockfd =
     ebind (uv_assert (sockfd \<ge> 0)) (\<lambda>_.
     let s1 = s\<lparr>ls_accepts := Suc (ls_accepts s)\<rparr> in
     case nt_accept net (ls_accepts s) of
       Some e \<Rightarrow> Inr (- e, s1)
     | None \<Rightarrow>
         (let fd = nt_fresh net (ls_open s)
          in Inr (fd, s1\<lparr>ls_open := fd # ls_open s, ls_conns := ls_conns s @ [(ls_accepts s, fd, Pending)]\<rparr>)))"

text \<open>Closing a descriptor that is not open is a fault: it may be another one by then.\<close>

definition uv__close :: "uv_server \<Rightarrow> int \<Rightarrow> uv_server exec" where
  "uv__close s fd =
     ebind (uv_assert (fd > 2)) (\<lambda>_.
     if fd \<in> set (ls_open s) then Inr (s\<lparr>ls_open := remove1 fd (ls_open s)\<rparr>) else Inl UseAfterFree)"

section \<open>Initialising, binding, listening\<close>

text \<open>The spare descriptor that \<open>uv__stream_init\<close> puts aside: \<open>/dev/null\<close>, else the root directory.\<close>

definition open_spare :: "uv_net \<Rightarrow> uv_server \<Rightarrow> uv_server" where
  "open_spare net s =
     (if ls_emfile s = -1 then
        (let (err, s1) = uv__open net s;
             (err2, s2) = (if err < 0 then uv__open net s1 else (err, s1))
         in if err2 \<ge> 0 then s2\<lparr>ls_emfile := err2\<rparr> else s2)
      else s)"

text \<open>The flags that are added are \<open>UV_STREAM_READABLE\<close>, which nothing here looks at, and \<open>UV_STREAM_WRITABLE\<close>.\<close>

definition maybe_new_socket :: "uv_net \<Rightarrow> uv_server \<Rightarrow> handle \<Rightarrow> int \<Rightarrow> bool \<Rightarrow> (int \<times> uv_server) exec" where
  "maybe_new_socket net s h domain writable =
     (let st = hnd s h in
      if domain = 0 \<or> us_fd st \<noteq> -1 then Inr (0, set_hnd s h (st\<lparr>us_writable := us_writable st \<or> writable\<rparr>))
      else
        (let (sockfd, s1) = uv__open net s in
         if sockfd < 0 then Inr (sockfd, s1)
         else
           ebind (uv__stream_open st sockfd) (\<lambda>(err, st1).
           if err \<noteq> 0 then ebind (uv__close s1 sockfd) (\<lambda>s2. Inr (err, s2))
           else Inr (0, set_hnd s1 h (st1\<lparr>us_writable := us_writable st \<or> writable\<rparr>)))))"

definition uv_tcp_init_ex :: "uv_net \<Rightarrow> uv_server \<Rightarrow> handle \<Rightarrow> int \<Rightarrow> (int \<times> uv_server) exec" where
  "uv_tcp_init_ex net s h flags =
     (let domain = flags mod 256 in
      if domain \<noteq> 2 \<and> domain \<noteq> 10 \<and> domain \<noteq> 0 then Inr (UV_EINVAL, s)
      else if flags div 256 \<noteq> 0 then Inr (UV_EINVAL, s)
      else
        (let s1 = set_hnd s h uv_stream_init;
             s2 = (if h = Server then s1\<lparr>ls_accepted := -1, ls_queued := None, ls_server_cb := False, ls_ipv6 := False\<rparr> else s1);
             s3 = open_spare net s2
         in if domain \<noteq> 0 then maybe_new_socket net s3 h domain False else Inr (0, s3)))"

text \<open>\<open>uv__tcp_bind\<close>; \<open>e1\<close>, \<open>e2\<close> and \<open>e3\<close> are the error numbers of the two \<open>setsockopt\<close> and of \<open>bind\<close>, or 0.\<close>

definition uv__tcp_bind :: "uv_net \<Rightarrow> uv_server \<Rightarrow> handle \<Rightarrow> int \<Rightarrow> bool \<Rightarrow> int \<Rightarrow> int \<Rightarrow> int \<Rightarrow> (int \<times> uv_server) exec" where
  "uv__tcp_bind net s h family ipv6only e1 e2 e3 =
     (if ipv6only \<and> family \<noteq> 10 then Inr (UV_EINVAL, s)
      else
        ebind (maybe_new_socket net s h family True) (\<lambda>(err, s1).
        if err \<noteq> 0 then Inr (err, s1)
        else if e1 \<noteq> 0 then Inr (- e1, s1)
        else if family = 10 \<and> e2 \<noteq> 0 then Inr (- e2, s1)
        else if e3 \<noteq> 0 \<and> e3 \<noteq> EADDRINUSE then Inr (if e3 = EAFNOSUPPORT then UV_EINVAL else - e3, s1)
        else
          (let s2 = set_hnd s1 h ((hnd s1 h)\<lparr>us_delayed_error := - e3\<rparr>)
           in Inr (0, if family = 10 \<and> h = Server then s2\<lparr>ls_ipv6 := True\<rparr> else s2))))"

text \<open>\<open>uv_listen\<close> on a TCP handle; \<open>e\<close> is the error number of \<open>listen\<close>, or 0.\<close>

definition uv_tcp_listen :: "uv_net \<Rightarrow> uv_server \<Rightarrow> int \<Rightarrow> (int \<times> uv_server) exec" where
  "uv_tcp_listen net s e =
     (if us_delayed_error (ls_stream s) \<noteq> 0 then Inr (us_delayed_error (ls_stream s), s)
      else
        ebind (maybe_new_socket net s Server 2 False) (\<lambda>(err, s1).
        if err \<noteq> 0 then Inr (err, s1)
        else if e \<noteq> 0 then Inr (- e, s1)
        else ebind (uv__io_start_in (ls_stream s1)) (\<lambda>st. Inr (0, s1\<lparr>ls_server_cb := True, ls_stream := st\<rparr>))))"

definition uv_listen :: "uv_net \<Rightarrow> uv_server \<Rightarrow> int \<Rightarrow> (int \<times> uv_server) exec" where
  "uv_listen net s e =
     ebind (uv_tcp_listen net s e) (\<lambda>(err, s1).
     Inr (err, if err = 0 then s1\<lparr>ls_stream := (ls_stream s1)\<lparr>us_active := True\<rparr>\<rparr> else s1))"

section \<open>Accepting\<close>

definition uv_accept :: "uv_server \<Rightarrow> nat \<Rightarrow> (int \<times> uv_server) exec" where
  "uv_accept s c =
     (if ls_accepted s = -1 then Inr (UV_EAGAIN, s)
      else
        ebind (uv__stream_open (ls_clients s c) (ls_accepted s)) (\<lambda>(err, cl).
        let s1 = set_hnd s (Client c) cl in
        ebind (if err \<noteq> 0 then ebind (uv__close s1 (ls_accepted s1)) (\<lambda>s2. Inr (set_fate s2 (Refused c)))
               else Inr (set_fate s1 (Given c))) (\<lambda>s2.
        case ls_queued s2 of
          Some [] \<Rightarrow> Inl Abort
        | Some (fd # fds) \<Rightarrow> Inr (err, s2\<lparr>ls_accepted := fd, ls_queued := (if fds = [] then None else Some fds)\<rparr>)
        | None \<Rightarrow>
            (let s3 = s2\<lparr>ls_accepted := -1\<rparr> in
             if err = 0 then ebind (uv__io_start_in (ls_stream s3)) (\<lambda>st. Inr (err, s3\<lparr>ls_stream := st\<rparr>))
             else Inr (err, s3)))))"

section \<open>Closing\<close>

fun close_all :: "uv_server \<Rightarrow> int list \<Rightarrow> uv_server exec" where
  "close_all s [] = Inr s"
| "close_all s (fd # fds) = ebind (uv__close s fd) (\<lambda>s1. close_all s1 fds)"

text \<open>\<open>uv_close\<close> of a handle with its descriptors. Clients have no accepted and no queued ones.\<close>

definition close_handle :: "uv_server \<Rightarrow> handle \<Rightarrow> uv_server exec" where
  "close_handle s h =
     (let st = hnd s h in
      ebind (uv_assert (\<not> us_closing st \<and> \<not> us_closed st)) (\<lambda>_.
      let st1 = uv__handle_stop (uv_read_stop (uv__io_close (st\<lparr>us_closing := True\<rparr>))) in
      ebind (if us_fd st1 > 2 then uv__close s (us_fd st1) else Inr s) (\<lambda>s1.
      let s2 = set_hnd s1 h (st1\<lparr>us_fd := -1\<rparr>) in
      ebind (if h = Server \<and> ls_accepted s2 \<noteq> -1
             then ebind (uv__close s2 (ls_accepted s2)) (\<lambda>s3. Inr ((set_fate s3 Shut)\<lparr>ls_accepted := -1\<rparr>)) else Inr s2) (\<lambda>s3.
      ebind (case ls_queued s3 of Some fds \<Rightarrow> if h = Server then ebind (close_all s3 fds) (\<lambda>s4. Inr (s4\<lparr>ls_queued := None\<rparr>)) else Inr s3
             | None \<Rightarrow> Inr s3) (\<lambda>s4.
      ebind (uv_assert (\<not> us_pollin (hnd s4 h) \<and> \<not> us_pollout (hnd s4 h))) (\<lambda>_. Inr s4))))))"

section \<open>The connection callback\<close>

fun do_call :: "uv_net \<Rightarrow> uv_server \<Rightarrow> srv_call \<Rightarrow> uv_server exec" where
  "do_call net s (CallInit h flags) = ebind (uv_tcp_init_ex net s h flags) (\<lambda>(_, s1). Inr s1)"
| "do_call net s (CallBind h family ipv6only e1 e2 e3) = ebind (uv__tcp_bind net s h family ipv6only e1 e2 e3) (\<lambda>(_, s1). Inr s1)"
| "do_call net s (CallListen e) = ebind (uv_listen net s e) (\<lambda>(_, s1). Inr s1)"
| "do_call net s (CallAccept c) = ebind (uv_accept s c) (\<lambda>(_, s1). Inr s1)"
| "do_call net s (CallClose h) = close_handle s h"

fun do_calls :: "uv_net \<Rightarrow> uv_server \<Rightarrow> srv_call list \<Rightarrow> uv_server exec" where
  "do_calls net s [] = Inr s"
| "do_calls net s (a # as) = ebind (do_call net s a) (\<lambda>s1. do_calls net s1 as)"

definition connection_cb :: "uv_net \<Rightarrow> uv_server \<Rightarrow> int \<Rightarrow> uv_server exec" where
  "connection_cb net s status =
     (let s1 = s\<lparr>ls_calls := ls_calls s @ [status]\<rparr> in do_calls net s1 (nt_cb net status s1))"

section \<open>Connections that arrive\<close>

text \<open>The loops may run as long as connections or errors come.\<close>

partial_function (option) trick_loop :: "uv_net \<Rightarrow> uv_server \<Rightarrow> int \<Rightarrow> (int \<times> uv_server) exec option" where
  [code]: "trick_loop net s accept_fd =
     xbind (Some (uv__accept net s accept_fd)) (\<lambda>(err, s1).
     if err \<ge> 0 then xbind (Some (uv__close s1 err)) (\<lambda>s2. trick_loop net (set_fate s2 Shut) accept_fd)
     else if err = - EINTR then trick_loop net s1 accept_fd
     else xret (err, s1))"

definition uv__emfile_trick :: "uv_net \<Rightarrow> uv_server \<Rightarrow> int \<Rightarrow> (int \<times> uv_server) exec option" where
  "uv__emfile_trick net s accept_fd =
     (if ls_emfile s = -1 then xret (- EMFILE, s)
      else
        xbind (Some (uv__close s (ls_emfile s))) (\<lambda>s1.
        xbind (trick_loop net (s1\<lparr>ls_emfile := -1\<rparr>) accept_fd) (\<lambda>(err, s2).
        let (emfile_fd, s3) = uv__open net s2
        in xret (err, if emfile_fd \<ge> 0 then s3\<lparr>ls_emfile := emfile_fd\<rparr> else s3))))"

partial_function (option) server_loop :: "uv_net \<Rightarrow> uv_server \<Rightarrow> uv_server exec option" where
  [code]: "server_loop net s =
     (if us_fd (ls_stream s) = -1 then xret s
      else if ls_accepted s \<noteq> -1 then Some (Inl Abort)
      else
        xbind (Some (uv__accept net s (us_fd (ls_stream s)))) (\<lambda>(err, s1).
        if err < 0 then
          if err = - EAGAIN then xret s1
          else if err = - ECONNABORTED then server_loop net s1
          else
            xbind (if err = - EMFILE \<or> err = - ENFILE then uv__emfile_trick net s1 (us_fd (ls_stream s1)) else xret (err, s1)) (\<lambda>(err2, s2).
            if (err = - EMFILE \<or> err = - ENFILE) \<and> err2 = - EAGAIN then xret s2
            else xbind (Some (connection_cb net s2 err2)) (\<lambda>s3. server_loop net s3))
        else
          xbind (Some (connection_cb net (s1\<lparr>ls_accepted := err\<rparr>) 0)) (\<lambda>s2.
          if ls_accepted s2 \<noteq> -1 then xret (s2\<lparr>ls_stream := uv__io_stop_in (ls_stream s2)\<rparr>)
          else server_loop net s2)))"

definition uv__server_io :: "uv_net \<Rightarrow> uv_server \<Rightarrow> int \<Rightarrow> uv_server exec option" where
  "uv__server_io net s events =
     xbind (Some (uv_assert (events = POLLIN \<and> ls_accepted s = -1 \<and> \<not> us_closing (ls_stream s)))) (\<lambda>_.
     xbind (Some (uv__io_start_in (ls_stream s))) (\<lambda>st. server_loop net (s\<lparr>ls_stream := st\<rparr>)))"

section \<open>Runs\<close>

text \<open>
  A process that has no handles yet; a call of the program, the report of a connection, or the end of the closing of a
  handle, after which it may be initialised again.
\<close>

definition server_start :: uv_server where
  "server_start = \<lparr>ls_stream = uv_stream_init, ls_ipv6 = False, ls_accepted = -1, ls_queued = None, ls_server_cb = False,
     ls_emfile = -1, ls_clients = (\<lambda>_. uv_stream_init), ls_open = [], ls_accepts = 0, ls_opens = 0, ls_conns = [], ls_calls = []\<rparr>"

datatype srv_event = SrvCall srv_call | SrvIo | SrvFinish handle

fun srv_step :: "uv_net \<Rightarrow> uv_server \<Rightarrow> srv_event \<Rightarrow> uv_server exec option" where
  "srv_step net s (SrvCall a) = Some (do_call net s a)"
| "srv_step net s SrvIo = uv__server_io net s POLLIN"
| "srv_step net s (SrvFinish h) = Some (ebind (uv__finish_close (hnd s h)) (\<lambda>st. Inr (set_hnd s h st)))"

fun srv_run :: "uv_net \<Rightarrow> uv_server \<Rightarrow> srv_event list \<Rightarrow> uv_server exec option" where
  "srv_run net s [] = xret s"
| "srv_run net s (e # es) = xbind (srv_step net s e) (\<lambda>s1. srv_run net s1 es)"

end
