(* ===== verification/UvListenInv.thy ===== *)
theory UvListenInv
  imports UvListen
begin

text \<open>
  The invariant of a server: every open descriptor has exactly one owner, the connections that came are accounted for
  in their order, and the listening handle is watched as long as it is needed. Every call keeps it.
\<close>

section \<open>Descriptors and their owners\<close>

definition own_ok :: "('o \<Rightarrow> int) \<Rightarrow> int list \<Rightarrow> bool" where
  "own_ok F xs \<longleftrightarrow> distinct xs \<and> (\<forall>fd\<in>set xs. fd > 2) \<and> inj_on F {o'. F o' \<noteq> -1} \<and> F ` {o'. F o' \<noteq> -1} = set xs"

lemma own_new:
  assumes "own_ok F xs" "F p = -1" "fd > 2" "fd \<notin> set xs"
  shows "own_ok (F(p := fd)) (fd # xs)"
proof -
  have d: "{o'. (F(p := fd)) o' \<noteq> -1} = insert p {o'. F o' \<noteq> -1}" using assms(3) by auto
  have "F(p := fd) ` {o'. F o' \<noteq> -1} = F ` {o'. F o' \<noteq> -1}" using assms(2) by (auto simp: image_def)
  moreover have "inj_on (F(p := fd)) {o'. F o' \<noteq> -1}" using assms(1,2) by (auto simp: own_ok_def inj_on_def)
  ultimately show ?thesis using assms unfolding own_ok_def d by auto
qed

lemma own_drop:
  assumes "own_ok F xs" "F p \<noteq> -1"
  shows "F p \<in> set xs" "F p > 2" "own_ok (F(p := -1)) (remove1 (F p) xs)"
proof -
  show i: "F p \<in> set xs" using assms by (auto simp: own_ok_def)
  then show "F p > 2" using assms by (auto simp: own_ok_def)
  have d: "{o'. (F(p := -1)) o' \<noteq> -1} = {o'. F o' \<noteq> -1} - {p}" by auto
  have "F(p := -1) ` ({o'. F o' \<noteq> -1} - {p}) = F ` ({o'. F o' \<noteq> -1} - {p})" by (auto simp: image_def)
  moreover have "F ` ({o'. F o' \<noteq> -1} - {p}) = set xs - {F p}" using assms by (auto simp: own_ok_def inj_on_def)
  moreover have "inj_on (F(p := -1)) ({o'. F o' \<noteq> -1} - {p})" using assms(1) by (auto simp: own_ok_def inj_on_def)
  ultimately show "own_ok (F(p := -1)) (remove1 (F p) xs)" using assms(1) unfolding own_ok_def d by (auto simp: set_remove1_eq)
qed

lemma own_move:
  assumes "own_ok F xs" "F p \<noteq> -1" "F q = -1"
  shows "own_ok (F(q := F p, p := -1)) xs"
proof -
  have "p \<noteq> q" using assms by auto
  have "own_ok ((F(p := -1))(q := F p)) (F p # remove1 (F p) xs)"
    by (rule own_new) (use own_drop [OF assms(1,2)] assms \<open>p \<noteq> q\<close> in \<open>auto simp: own_ok_def\<close>)
  moreover have "(F(p := -1))(q := F p) = F(q := F p, p := -1)" using \<open>p \<noteq> q\<close> by auto
  ultimately show ?thesis using own_drop [OF assms(1,2)] assms(1) unfolding own_ok_def by auto
qed

lemma own_unique: "own_ok F xs \<Longrightarrow> F p = F q \<Longrightarrow> F p \<noteq> -1 \<Longrightarrow> p = q"
  by (auto simp: own_ok_def inj_on_def)

lemma own_range: "own_ok F xs \<Longrightarrow> F p = -1 \<or> F p > 2"
  by (auto simp: own_ok_def)

text \<open>Who owns a descriptor: a handle, the spare of the loop, a connection that waits to be accepted.\<close>

datatype owner = OfHandle handle | OfSpare | OfPending

definition owner_fd :: "uv_server \<Rightarrow> owner \<Rightarrow> int" where
  "owner_fd s p = (case p of OfHandle h \<Rightarrow> us_fd (hnd s h) | OfSpare \<Rightarrow> ls_emfile s | OfPending \<Rightarrow> ls_accepted s)"

lemma owner_fd_simps [simp]:
  "owner_fd s (OfHandle h) = us_fd (hnd s h)" "owner_fd s OfSpare = ls_emfile s" "owner_fd s OfPending = ls_accepted s"
  by (simp_all add: owner_fd_def)

lemma hnd_simps [simp]: "hnd s Server = ls_stream s" "hnd s (Client c) = ls_clients s c"
  by (simp_all add: hnd_def)

lemma hnd_set [simp]: "hnd (set_hnd s h st) k = (if k = h then st else hnd s k)"
  by (cases h; cases k) (simp_all add: hnd_def set_hnd_def)

lemma set_hnd_fields [simp]:
  "ls_accepted (set_hnd s h st) = ls_accepted s" "ls_queued (set_hnd s h st) = ls_queued s" "ls_emfile (set_hnd s h st) = ls_emfile s"
  "ls_open (set_hnd s h st) = ls_open s" "ls_accepts (set_hnd s h st) = ls_accepts s" "ls_conns (set_hnd s h st) = ls_conns s"
  "ls_server_cb (set_hnd s h st) = ls_server_cb s" "ls_calls (set_hnd s h st) = ls_calls s"
  by (cases h; simp add: set_hnd_def)+

lemma ls_stream_set [simp]: "ls_stream (set_hnd s h st) = (if h = Server then st else ls_stream s)"
  by (cases h) (simp_all add: set_hnd_def)

lemma owner_fd_set [simp]: "owner_fd (set_hnd s h st) = (owner_fd s)(OfHandle h := us_fd st)"
  by (rule ext) (simp add: owner_fd_def split: owner.split)

lemma owner_fd_update [simp]:
  "owner_fd (s\<lparr>ls_accepted := fd\<rparr>) = (owner_fd s)(OfPending := fd)" "owner_fd (s\<lparr>ls_emfile := fd\<rparr>) = (owner_fd s)(OfSpare := fd)"
  "owner_fd (s\<lparr>ls_open := xs\<rparr>) = owner_fd s" "owner_fd (s\<lparr>ls_conns := cs\<rparr>) = owner_fd s" "owner_fd (s\<lparr>ls_calls := sts\<rparr>) = owner_fd s"
  "owner_fd (s\<lparr>ls_accepts := n\<rparr>) = owner_fd s" "owner_fd (s\<lparr>ls_opens := n\<rparr>) = owner_fd s" "owner_fd (s\<lparr>ls_queued := q\<rparr>) = owner_fd s"
  "owner_fd (s\<lparr>ls_server_cb := b\<rparr>) = owner_fd s" "owner_fd (s\<lparr>ls_ipv6 := b\<rparr>) = owner_fd s"
  "owner_fd (s\<lparr>ls_stream := st\<rparr>) = (owner_fd s)(OfHandle Server := us_fd st)"
  by (rule ext; simp add: owner_fd_def hnd_def split: owner.split handle.split)+

lemma hnd_update [simp]:
  "hnd (s\<lparr>ls_accepted := fd\<rparr>) h = hnd s h" "hnd (s\<lparr>ls_emfile := fd\<rparr>) h = hnd s h" "hnd (s\<lparr>ls_open := xs\<rparr>) h = hnd s h"
  "hnd (s\<lparr>ls_conns := cs\<rparr>) h = hnd s h" "hnd (s\<lparr>ls_calls := sts\<rparr>) h = hnd s h" "hnd (s\<lparr>ls_accepts := n\<rparr>) h = hnd s h"
  "hnd (s\<lparr>ls_opens := n\<rparr>) h = hnd s h" "hnd (s\<lparr>ls_queued := q\<rparr>) h = hnd s h" "hnd (s\<lparr>ls_server_cb := b\<rparr>) h = hnd s h"
  "hnd (s\<lparr>ls_ipv6 := b\<rparr>) h = hnd s h" "hnd (s\<lparr>ls_stream := st\<rparr>) h = (if h = Server then st else hnd s h)"
  by (cases h; simp)+

section \<open>The invariant\<close>

definition st_ok :: "uv_stream \<Rightarrow> bool" where
  "st_ok st \<longleftrightarrow> (us_closing st \<longrightarrow> us_fd st = -1) \<and> (us_pollin st \<longrightarrow> us_fd st \<noteq> -1) \<and> \<not> us_pollout st \<and> \<not> us_reading st \<and>
     (us_closed st \<longrightarrow> us_closing st) \<and> us_connect_req st = None \<and> us_shutdown_req st = None \<and> us_queue st = [] \<and> us_completed st = [] \<and>
     us_size st = 0"

definition conns_ok :: "uv_net \<Rightarrow> uv_server \<Rightarrow> bool" where
  "conns_ok net s \<longleftrightarrow> map fst (ls_conns s) = filter (\<lambda>n. nt_accept net n = None) [0..<ls_accepts s] \<and>
     (\<exists>xs n. ls_conns s = xs @ (if ls_accepted s = -1 then [] else [(n, ls_accepted s, Pending)]) \<and> (\<forall>(_, _, f)\<in>set xs. f \<noteq> Pending))"

definition none_refused :: "uv_server \<Rightarrow> bool" where
  "none_refused s \<longleftrightarrow> (\<forall>(_, _, f)\<in>set (ls_conns s). \<forall>c. f \<noteq> Refused c)"

definition watch_ok :: "uv_server \<Rightarrow> bool" where
  "watch_ok s \<longleftrightarrow> ls_queued s = None \<and> (ls_accepted s \<noteq> -1 \<longrightarrow> us_fd (ls_stream s) \<noteq> -1 \<and> ls_server_cb s) \<and>
     (us_pollin (ls_stream s) \<longrightarrow> ls_server_cb s) \<and>
     (ls_server_cb s \<and> \<not> us_closing (ls_stream s) \<and> ls_accepted s = -1 \<and> none_refused s \<longrightarrow> us_pollin (ls_stream s))"

definition lis_ok :: "uv_net \<Rightarrow> uv_server \<Rightarrow> bool" where
  "lis_ok net s \<longleftrightarrow> (\<forall>h. st_ok (hnd s h)) \<and> own_ok (owner_fd s) (ls_open s) \<and> conns_ok net s \<and> watch_ok s"

text \<open>Between two reports: a connection that waits stops the watching.\<close>

definition idle :: "uv_server \<Rightarrow> bool" where
  "idle s \<longleftrightarrow> (ls_accepted s \<noteq> -1 \<longrightarrow> \<not> us_pollin (ls_stream s))"

section \<open>What is asked of the program and of the kernel\<close>

text \<open>
  A handle is not used after \<open>uv_close\<close> unless it is initialised again, which it is not before its closing has ended, while
  it has a descriptor or while it listens.
\<close>

fun call_ok :: "uv_server \<Rightarrow> srv_call \<Rightarrow> bool" where
  "call_ok s (CallInit h flags) = (us_fd (hnd s h) = -1 \<and> (us_closing (hnd s h) \<longrightarrow> us_closed (hnd s h)) \<and>
     (h = Server \<and> ls_server_cb s \<longrightarrow> us_closed (ls_stream s)))"
| "call_ok s (CallBind h family ipv6only e1 e2 e3) = (\<not> us_closing (hnd s h) \<and> 0 \<le> e1 \<and> 0 \<le> e2 \<and> 0 \<le> e3)"
| "call_ok s (CallListen e) = (\<not> us_closing (ls_stream s) \<and> 0 \<le> e)"
| "call_ok s (CallAccept c) = (\<not> us_closing (ls_clients s c))"
| "call_ok s (CallClose h) = (\<not> us_closing (hnd s h) \<and> \<not> us_closed (hnd s h))"

fun calls_ok :: "uv_net \<Rightarrow> uv_server \<Rightarrow> srv_call list \<Rightarrow> bool" where
  "calls_ok net s [] = True"
| "calls_ok net s (a # as) = (call_ok s a \<and> (case do_call net s a of Inl _ \<Rightarrow> True | Inr s1 \<Rightarrow> calls_ok net s1 as))"

definition program_ok :: "uv_net \<Rightarrow> bool" where
  "program_ok net \<longleftrightarrow> (\<forall>status s. lis_ok net s \<longrightarrow> calls_ok net s (nt_cb net status s))"

text \<open>
  The kernel gives a descriptor that is not open and not one of the first three, error numbers are positive, and the
  backlog is empty again and again.
\<close>

definition kernel_ok :: "uv_net \<Rightarrow> bool" where
  "kernel_ok net \<longleftrightarrow> (\<forall>xs. 2 < nt_fresh net xs \<and> nt_fresh net xs \<notin> set xs) \<and>
     (\<forall>n e. nt_accept net n = Some e \<or> nt_open net n = Some e \<longrightarrow> 0 < e)"

definition backlog_ends :: "uv_net \<Rightarrow> bool" where
  "backlog_ends net \<longleftrightarrow> (\<forall>m. \<exists>n\<ge>m. nt_accept net n = Some EAGAIN)"

end
