(* ===== verification/UvListenOps.thy ===== *)
theory UvListenOps
  imports UvListenInv
begin

text \<open>The calls keep the invariant and fail no assertion.\<close>

section \<open>Frames\<close>

lemma lis_ok_frame [simp]:
  "lis_ok net (s\<lparr>ls_opens := n\<rparr>) = lis_ok net s" "lis_ok net (s\<lparr>ls_calls := sts\<rparr>) = lis_ok net s" "lis_ok net (s\<lparr>ls_ipv6 := b\<rparr>) = lis_ok net s"
  by (simp_all add: lis_ok_def conns_ok_def watch_ok_def none_refused_def)

lemma watch_set_client [simp]: "watch_ok (set_hnd s (Client c) st) = watch_ok s"
  by (simp add: watch_ok_def none_refused_def)

lemma watch_open [simp]: "watch_ok (s\<lparr>ls_open := xs\<rparr>) = watch_ok s" "watch_ok (s\<lparr>ls_emfile := fd\<rparr>) = watch_ok s" "watch_ok (s\<lparr>ls_opens := n\<rparr>) = watch_ok s"
  by (simp_all add: watch_ok_def none_refused_def)

lemma conns_open [simp]:
  "conns_ok net (s\<lparr>ls_open := xs\<rparr>) = conns_ok net s" "conns_ok net (s\<lparr>ls_emfile := fd\<rparr>) = conns_ok net s" "conns_ok net (set_hnd s h st) = conns_ok net s"
  "conns_ok net (s\<lparr>ls_opens := n\<rparr>) = conns_ok net s" "conns_ok net (s\<lparr>ls_stream := st\<rparr>) = conns_ok net s"
  by (simp_all add: conns_ok_def)

text \<open>
  What a call keeps, and what every call but \<open>uv_listen\<close> keeps: that a connection that waits stops the watching.
\<close>

definition listens :: "uv_server \<Rightarrow> bool" where
  "listens s \<longleftrightarrow> ls_server_cb s \<and> \<not> us_closed (ls_stream s)"

definition lis_kept :: "uv_net \<Rightarrow> uv_server \<Rightarrow> uv_server \<Rightarrow> bool" where
  "lis_kept net s s1 \<longleftrightarrow> lis_ok net s1 \<and> ls_accepts s1 = ls_accepts s \<and> (listens s \<longrightarrow> listens s1) \<and>
     (ls_accepted s = -1 \<longrightarrow> ls_accepted s1 = -1)"

definition lis_after :: "uv_net \<Rightarrow> uv_server \<Rightarrow> uv_server \<Rightarrow> bool" where
  "lis_after net s s1 \<longleftrightarrow> lis_ok net s1 \<and> ls_accepts s1 = ls_accepts s \<and> (idle s \<longrightarrow> idle s1) \<and>
     (listens s \<longrightarrow> listens s1) \<and> (ls_accepted s = -1 \<longrightarrow> ls_accepted s1 = -1)"

lemma lis_after_kept: "lis_after net s s1 \<Longrightarrow> lis_kept net s s1 \<and> (idle s \<longrightarrow> idle s1)"
  by (simp add: lis_after_def lis_kept_def)

lemma listens_frame [simp]:
  "listens (s\<lparr>ls_opens := n\<rparr>) = listens s" "listens (s\<lparr>ls_calls := sts\<rparr>) = listens s" "listens (s\<lparr>ls_ipv6 := b\<rparr>) = listens s"
  "listens (s\<lparr>ls_open := xs\<rparr>) = listens s" "listens (s\<lparr>ls_emfile := fd\<rparr>) = listens s" "listens (s\<lparr>ls_accepted := fd\<rparr>) = listens s"
  "listens (set_hnd s (Client c) st) = listens s"
  by (simp_all add: listens_def)

lemma lis_after_trans: "lis_after net s s1 \<Longrightarrow> lis_after net s1 s2 \<Longrightarrow> lis_after net s s2"
  by (auto simp: lis_after_def)

lemma lis_after_refl: "lis_ok net s \<Longrightarrow> lis_after net s s"
  by (simp add: lis_after_def)

section \<open>Descriptors\<close>

lemma uv__open_cases:
  assumes "kernel_ok net"
  obtains e where "e < 0" "uv__open net s = (e, s\<lparr>ls_opens := Suc (ls_opens s)\<rparr>)"
  | fd where "2 < fd" "fd \<notin> set (ls_open s)" "uv__open net s = (fd, s\<lparr>ls_opens := Suc (ls_opens s), ls_open := fd # ls_open s\<rparr>)"
proof (cases "nt_open net (ls_opens s)")
  case None
  then show thesis using that(2) [of "nt_fresh net (ls_open s)"] assms by (simp add: uv__open_def kernel_ok_def Let_def)
next
  case (Some e)
  then have "0 < e" using assms unfolding kernel_ok_def by blast
  then show thesis using that(1) [of "- e"] Some by (simp add: uv__open_def Let_def)
qed

lemma uv__close_ok:
  "own_ok (owner_fd s) (ls_open s) \<Longrightarrow> owner_fd s p \<noteq> -1 \<Longrightarrow>
    uv__close s (owner_fd s p) = Inr (s\<lparr>ls_open := remove1 (owner_fd s p) (ls_open s)\<rparr>) \<and>
    own_ok ((owner_fd s)(p := -1)) (remove1 (owner_fd s p) (ls_open s))"
  using own_drop [of "owner_fd s" "ls_open s" p] by (simp add: uv__close_def uv_assert_def)

lemma spare_ok:
  assumes "lis_ok net s" "ls_emfile s = -1" "2 < fd" "fd \<notin> set (ls_open s)"
  shows "lis_ok net (s\<lparr>ls_open := fd # ls_open s, ls_emfile := fd\<rparr>)"
  using assms own_new [of "owner_fd s" "ls_open s" OfSpare fd] by (simp add: lis_ok_def)

lemma open_spare_ok: "kernel_ok net \<Longrightarrow> lis_ok net s \<Longrightarrow> lis_after net s (open_spare net s)"
proof -
  assume k: "kernel_ok net" and s: "lis_ok net s"
  have fine: "lis_after net s (t\<lparr>ls_emfile := fd\<rparr>)"
    if "t = s\<lparr>ls_opens := n, ls_open := fd # ls_open s\<rparr>" "2 < fd" "fd \<notin> set (ls_open s)" "ls_emfile s = -1" for t n fd
  proof -
    have "t\<lparr>ls_emfile := fd\<rparr> = (s\<lparr>ls_open := fd # ls_open s, ls_emfile := fd\<rparr>)\<lparr>ls_opens := n\<rparr>" unfolding that(1) by simp
    then show ?thesis using spare_ok [OF s that(4,2,3)] by (simp add: lis_after_def idle_def)
  qed
  show ?thesis
  proof (cases "ls_emfile s = -1")
    case True
    show ?thesis
    proof (cases rule: uv__open_cases [OF k, of s])
      case (1 e)
      let ?t = "s\<lparr>ls_opens := Suc (ls_opens s)\<rparr>"
      show ?thesis
        by (cases rule: uv__open_cases [OF k, of ?t])
          (use 1 True s fine in \<open>simp_all add: open_spare_def Let_def lis_after_def idle_def\<close>)
    next
      case (2 fd)
      then show ?thesis using fine True by (simp add: open_spare_def Let_def)
    qed
  next
    case False
    then show ?thesis using s by (simp add: open_spare_def lis_after_refl)
  qed
qed

section \<open>Sockets, binding, listening\<close>

lemma st_ok_init [simp]: "st_ok uv_stream_init"
  by (simp add: st_ok_def uv_stream_init_def)

lemma st_ok_update [simp]: "st_ok (st\<lparr>us_writable := b\<rparr>) = st_ok st" "st_ok (st\<lparr>us_delayed_error := e\<rparr>) = st_ok st" "st_ok (st\<lparr>us_active := b\<rparr>) = st_ok st"
  by (simp_all add: st_ok_def)

text \<open>A handle of which neither descriptor nor watching changes.\<close>

definition same_watch :: "uv_stream \<Rightarrow> uv_stream \<Rightarrow> bool" where
  "same_watch st st1 \<longleftrightarrow> us_pollin st1 = us_pollin st \<and> us_closing st1 = us_closing st \<and> us_closed st1 = us_closed st"

lemma set_hnd_ok:
  assumes "lis_ok net s" "st_ok st" "us_fd st = us_fd (hnd s h)" "same_watch (hnd s h) st"
  shows "lis_after net s (set_hnd s h st)"
proof -
  have "(owner_fd s)(OfHandle h := us_fd st) = owner_fd s" using assms(3) by (auto simp: fun_eq_iff)
  moreover have "watch_ok (set_hnd s h st)"
    using assms by (cases h) (auto simp: lis_ok_def watch_ok_def none_refused_def same_watch_def)
  moreover have "idle s \<longrightarrow> idle (set_hnd s h st)" using assms(4) by (cases h) (auto simp: idle_def same_watch_def)
  moreover have "listens s \<longrightarrow> listens (set_hnd s h st)" using assms(4) by (cases h) (auto simp: listens_def same_watch_def)
  ultimately show ?thesis using assms(1,2) by (simp add: lis_after_def lis_ok_def)
qed

lemma maybe_new_socket_ok:
  assumes k: "kernel_ok net" and s: "lis_ok net s" "\<not> us_closing (hnd s h)"
  shows "ends_in (maybe_new_socket net s h domain w) (\<lambda>(err, s1). lis_after net s s1 \<and> err \<le> 0 \<and>
    same_watch (hnd s h) (hnd s1 h) \<and> ls_server_cb s1 = ls_server_cb s \<and> (domain \<noteq> 0 \<and> err = 0 \<longrightarrow> us_fd (hnd s1 h) \<noteq> -1) \<and>
    us_delayed_error (hnd s1 h) = us_delayed_error (hnd s h))"
proof (cases "domain = 0 \<or> us_fd (hnd s h) \<noteq> -1")
  case True
  have "lis_after net s (set_hnd s h ((hnd s h)\<lparr>us_writable := us_writable (hnd s h) \<or> w\<rparr>))"
    using s by (intro set_hnd_ok) (simp_all add: lis_ok_def same_watch_def)
  then show ?thesis using True by (auto simp: maybe_new_socket_def same_watch_def Let_def)
next
  case False
  show ?thesis
  proof (cases rule: uv__open_cases [OF k, of s])
    case (1 e)
    then show ?thesis using False s by (simp add: maybe_new_socket_def Let_def lis_after_def idle_def same_watch_def)
  next
    case (2 fd)
    let ?st = "(hnd s h)\<lparr>us_fd := fd, us_writable := us_writable (hnd s h) \<or> w\<rparr>"
    let ?s1 = "set_hnd (s\<lparr>ls_opens := Suc (ls_opens s), ls_open := fd # ls_open s\<rparr>) h ?st"
    have "own_ok ((owner_fd s)(OfHandle h := fd)) (fd # ls_open s)"
      using own_new [of "owner_fd s" "ls_open s" "OfHandle h" fd] 2 False s by (simp add: lis_ok_def)
    moreover have "st_ok ?st" using s 2 by (auto simp: lis_ok_def st_ok_def)
    moreover have "watch_ok ?s1" using s False by (cases h) (auto simp: lis_ok_def watch_ok_def none_refused_def)
    ultimately have "lis_after net s ?s1" using s False by (cases h) (simp_all add: lis_after_def lis_ok_def idle_def listens_def)
    then show ?thesis using 2 False
      by (simp add: maybe_new_socket_def Let_def uv__stream_open_def uv_assert_def same_watch_def)
  qed
qed

lemma ends_in_snd: "ends_in m (\<lambda>(r, s1). lis_after net s s1 \<and> Q r s1) \<Longrightarrow> ends_in (ebind m (\<lambda>(_, s1). Inr s1)) (lis_after net s)"
  by (rule ends_in_mono [of m "\<lambda>(r, s1). lis_after net s s1 \<and> Q r s1", THEN ends_in_simps(3) [THEN iffD2]]) auto

lemma init_fields_ok:
  assumes "lis_ok net s" "us_fd (hnd s h) = -1" "h = Server \<and> ls_server_cb s \<longrightarrow> us_closed (ls_stream s)"
  defines "s1 \<equiv> set_hnd s h uv_stream_init"
  shows "lis_after net s (if h = Server then s1\<lparr>ls_accepted := -1, ls_queued := None, ls_server_cb := False, ls_ipv6 := False\<rparr> else s1)"
proof (cases h)
  case Server
  have a: "ls_accepted s = -1" "\<not> us_pollin uv_stream_init" "us_fd uv_stream_init = -1"
    using assms(1,2) Server by (auto simp: lis_ok_def watch_ok_def uv_stream_init_def)
  then have "(owner_fd s)(OfHandle Server := -1, OfPending := -1) = owner_fd s" using assms(2) Server by (auto simp: fun_eq_iff)
  then show ?thesis using assms a Server
    by (simp add: lis_after_def lis_ok_def watch_ok_def idle_def conns_ok_def listens_def)
next
  case (Client c)
  then have "(owner_fd s)(OfHandle (Client c) := -1) = owner_fd s" using assms(2) by (auto simp: fun_eq_iff)
  moreover have "us_fd uv_stream_init = -1" by (simp add: uv_stream_init_def)
  ultimately show ?thesis using assms Client by (simp add: lis_after_def lis_ok_def idle_def)
qed

lemma open_spare_hnd [simp]: "hnd (open_spare net s) h = hnd s h"
proof -
  have o: "hnd (snd (uv__open net t)) h = hnd t h" for t by (simp add: uv__open_def Let_def split: option.split)
  show ?thesis by (auto simp: open_spare_def Let_def case_prod_beta o)
qed

lemma uv_tcp_init_ex_ok:
  assumes k: "kernel_ok net" and s: "lis_ok net s" "us_fd (hnd s h) = -1" "h = Server \<and> ls_server_cb s \<longrightarrow> us_closed (ls_stream s)"
  shows "ends_in (uv_tcp_init_ex net s h flags) (\<lambda>(err, s1). lis_after net s s1)"
proof -
  let ?s1 = "set_hnd s h uv_stream_init"
  define s2 where "s2 = (if h = Server then ?s1\<lparr>ls_accepted := -1, ls_queued := None, ls_server_cb := False, ls_ipv6 := False\<rparr> else ?s1)"
  have 2: "lis_after net s s2" unfolding s2_def by (rule init_fields_ok [OF s])
  then have 3: "lis_after net s (open_spare net s2)" using open_spare_ok [OF k, of s2] lis_after_trans by (auto simp: lis_after_def)
  have "\<not> us_closing (hnd (open_spare net s2) h)" by (simp add: s2_def uv_stream_init_def)
  then have "ends_in (maybe_new_socket net (open_spare net s2) h d w) (\<lambda>(err, s1). lis_after net s s1)" for d w
    using maybe_new_socket_ok [OF k, of "open_spare net s2" h d w] 3 by (auto elim!: ends_in_mono simp: lis_after_def)
  then show ?thesis using s 3 by (simp add: uv_tcp_init_ex_def Let_def s2_def [symmetric] lis_after_refl)
qed

lemma uv__tcp_bind_ok:
  assumes k: "kernel_ok net" and s: "lis_ok net s" "\<not> us_closing (hnd s h)"
  shows "ends_in (uv__tcp_bind net s h family v6 e1 e2 e3) (\<lambda>(err, s1). lis_after net s s1)"
proof -
  have fine: "lis_after net s (set_hnd s1 h ((hnd s1 h)\<lparr>us_delayed_error := e\<rparr>))" if "lis_after net s s1" for s1 e
    using that lis_after_trans [OF that] set_hnd_ok [of net s1 "(hnd s1 h)\<lparr>us_delayed_error := e\<rparr>" h]
    by (simp add: lis_after_def lis_ok_def same_watch_def)
  have v6: "lis_after net s (s1\<lparr>ls_ipv6 := b\<rparr>) = lis_after net s s1" for s1 b by (simp add: lis_after_def idle_def)
  have rest: "ends_in (if err \<noteq> 0 then Inr (err, s1) else if e1 \<noteq> 0 then Inr (- e1, s1)
      else if family = 10 \<and> e2 \<noteq> 0 then Inr (- e2, s1)
      else if e3 \<noteq> 0 \<and> e3 \<noteq> EADDRINUSE then Inr (if e3 = EAFNOSUPPORT then UV_EINVAL else - e3, s1)
      else (let s2 = set_hnd s1 h ((hnd s1 h)\<lparr>us_delayed_error := - e3\<rparr>)
            in Inr (0, if family = 10 \<and> h = Server then s2\<lparr>ls_ipv6 := True\<rparr> else s2))) (\<lambda>(err, s1). lis_after net s s1)"
    if "lis_after net s s1" for err s1
    using that fine [OF that, of "- e3"] v6 by (cases h) (auto simp: Let_def)
  show ?thesis
  proof (cases "v6 \<and> family \<noteq> 10")
    case False
    have "ends_in (maybe_new_socket net s h family True) (\<lambda>(err, s1). lis_after net s s1)"
      using maybe_new_socket_ok [OF k s, of family True] by (auto elim!: ends_in_mono)
    then have "ends_in (maybe_new_socket net s h family True) (\<lambda>r. ends_in (case r of (err, s1) \<Rightarrow>
      if err \<noteq> 0 then Inr (err, s1) else if e1 \<noteq> 0 then Inr (- e1, s1)
      else if family = 10 \<and> e2 \<noteq> 0 then Inr (- e2, s1)
      else if e3 \<noteq> 0 \<and> e3 \<noteq> EADDRINUSE then Inr (if e3 = EAFNOSUPPORT then UV_EINVAL else - e3, s1)
      else (let s2 = set_hnd s1 h ((hnd s1 h)\<lparr>us_delayed_error := - e3\<rparr>)
            in Inr (0, if family = 10 \<and> h = Server then s2\<lparr>ls_ipv6 := True\<rparr> else s2))) (\<lambda>(err, s1). lis_after net s s1))"
      by (rule ends_in_mono) (use rest in \<open>simp only: split_beta\<close>)
    then show ?thesis using False by (simp only: uv__tcp_bind_def if_False ends_in_simps simp_thms)
  qed (use s in \<open>simp add: uv__tcp_bind_def lis_after_refl\<close>)
qed

lemma uv_listen_ok:
  assumes k: "kernel_ok net" and s: "lis_ok net s" "\<not> us_closing (ls_stream s)"
  shows "ends_in (uv_listen net s e) (\<lambda>(err, s1). lis_kept net s s1 \<and> (ls_accepted s = -1 \<longrightarrow> idle s1))"
proof -
  have fine: "lis_kept net s (s1\<lparr>ls_server_cb := True, ls_stream := (ls_stream s1)\<lparr>us_pollin := True, us_active := True\<rparr>\<rparr>) \<and>
      (ls_accepted s = -1 \<longrightarrow> idle (s1\<lparr>ls_server_cb := True, ls_stream := (ls_stream s1)\<lparr>us_pollin := True, us_active := True\<rparr>\<rparr>))"
    if "lis_after net s s1" "us_fd (ls_stream s1) \<noteq> -1" "\<not> us_closing (ls_stream s1)" for s1
  proof -
    have "(owner_fd s1)(OfHandle Server := us_fd (ls_stream s1)) = owner_fd s1" by (auto simp: fun_eq_iff)
    moreover have "st_ok (ls_stream s1)" using that(1) hnd_simps(1) unfolding lis_after_def lis_ok_def by metis
    ultimately show ?thesis using that
      by (auto simp: lis_after_def lis_kept_def listens_def idle_def lis_ok_def watch_ok_def conns_ok_def none_refused_def st_ok_def)
  qed
  have kept: "lis_after net s s1 \<Longrightarrow> lis_kept net s s1 \<and> (ls_accepted s = -1 \<longrightarrow> idle s1)" for s1
    by (simp add: lis_after_def lis_kept_def idle_def)
  have "us_fd (ls_stream s1) \<noteq> -1 \<Longrightarrow> lis_after net s s1 \<Longrightarrow> us_fd (ls_stream s1) \<ge> 0" for s1
    using own_range [of "owner_fd s1" "ls_open s1" "OfHandle Server"] by (auto simp: lis_ok_def lis_after_def)
  then show ?thesis using maybe_new_socket_ok [OF k s(1), of Server 2 False] s fine kept kept [OF lis_after_refl]
    unfolding uv_listen_def uv_tcp_listen_def
    by (auto elim!: ends_in_mono simp: Let_def uv__io_start_in_def uv_assert_def same_watch_def)
qed

section \<open>Accepting\<close>

lemma set_fate_fields [simp]:
  "ls_stream (set_fate s f) = ls_stream s" "ls_accepted (set_fate s f) = ls_accepted s" "ls_queued (set_fate s f) = ls_queued s"
  "ls_open (set_fate s f) = ls_open s" "ls_accepts (set_fate s f) = ls_accepts s" "ls_server_cb (set_fate s f) = ls_server_cb s"
  "ls_emfile (set_fate s f) = ls_emfile s" "hnd (set_fate s f) h = hnd s h" "owner_fd (set_fate s f) = owner_fd s"
  by (simp_all add: set_fate_def Let_def split_beta)

lemma set_fate_conns: "ls_conns s = xs @ [(n, fd, f)] \<Longrightarrow> ls_conns (set_fate s g) = xs @ [(n, fd, g)]"
  by (simp add: set_fate_def)

text \<open>The connection that waits, given away or closed.\<close>

lemma resolve:
  assumes "conns_ok net s" "ls_accepted s \<noteq> -1" "ls_conns s1 = ls_conns s" "ls_accepts s1 = ls_accepts s" "f \<noteq> Pending"
  shows "conns_ok net ((set_fate s1 f)\<lparr>ls_accepted := -1\<rparr>)"
    "none_refused s1 \<longleftrightarrow> none_refused (set_fate s1 Shut)" "none_refused (set_fate s1 (Given c)) \<longleftrightarrow> none_refused s1"
    "\<not> none_refused (set_fate s1 (Refused c))"
proof -
  obtain xs n where c: "ls_conns s = xs @ [(n, ls_accepted s, Pending)]" "\<forall>(_, _, f)\<in>set xs. f \<noteq> Pending"
    using assms(1,2) unfolding conns_ok_def by auto
  have g: "ls_conns (set_fate s1 g) = xs @ [(n, ls_accepted s, g)]" for g by (rule set_fate_conns) (simp add: assms(3) c(1))
  show "conns_ok net ((set_fate s1 f)\<lparr>ls_accepted := -1\<rparr>)" using assms c g by (auto simp: conns_ok_def)
  show "none_refused s1 \<longleftrightarrow> none_refused (set_fate s1 Shut)" "none_refused (set_fate s1 (Given c)) \<longleftrightarrow> none_refused s1"
    "\<not> none_refused (set_fate s1 (Refused c))"
    using g assms(3) c(1) by (auto simp: none_refused_def)
qed

lemma uv_accept_ok:
  assumes s: "lis_ok net s" "\<not> us_closing (ls_clients s c)"
  shows "ends_in (uv_accept s c) (\<lambda>(err, s1). lis_after net s s1)"
proof (cases "ls_accepted s = -1")
  case True
  then show ?thesis using s by (simp add: uv_accept_def lis_after_refl)
next
  case False
  let ?fd = "ls_accepted s" and ?cl = "ls_clients s c"
  have own: "own_ok (owner_fd s) (ls_open s)" and conns: "conns_ok net s" and watch: "watch_ok s" using s by (simp_all add: lis_ok_def)
  have fd: "?fd > 2" using own_range [OF own, of OfPending] False by simp
  have st: "st_ok ?cl" "st_ok (ls_stream s)" using s(1) hnd_simps unfolding lis_ok_def by metis+
  have server: "us_fd (ls_stream s) > 2" using own_range [OF own, of "OfHandle Server"] watch False by (simp add: watch_ok_def)
  show ?thesis
  proof (cases "us_fd ?cl = -1")
    case free: True
    let ?cl1 = "?cl\<lparr>us_writable := True, us_fd := ?fd\<rparr>"
    let ?s1 = "((set_fate (set_hnd s (Client c) ?cl1) (Given c))\<lparr>ls_accepted := -1\<rparr>)\<lparr>ls_stream := (ls_stream s)\<lparr>us_pollin := True\<rparr>\<rparr>"
    have acc: "uv_accept s c = Inr (0, ?s1)"
      using False free fd server watch by (simp add: uv_accept_def uv__stream_open_def uv_assert_def Let_def watch_ok_def uv__io_start_in_def)
    have "owner_fd ?s1 = (owner_fd s)(OfHandle (Client c) := owner_fd s OfPending, OfPending := -1)" by (auto simp: fun_eq_iff)
    then have own1: "own_ok (owner_fd ?s1) (ls_open ?s1)"
      using own_move [OF own, of OfPending "OfHandle (Client c)"] False free by simp
    have conns1: "conns_ok net ?s1" using resolve(1) [OF conns False, of "set_hnd s (Client c) ?cl1" "Given c"] by simp
    have "hnd ?s1 h = (if h = Server then (ls_stream s)\<lparr>us_pollin := True\<rparr> else if h = Client c then ?cl1 else hnd s h)" for h
      by (simp only: hnd_update hnd_set set_fate_fields)
    moreover have "\<not> us_closing (ls_stream s)" using st(2) server by (auto simp: st_ok_def)
    then have "st_ok ((ls_stream s)\<lparr>us_pollin := True\<rparr>)" "st_ok ?cl1" using s(2) st server False by (auto simp: st_ok_def)
    ultimately have "\<forall>h. st_ok (hnd ?s1 h)" using s(1) by (simp add: lis_ok_def)
    moreover have "watch_ok ?s1" using watch False by (simp add: watch_ok_def)
    ultimately have "lis_ok net ?s1" using own1 conns1 by (simp only: lis_ok_def) simp
    then show ?thesis using acc by (simp add: lis_after_def idle_def listens_def)
  next
    case busy: False
    have "us_fd ?cl \<noteq> ?fd" using own_unique [OF own, of "OfHandle (Client c)" OfPending] busy by auto
    let ?s2 = "s\<lparr>ls_open := remove1 ?fd (ls_open s)\<rparr>"
    let ?s3 = "(set_fate ?s2 (Refused c))\<lparr>ls_accepted := -1\<rparr>"
    have same: "set_hnd s (Client c) ?cl = s" by (simp add: set_hnd_def)
    have "uv_accept s c = Inr (UV_EBUSY, ?s3)"
      using False busy \<open>us_fd ?cl \<noteq> ?fd\<close> watch uv__close_ok [OF own, of OfPending] same
      by (simp add: uv_accept_def uv__stream_open_def Let_def watch_ok_def UV_EBUSY_def)
    moreover have "own_ok (owner_fd ?s3) (ls_open ?s3)" using uv__close_ok [OF own, of OfPending] False by simp
    moreover have "conns_ok net ?s3" by (rule resolve(1) [OF conns False]) simp_all
    moreover have "\<not> none_refused ?s3"
      using resolve(4) [OF conns False, of ?s2 Shut c] by (simp add: none_refused_def)
    ultimately show ?thesis using s watch by (simp add: lis_after_def lis_ok_def idle_def watch_ok_def listens_def)
  qed
qed

section \<open>Closing\<close>

lemma uv_close_stream:
  assumes "st_ok st"
  shows "uv__handle_stop (uv_read_stop (uv__io_close (st\<lparr>us_closing := True\<rparr>))) =
    st\<lparr>us_closing := True, us_pollin := False, us_pollout := False, us_fed := False, us_active := False\<rparr>" (is "?l = ?r")
  using assms by (intro uv_stream.equality) (auto simp add: st_ok_def uv__handle_stop_def uv_read_stop_def uv__io_close_def uv__io_stop_in_def uv__io_stop_out_def)

lemma close_handle_ok:
  assumes s: "lis_ok net s" "\<not> us_closing (hnd s h)" "\<not> us_closed (hnd s h)"
  shows "ends_in (close_handle s h) (lis_after net s)"
proof -
  let ?st = "(hnd s h)\<lparr>us_closing := True, us_pollin := False, us_pollout := False, us_fed := False, us_active := False\<rparr>"
  have own: "own_ok (owner_fd s) (ls_open s)" and conns: "conns_ok net s" and watch: "watch_ok s" and st: "\<And>k. st_ok (hnd s k)"
    using s by (simp_all add: lis_ok_def)
  define xs where "xs = (if us_fd (hnd s h) = -1 then ls_open s else remove1 (us_fd (hnd s h)) (ls_open s))"
  define s2 where "s2 = set_hnd (s\<lparr>ls_open := xs\<rparr>) h (?st\<lparr>us_fd := -1\<rparr>)"
  have c1: "(if us_fd ?st > 2 then uv__close s (us_fd ?st) else Inr s) = Inr (s\<lparr>ls_open := xs\<rparr>)"
    using own_range [OF own, of "OfHandle h"] uv__close_ok [OF own, of "OfHandle h"] by (auto simp: xs_def)
  have own2: "own_ok (owner_fd s2) (ls_open s2)"
  proof (cases "us_fd (hnd s h) = -1")
    case True
    then have "(owner_fd s)(OfHandle h := -1) = owner_fd s" by (auto simp: fun_eq_iff)
    then show ?thesis using own True by (simp add: s2_def xs_def)
  next
    case False
    then show ?thesis using uv__close_ok [OF own, of "OfHandle h"] by (simp add: s2_def xs_def)
  qed
  have "us_closed (hnd s h) = False" using s(3) by simp
  then have st2: "st_ok (hnd s2 k)" for k using st by (simp add: s2_def st_ok_def)
  have conns2: "conns_ok net s2" using conns by (simp add: s2_def)
  have rest: "ls_accepted s2 = ls_accepted s" "ls_queued s2 = None" "ls_accepts s2 = ls_accepts s" "ls_conns s2 = ls_conns s"
    using watch by (simp_all add: s2_def watch_ok_def)
  define s3 where "s3 = (if h = Server \<and> ls_accepted s \<noteq> -1
    then (set_fate (s2\<lparr>ls_open := remove1 (ls_accepted s) (ls_open s2)\<rparr>) Shut)\<lparr>ls_accepted := -1\<rparr> else s2)"
  have c2: "(if h = Server \<and> ls_accepted s2 \<noteq> -1
      then ebind (uv__close s2 (ls_accepted s2)) (\<lambda>s3. Inr ((set_fate s3 Shut)\<lparr>ls_accepted := -1\<rparr>)) else Inr s2) = Inr s3"
    using uv__close_ok [OF own2, of OfPending] rest by (simp add: s3_def)
  have own3: "own_ok (owner_fd s3) (ls_open s3)" using uv__close_ok [OF own2, of OfPending] own2 rest by (simp add: s3_def)
  have conns3: "conns_ok net s3"
    using conns2 resolve(1) [OF conns2, of "s2\<lparr>ls_open := remove1 (ls_accepted s) (ls_open s2)\<rparr>" Shut] rest by (simp add: s3_def)
  have h3: "hnd s3 k = hnd s2 k" "ls_queued s3 = None" "ls_accepts s3 = ls_accepts s" "ls_server_cb s3 = ls_server_cb s" for k
    using rest by (simp_all add: s3_def s2_def)
  have "watch_ok s3"
  proof (cases h)
    case Server
    then have "ls_stream s3 = ?st\<lparr>us_fd := -1\<rparr>" "ls_accepted s3 = -1" using h3(1) [of Server] rest by (auto simp: s2_def s3_def)
    then show ?thesis using h3 by (simp add: watch_ok_def)
  next
    case (Client c)
    then show ?thesis using watch by (simp add: s3_def s2_def)
  qed
  then have "lis_ok net s3" using own3 conns3 st2 h3(1) by (simp add: lis_ok_def)
  moreover have "idle s \<longrightarrow> idle s3" using rest by (cases h) (auto simp: idle_def s3_def s2_def)
  moreover have "ls_accepted s = -1 \<longrightarrow> ls_accepted s3 = -1" using rest by (simp add: s3_def)
  moreover have "us_closed (ls_stream s3) = us_closed (ls_stream s)" using h3(1) [of Server] by (simp add: s2_def)
  ultimately have a: "lis_after net s s3" using h3 by (simp add: lis_after_def listens_def)
  have "close_handle s h = Inr s3"
    unfolding close_handle_def Let_def uv_close_stream [OF st] c1 ebind_Inr s2_def [symmetric] c2
    using s h3 by (simp add: uv_assert_def s2_def)
  then show ?thesis using a by simp
qed

section \<open>Calls\<close>

fun is_listen :: "srv_call \<Rightarrow> bool" where
  "is_listen (CallListen e) = True"
| "is_listen a = False"

lemma is_listen_iff: "is_listen a \<longleftrightarrow> (\<exists>e. a = CallListen e)"
  by (cases a) simp_all

lemma do_call_ok:
  assumes "kernel_ok net" "lis_ok net s" "call_ok s a"
  shows "ends_in (do_call net s a) (\<lambda>s1. lis_kept net s s1 \<and> (idle s \<and> (is_listen a \<longrightarrow> ls_accepted s = -1) \<longrightarrow> idle s1))"
proof (cases a)
  case (CallInit h flags)
  have "ends_in (uv_tcp_init_ex net s h flags) (\<lambda>(err, s1). lis_after net s s1)"
    by (rule uv_tcp_init_ex_ok) (use assms CallInit in auto)
  then show ?thesis using CallInit by (auto elim!: ends_in_mono dest: lis_after_kept)
next
  case (CallBind h family v6 e1 e2 e3)
  have "ends_in (uv__tcp_bind net s h family v6 e1 e2 e3) (\<lambda>(err, s1). lis_after net s s1)"
    by (rule uv__tcp_bind_ok) (use assms CallBind in auto)
  then show ?thesis using CallBind by (auto elim!: ends_in_mono dest: lis_after_kept)
next
  case (CallListen e)
  have "ends_in (uv_listen net s e) (\<lambda>(err, s1). lis_kept net s s1 \<and> (ls_accepted s = -1 \<longrightarrow> idle s1))"
    by (rule uv_listen_ok) (use assms CallListen in auto)
  then show ?thesis using CallListen by (auto elim!: ends_in_mono)
next
  case (CallAccept c)
  have "ends_in (uv_accept s c) (\<lambda>(err, s1). lis_after net s s1)"
    by (rule uv_accept_ok) (use assms CallAccept in auto)
  then show ?thesis using CallAccept by (auto elim!: ends_in_mono dest: lis_after_kept)
next
  case (CallClose h)
  have "ends_in (close_handle s h) (lis_after net s)"
    by (rule close_handle_ok) (use assms CallClose in auto)
  then show ?thesis using CallClose by (auto elim!: ends_in_mono dest: lis_after_kept)
qed

lemma lis_kept_trans: "lis_kept net s s1 \<Longrightarrow> lis_kept net s1 s2 \<Longrightarrow> lis_kept net s s2"
  by (simp add: lis_kept_def)

lemma do_calls_ok: "kernel_ok net \<Longrightarrow> lis_ok net s \<Longrightarrow> calls_ok net s as \<Longrightarrow> ends_in (do_calls net s as) (lis_kept net s)"
proof (induction as arbitrary: s)
  case (Cons a as)
  then obtain s1 where s1: "do_call net s a = Inr s1" "lis_kept net s s1" using do_call_ok [of net s a] by (auto simp: ends_in_iff)
  then have "ends_in (do_calls net s1 as) (lis_kept net s1)"
    by (intro Cons.IH) (use Cons.prems s1 in \<open>simp_all add: lis_kept_def\<close>)
  then show ?case using s1 lis_kept_trans by (auto elim!: ends_in_mono)
qed (simp add: lis_kept_def)

lemma finish_handle_ok:
  assumes "lis_ok net s" "us_closing (hnd s h)" "\<not> us_closed (hnd s h)"
  shows "\<exists>s1. ebind (uv__finish_close (hnd s h)) (\<lambda>st. Inr (set_hnd s h st)) = Inr s1 \<and> lis_ok net s1 \<and> (idle s \<longrightarrow> idle s1) \<and>
    ls_accepts s1 = ls_accepts s \<and> s1 = set_hnd s h ((hnd s h)\<lparr>us_closed := True\<rparr>)"
proof -
  let ?st = "(hnd s h)\<lparr>us_closed := True\<rparr>"
  have st: "st_ok (hnd s h)" using assms(1) by (simp add: lis_ok_def)
  then have np: "\<not> us_pollin (hnd s h)" using assms(2) by (auto simp: st_ok_def)
  have "(hnd s h)\<lparr>us_closed := True, us_queue := [], us_completed := []\<rparr> = ?st"
    using st by (intro uv_stream.equality) (simp_all add: st_ok_def)
  then have eq: "uv__finish_close (hnd s h) = Inr ?st"
    using st np assms(2,3) by (simp add: uv__finish_close_def uv__stream_destroy_def uv__stream_flush_write_queue_def
      uv__write_callbacks_def uv_assert_def st_ok_def)
  have "st_ok ?st" using st np assms(2) by (simp add: st_ok_def)
  moreover have "(owner_fd s)(OfHandle h := us_fd (hnd s h)) = owner_fd s" by (auto simp: fun_eq_iff)
  moreover have "watch_ok (set_hnd s h ?st)"
    using assms(1) by (cases h) (auto simp: lis_ok_def watch_ok_def none_refused_def)
  ultimately have "lis_ok net (set_hnd s h ?st)" using assms(1) by (simp add: lis_ok_def)
  moreover have "idle s \<longrightarrow> idle (set_hnd s h ?st)" by (cases h) (auto simp: idle_def)
  ultimately show ?thesis using eq by simp
qed

lemma connection_cb_ok:
  assumes "kernel_ok net" "program_ok net" "lis_ok net s"
  shows "ends_in (connection_cb net s status) (lis_kept net s)"
proof -
  let ?s = "s\<lparr>ls_calls := ls_calls s @ [status]\<rparr>"
  have "ends_in (do_calls net ?s (nt_cb net status ?s)) (lis_kept net ?s)"
    by (rule do_calls_ok) (use assms in \<open>simp_all add: program_ok_def\<close>)
  moreover have "lis_kept net ?s = lis_kept net s" by (rule ext) (simp add: lis_kept_def)
  ultimately show ?thesis by (simp add: connection_cb_def Let_def)
qed

end
