(* ===== verification/UvListenIo.thy ===== *)
theory UvListenIo
  imports UvListenOps
begin

text \<open>A report of connections: the loop ends, keeps the invariant and fails no assertion; so do whole runs.\<close>

section \<open>Reports of connections\<close>

text \<open>\<open>accept\<close>: an error, or a connection with a descriptor that nobody owns yet.\<close>

lemma uv__accept_cases:
  assumes "kernel_ok net" "lis_ok net s" "ls_accepted s = -1" "fd0 \<ge> 0"
  obtains e where "e > 0" "nt_accept net (ls_accepts s) = Some e" "uv__accept net s fd0 = Inr (- e, s\<lparr>ls_accepts := Suc (ls_accepts s)\<rparr>)"
      "lis_ok net (s\<lparr>ls_accepts := Suc (ls_accepts s)\<rparr>)"
  | fd s1 where "2 < fd" "fd \<notin> set (ls_open s)" "nt_accept net (ls_accepts s) = None" "uv__accept net s fd0 = Inr (fd, s1)"
      "s1 = s\<lparr>ls_accepts := Suc (ls_accepts s), ls_open := fd # ls_open s, ls_conns := ls_conns s @ [(ls_accepts s, fd, Pending)]\<rparr>"
      "conns_ok net (s1\<lparr>ls_accepted := fd\<rparr>)" "none_refused s1 = none_refused s"
proof (cases "nt_accept net (ls_accepts s)")
  case None
  let ?fd = "nt_fresh net (ls_open s)"
  let ?s1 = "s\<lparr>ls_accepts := Suc (ls_accepts s), ls_open := ?fd # ls_open s, ls_conns := ls_conns s @ [(ls_accepts s, ?fd, Pending)]\<rparr>"
  have fd: "2 < ?fd" "?fd \<notin> set (ls_open s)" using assms(1) by (simp_all add: kernel_ok_def)
  have "uv__accept net s fd0 = Inr (?fd, ?s1)" using assms(4) None by (simp add: uv__accept_def uv_assert_def Let_def)
  moreover have "conns_ok net (?s1\<lparr>ls_accepted := ?fd\<rparr>)"
    using assms(2,3) None fd(1) unfolding lis_ok_def conns_ok_def by auto
  moreover have "none_refused ?s1 = none_refused s" by (simp add: none_refused_def)
  ultimately show thesis using that(2) [of ?fd ?s1] fd None by simp
next
  case (Some e)
  then have "0 < e" using assms(1) unfolding kernel_ok_def by blast
  then show thesis using assms Some
    by (intro that(1) [of e]) (auto simp: uv__accept_def uv_assert_def Let_def conns_ok_def none_refused_def lis_ok_def watch_ok_def)
qed

lemma pending_ok:
  assumes "lis_ok net s" "ls_accepted s = -1" "2 < fd" "fd \<notin> set (ls_open s)" "us_fd (ls_stream s) \<noteq> -1" "ls_server_cb s"
    and s1: "s1 = s\<lparr>ls_accepts := Suc (ls_accepts s), ls_open := fd # ls_open s, ls_conns := ls_conns s @ [(ls_accepts s, fd, Pending)]\<rparr>"
    and c: "conns_ok net (s1\<lparr>ls_accepted := fd\<rparr>)"
  shows "lis_ok net (s1\<lparr>ls_accepted := fd\<rparr>)"
proof -
  have "own_ok ((owner_fd s)(OfPending := fd)) (fd # ls_open s)" using own_new [of "owner_fd s" "ls_open s" OfPending fd] assms(1-4) by (simp add: lis_ok_def)
  moreover have "watch_ok (s1\<lparr>ls_accepted := fd\<rparr>)" using assms unfolding s1 by (simp add: lis_ok_def watch_ok_def)
  ultimately show ?thesis using assms(1) c unfolding lis_ok_def by (simp add: s1)
qed

lemma shut_ok:
  assumes "lis_ok net s" "ls_accepted s = -1" "2 < fd"
    and s1: "s1 = s\<lparr>ls_accepts := Suc (ls_accepts s), ls_open := fd # ls_open s, ls_conns := ls_conns s @ [(ls_accepts s, fd, Pending)]\<rparr>"
    and c: "conns_ok net (s1\<lparr>ls_accepted := fd\<rparr>)" and r: "none_refused s1 = none_refused s"
  shows "lis_ok net (set_fate (s1\<lparr>ls_open := ls_open s\<rparr>) Shut)" (is "lis_ok net ?s3")
proof -
  have "conns_ok net (?s3\<lparr>ls_accepted := -1\<rparr>)" by (rule resolve(1) [OF c]) (use assms(3) in simp_all)
  moreover have "?s3\<lparr>ls_accepted := -1\<rparr> = ?s3" using assms(2) by (intro uv_server.equality) (simp_all add: s1)
  moreover have "none_refused ?s3 = none_refused s"
    using resolve(2) [OF c, of "s1\<lparr>ls_open := ls_open s\<rparr>" Shut] assms(3) r by (simp add: none_refused_def)
  then have "watch_ok ?s3" using assms(1,2) by (simp add: lis_ok_def watch_ok_def s1)
  moreover have "own_ok (owner_fd ?s3) (ls_open ?s3)" using assms(1) by (simp add: lis_ok_def s1)
  moreover have "st_ok (hnd ?s3 h)" for h using assms(1) by (simp add: lis_ok_def s1)
  ultimately show ?thesis by (simp add: lis_ok_def)
qed

text \<open>The connections that are closed at once while there are too few descriptors.\<close>

lemma trick_loop_ok:
  assumes k: "kernel_ok net" and n: "nt_accept net n = Some EAGAIN"
  shows "lis_ok net s \<Longrightarrow> ls_accepted s = -1 \<Longrightarrow> fd0 \<ge> 0 \<Longrightarrow> ls_accepts s \<le> n \<Longrightarrow>
    \<exists>err s1. trick_loop net s fd0 = xret (err, s1) \<and> lis_ok net s1 \<and> ls_accepts s < ls_accepts s1 \<and> err < 0 \<and>
      (err = - EAGAIN \<or> ls_accepts s1 \<le> n) \<and> ls_accepted s1 = -1 \<and> ls_stream s1 = ls_stream s \<and> ls_server_cb s1 = ls_server_cb s \<and> ls_emfile s1 = ls_emfile s"
proof (induction "n - ls_accepts s" arbitrary: s rule: less_induct)
  case less
  show ?case
  proof (cases rule: uv__accept_cases [OF k less.prems(1-3)])
    case (1 e)
    let ?s1 = "s\<lparr>ls_accepts := Suc (ls_accepts s)\<rparr>"
    show ?thesis
    proof (cases "e = EINTR")
      case True
      then have "ls_accepts s \<noteq> n" using 1(2) n by (auto simp: EINTR_def EAGAIN_def)
      then have less': "n - ls_accepts ?s1 < n - ls_accepts s" "ls_accepts ?s1 \<le> n" using less.prems(4) by auto
      have "trick_loop net s fd0 = trick_loop net ?s1 fd0"
        by (subst trick_loop.simps) (simp add: 1(3) True EINTR_def)
      then show ?thesis using less.hyps [OF less'(1) 1(4)] less.prems less'(2) by fastforce
    next
      case False
      have "trick_loop net s fd0 = xret (- e, ?s1)" by (subst trick_loop.simps) (use 1(1,3) False in simp)
      moreover have "e = EAGAIN \<or> Suc (ls_accepts s) \<le> n" using 1(2) n less.prems(4) by (cases "ls_accepts s = n") auto
      ultimately show ?thesis using 1(1,4) less.prems by simp
    qed
  next
    case (2 fd s1)
    then have "ls_accepts s \<noteq> n" using n by auto
    define s3 where "s3 = set_fate (s1\<lparr>ls_open := ls_open s\<rparr>) Shut"
    have less': "n - ls_accepts s3 < n - ls_accepts s" "ls_accepts s3 \<le> n" "ls_accepts s < ls_accepts s3"
      using less.prems(4) \<open>ls_accepts s \<noteq> n\<close> by (auto simp: s3_def 2(5))
    have f: "ls_stream s3 = ls_stream s" "ls_server_cb s3 = ls_server_cb s" "ls_accepted s3 = -1" "ls_emfile s3 = ls_emfile s"
      using less.prems(2) by (simp_all add: s3_def 2(5))
    have "lis_ok net s3" unfolding s3_def by (rule shut_ok [OF less.prems(1,2) 2(1,5,6,7)])
    moreover have "trick_loop net s fd0 = trick_loop net s3 fd0"
      by (subst trick_loop.simps) (use 2(1,4) in \<open>simp add: uv__close_def uv_assert_def s3_def 2(5)\<close>)
    ultimately show ?thesis using less.hyps [OF less'(1)] less.prems(3) less'(2,3) f by fastforce
  qed
qed

lemma emfile_trick_ok:
  assumes k: "kernel_ok net" and n: "nt_accept net n = Some EAGAIN"
    and s: "lis_ok net s" "ls_accepted s = -1" "fd0 \<ge> 0" "ls_accepts s \<le> n"
  shows "\<exists>err s1. uv__emfile_trick net s fd0 = xret (err, s1) \<and> lis_ok net s1 \<and> ls_accepts s \<le> ls_accepts s1 \<and> err < 0 \<and>
    (err = - EAGAIN \<or> ls_accepts s1 \<le> n) \<and> ls_accepted s1 = -1 \<and> ls_stream s1 = ls_stream s \<and> ls_server_cb s1 = ls_server_cb s"
proof (cases "ls_emfile s = -1")
  case True
  then show ?thesis using s by (simp add: uv__emfile_trick_def EMFILE_def)
next
  case False
  have own: "own_ok (owner_fd s) (ls_open s)" using s(1) by (simp add: lis_ok_def)
  define t where "t = s\<lparr>ls_open := remove1 (ls_emfile s) (ls_open s), ls_emfile := -1\<rparr>"
  have c: "uv__close s (ls_emfile s) = Inr (s\<lparr>ls_open := remove1 (ls_emfile s) (ls_open s)\<rparr>)"
    using uv__close_ok [OF own, of OfSpare] False by simp
  have "own_ok (owner_fd t) (ls_open t)" using uv__close_ok [OF own, of OfSpare] False by (simp add: t_def)
  then have "lis_ok net t" using s(1) by (simp add: lis_ok_def t_def)
  then obtain err s2 where s2: "trick_loop net t fd0 = xret (err, s2)" "lis_ok net s2" "ls_accepts s < ls_accepts s2" "err < 0"
      "err = - EAGAIN \<or> ls_accepts s2 \<le> n" "ls_accepted s2 = -1" "ls_stream s2 = ls_stream s" "ls_server_cb s2 = ls_server_cb s" "ls_emfile s2 = -1"
    using trick_loop_ok [OF k n, of t fd0] s by (auto simp: t_def)
  have e: "uv__emfile_trick net s fd0 = xret (err, let (fd, s3) = uv__open net s2 in if fd \<ge> 0 then s3\<lparr>ls_emfile := fd\<rparr> else s3)"
    using False c s2(1) by (simp add: uv__emfile_trick_def t_def Let_def split_beta)
  show ?thesis
  proof (cases rule: uv__open_cases [OF k, of s2])
    case (1 e)
    then show ?thesis using e s2 by simp
  next
    case (2 fd)
    let ?s3 = "s2\<lparr>ls_opens := Suc (ls_opens s2), ls_open := fd # ls_open s2, ls_emfile := fd\<rparr>"
    have "?s3 = (s2\<lparr>ls_open := fd # ls_open s2, ls_emfile := fd\<rparr>)\<lparr>ls_opens := Suc (ls_opens s2)\<rparr>" by simp
    then have "lis_ok net ?s3" using spare_ok [OF s2(2,9) 2(1,2)] by (simp only: lis_ok_frame)
    then show ?thesis using e s2 2 by simp
  qed
qed

section \<open>The loop over the connections\<close>

lemma watch_stop:
  assumes "lis_ok net s" "ls_accepted s \<noteq> -1"
  shows "lis_ok net (s\<lparr>ls_stream := uv__io_stop_in (ls_stream s)\<rparr>)" "idle (s\<lparr>ls_stream := uv__io_stop_in (ls_stream s)\<rparr>)"
proof -
  let ?st = "(ls_stream s)\<lparr>us_pollin := False\<rparr>"
  have w: "watch_ok s" "us_fd (ls_stream s) \<noteq> -1" using assms by (auto simp: lis_ok_def watch_ok_def)
  then have e: "uv__io_stop_in (ls_stream s) = ?st" by (simp add: uv__io_stop_in_def)
  have "(owner_fd s)(OfHandle Server := us_fd (ls_stream s)) = owner_fd s" by (auto simp: fun_eq_iff)
  moreover have "watch_ok (s\<lparr>ls_stream := ?st\<rparr>)" using w assms(2) by (simp add: watch_ok_def)
  moreover have "st_ok (ls_stream s)" using assms(1) hnd_simps(1) [of s] unfolding lis_ok_def by metis
  then have "st_ok ?st" by (simp add: st_ok_def)
  ultimately show "lis_ok net (s\<lparr>ls_stream := uv__io_stop_in (ls_stream s)\<rparr>)" unfolding e using assms(1) by (simp add: lis_ok_def)
  show "idle (s\<lparr>ls_stream := uv__io_stop_in (ls_stream s)\<rparr>)" unfolding e by (simp add: idle_def)
qed

lemma server_loop_ok:
  assumes k: "kernel_ok net" and p: "program_ok net" and n: "nt_accept net n = Some EAGAIN"
  shows "lis_ok net s \<Longrightarrow> ls_accepted s = -1 \<Longrightarrow> listens s \<Longrightarrow> ls_accepts s \<le> n \<Longrightarrow>
    \<exists>s1. server_loop net s = xret s1 \<and> lis_ok net s1 \<and> idle s1"
proof (induction "n - ls_accepts s" arbitrary: s rule: less_induct)
  case less
  note s = less.prems
  have idle: "idle s" using s(2) by (simp add: idle_def)
  show ?case
  proof (cases "us_fd (ls_stream s) = -1")
    case True
    then show ?thesis using s idle by (subst server_loop.simps) simp
  next
    case open': False
    have again: "\<exists>s1. server_loop net t = xret s1 \<and> lis_ok net s1 \<and> idle s1"
      if "lis_ok net t" "ls_accepted t = -1" "listens t" "ls_accepts s < ls_accepts t" "ls_accepts t \<le> n" for t
      by (rule less.hyps) (use that in auto)
    have fd0: "us_fd (ls_stream s) \<ge> 0"
      using own_range [of "owner_fd s" "ls_open s" "OfHandle Server"] s(1) open' by (simp add: lis_ok_def)
    show ?thesis
    proof (cases rule: uv__accept_cases [OF k s(1,2) fd0])
      case (1 e)
      let ?s1 = "s\<lparr>ls_accepts := Suc (ls_accepts s)\<rparr>"
      have step: "server_loop net s =
          (if e = EAGAIN then xret ?s1
           else if e = ECONNABORTED then server_loop net ?s1
           else xbind (if e = EMFILE \<or> e = ENFILE then uv__emfile_trick net ?s1 (us_fd (ls_stream s)) else xret (- e, ?s1)) (\<lambda>(err2, s2).
             if (e = EMFILE \<or> e = ENFILE) \<and> err2 = - EAGAIN then xret s2
             else xbind (Some (connection_cb net s2 err2)) (\<lambda>s3. server_loop net s3)))"
        by (subst server_loop.simps) (use open' s(2) 1(1,3) in simp)
      have cb: "\<exists>s3. xbind (Some (connection_cb net t st)) (\<lambda>s3. server_loop net s3) = xret s3 \<and> lis_ok net s3 \<and> idle s3"
        if "lis_ok net t" "ls_accepted t = -1" "listens t" "ls_accepts s < ls_accepts t" "ls_accepts t \<le> n" for t st
        using connection_cb_ok [OF k p that(1), of st] again that by (auto simp: ends_in_iff lis_kept_def)
      show ?thesis
      proof (cases "e = EAGAIN")
        case True
        then show ?thesis using step 1(4) s(2) by (simp add: idle_def)
      next
        case False
        then have "ls_accepts s \<noteq> n" using 1(2) n by auto
        then have le: "Suc (ls_accepts s) \<le> n" using s(4) by simp
        show ?thesis
        proof (cases "e = EMFILE \<or> e = ENFILE")
          case True
          obtain err s2 where s2: "uv__emfile_trick net ?s1 (us_fd (ls_stream s)) = xret (err, s2)" "lis_ok net s2"
              "Suc (ls_accepts s) \<le> ls_accepts s2" "err = - EAGAIN \<or> ls_accepts s2 \<le> n" "ls_accepted s2 = -1" "listens s2"
            using emfile_trick_ok [OF k n 1(4), of "us_fd (ls_stream s)"] s(2,3) fd0 le by (auto simp: listens_def)
          have "server_loop net s = (if err = - EAGAIN then xret s2 else xbind (Some (connection_cb net s2 err)) (\<lambda>s3. server_loop net s3))"
            using step True s2(1) by (auto simp: EMFILE_def ENFILE_def EAGAIN_def ECONNABORTED_def)
          then show ?thesis using cb [of s2 err] s2 by (auto simp: idle_def)
        next
          case other: False
          have "listens ?s1" using s(3) by (simp add: listens_def)
          then show ?thesis using other step False again [OF 1(4)] cb [OF 1(4)] s(2) le by auto
        qed
      qed
    next
      case (2 fd s1)
      let ?t = "s1\<lparr>ls_accepted := fd\<rparr>"
      have "ls_accepts s \<noteq> n" using 2(3) n by auto
      have "ls_server_cb s" using s(3) by (simp add: listens_def)
      have t: "lis_ok net ?t" by (rule pending_ok [OF s(1,2) 2(1,2) open' \<open>ls_server_cb s\<close> 2(5,6)])
      then obtain s2 where s2: "connection_cb net ?t 0 = Inr s2" "lis_kept net ?t s2"
        using connection_cb_ok [OF k p t, of 0] by (auto simp: ends_in_iff)
      have step: "server_loop net s = (if ls_accepted s2 \<noteq> -1 then xret (s2\<lparr>ls_stream := uv__io_stop_in (ls_stream s2)\<rparr>) else server_loop net s2)"
        by (subst server_loop.simps) (use open' s(2) 2(1,4) s2(1) in simp)
      have "lis_ok net s2" "listens s2" "ls_accepts s < ls_accepts s2" "ls_accepts s2 \<le> n"
        using s2(2) s(3,4) \<open>ls_accepts s \<noteq> n\<close> by (auto simp: lis_kept_def listens_def 2(5))
      then show ?thesis using step again [of s2] watch_stop [of net s2] by auto
    qed
  qed
qed

section \<open>Runs\<close>

text \<open>
  The program calls as it may, and does not call \<open>uv_listen\<close> outside the connection callback while a connection waits: the next
  report would fail the assertion of \<open>uv__server_io\<close>. A watched handle is reported, a closing one is finished.
\<close>

fun event_legal :: "uv_server \<Rightarrow> srv_event \<Rightarrow> bool" where
  "event_legal s (SrvCall a) = (call_ok s a \<and> (is_listen a \<longrightarrow> ls_accepted s = -1))"
| "event_legal s SrvIo = us_pollin (ls_stream s)"
| "event_legal s (SrvFinish h) = (us_closing (hnd s h) \<and> \<not> us_closed (hnd s h))"

fun events_legal :: "uv_net \<Rightarrow> uv_server \<Rightarrow> srv_event list \<Rightarrow> bool" where
  "events_legal net s [] = True"
| "events_legal net s (e # es) = (event_legal s e \<and> (case srv_step net s e of Some (Inr s1) \<Rightarrow> events_legal net s1 es | _ \<Rightarrow> True))"

lemma uv__server_io_ok:
  assumes "kernel_ok net" "program_ok net" "backlog_ends net" "lis_ok net s" "idle s" "us_pollin (ls_stream s)"
  shows "\<exists>s1. uv__server_io net s POLLIN = xret s1 \<and> lis_ok net s1 \<and> idle s1"
proof -
  obtain n where n: "ls_accepts s \<le> n" "nt_accept net n = Some EAGAIN" using assms(3) unfolding backlog_ends_def by blast
  have st: "st_ok (ls_stream s)" using assms(4) hnd_simps(1) [of s] unfolding lis_ok_def by metis
  then have fd: "us_fd (ls_stream s) \<noteq> -1" "\<not> us_closing (ls_stream s)" using assms(6) by (auto simp: st_ok_def)
  then have "us_fd (ls_stream s) \<ge> 0" using own_range [of "owner_fd s" "ls_open s" "OfHandle Server"] assms(4) by (auto simp: lis_ok_def)
  moreover have "ls_accepted s = -1" "listens s" using assms(4-6) st fd(2) by (auto simp: idle_def lis_ok_def watch_ok_def listens_def st_ok_def)
  moreover have "(ls_stream s)\<lparr>us_pollin := True\<rparr> = ls_stream s" using assms(6) by simp
  then have "s\<lparr>ls_stream := (ls_stream s)\<lparr>us_pollin := True\<rparr>\<rparr> = s" by simp
  ultimately show ?thesis using server_loop_ok [OF assms(1,2) n(2) assms(4)] n(1) fd
    by (simp add: uv__server_io_def uv_assert_def uv__io_start_in_def)
qed

lemma srv_run_ok:
  assumes "kernel_ok net" "program_ok net" "backlog_ends net"
  shows "lis_ok net s \<Longrightarrow> idle s \<Longrightarrow> events_legal net s es \<Longrightarrow> \<exists>s1. srv_run net s es = xret s1 \<and> lis_ok net s1 \<and> idle s1"
proof (induction es arbitrary: s)
  case (Cons e es)
  have "\<exists>s1. srv_step net s e = xret s1 \<and> lis_ok net s1 \<and> idle s1"
  proof (cases e)
    case (SrvCall a)
    then show ?thesis using do_call_ok [OF assms(1) Cons.prems(1), of a] Cons.prems(2,3) by (auto simp: ends_in_iff lis_kept_def)
  next
    case SrvIo
    then show ?thesis using uv__server_io_ok [OF assms Cons.prems(1,2)] Cons.prems(3) by simp
  next
    case (SrvFinish h)
    then obtain s1 where "ebind (uv__finish_close (hnd s h)) (\<lambda>st. Inr (set_hnd s h st)) = Inr s1" "lis_ok net s1" "idle s1"
      using finish_handle_ok [OF Cons.prems(1), of h] Cons.prems(2,3) by auto
    then show ?thesis using SrvFinish by simp
  qed
  then show ?case using Cons by fastforce
qed simp

lemma server_start_ok: "lis_ok net server_start" "idle server_start"
proof -
  have h: "hnd server_start h = uv_stream_init" for h by (cases h) (simp_all add: server_start_def)
  have "owner_fd server_start p = -1" for p by (cases p) (simp_all add: h, simp_all add: server_start_def uv_stream_init_def)
  then have "own_ok (owner_fd server_start) (ls_open server_start)" by (simp add: own_ok_def server_start_def)
  then show "lis_ok net server_start" "idle server_start"
    by (simp_all add: lis_ok_def h conns_ok_def watch_ok_def idle_def, simp_all add: server_start_def uv_stream_init_def)
qed

end
