(* ===== verification/UvListenProps.thy ===== *)
theory UvListenProps
  imports UvListenIo
begin

text \<open>The properties of a server: descriptors, connections, overload, the two ways in which it stops to accept.\<close>

section \<open>A program\<close>

text \<open>
  The connection callback of the echo server: it initialises a client and accepts into it. Clients are numbered by the
  connections. The descriptor the kernel gives is above all that are open.
\<close>

definition echo_cb :: "int \<Rightarrow> uv_server \<Rightarrow> srv_call list" where
  "echo_cb status s =
     (let c = length (ls_conns s) in
      if status = 0 \<and> us_fd (ls_clients s c) = -1 \<and> \<not> us_closing (ls_clients s c) then [CallInit (Client c) 0, CallAccept c] else [])"

definition echo_net :: "(nat \<Rightarrow> int option) \<Rightarrow> uv_net" where
  "echo_net acc = \<lparr>nt_accept = acc, nt_open = (\<lambda>_. None), nt_fresh = (\<lambda>xs. fold max xs 2 + 1), nt_cb = echo_cb\<rparr>"

lemma fold_max: "(n :: int) \<le> fold max xs n \<and> (\<forall>x\<in>set xs. x \<le> fold max xs n)"
proof (induction xs arbitrary: n)
  case (Cons x xs)
  have "max x n \<le> fold max xs (max x n)" "\<forall>y\<in>set xs. y \<le> fold max xs (max x n)" using Cons [of "max x n"] by blast+
  then show ?case by simp
qed simp

lemma echo_kernel_ok: "\<forall>n e. acc n = Some e \<longrightarrow> 0 < e \<Longrightarrow> kernel_ok (echo_net acc)"
proof -
  assume a: "\<forall>n e. acc n = Some e \<longrightarrow> 0 < e"
  have "2 < fold max xs 2 + 1 \<and> fold max xs 2 + 1 \<notin> set xs" for xs :: "int list"
    using fold_max [of 2 xs] by fastforce
  then show ?thesis using a by (simp add: kernel_ok_def echo_net_def)
qed

lemma echo_program_ok: "program_ok (echo_net acc)"
proof -
  have "calls_ok (echo_net acc) s [CallInit (Client c) 0, CallAccept c]" if "us_fd (ls_clients s c) = -1" "\<not> us_closing (ls_clients s c)" for s c
  proof -
    let ?s1 = "set_hnd s (Client c) uv_stream_init"
    have "do_call (echo_net acc) s (CallInit (Client c) 0) = Inr (open_spare (echo_net acc) ?s1)"
      by (simp add: uv_tcp_init_ex_def Let_def)
    moreover have "ls_clients (open_spare (echo_net acc) ?s1) c = uv_stream_init"
      using open_spare_hnd [of "echo_net acc" ?s1 "Client c"] hnd_set [of s "Client c" uv_stream_init "Client c"] by (metis hnd_simps(2))
    moreover have "\<not> us_closing uv_stream_init" by (simp add: uv_stream_init_def)
    ultimately show ?thesis using that by (simp del: do_call.simps split: sum.split)
  qed
  then show ?thesis by (simp add: program_ok_def echo_net_def echo_cb_def Let_def)
qed

definition two_connections :: "nat \<Rightarrow> int option" where
  "two_connections n = (if n = 0 \<or> n = 2 then None else Some EAGAIN)"

definition echo_events :: "srv_event list" where
  "echo_events = [SrvCall (CallInit Server 0), SrvCall (CallBind Server 2 False 0 0 0), SrvCall (CallListen 0), SrvCall (CallListen 0), SrvIo]"

lemma echo_legal: "events_legal (echo_net two_connections) server_start echo_events"
  by code_simp

lemma echo_two: "kernel_ok (echo_net two_connections)" "program_ok (echo_net two_connections)" "backlog_ends (echo_net two_connections)"
proof -
  show "kernel_ok (echo_net two_connections)" by (rule echo_kernel_ok) (simp add: two_connections_def EAGAIN_def)
  have "nt_accept (echo_net two_connections) (m + 3) = Some EAGAIN" for m by (simp add: echo_net_def two_connections_def)
  then show "backlog_ends (echo_net two_connections)" unfolding backlog_ends_def by (meson le_add1)
qed (rule echo_program_ok)

section \<open>A server that has stopped to accept\<close>

definition stalled :: "uv_server \<Rightarrow> bool" where
  "stalled s \<longleftrightarrow> ls_accepted s = -1 \<and> \<not> us_pollin (ls_stream s)"

lemma open_spare_stalled: "stalled (open_spare net s) = stalled s"
  by (auto simp: stalled_def open_spare_def Let_def uv__open_def split: prod.split option.split if_splits)

text \<open>What leaves the listening handle as it is.\<close>

lemma stalled_cong:
  "ls_accepted s1 = ls_accepted s \<Longrightarrow> us_pollin (ls_stream s1) = us_pollin (ls_stream s) \<Longrightarrow> stalled s1 = stalled s"
  by (simp add: stalled_def)

lemma maybe_new_socket_stalled: "stalled s \<Longrightarrow> maybe_new_socket net s h d w = Inr (e, s1) \<Longrightarrow> stalled s1"
  by (cases h) (auto simp: maybe_new_socket_def Let_def uv__open_def uv__stream_open_def uv_assert_def stalled_def ebind_eq_Inr
    uv__close_def split: prod.splits option.splits if_splits)

lemma stalled_frame [simp]:
  "stalled (s\<lparr>ls_open := xs\<rparr>) = stalled s" "stalled (s\<lparr>ls_ipv6 := b\<rparr>) = stalled s" "stalled (set_hnd s (Client c) st) = stalled s"
  by (simp_all add: stalled_def)

lemma bind_stalled: "stalled s \<Longrightarrow> uv__tcp_bind net s h f v6 e1 e2 e3 = Inr (e, s1) \<Longrightarrow> stalled s1"
proof -
  assume s: "stalled s" and b: "uv__tcp_bind net s h f v6 e1 e2 e3 = Inr (e, s1)"
  have set_err: "stalled (set_hnd t h ((hnd t h)\<lparr>us_delayed_error := x\<rparr>)) = stalled t" for t x
    by (cases h) (simp_all add: stalled_def)
  show "stalled s1"
  proof (cases "v6 \<and> f \<noteq> 10")
    case False
    then obtain q where q: "maybe_new_socket net s h f True = Inr q" using b unfolding uv__tcp_bind_def if_not_P [OF False] ebind_eq_Inr by blast
    obtain r t where rt: "q = (r, t)" by (cases q)
    have "(if r \<noteq> 0 then Inr (r, t) else if e1 \<noteq> 0 then Inr (- e1, t) else if f = 10 \<and> e2 \<noteq> 0 then Inr (- e2, t)
        else if e3 \<noteq> 0 \<and> e3 \<noteq> EADDRINUSE then Inr (if e3 = EAFNOSUPPORT then UV_EINVAL else - e3, t)
        else let s2 = set_hnd t h ((hnd t h)\<lparr>us_delayed_error := - e3\<rparr>) in Inr (0, if f = 10 \<and> h = Server then s2\<lparr>ls_ipv6 := True\<rparr> else s2)) =
        (Inr (e, s1) :: (int \<times> uv_server) exec)"
      using b unfolding uv__tcp_bind_def if_not_P [OF False] q rt by simp
    then have t: "s1 = t \<or> s1 = set_hnd t h ((hnd t h)\<lparr>us_delayed_error := - e3\<rparr>) \<or>
       s1 = (set_hnd t h ((hnd t h)\<lparr>us_delayed_error := - e3\<rparr>))\<lparr>ls_ipv6 := True\<rparr>"
      unfolding Let_def by (simp split: if_split_asm)
    have "stalled t" by (rule maybe_new_socket_stalled [OF s q [unfolded rt]])
    then show ?thesis using t set_err by auto
  qed (use b s in \<open>auto simp: uv__tcp_bind_def\<close>)
qed

lemma close_stalled:
  assumes "stalled s" "lis_ok net s" "close_handle s h = Inr s1"
  shows "stalled s1"
proof -
  have st: "st_ok (hnd s h)" "ls_queued s = None" using assms(2) by (simp_all add: lis_ok_def watch_ok_def)
  have "stalled (set_hnd t h ((hnd s h)\<lparr>us_closing := True, us_pollin := False, us_pollout := False, us_fed := False, us_active := False, us_fd := -1\<rparr>))"
    if "stalled t" for t using that by (cases h) (simp_all add: stalled_def)
  then show ?thesis using assms(1,3) st(2) unfolding close_handle_def Let_def uv_close_stream [OF st(1)]
    by (auto simp: ebind_eq_Inr uv__close_def uv_assert_def stalled_def split: if_splits)
qed

lemma init_stalled:
  assumes "stalled s" "uv_tcp_init_ex net s h flags = Inr (e, s1)"
  shows "stalled s1"
proof -
  let ?t = "set_hnd s h uv_stream_init"
  have "\<not> us_pollin uv_stream_init" by (simp add: uv_stream_init_def)
  then have t: "stalled (if h = Server then ?t\<lparr>ls_accepted := -1, ls_queued := None, ls_server_cb := False, ls_ipv6 := False\<rparr> else ?t)"
    using assms(1) by (cases h) (simp_all add: stalled_def)
  then have "stalled (open_spare net (if h = Server then ?t\<lparr>ls_accepted := -1, ls_queued := None, ls_server_cb := False, ls_ipv6 := False\<rparr> else ?t))"
    by (simp only: open_spare_stalled)
  then show ?thesis using assms maybe_new_socket_stalled
    by (auto simp: uv_tcp_init_ex_def Let_def ebind_eq_Inr split: if_split_asm)
qed

lemma do_call_stalled:
  assumes "kernel_ok net" "lis_ok net s" "stalled s" "call_ok s a" "\<forall>e. a \<noteq> CallListen e"
  shows "\<exists>s1. do_call net s a = Inr s1 \<and> lis_ok net s1 \<and> stalled s1 \<and> ls_accepts s1 = ls_accepts s"
proof -
  obtain s1 where s1: "do_call net s a = Inr s1" "lis_kept net s s1" using do_call_ok [OF assms(1,2,4)] by (auto simp: ends_in_iff)
  have "stalled s1"
  proof (cases a)
    case (CallInit h flags)
    then show ?thesis using s1(1) init_stalled [OF assms(3)] by (auto simp: ebind_eq_Inr)
  next
    case (CallBind h f v6 e1 e2 e3)
    then show ?thesis using s1(1) bind_stalled [OF assms(3)] by (auto simp: ebind_eq_Inr)
  next
    case (CallListen e)
    then show ?thesis using assms(5) by simp
  next
    case (CallAccept c)
    then show ?thesis using s1(1) assms(3) by (simp add: uv_accept_def stalled_def)
  next
    case (CallClose h)
    then show ?thesis using s1(1) close_stalled [OF assms(3,2)] by simp
  qed
  then show ?thesis using s1 by (auto simp: lis_kept_def)
qed

lemma run_stalled:
  assumes "kernel_ok net"
  shows "lis_ok net s \<Longrightarrow> stalled s \<Longrightarrow> events_legal net s es \<Longrightarrow> \<forall>e. SrvCall (CallListen e) \<notin> set es \<Longrightarrow>
    \<exists>s1. srv_run net s es = xret s1 \<and> ls_accepts s1 = ls_accepts s"
proof (induction es arbitrary: s)
  case (Cons e es)
  show ?case
  proof (cases e)
    case (SrvCall a)
    have "\<forall>e. a \<noteq> CallListen e" using Cons.prems(4) SrvCall by auto
    then obtain s1 where "do_call net s a = Inr s1" "lis_ok net s1" "stalled s1" "ls_accepts s1 = ls_accepts s"
      using do_call_stalled [OF assms Cons.prems(1,2), of a] Cons.prems(3) SrvCall by auto
    then show ?thesis using Cons.IH [of s1] Cons.prems(3,4) SrvCall by fastforce
  next
    case SrvIo
    then show ?thesis using Cons.prems(2,3) by (simp add: stalled_def)
  next
    case (SrvFinish h)
    then obtain s1 where s1: "ebind (uv__finish_close (hnd s h)) (\<lambda>st. Inr (set_hnd s h st)) = Inr s1" "lis_ok net s1"
        "ls_accepts s1 = ls_accepts s" "s1 = set_hnd s h ((hnd s h)\<lparr>us_closed := True\<rparr>)"
      using finish_handle_ok [OF Cons.prems(1), of h] Cons.prems(3) by auto
    have "stalled s1" using Cons.prems(2) unfolding s1(4) by (cases h) (simp_all add: stalled_def)
    then show ?thesis using Cons.IH [of s1] Cons.prems(3,4) SrvFinish s1 by fastforce
  qed
qed simp

section \<open>Too few descriptors\<close>

text \<open>With a spare descriptor, the connections that wait are taken and closed.\<close>

lemma trick_loop_closes:
  assumes "kernel_ok net" "fd0 \<ge> 0"
  shows "\<forall>i<k. nt_accept net (ls_accepts s + i) = None \<Longrightarrow> nt_accept net (ls_accepts s + k) = Some EAGAIN \<Longrightarrow>
    \<exists>s1. trick_loop net s fd0 = xret (- EAGAIN, s1) \<and> ls_open s1 = ls_open s \<and> ls_calls s1 = ls_calls s \<and> ls_opens s1 = ls_opens s \<and>
      map (snd \<circ> snd) (ls_conns s1) = map (snd \<circ> snd) (ls_conns s) @ replicate k Shut \<and> ls_stream s1 = ls_stream s \<and>
      ls_emfile s1 = ls_emfile s"
proof (induction k arbitrary: s)
  case 0
  then show ?case using assms(2)
    by (subst trick_loop.simps) (simp add: uv__accept_def uv_assert_def Let_def EAGAIN_def EINTR_def)
next
  case (Suc k)
  define fd where "fd = nt_fresh net (ls_open s)"
  define s1 where "s1 = s\<lparr>ls_accepts := Suc (ls_accepts s), ls_open := ls_open s, ls_conns := ls_conns s @ [(ls_accepts s, fd, Shut)]\<rparr>"
  have "fd > 2" using assms(1) by (simp add: kernel_ok_def fd_def)
  moreover have "nt_accept net (ls_accepts s) = None" using Suc.prems(1) by (metis add.right_neutral zero_less_Suc)
  ultimately have "trick_loop net s fd0 = trick_loop net s1 fd0"
    using assms(2)
    by (subst trick_loop.simps) (simp add: uv__accept_def uv_assert_def Let_def fd_def [symmetric] uv__close_def set_fate_def s1_def)
  moreover have "\<forall>i<k. nt_accept net (ls_accepts s1 + i) = None" "nt_accept net (ls_accepts s1 + k) = Some EAGAIN"
    using Suc.prems by (auto simp: s1_def)
  ultimately show ?case using Suc.IH [of s1] by (auto simp: s1_def)
qed

text \<open>Without one, the callback is called again and again.\<close>

lemma server_loop_spins:
  assumes "\<And>status s. nt_cb net status s = []"
  shows "ls_emfile s = -1 \<Longrightarrow> ls_accepted s = -1 \<Longrightarrow> us_fd (ls_stream s) \<ge> 0 \<Longrightarrow> \<forall>n\<ge>ls_accepts s. nt_accept net n = Some EMFILE \<Longrightarrow>
    server_loop net s = None"
proof (rule ccontr)
  define spins where "spins = (\<lambda>s :: uv_server. ls_emfile s = -1 \<and> ls_accepted s = -1 \<and> us_fd (ls_stream s) \<ge> 0 \<and> (\<forall>n\<ge>ls_accepts s. nt_accept net n = Some EMFILE))"
  assume "ls_emfile s = -1" "ls_accepted s = -1" "us_fd (ls_stream s) \<ge> 0" "\<forall>n\<ge>ls_accepts s. nt_accept net n = Some EMFILE"
  then have s: "spins s" by (simp add: spins_def)
  assume "server_loop net s \<noteq> None"
  then obtain r where "server_loop net s = Some r" by blast
  then have "net = net \<longrightarrow> \<not> spins s"
  proof (rule server_loop.raw_induct [rotated, where P = "\<lambda>nt s r. nt = net \<longrightarrow> \<not> spins s"], intro impI notI)
    fix f nt s r
    assume ih: "\<And>nt s r. f nt s = Some r \<Longrightarrow> nt = net \<longrightarrow> \<not> spins s"
      and r: "(if us_fd (ls_stream s) = -1 then xret s
        else if ls_accepted s \<noteq> -1 then Some (Inl Abort)
        else xbind (Some (uv__accept nt s (us_fd (ls_stream s)))) (\<lambda>(err, s1).
          if err < 0 then
            if err = - EAGAIN then xret s1
            else if err = - ECONNABORTED then f nt s1
            else
              xbind (if err = - EMFILE \<or> err = - ENFILE then uv__emfile_trick nt s1 (us_fd (ls_stream s1)) else xret (err, s1)) (\<lambda>(err2, s2).
              if (err = - EMFILE \<or> err = - ENFILE) \<and> err2 = - EAGAIN then xret s2
              else xbind (Some (connection_cb nt s2 err2)) (\<lambda>s3. f nt s3))
          else
            xbind (Some (connection_cb nt (s1\<lparr>ls_accepted := err\<rparr>) 0)) (\<lambda>s2.
            if ls_accepted s2 \<noteq> -1 then xret (s2\<lparr>ls_stream := uv__io_stop_in (ls_stream s2)\<rparr>)
            else f nt s2))) = Some r"
      and a: "nt = net" "spins s"
    let ?s1 = "s\<lparr>ls_accepts := Suc (ls_accepts s)\<rparr>"
    have "uv__accept nt s (us_fd (ls_stream s)) = Inr (- EMFILE, ?s1)"
      using a by (simp add: spins_def uv__accept_def uv_assert_def Let_def)
    then have "f net (?s1\<lparr>ls_calls := ls_calls s @ [- EMFILE]\<rparr>) = Some r"
      using r a by (simp add: spins_def uv__emfile_trick_def connection_cb_def Let_def assms EMFILE_def EAGAIN_def ECONNABORTED_def)
    moreover have "spins (?s1\<lparr>ls_calls := ls_calls s @ [- EMFILE]\<rparr>)" using a(2) by (simp add: spins_def)
    ultimately show False using ih by blast
  qed
  then show False using s by simp
qed

section \<open>Properties\<close>

text \<open>
  C22: Descriptors of a server. Whatever a program does with a listening handle and its clients (handles are not used after
  they were closed until they are initialised again, which is done once their closing has ended; \<open>uv_listen\<close> is called any
  number of times, outside the connection callback when no connection waits), whatever connections and errors the kernel answers with (a fresh
  descriptor each time, an empty backlog now and then), every report of connections ends, no assertion fails and no
  descriptor is closed twice; and in the end every open descriptor belongs to exactly one of the handles, the spare of
  the loop and the connection that waits to be accepted, so none has leaked and none is shared.
\<close>

theorem listener_descriptors:
  assumes "kernel_ok net" "program_ok net" "backlog_ends net" "events_legal net server_start es"
  shows "\<exists>s. srv_run net server_start es = xret s \<and> distinct (ls_open s) \<and>
    (\<forall>fd. fd \<in> set (ls_open s) \<longleftrightarrow> fd \<noteq> -1 \<and> (\<exists>!p. owner_fd s p = fd))"
proof -
  obtain s where s: "srv_run net server_start es = xret s" "lis_ok net s"
    using srv_run_ok [OF assms(1-3) server_start_ok assms(4)] by blast
  then have o: "own_ok (owner_fd s) (ls_open s)" by (simp add: lis_ok_def)
  have "fd \<in> set (ls_open s) \<longleftrightarrow> fd \<noteq> -1 \<and> (\<exists>!p. owner_fd s p = fd)" for fd
  proof
    assume "fd \<in> set (ls_open s)"
    then obtain p where p: "owner_fd s p = fd" "fd \<noteq> -1" using o unfolding own_ok_def by (metis (mono_tags, lifting) image_iff mem_Collect_eq)
    then show "fd \<noteq> -1 \<and> (\<exists>!p. owner_fd s p = fd)" using own_unique [OF o] by metis
  qed (use own_drop(1) [OF o] in auto)
  then show ?thesis using s o by (auto simp: own_ok_def)
qed

lemma listener_descriptors_witness:
  "\<exists>s. srv_run (echo_net two_connections) server_start echo_events = xret s \<and> distinct (ls_open s) \<and>
    (\<forall>fd. fd \<in> set (ls_open s) \<longleftrightarrow> fd \<noteq> -1 \<and> (\<exists>!p. owner_fd s p = fd))"
  by (rule listener_descriptors [OF echo_two echo_legal])

text \<open>
  C23: Connections of a server, in the same runs: the history holds the connections that \<open>accept\<close> has returned, each once
  and in their order; all but the last are decided (given to a client by \<open>uv_accept\<close>, refused by it, or closed), and
  the last one waits exactly if \<open>accepted_fd\<close> is set. While it waits the listening handle is not watched, so the server is
  never more than one connection ahead of the program; and as long as no \<open>uv_accept\<close> failed, a handle that listens
  and has no connection waiting is watched, so no connection is forgotten.
\<close>

theorem listener_connections:
  assumes "kernel_ok net" "program_ok net" "backlog_ends net" "events_legal net server_start es"
  shows "\<exists>s. srv_run net server_start es = xret s \<and>
    map fst (ls_conns s) = filter (\<lambda>n. nt_accept net n = None) [0..<ls_accepts s] \<and>
    (\<exists>ds n. ls_conns s = ds @ (if ls_accepted s = -1 then [] else [(n, ls_accepted s, Pending)]) \<and> (\<forall>(_, _, f)\<in>set ds. f \<noteq> Pending)) \<and>
    (ls_accepted s \<noteq> -1 \<longrightarrow> \<not> us_pollin (ls_stream s)) \<and>
    (ls_server_cb s \<and> \<not> us_closing (ls_stream s) \<and> ls_accepted s = -1 \<and> none_refused s \<longrightarrow> us_pollin (ls_stream s))"
proof -
  obtain s where "srv_run net server_start es = xret s" "lis_ok net s" "idle s"
    using srv_run_ok [OF assms(1-3) server_start_ok assms(4)] by blast
  then show ?thesis unfolding lis_ok_def conns_ok_def watch_ok_def idle_def by blast
qed

lemma listener_connections_witness:
  "\<exists>s. srv_run (echo_net two_connections) server_start echo_events = xret s \<and>
    map fst (ls_conns s) = filter (\<lambda>n. nt_accept (echo_net two_connections) n = None) [0..<ls_accepts s] \<and>
    (\<exists>ds n. ls_conns s = ds @ (if ls_accepted s = -1 then [] else [(n, ls_accepted s, Pending)]) \<and> (\<forall>(_, _, f)\<in>set ds. f \<noteq> Pending)) \<and>
    (ls_accepted s \<noteq> -1 \<longrightarrow> \<not> us_pollin (ls_stream s)) \<and>
    (ls_server_cb s \<and> \<not> us_closing (ls_stream s) \<and> ls_accepted s = -1 \<and> none_refused s \<longrightarrow> us_pollin (ls_stream s))"
  by (rule listener_connections [OF echo_two echo_legal])

text \<open>
  C24: Overload. When \<open>accept\<close> fails for lack of descriptors and the loop has its spare one, every connection that waits is
  taken and closed (the \<open>k\<close> connections before the backlog is empty), the callback is not called, the report ends, the
  same other descriptors are open as before, and the spare one is opened again if the kernel allows it.
\<close>

theorem overload_closes_connections:
  assumes "kernel_ok net" "lis_ok net s" "ls_accepted s = -1" "ls_emfile s \<noteq> -1" "us_fd (ls_stream s) \<noteq> -1"
    "nt_accept net (ls_accepts s) = Some EMFILE" "\<forall>i<k. nt_accept net (Suc (ls_accepts s) + i) = None"
    "nt_accept net (Suc (ls_accepts s) + k) = Some EAGAIN"
  shows "\<exists>s1. server_loop net s = xret s1 \<and> ls_calls s1 = ls_calls s \<and> ls_stream s1 = ls_stream s \<and>
    map (snd \<circ> snd) (ls_conns s1) = map (snd \<circ> snd) (ls_conns s) @ replicate k Shut \<and>
    set (ls_open s1) - {ls_emfile s1} = set (ls_open s) - {ls_emfile s} \<and>
    (nt_open net (ls_opens s) = None \<longrightarrow> ls_emfile s1 \<noteq> -1)"
proof -
  have own: "own_ok (owner_fd s) (ls_open s)" using assms(2) by (simp add: lis_ok_def)
  have fd: "us_fd (ls_stream s) \<ge> 0" using own_range [OF own, of "OfHandle Server"] assms(5) by simp
  have d: "distinct (ls_open s)" "-1 \<notin> set (ls_open s)" using own by (auto simp: own_ok_def)
  define t where "t = s\<lparr>ls_accepts := Suc (ls_accepts s), ls_open := remove1 (ls_emfile s) (ls_open s), ls_emfile := -1\<rparr>"
  have a: "uv__accept net s (us_fd (ls_stream s)) = Inr (- EMFILE, s\<lparr>ls_accepts := Suc (ls_accepts s)\<rparr>)"
    using fd assms(6) by (simp add: uv__accept_def uv_assert_def Let_def)
  have c: "uv__close (s\<lparr>ls_accepts := Suc (ls_accepts s)\<rparr>) (ls_emfile s) = Inr (s\<lparr>ls_accepts := Suc (ls_accepts s), ls_open := remove1 (ls_emfile s) (ls_open s)\<rparr>)"
    using own_drop [OF own, of OfSpare] assms(4) by (simp add: uv__close_def uv_assert_def)
  obtain s2 where s2: "trick_loop net t (us_fd (ls_stream s)) = xret (- EAGAIN, s2)" "ls_open s2 = ls_open t" "ls_calls s2 = ls_calls t"
      "ls_opens s2 = ls_opens t" "map (snd \<circ> snd) (ls_conns s2) = map (snd \<circ> snd) (ls_conns t) @ replicate k Shut" "ls_stream s2 = ls_stream t"
      "ls_emfile s2 = ls_emfile t"
    using trick_loop_closes [OF assms(1) fd, of k t] assms(7,8) by (auto simp: t_def)
  have e: "uv__emfile_trick net (s\<lparr>ls_accepts := Suc (ls_accepts s)\<rparr>) (us_fd (ls_stream s)) =
      xret (- EAGAIN, let (fd, s3) = uv__open net s2 in if fd \<ge> 0 then s3\<lparr>ls_emfile := fd\<rparr> else s3)"
    using assms(4) c s2(1) by (simp add: uv__emfile_trick_def t_def Let_def split_beta)
  have l: "server_loop net s = xret (let (fd, s3) = uv__open net s2 in if fd \<ge> 0 then s3\<lparr>ls_emfile := fd\<rparr> else s3)"
    by (subst server_loop.simps) (use assms(3,5) a e in \<open>simp add: EMFILE_def EAGAIN_def ECONNABORTED_def\<close>)
  show ?thesis
  proof (cases rule: uv__open_cases [OF assms(1), of s2])
    case (1 e)
    have "nt_fresh net xs > 2" for xs using assms(1) by (simp add: kernel_ok_def)
    then have "nt_open net (ls_opens s) \<noteq> None"
      using s2(4) 1 by (auto simp: uv__open_def Let_def t_def split: option.splits) (metis less_asym less_trans zero_less_numeral)
    then show ?thesis using l 1 s2 d by (simp add: t_def)
  next
    case (2 fd)
    then show ?thesis using l s2 d by (auto simp: t_def)
  qed
qed

text \<open>Two connections wait when a descriptor is needed for the first.\<close>

definition busy :: "nat \<Rightarrow> int option" where
  "busy n = (if n = 0 then Some EMFILE else if n \<le> 2 then None else Some EAGAIN)"

definition start_events :: "srv_event list" where
  "start_events = [SrvCall (CallInit Server 0), SrvCall (CallBind Server 2 False 0 0 0), SrvCall (CallListen 0)]"

lemma busy_start:
  obtains s where "srv_run (echo_net busy) server_start start_events = xret s" "kernel_ok (echo_net busy)" "lis_ok (echo_net busy) s"
    "ls_accepted s = -1" "ls_emfile s \<noteq> -1" "us_fd (ls_stream s) \<noteq> -1" "ls_accepts s = 0" "ls_conns s = []" "ls_opens s = 2"
proof -
  have k: "kernel_ok (echo_net busy)" by (rule echo_kernel_ok) (simp add: busy_def EMFILE_def EAGAIN_def)
  have "nt_accept (echo_net busy) (m + 3) = Some EAGAIN" for m by (simp add: echo_net_def busy_def)
  then have "backlog_ends (echo_net busy)" unfolding backlog_ends_def by (meson le_add1)
  moreover have "events_legal (echo_net busy) server_start start_events" by code_simp
  ultimately obtain s where s: "srv_run (echo_net busy) server_start start_events = xret s" "lis_ok (echo_net busy) s"
    using srv_run_ok [OF k echo_program_ok _ server_start_ok] by blast
  have "case srv_run (echo_net busy) server_start start_events of Some (Inr s) \<Rightarrow> ls_accepted s = -1 \<and> ls_emfile s \<noteq> -1 \<and>
    us_fd (ls_stream s) \<noteq> -1 \<and> ls_accepts s = 0 \<and> ls_conns s = [] \<and> ls_opens s = 2 | _ \<Rightarrow> False" by code_simp
  then show thesis using that [of s] s k by simp
qed

lemma overload_closes_connections_witness:
  "\<exists>s s1. srv_run (echo_net busy) server_start start_events = xret s \<and> server_loop (echo_net busy) s = xret s1 \<and>
    map (snd \<circ> snd) (ls_conns s1) = [Shut, Shut] \<and> ls_emfile s1 \<noteq> -1"
proof -
  obtain s where s: "srv_run (echo_net busy) server_start start_events = xret s" "kernel_ok (echo_net busy)" "lis_ok (echo_net busy) s"
    "ls_accepted s = -1" "ls_emfile s \<noteq> -1" "us_fd (ls_stream s) \<noteq> -1" "ls_accepts s = 0" "ls_conns s = []" "ls_opens s = 2"
    by (rule busy_start)
  have "nt_accept (echo_net busy) 0 = Some EMFILE" "\<forall>i<2. nt_accept (echo_net busy) (Suc 0 + i) = None"
    "nt_accept (echo_net busy) (Suc 0 + 2) = Some EAGAIN" "nt_open (echo_net busy) 2 = None"
    by (auto simp: echo_net_def busy_def)
  then show ?thesis using overload_closes_connections [OF s(2-6), of 2] s by (auto simp: numeral_2_eq_2)
qed

text \<open>
  Without the spare descriptor (it could not be opened again after the last time it was needed) the server
  spins: as long as there are too few descriptors, \<open>uv__server_io\<close> calls the connection callback with the error again and
  again and does not return to the loop, so the handles whose closing would end the shortage are never served.
\<close>

theorem overload_without_spare_spins:
  assumes "\<And>status s. nt_cb net status s = []" "ls_emfile s = -1" "ls_accepted s = -1" "\<not> us_closing (ls_stream s)"
    "us_fd (ls_stream s) \<ge> 0" "\<forall>n\<ge>ls_accepts s. nt_accept net n = Some EMFILE"
  shows "uv__server_io net s POLLIN = None"
  using assms server_loop_spins [OF assms(1), of "s\<lparr>ls_stream := (ls_stream s)\<lparr>us_pollin := True\<rparr>\<rparr>"]
  by (simp add: uv__server_io_def uv_assert_def uv__io_start_in_def)

lemma overload_without_spare_spins_witness:
  "uv__server_io ((echo_net (\<lambda>_. Some EMFILE))\<lparr>nt_cb := \<lambda>_ _. []\<rparr>) (server_start\<lparr>ls_stream := uv_stream_init\<lparr>us_fd := 3\<rparr>\<rparr>) POLLIN = None"
  by (rule overload_without_spare_spins) (simp_all add: echo_net_def server_start_def uv_stream_init_def)

text \<open>
  C37: A failed \<open>uv_accept\<close> stalls a server. If the program lets a connection wait and later accepts it into a handle that
  has a descriptor already, the connection is closed and \<open>UV_EBUSY\<close> returned, but the listening handle is not watched
  again (the case is marked \<open>TODO handle error\<close>): whatever the program does from then on, closing and initialising
  handles included, \<open>accept\<close> is not called again before the program calls \<open>uv_listen\<close> again; and that call, if the kernel
  allows it and the handle has no delayed error, does watch the handle.
\<close>

theorem failed_accept_stalls_server:
  assumes "kernel_ok net" "lis_ok net s" "idle s" "ls_accepted s \<noteq> -1" "us_fd (ls_clients s c) \<noteq> -1"
  shows "\<exists>s1. uv_accept s c = Inr (UV_EBUSY, s1) \<and> us_fd (ls_stream s1) = us_fd (ls_stream s) \<and>
    (\<forall>es. events_legal net s1 es \<and> (\<forall>e. SrvCall (CallListen e) \<notin> set es) \<longrightarrow>
       (\<exists>s2. srv_run net s1 es = xret s2 \<and> ls_accepts s2 = ls_accepts s1)) \<and>
    (us_delayed_error (ls_stream s1) = 0 \<longrightarrow> (\<exists>s2. uv_listen net s1 0 = Inr (0, s2) \<and> us_pollin (ls_stream s2)))"
proof -
  have "st_ok (ls_clients s c)" using assms(2) hnd_simps(2) [of s c] unfolding lis_ok_def by metis
  then have "\<not> us_closing (ls_clients s c)" using assms(5) by (simp add: st_ok_def)
  then obtain e s1 where s1: "uv_accept s c = Inr (e, s1)" "lis_ok net s1" using uv_accept_ok [OF assms(2), of c] by (auto simp: ends_in_iff lis_after_def)
  have own: "own_ok (owner_fd s) (ls_open s)" using assms(2) by (simp add: lis_ok_def)
  have "us_fd (ls_clients s c) \<noteq> ls_accepted s" using own_unique [OF own, of "OfHandle (Client c)" OfPending] assms(5) by auto
  then have st: "e = UV_EBUSY \<and> ls_stream s1 = ls_stream s \<and> stalled s1"
    using s1(1) assms(2-5) uv__close_ok [OF own, of OfPending]
    by (auto simp: uv_accept_def uv__stream_open_def Let_def UV_EBUSY_def set_hnd_def lis_ok_def watch_ok_def idle_def stalled_def)
  have fd: "us_fd (ls_stream s) > 2"
    using own_range [OF own, of "OfHandle Server"] assms(2,4) by (auto simp: lis_ok_def watch_ok_def)
  have "\<exists>s2. uv_listen net s1 0 = Inr (0, s2) \<and> us_pollin (ls_stream s2)" if "us_delayed_error (ls_stream s1) = 0"
    using that st fd by (simp add: uv_listen_def uv_tcp_listen_def maybe_new_socket_def uv__io_start_in_def uv_assert_def)
  then show ?thesis using s1 st run_stalled [OF assms(1)] by auto
qed

text \<open>
  Why \<open>event_legal\<close> asks for it: \<open>uv_listen\<close> while a connection waits watches the handle again, and the report that follows
  fails the assertion that no connection waits.
\<close>

lemma listen_while_waiting_aborts:
  assumes "lis_ok net s" "ls_accepted s \<noteq> -1" "us_delayed_error (ls_stream s) = 0"
  shows "\<exists>s1. uv_listen net s 0 = Inr (0, s1) \<and> us_pollin (ls_stream s1) \<and> uv__server_io net s1 POLLIN = Some (Inl Abort)"
proof -
  have "us_fd (ls_stream s) > 2"
    using own_range [of "owner_fd s" "ls_open s" "OfHandle Server"] assms(1,2) by (auto simp: lis_ok_def watch_ok_def)
  then show ?thesis using assms(2,3)
    by (simp add: uv_listen_def uv_tcp_listen_def maybe_new_socket_def uv__io_start_in_def uv_assert_def uv__server_io_def)
qed

text \<open>A program that lets connections wait, with a client that has a socket.\<close>

definition lazy_net :: uv_net where
  "lazy_net = (echo_net two_connections)\<lparr>nt_cb := \<lambda>_ _. []\<rparr>"

definition lazy_events :: "srv_event list" where
  "lazy_events = start_events @ [SrvCall (CallInit (Client 0) 2), SrvIo]"

definition lazy_calls :: "srv_event list" where
  "lazy_calls = [SrvCall (CallInit (Client 1) 0), SrvCall (CallAccept 1), SrvCall (CallClose Server), SrvFinish Server,
     SrvCall (CallInit Server 0)]"

lemma failed_accept_stalls_server_witness:
  "\<exists>s s1. srv_run lazy_net server_start lazy_events = xret s \<and> uv_accept s 0 = Inr (UV_EBUSY, s1) \<and>
    (\<exists>s2. srv_run lazy_net s1 lazy_calls = xret s2 \<and> ls_accepts s2 = ls_accepts s1) \<and>
    (\<exists>s2. uv_listen lazy_net s1 0 = Inr (0, s2) \<and> us_pollin (ls_stream s2))"
proof -
  have k: "kernel_ok lazy_net" "backlog_ends lazy_net" "program_ok lazy_net"
    using echo_two(1,3) by (simp_all add: lazy_net_def kernel_ok_def backlog_ends_def program_ok_def)
  have "events_legal lazy_net server_start lazy_events" by code_simp
  then obtain s where s: "srv_run lazy_net server_start lazy_events = xret s" "lis_ok lazy_net s" "idle s"
    using srv_run_ok [OF k(1,3,2) server_start_ok] by blast
  have "case srv_run lazy_net server_start lazy_events of Some (Inr s) \<Rightarrow> ls_accepted s \<noteq> -1 \<and> us_fd (ls_clients s 0) \<noteq> -1 \<and>
     (case uv_accept s 0 of Inr (_, s1) \<Rightarrow> events_legal lazy_net s1 lazy_calls \<and> us_delayed_error (ls_stream s1) = 0 | _ \<Rightarrow> False)
     | _ \<Rightarrow> False" by code_simp
  then have f: "ls_accepted s \<noteq> -1" "us_fd (ls_clients s 0) \<noteq> -1"
    "case uv_accept s 0 of Inr (_, s1) \<Rightarrow> events_legal lazy_net s1 lazy_calls \<and> us_delayed_error (ls_stream s1) = 0 | _ \<Rightarrow> False"
    using s(1) by simp_all
  obtain s1 where s1: "uv_accept s 0 = Inr (UV_EBUSY, s1)"
    "\<forall>es. events_legal lazy_net s1 es \<and> (\<forall>e. SrvCall (CallListen e) \<notin> set es) \<longrightarrow>
       (\<exists>s2. srv_run lazy_net s1 es = xret s2 \<and> ls_accepts s2 = ls_accepts s1)"
    "us_delayed_error (ls_stream s1) = 0 \<longrightarrow> (\<exists>s2. uv_listen lazy_net s1 0 = Inr (0, s2) \<and> us_pollin (ls_stream s2))"
    using failed_accept_stalls_server [OF k(1) s(2,3) f(1,2)] by blast
  have "events_legal lazy_net s1 lazy_calls \<and> us_delayed_error (ls_stream s1) = 0"
    using f(3) unfolding s1(1) by (simp only: sum.case prod.case)
  moreover have "\<forall>e. SrvCall (CallListen e) \<notin> set lazy_calls" by (simp add: lazy_calls_def)
  ultimately show ?thesis using s1 s(1) by blast
qed

end
