(* ===== verification/Spec2Isabelle.thy ===== *)
theory Spec2Isabelle
  imports ProxyProps CryptProps EchoProps TunnelProps Rc4Props UvStreamProps UvLoopProps UvInetProps UvListenProps
begin

text \<open>
  A verification development for maybeatunnel, an encrypting TCP tunnel that its repository holds in
  an unfinished state: the entrance, the command line and the encryption module of the tunnel
  (\<open>src/main.c\<close>, \<open>src/cmd.c\<close>, \<open>src/crypt.c\<close>), the demo programs its parts were tried out in (\<open>demo/\<close>:
  a forwarding proxy, an echo server and client, two AES programs, an array search) and the vendored
  libraries they call (\<open>third/libuv\<close>, \<open>third/openssl\<close>).

  \<^bold>\<open>The parts and how they interact.\<close> \<open>main\<close> parses the command line into a global configuration,
  makes the cipher, opens the listening socket, forks the workers and waits for them; a worker runs
  the libuv event loop. The data path of a worker is that of \<open>demo/proxy_demo/proxy.c\<close>: two streams,
  each with a growable buffer (\<open>rts_buf.c\<close>), whose callbacks copy what one side sends to the other.
  The encryption module drives AES-256 in CBC mode through the EVP interface of OpenSSL, which splits
  into the context layer (\<open>evp_enc.c\<close>), the AES methods (\<open>e_aes.c\<close>), the CBC mode (\<open>cbc128.c\<close>) and the
  block cipher (\<open>aes_core.c\<close>).

  \<^bold>\<open>Theories.\<close>
  \<^item> \<open>Prelude\<close>: faults and their sequencing, the integers of C, the heap of byte blocks.
  \<^item> \<open>RtsBuf\<close> (\<open>rts_buf.c\<close>); \<open>Proxy\<close> (state, libuv calls, callbacks and the event loop of \<open>proxy.c\<close>),
    \<open>ProxyInv\<close>, \<open>ProxySteps\<close>, \<open>ProxyEvents\<close> (the invariant of healthy runs and its preservation by every
    callback and event), \<open>ProxyProps\<close> (what is forwarded, what is released, which runs fault).
  \<^item> \<open>EchoClient\<close>, \<open>EchoServer\<close>, \<open>EchoProps\<close> (\<open>client.c\<close>, \<open>server.c\<close>): the locale \<open>grow_buffer\<close> is the
    contract of a growable buffer, interpreted on the buffers of both programs; an abstract echo
    service that the server refines while the kernel takes every answer at once.
  \<^item> \<open>Workers\<close> (forking and waiting in \<open>server.c\<close>, \<open>proxy.c\<close> and \<open>main.c\<close>), \<open>Cmd\<close> (\<open>cmd.c\<close>, \<open>in_array.c\<close>
    and the \<open>getopt_long\<close> they use), \<open>Tunnel\<close> (\<open>main.c\<close>), \<open>TunnelProps\<close>.
  \<^item> \<open>AesTables\<close>, \<open>AesCore\<close>, \<open>AesAsm\<close> (\<open>aes_core.c\<close> in both of its branches, looped and unrolled),
    \<open>AesTableFacts\<close>, \<open>AesSpec\<close>, \<open>AesCorrect\<close>, \<open>AesKeys\<close>, \<open>AesProps\<close>: the cipher of the standard as an
    abstract specification, the contents of the tables, the key expansions and the refinement.
  \<^item> \<open>Cbc\<close> (\<open>cbc128.c\<close> in its word-wise, bytewise and in-place variants, over the locale
    \<open>block_cipher\<close>), \<open>Evp\<close> (\<open>evp_enc.c\<close>), \<open>EvpMode\<close> (the locales of a cipher mode, under which updates
    and finals are chunk-wise encryption and decryption with padding), \<open>AesEvp\<close> (\<open>e_aes.c\<close>,
    \<open>aes_misc.c\<close>, \<open>aes_cbc.c\<close>, the interpretations of the locales on AES), \<open>AesEvpProps\<close>.
  \<^item> \<open>Rc4\<close>, \<open>Rc4Lemmas\<close>, \<open>Rc4Props\<close> (\<open>rc4_skey.c\<close>, \<open>rc4_enc.c\<close>): RC4, bytewise and word-wise.
  \<^item> \<open>UvStream\<close> (\<open>stream.c\<close>, \<open>uv__tcp_connect\<close>, the watchers and closing in \<open>core.c\<close> of libuv): the state of
    a TCP stream, every call of a program on it, the report of the loop; \<open>UvStreamInv\<close> (the invariant of
    a stream and the write queue), \<open>UvStreamOps\<close> (the calls), \<open>UvStreamIo\<close> (reading, reports, closing,
    runs), \<open>UvStreamDrain\<close> (progress), \<open>UvStreamProps\<close>.
  \<^item> \<open>UvListen\<close> (binding, listening, accepting and closing in \<open>stream.c\<close>, \<open>tcp.c\<close> and \<open>core.c\<close>): a server and its clients, with
    the descriptors of the process and a history of the connections; \<open>UvListenInv\<close> (the owners of the descriptors, the
    invariant), \<open>UvListenOps\<close> (the calls), \<open>UvListenIo\<close> (the loop over connections, runs), \<open>UvListenProps\<close>.
  \<^item> \<open>UvHeap\<close> (\<open>heap-inl.h\<close> of libuv): a binary heap of nodes with pointers to children and parent. \<open>UvHeapRep\<close>
    (the list of nodes the pointers stand for, the swap), \<open>UvHeapPos\<close> (the path to a position), \<open>UvHeapLink\<close>
    (adding, unlinking and replacing a node), \<open>UvHeapOrder\<close> (the walks and the heap order), \<open>UvHeapQueue\<close> (the locale
    \<open>prio_heap\<close>, its interpretation on this heap, and a sorted list as specification).
  \<^item> \<open>UvTimer\<close> (\<open>timer.c\<close> and the handle macros) over that heap; \<open>UvTimerInv\<close> (the invariant and starting, stopping,
    repeating), \<open>UvTimerRun\<close> (all calls, callbacks, \<open>uv__run_timers\<close>). \<open>UvLoop\<close> (\<open>uv_run\<close> in \<open>core.c\<close>, \<open>uv__io_poll\<close> in
    \<open>linux-core.c\<close>): the clock, the kernel and the other handles are the record \<open>uv_env\<close>; \<open>UvLoopRun\<close> (one-shot timers in
    quiet surroundings), \<open>UvLoopSafe\<close> (no run faults), \<open>UvLoopProps\<close>.
  \<^item> \<open>UvInet\<close> (\<open>inet.c\<close> of libuv and \<open>uv_ip4_addr\<close> and its companions in \<open>uv-common.c\<close>): addresses as text;
    \<open>UvInetText\<close> (numbers, dotted addresses), \<open>UvInetParse6\<close> (groups, the gap, safety), \<open>UvInetPrint6\<close> (the longest run of
    zeros, what is printed and that it is read back), \<open>UvInetProps\<close>.
  \<^item> \<open>DemoAes\<close> (\<open>openssl_aes.c\<close>, \<open>openssl.c\<close>), \<open>Crypt\<close> (\<open>crypt.c\<close>), \<open>CryptProps\<close>.

  \<^bold>\<open>Correspondence.\<close> Definitions have the names of the functions they translate; where two programs
  use the same name one of them has a prefix (\<open>echo_buf_append\<close>, \<open>srv_alloc_buffer\<close>). Structs are
  records, pointers to structs are options or indices into the state, byte blocks live in the heap.
  Undefined behaviour is a value: NULL dereferences, accesses out of bounds or after \<open>free\<close>, overflow of
  \<open>int\<close> and \<open>abort\<close> are the constructors of \<open>fault\<close>. Any allocation may fail (\<open>hp_oom\<close>). Words of the
  ciphers are 8 and 32 bits wide; lengths are integers with the conversions of C written out.

  \<^bold>\<open>Bounds and fuel.\<close> No function has fuel: loops are structural, have a termination proof, or, where they may run
  for ever (the walks in the heap, \<open>uv__run_timers\<close>, \<open>uv__io_poll\<close>, \<open>uv_run\<close>, \<open>uv__server_io\<close>), are partial functions whose value
  is \<open>None\<close> then; that they return is a theorem. A loop has fewer than \<open>2 ^ 32\<close> timers, as \<open>nelts\<close> counts. Buffers
  are taken below 1 GiB, where the \<open>int\<close> arithmetic of their capacity cannot overflow, and reads at
  64 KiB, which is what libuv asks for. CBC works on any number of bytes below \<open>2 ^ 31\<close>.

  \<^bold>\<open>What the theorems show.\<close> AES: the code computes the standard's cipher, its inverse and its key
  schedules in every build variant. CBC and EVP: decryption inverts encryption for every length and
  chunking, decryption of arbitrary data never faults and fails exactly on bad lengths and padding.
  The demos decrypt and print what they encrypted. The tunnel's own encryption uses no context but the
  number 0 or 1 (a misplaced parenthesis). The proxy forwards every
  byte in order and gets nothing stuck in healthy runs (\<open>healthy_run\<close>: no allocation and no call fails, and no
  read makes a buffer grow while a write from it is in flight), and faults in four situations that are
  stated. The echo programs echo; two runs that fault are stated. The echo server has its children and
  no other processes, and it and the tunnel reap their workers; a command line sets what its options name,
  one macro of \<open>cmd.c\<close> after the other. RC4 is
  its own inverse and its two codes agree. A stream of libuv under any well-formed use and any kernel
  keeps its counters and flags, serves its writes in order, forgets none and finishes them; a shutdown
  during a connect stalls and \<open>uv_try_write\<close> hides errors. A server of libuv leaks and
  shares no descriptor, loses no connection and sheds them when descriptors run out; a failed \<open>uv_accept\<close> can stall it
  until the next \<open>uv_listen\<close>. The heap of the timers is a priority queue; the timers
  that are due are called once each in order; the loop runs every one-shot timer and ends if the callbacks only stop
  timers; it never faults and never sleeps past
  a timer, except after a full batch of events; a timer of 0 ms that starts itself starves it, and \<open>UV_RUN_ONCE\<close>
  may return without having called anything. The addresses the programs pass to \<open>uv_ip4_addr\<close> are accepted exactly if they
  are dotted decimal, every IPv6 address that is printed is read back, no text leads a parser out of its arrays (the ones
  the text is copied to included), and a zone can cut an IPv6 address.

  \<^bold>\<open>Not modelled.\<close> Files the repository lacks (\<open>rts_str.c\<close>, \<open>conf.h\<close>, \<open>define.h\<close>, \<open>log.h\<close>,
  \<open>worker.h\<close>) are arguments of the definitions (\<open>str_ops\<close>, \<open>cmd_env\<close> and the macro \<open>CHECK_RES\<close> in it, \<open>init_cryption\<close>,
  \<open>spawn_workers\<close>), and no property rests on an assumption of what they compute. The bodies of the \<open>rc4\<close> functions are missing in \<open>crypt.c\<close>. Log output, the
  registration of descriptors with the kernel and the handles of libuv other than TCP streams and timers, passing
  descriptors over pipes (the programs' use of libuv is their event models), the OpenSSL error queue, engines, hardware AES and
  the modes of \<open>e_aes.c\<close> other than CBC are left out.
\<close>

end
